(* ===== verification/Prelude.thy ===== *)
theory Prelude
  imports Main "HOL-Library.Sublist" "HOL-Library.Multiset"
begin

text \<open>
  Shared vocabulary of the development: instants and durations of the Go program as integers
  counted in nanoseconds, Go strings and byte slices as lists of 8-bit characters, results as
  sums, and the generic facts on lists and results that the component theories use.

  A Go \<open>string\<close> and a Go \<open>[]byte\<close> are both sequences of bytes, and Isabelle's \<open>char\<close>
  has exactly 256 values, so both are \<open>string\<close> here and \<open>length\<close> counts bytes as \<open>len\<close> does.
\<close>

section \<open>Types\<close>

type_synonym bytes = "string"
type_synonym time = "int"
type_synonym duration = "int"

abbreviation millisecond :: duration where "millisecond \<equiv> 1000000"
abbreviation second :: duration where "second \<equiv> 1000000000"
abbreviation minute :: duration where "minute \<equiv> 60000000000"

text \<open>Go's zero \<open>time.Time\<close> is the first instant of year 1.\<close>

definition zero_time :: time where
  "zero_time = -62135596800000000000"

definition is_zero :: "time \<Rightarrow> bool" where
  "is_zero t \<longleftrightarrow> t = zero_time"

text \<open>\<open>Time.Unix\<close>: whole seconds since the epoch, rounded towards the past.\<close>

definition unix_seconds :: "time \<Rightarrow> int" where
  "unix_seconds t = t div second"

definition max_int64 :: int where
  "max_int64 = 9223372036854775807"

section \<open>Fact collections\<close>

named_theorems result_simps \<open>unfolding of the result combinators\<close>
named_theorems text_simps \<open>facts on the text functions\<close>
named_theorems inv_intros \<open>preservation of the component invariants\<close>

section \<open>Results\<close>

text \<open>An error of type \<open>'e\<close> is \<open>Inl\<close>, a value is \<open>Inr\<close>; \<open>check\<close> is an early return.\<close>

definition check :: "bool \<Rightarrow> 'e \<Rightarrow> ('e + 'a) \<Rightarrow> ('e + 'a)" where
  "check ok e k = (if ok then k else Inl e)"

definition and_then :: "('e + 'a) \<Rightarrow> ('a \<Rightarrow> 'e + 'b) \<Rightarrow> ('e + 'b)" where
  "and_then r k = (case r of Inl e \<Rightarrow> Inl e | Inr a \<Rightarrow> k a)"

definition is_ok :: "('e + 'a) \<Rightarrow> bool" where
  "is_ok r = (case r of Inl _ \<Rightarrow> False | Inr _ \<Rightarrow> True)"

lemma check_Inr [simp]: "check b e k = Inr a \<longleftrightarrow> b \<and> k = Inr a"
  by (simp add: check_def)

lemma check_Inl: "check b e k = Inl e' \<longleftrightarrow> (\<not> b \<and> e' = e) \<or> (b \<and> k = Inl e')"
  by (auto simp: check_def)

lemma check_True [simp]: "check True e k = k"
  by (simp add: check_def)

lemma check_False [simp]: "check False e k = Inl e"
  by (simp add: check_def)

lemma and_then_simps [simp]:
  "and_then (Inl e) k = Inl e"
  "and_then (Inr a) k = k a"
  by (simp_all add: and_then_def)

lemma and_then_Inr: "and_then r k = Inr b \<longleftrightarrow> (\<exists>a. r = Inr a \<and> k a = Inr b)"
  by (auto simp: and_then_def split: sum.splits)

lemma and_then_Inl:
  "and_then r k = Inl e \<longleftrightarrow> r = Inl e \<or> (\<exists>a. r = Inr a \<and> k a = Inl e)"
  by (auto simp: and_then_def split: sum.splits)

lemma is_ok_simps [simp]: "is_ok (Inr a)" "\<not> is_ok (Inl e)"
  by (simp_all add: is_ok_def)

lemma is_ok_iff: "is_ok r \<longleftrightarrow> (\<exists>a. r = Inr a)"
  by (auto simp: is_ok_def split: sum.splits)

lemmas result_cases [result_simps] = and_then_Inr and_then_Inl check_Inl is_ok_iff

text \<open>A Go loop that returns at the first error: the checks of a list, in order.\<close>

fun first_error :: "('e + unit) list \<Rightarrow> 'e + unit" where
  "first_error [] = Inr ()"
| "first_error (r # rs) = (case r of Inl e \<Rightarrow> Inl e | Inr _ \<Rightarrow> first_error rs)"

lemma first_error_Inr [simp]: "first_error rs = Inr u \<longleftrightarrow> (\<forall>r\<in>set rs. r = Inr ())"
  by (induction rs) (auto split: sum.splits)

lemma first_error_Inl: "first_error rs = Inl e \<Longrightarrow> Inl e \<in> set rs"
  by (induction rs) (auto split: sum.splits)

section \<open>Lists\<close>

text \<open>\<open>for i, x := range xs\<close>: the elements with their indices.\<close>

fun indexed_from :: "nat \<Rightarrow> 'a list \<Rightarrow> (nat \<times> 'a) list" where
  "indexed_from i [] = []"
| "indexed_from i (x # xs) = (i, x) # indexed_from (Suc i) xs"

abbreviation indexed :: "'a list \<Rightarrow> (nat \<times> 'a) list" where
  "indexed \<equiv> indexed_from 0"

lemma map_snd_indexed_from [simp]: "map snd (indexed_from i xs) = xs"
  by (induction xs arbitrary: i) auto

lemma length_indexed_from [simp]: "length (indexed_from i xs) = length xs"
  by (induction xs arbitrary: i) auto

lemma nth_indexed_from: "i < length xs \<Longrightarrow> indexed_from k xs ! i = (k + i, xs ! i)"
  by (induction xs arbitrary: i k) (auto simp: nth_Cons split: nat.splits)

lemma set_indexed_from:
  "(j, x) \<in> set (indexed_from k xs) \<longleftrightarrow> (\<exists>i<length xs. j = k + i \<and> x = xs ! i)"
  by (auto simp: in_set_conv_nth nth_indexed_from)

lemma ball_indexed_snd: "(\<forall>(j, x)\<in>set (indexed_from i xs). P x) \<longleftrightarrow> (\<forall>x\<in>set xs. P x)"
  by (induction xs arbitrary: i) auto

text \<open>
  The \<open>seen\<close> loops of the code: walk a list, reject the first key already in the set.
  The result is the index of the first repeated key.
\<close>

fun first_repeat :: "'a list \<Rightarrow> nat \<Rightarrow> 'a list \<Rightarrow> nat option" where
  "first_repeat seen i [] = None"
| "first_repeat seen i (x # xs) =
     (if x \<in> set seen then Some i else first_repeat (x # seen) (Suc i) xs)"

lemma first_repeat_None:
  "first_repeat seen i xs = None \<longleftrightarrow> distinct xs \<and> set xs \<inter> set seen = {}"
  by (induction xs arbitrary: seen i) auto

end
