(* ===== verification/Json.thy ===== *)
theory Json
  imports Prelude
begin

text \<open>
  JSON as the program sees it through \<open>encoding/json\<close>, and the shape check of
  \<open>internal/chatcompletions/request.go\<close>.

  A document is a list of lexemes (punctuation, strings, literals; a text that is no lexeme is
  \<open>LBad\<close>). \<open>next_token\<close> is the state machine of \<open>json.Decoder.Token\<close> over them, \<open>more\<close>
  is \<open>json.Decoder.More\<close>. \<open>walkJSON\<close> and \<open>validateJSONShape\<close> are the code's own walk over
  that token stream. The theorems relate the walk to the tree the document denotes: it accepts
  exactly the documents that are one JSON value, whose objects repeat no name and whose values
  are nested at most 64 deep.
\<close>

section \<open>Documents\<close>

datatype lit = LNull | LBool bool | LNum string

datatype json = JLit lit | JStr string | JArr "json list" | JObj "(string \<times> json) list"

abbreviation JNull :: json where "JNull \<equiv> JLit LNull"

datatype lexeme =
    LObjOpen | LObjClose | LArrOpen | LArrClose | LColon | LComma
  | LString string | LLit lit | LBad

fun lex_of :: "json \<Rightarrow> lexeme list"
  and lex_elems :: "json list \<Rightarrow> lexeme list"
  and lex_fields :: "(string \<times> json) list \<Rightarrow> lexeme list" where
  "lex_of (JLit l) = [LLit l]"
| "lex_of (JStr s) = [LString s]"
| "lex_of (JArr vs) = LArrOpen # (case vs of [] \<Rightarrow> [] | v # vs' \<Rightarrow> lex_of v @ lex_elems vs') @ [LArrClose]"
| "lex_of (JObj fs) =
     LObjOpen # (case fs of [] \<Rightarrow> [] | (k, v) # fs' \<Rightarrow> LString k # LColon # lex_of v @ lex_fields fs') @ [LObjClose]"
| "lex_elems [] = []"
| "lex_elems (v # vs) = LComma # lex_of v @ lex_elems vs"
| "lex_fields [] = []"
| "lex_fields ((k, v) # fs) = LComma # LString k # LColon # lex_of v @ lex_fields fs"

section \<open>The decoder's token stream\<close>

datatype tstate =
    TopValue | ArrayStart | ArrayValue | ArrayComma
  | ObjectStart | ObjectKey | ObjectColon | ObjectValue | ObjectComma

datatype token = DelimObjOpen | DelimObjClose | DelimArrOpen | DelimArrClose | TString string | TLit lit

datatype decoder = Dec (dec_input: "lexeme list") (dec_state: tstate) (dec_stack: "tstate list")

datatype tok_result = TokEOF | TokError | Tok token decoder

fun value_allowed :: "tstate \<Rightarrow> bool" where
  "value_allowed st \<longleftrightarrow> st \<in> {TopValue, ArrayStart, ArrayValue, ObjectValue}"

fun value_end :: "tstate \<Rightarrow> tstate" where
  "value_end ArrayStart = ArrayComma"
| "value_end ArrayValue = ArrayComma"
| "value_end ObjectValue = ObjectComma"
| "value_end st = st"

fun close_token :: "token \<Rightarrow> lexeme list \<Rightarrow> tstate list \<Rightarrow> tok_result" where
  "close_token t ls (st # stk) = Tok t (Dec ls (value_end st) stk)"
| "close_token t ls [] = TokError"

fun next_token :: "lexeme list \<Rightarrow> tstate \<Rightarrow> tstate list \<Rightarrow> tok_result" where
  "next_token [] st stk = TokEOF"
| "next_token (LArrOpen # ls) st stk =
     (if value_allowed st then Tok DelimArrOpen (Dec ls ArrayStart (st # stk)) else TokError)"
| "next_token (LArrClose # ls) st stk =
     (if st = ArrayStart \<or> st = ArrayComma then close_token DelimArrClose ls stk else TokError)"
| "next_token (LObjOpen # ls) st stk =
     (if value_allowed st then Tok DelimObjOpen (Dec ls ObjectStart (st # stk)) else TokError)"
| "next_token (LObjClose # ls) st stk =
     (if st = ObjectStart \<or> st = ObjectComma then close_token DelimObjClose ls stk else TokError)"
| "next_token (LColon # ls) st stk =
     (if st = ObjectColon then next_token ls ObjectValue stk else TokError)"
| "next_token (LComma # ls) st stk =
     (if st = ArrayComma then next_token ls ArrayValue stk
      else if st = ObjectComma then next_token ls ObjectKey stk
      else TokError)"
| "next_token (LString s # ls) st stk =
     (if st = ObjectStart \<or> st = ObjectKey then Tok (TString s) (Dec ls ObjectColon stk)
      else if value_allowed st then Tok (TString s) (Dec ls (value_end st) stk)
      else TokError)"
| "next_token (LLit l # ls) st stk =
     (if value_allowed st then Tok (TLit l) (Dec ls (value_end st) stk) else TokError)"
| "next_token (LBad # ls) st stk = TokError"

definition dec_token :: "decoder \<Rightarrow> tok_result" where
  "dec_token d = next_token (dec_input d) (dec_state d) (dec_stack d)"

definition more :: "decoder \<Rightarrow> bool" where
  "more d = (case dec_input d of [] \<Rightarrow> False | LArrClose # _ \<Rightarrow> False | LObjClose # _ \<Rightarrow> False | _ \<Rightarrow> True)"

lemma dec_token_Dec [simp]: "dec_token (Dec ls st stk) = next_token ls st stk"
  by (simp add: dec_token_def)

lemma next_token_shorter:
  "next_token ls st stk = Tok t d \<Longrightarrow> length (dec_input d) < length ls"
proof (induction ls st stk rule: next_token.induct)
  case (3 ls st stk)
  then show ?case by (cases stk) (auto split: if_splits)
next
  case (5 ls st stk)
  then show ?case by (cases stk) (auto split: if_splits)
qed (auto split: if_splits)

section \<open>The walk\<close>

datatype chat_error = ChatError (err_code: string) (err_param: string)

definition max_json_depth :: nat where
  "max_json_depth = 64"

abbreviation invalid_json :: chat_error where
  "invalid_json \<equiv> ChatError ''invalid_json'' []"

text \<open>
  \<open>walk_members\<close> and \<open>walk_elems\<close> are the two \<open>for decoder.More()\<close> loops of \<open>walkJSON\<close>
  together with the check of the closing delimiter that follows them. Every call spends one unit
  of fuel; \<open>None\<close> is running out, which \<open>walk_enough_fuel\<close> excludes.
\<close>

fun walkJSON :: "nat \<Rightarrow> nat \<Rightarrow> decoder \<Rightarrow> (chat_error + decoder) option"
  and walk_members :: "nat \<Rightarrow> nat \<Rightarrow> string list \<Rightarrow> decoder \<Rightarrow> (chat_error + decoder) option"
  and walk_elems :: "nat \<Rightarrow> nat \<Rightarrow> decoder \<Rightarrow> (chat_error + decoder) option" where
  "walkJSON 0 depth d = None"
| "walkJSON (Suc n) depth d =
     (if depth > max_json_depth then Some (Inl (ChatError ''json_depth_exceeded'' []))
      else case dec_token d of
        TokEOF \<Rightarrow> Some (Inl invalid_json)
      | TokError \<Rightarrow> Some (Inl invalid_json)
      | Tok t d' \<Rightarrow>
          (case t of
             DelimObjOpen \<Rightarrow> walk_members n depth [] d'
           | DelimArrOpen \<Rightarrow> walk_elems n depth d'
           | DelimObjClose \<Rightarrow> Some (Inl invalid_json)
           | DelimArrClose \<Rightarrow> Some (Inl invalid_json)
           | TString _ \<Rightarrow> Some (Inr d')
           | TLit _ \<Rightarrow> Some (Inr d')))"
| "walk_members 0 depth seen d = None"
| "walk_members (Suc n) depth seen d =
     (if more d then
        (case dec_token d of
           Tok (TString name) d' \<Rightarrow>
             if name \<in> set seen then Some (Inl (ChatError ''duplicate_field'' name))
             else (case walkJSON n (Suc depth) d' of
                     None \<Rightarrow> None
                   | Some (Inl e) \<Rightarrow> Some (Inl e)
                   | Some (Inr d'') \<Rightarrow> walk_members n depth (name # seen) d'')
         | _ \<Rightarrow> Some (Inl invalid_json))
      else
        (case dec_token d of
           Tok DelimObjClose d' \<Rightarrow> Some (Inr d')
         | _ \<Rightarrow> Some (Inl invalid_json)))"
| "walk_elems 0 depth d = None"
| "walk_elems (Suc n) depth d =
     (if more d then
        (case walkJSON n (Suc depth) d of
           None \<Rightarrow> None
         | Some (Inl e) \<Rightarrow> Some (Inl e)
         | Some (Inr d') \<Rightarrow> walk_elems n depth d')
      else
        (case dec_token d of
           Tok DelimArrClose d' \<Rightarrow> Some (Inr d')
         | _ \<Rightarrow> Some (Inl invalid_json)))"

definition validateJSONShape :: "lexeme list \<Rightarrow> chat_error + unit" where
  "validateJSONShape ls =
     (case walkJSON (Suc (2 * length ls)) 0 (Dec ls TopValue []) of
        None \<Rightarrow> Inl invalid_json
      | Some (Inl e) \<Rightarrow> Inl e
      | Some (Inr d) \<Rightarrow> (case dec_token d of TokEOF \<Rightarrow> Inr () | _ \<Rightarrow> Inl invalid_json))"

text \<open>The reference: one value, names not repeated in an object, nesting bounded.\<close>

fun json_ok :: "nat \<Rightarrow> json \<Rightarrow> bool" where
  "json_ok depth (JLit l) \<longleftrightarrow> depth \<le> max_json_depth"
| "json_ok depth (JStr s) \<longleftrightarrow> depth \<le> max_json_depth"
| "json_ok depth (JArr vs) \<longleftrightarrow> depth \<le> max_json_depth \<and> (\<forall>v\<in>set vs. json_ok (Suc depth) v)"
| "json_ok depth (JObj fs) \<longleftrightarrow>
     depth \<le> max_json_depth \<and> distinct (map fst fs) \<and> (\<forall>f\<in>set fs. json_ok (Suc depth) (snd f))"

section \<open>Fuel\<close>

lemma walk_shorter:
  "walkJSON n depth d = Some (Inr d') \<Longrightarrow> length (dec_input d') < length (dec_input d)"
  "walk_members n depth seen d = Some (Inr d') \<Longrightarrow> length (dec_input d') < length (dec_input d)"
  "walk_elems n depth d = Some (Inr d') \<Longrightarrow> length (dec_input d') < length (dec_input d)"
proof (induction n depth d and n depth seen d and n depth d arbitrary: d' and d' and d'
    rule: walkJSON_walk_members_walk_elems.induct)
  case (2 n depth d)
  then show ?case
    by (auto simp: dec_token_def split: if_splits tok_result.splits token.splits
        dest!: next_token_shorter) fastforce+
next
  case (4 n depth seen d)
  then show ?case
    by (auto simp: dec_token_def split: if_splits tok_result.splits token.splits option.splits
        sum.splits dest!: next_token_shorter) fastforce+
next
  case (6 n depth d)
  then show ?case
    by (auto simp: dec_token_def split: if_splits tok_result.splits token.splits option.splits
        sum.splits dest!: next_token_shorter) fastforce+
qed simp_all

lemma walk_enough_fuel:
  "2 * length (dec_input d) < n \<Longrightarrow> walkJSON n depth d \<noteq> None"
  "2 * length (dec_input d) + 1 < n \<Longrightarrow> walk_members n depth seen d \<noteq> None"
  "2 * length (dec_input d) + 1 < n \<Longrightarrow> walk_elems n depth d \<noteq> None"
proof (induction n depth d and n depth seen d and n depth d
    rule: walkJSON_walk_members_walk_elems.induct)
  case (2 n depth d)
  then show ?case
    by (fastforce simp: dec_token_def split: if_splits tok_result.splits token.splits
        dest: next_token_shorter)
next
  case (4 n depth seen d)
  show ?case
  proof (cases "more d \<and> (\<exists>name d1. dec_token d = Tok (TString name) d1 \<and> name \<notin> set seen)")
    case False
    then show ?thesis by (auto split: tok_result.splits token.splits)
  next
    case True
    then obtain name d1 where d1: "more d" "dec_token d = Tok (TString name) d1" "name \<notin> set seen"
      by blast
    then have shorter: "length (dec_input d1) < length (dec_input d)"
      by (simp add: dec_token_def next_token_shorter)
    with "4.prems" have "walkJSON n (Suc depth) d1 \<noteq> None"
      using "4.IH"(1) [OF d1(1,2) refl d1(3)] by simp
    then obtain r where r: "walkJSON n (Suc depth) d1 = Some r" by blast
    show ?thesis
    proof (cases r)
      case (Inl e)
      with d1 r show ?thesis by simp
    next
      case (Inr d2)
      with r have "length (dec_input d2) < length (dec_input d1)" by (simp add: walk_shorter(1))
      with "4.prems" shorter have "walk_members n depth (name # seen) d2 \<noteq> None"
        using "4.IH"(2) [OF d1(1,2) refl d1(3) r Inr] by simp
      with d1 r Inr show ?thesis by simp
    qed
  qed
next
  case (6 n depth d)
  show ?case
  proof (cases "more d")
    case False
    then show ?thesis by (auto split: tok_result.splits token.splits)
  next
    case True
    with "6.prems" have "walkJSON n (Suc depth) d \<noteq> None" using "6.IH"(1) by simp
    then obtain r where r: "walkJSON n (Suc depth) d = Some r" by blast
    show ?thesis
    proof (cases r)
      case (Inl e)
      with True r show ?thesis by simp
    next
      case (Inr d2)
      with r have "length (dec_input d2) < length (dec_input d)" by (simp add: walk_shorter(1))
      with "6.prems" have "walk_elems n depth d2 \<noteq> None"
        using "6.IH"(2) [OF True r Inr] by simp
      with True r Inr show ?thesis by simp
    qed
  qed
qed simp_all

section \<open>Positions in a document\<close>

text \<open>
  The decoder consumes the separator before a value or a name with the token that follows it:
  \<open>sep\<close> is the separator a state still expects, \<open>strip\<close> the state once it has been read,
  \<open>after\<close> the state once the value has been read.
\<close>

definition at_value :: "tstate \<Rightarrow> bool" where
  "at_value st \<longleftrightarrow> st \<in> {TopValue, ArrayStart, ArrayValue, ArrayComma, ObjectColon, ObjectValue}"

fun sep :: "tstate \<Rightarrow> lexeme list" where
  "sep ArrayComma = [LComma]"
| "sep ObjectColon = [LColon]"
| "sep ObjectComma = [LComma]"
| "sep st = []"

fun strip :: "tstate \<Rightarrow> tstate" where
  "strip ArrayComma = ArrayValue"
| "strip ObjectColon = ObjectValue"
| "strip st = st"

definition after :: "tstate \<Rightarrow> tstate" where
  "after st = value_end (strip st)"

definition elems_lex :: "tstate \<Rightarrow> json list \<Rightarrow> lexeme list" where
  "elems_lex st vs =
     (case vs of [] \<Rightarrow> [] | v # vs' \<Rightarrow> sep st @ lex_of v @ lex_elems vs')"

definition fields_lex :: "tstate \<Rightarrow> (string \<times> json) list \<Rightarrow> lexeme list" where
  "fields_lex st fs =
     (case fs of [] \<Rightarrow> [] | (k, v) # fs' \<Rightarrow> sep st @ LString k # LColon # lex_of v @ lex_fields fs')"

lemma lex_fields_eq: "fields_lex ObjectComma fs = lex_fields fs"
  by (cases fs) (auto simp: fields_lex_def)

lemma lex_elems_eq: "elems_lex ArrayComma vs = lex_elems vs"
  by (cases vs) (auto simp: elems_lex_def)

lemma lex_of_JArr: "lex_of (JArr vs) = LArrOpen # elems_lex ArrayStart vs @ [LArrClose]"
  by (cases vs) (auto simp: elems_lex_def)

lemma lex_of_JObj: "lex_of (JObj fs) = LObjOpen # fields_lex ObjectStart fs @ [LObjClose]"
  by (cases fs) (auto simp: fields_lex_def split: prod.splits)

lemma elems_lex_simps:
  "elems_lex st [] = []"
  "elems_lex st (v # vs) = sep st @ lex_of v @ elems_lex ArrayComma vs"
  by (simp add: elems_lex_def) (simp add: elems_lex_def lex_elems_eq [unfolded elems_lex_def])

lemma fields_lex_simps:
  "fields_lex st [] = []"
  "fields_lex st ((k, v) # fs) = sep st @ LString k # LColon # lex_of v @ fields_lex ObjectComma fs"
  by (simp add: fields_lex_def) (simp add: fields_lex_def lex_fields_eq [unfolded fields_lex_def])

declare lex_of.simps(3,4) [simp del]
lemmas lex_simps [simp] = lex_of_JArr lex_of_JObj elems_lex_simps fields_lex_simps

lemma close_token_Tok:
  "close_token t ls stk = Tok t' d \<Longrightarrow> t' = t \<and> dec_input d = ls"
  by (cases stk) auto

text \<open>What a token at a value position can be.\<close>

lemma token_at_value:
  assumes "at_value st" and "next_token ls st stk = Tok t d"
  shows "\<exists>r. (t = DelimObjOpen \<and> ls = sep st @ LObjOpen # r \<and> d = Dec r ObjectStart (strip st # stk))
     \<or> (t = DelimArrOpen \<and> ls = sep st @ LArrOpen # r \<and> d = Dec r ArrayStart (strip st # stk))
     \<or> (t = DelimArrClose)
     \<or> (\<exists>s. t = TString s \<and> ls = sep st @ LString s # r \<and> d = Dec r (after st) stk)
     \<or> (\<exists>l. t = TLit l \<and> ls = sep st @ LLit l # r \<and> d = Dec r (after st) stk)"
proof -
  have base: "\<exists>r. (t = DelimObjOpen \<and> ls = LObjOpen # r \<and> d = Dec r ObjectStart (st # stk))
     \<or> (t = DelimArrOpen \<and> ls = LArrOpen # r \<and> d = Dec r ArrayStart (st # stk))
     \<or> (t = DelimArrClose)
     \<or> (\<exists>s. t = TString s \<and> ls = LString s # r \<and> d = Dec r (value_end st) stk)
     \<or> (\<exists>l. t = TLit l \<and> ls = LLit l # r \<and> d = Dec r (value_end st) stk)"
    if "value_allowed st" "next_token ls st stk = Tok t d" for ls st
    using that
    by (cases "(ls, st, stk)" rule: next_token.cases; cases stk) (auto split: if_splits)
  show ?thesis
  proof (cases "value_allowed st")
    case True
    with base [OF this assms(2)] show ?thesis by (auto simp: after_def)
  next
    case False
    with assms(1) consider "st = ArrayComma" | "st = ObjectColon"
      by (auto simp: at_value_def)
    then show ?thesis
    proof cases
      case 1
      with assms(2) show ?thesis
        by (cases "(ls, st, stk)" rule: next_token.cases)
          (auto simp: after_def split: if_splits dest!: base [of ArrayValue, simplified] dest: close_token_Tok)
    next
      case 2
      with assms(2) show ?thesis
        by (cases "(ls, st, stk)" rule: next_token.cases)
          (auto simp: after_def split: if_splits dest!: base [of ObjectValue, simplified] dest: close_token_Tok)
    qed
  qed
qed

lemma token_close_arr:
  "next_token ls st (st0 # stk) = Tok DelimArrClose d \<Longrightarrow> st = ArrayStart \<or> st = ArrayComma \<Longrightarrow>
   \<not> more (Dec ls st (st0 # stk)) \<Longrightarrow>
   ls = LArrClose # dec_input d \<and> dec_state d = value_end st0 \<and> dec_stack d = stk"
  by (cases ls) (auto simp: more_def split: lexeme.splits)

lemma token_close_obj:
  "next_token ls st (st0 # stk) = Tok DelimObjClose d \<Longrightarrow> st = ObjectStart \<or> st = ObjectComma \<Longrightarrow>
   \<not> more (Dec ls st (st0 # stk)) \<Longrightarrow>
   ls = LObjClose # dec_input d \<and> dec_state d = value_end st0 \<and> dec_stack d = stk"
  by (cases ls) (auto simp: more_def split: lexeme.splits)

lemma token_key:
  "next_token ls st stk = Tok (TString k) d \<Longrightarrow> st = ObjectStart \<or> st = ObjectComma \<Longrightarrow>
   ls = sep st @ LString k # dec_input d \<and> dec_state d = ObjectColon \<and> dec_stack d = stk"
proof -
  have key: "ls = LString k # dec_input d \<and> dec_state d = ObjectColon \<and> dec_stack d = stk"
    if "next_token ls st stk = Tok (TString k) d" "st = ObjectStart \<or> st = ObjectKey" for ls st
    using that by (cases "(ls, st, stk)" rule: next_token.cases) (auto dest: close_token_Tok)
  assume "next_token ls st stk = Tok (TString k) d" "st = ObjectStart \<or> st = ObjectComma"
  then show ?thesis
    by (cases "(ls, st, stk)" rule: next_token.cases)
      (auto split: if_splits dest: close_token_Tok dest!: key [where st = ObjectKey, simplified])
qed

section \<open>The walk accepts only values\<close>

lemma walk_sound:
  "walkJSON n depth d = Some (Inr d') \<Longrightarrow> at_value (dec_state d) \<Longrightarrow>
     \<exists>v. dec_input d = sep (dec_state d) @ lex_of v @ dec_input d' \<and> json_ok depth v \<and>
         dec_state d' = after (dec_state d) \<and> dec_stack d' = dec_stack d"
  "walk_members n depth seen d = Some (Inr d') \<Longrightarrow> dec_state d \<in> {ObjectStart, ObjectComma} \<Longrightarrow>
     dec_stack d = st0 # stk \<Longrightarrow>
     \<exists>fs. dec_input d = fields_lex (dec_state d) fs @ LObjClose # dec_input d' \<and>
         distinct (map fst fs) \<and> set (map fst fs) \<inter> set seen = {} \<and>
         (\<forall>f\<in>set fs. json_ok (Suc depth) (snd f)) \<and>
         dec_state d' = value_end st0 \<and> dec_stack d' = stk"
  "walk_elems n depth d = Some (Inr d') \<Longrightarrow> dec_state d \<in> {ArrayStart, ArrayComma} \<Longrightarrow>
     dec_stack d = st0 # stk \<Longrightarrow>
     \<exists>vs. dec_input d = elems_lex (dec_state d) vs @ LArrClose # dec_input d' \<and>
         (\<forall>v\<in>set vs. json_ok (Suc depth) v) \<and>
         dec_state d' = value_end st0 \<and> dec_stack d' = stk"
proof (induction n depth d and n depth seen d and n depth d
    arbitrary: d' and d' st0 stk and d' st0 stk rule: walkJSON_walk_members_walk_elems.induct)
  case (2 n depth d)
  obtain ls st stk where d: "d = Dec ls st stk" by (cases d)
  with "2.prems" obtain t d1 where t: "next_token ls st stk = Tok t d1"
    and deep: "depth \<le> max_json_depth"
    by (auto simp: dec_token_def split: if_splits tok_result.splits)
  have at: "at_value st" using "2.prems"(2) d by simp
  from token_at_value [OF at t] show ?case
  proof (elim exE disjE conjE)
    fix r assume obj: "t = DelimObjOpen" "ls = sep st @ LObjOpen # r" "d1 = Dec r ObjectStart (strip st # stk)"
    with "2.prems"(1) t d deep have "walk_members n depth [] d1 = Some (Inr d')" by simp
    from "2.IH"(1) [OF _ _ _ this, of t "strip st" stk] obj deep d t
    obtain fs where fs: "r = fields_lex ObjectStart fs @ LObjClose # dec_input d'"
      "distinct (map fst fs)" "\<forall>f\<in>set fs. json_ok (Suc depth) (snd f)"
      "dec_state d' = value_end (strip st)" "dec_stack d' = stk"
      by auto
    then have "ls = sep st @ lex_of (JObj fs) @ dec_input d' \<and> json_ok depth (JObj fs)"
      using obj deep by simp
    with fs d show ?thesis by (intro exI [of _ "JObj fs"]) (simp add: after_def)
  next
    fix r assume arr: "t = DelimArrOpen" "ls = sep st @ LArrOpen # r" "d1 = Dec r ArrayStart (strip st # stk)"
    with "2.prems"(1) t d deep have "walk_elems n depth d1 = Some (Inr d')" by simp
    from "2.IH"(2) [OF _ _ _ this, of t "strip st" stk] arr deep d t
    obtain vs where vs: "r = elems_lex ArrayStart vs @ LArrClose # dec_input d'"
      "\<forall>v\<in>set vs. json_ok (Suc depth) v"
      "dec_state d' = value_end (strip st)" "dec_stack d' = stk"
      by auto
    then have "ls = sep st @ lex_of (JArr vs) @ dec_input d' \<and> json_ok depth (JArr vs)"
      using arr deep by simp
    with vs d show ?thesis by (intro exI [of _ "JArr vs"]) (simp add: after_def)
  next
    assume "t = DelimArrClose"
    with "2.prems" t d deep show ?thesis by simp
  next
    fix r s assume "t = TString s" "ls = sep st @ LString s # r" "d1 = Dec r (after st) stk"
    with "2.prems" t d deep show ?thesis by (auto intro!: exI [of _ "JStr s"])
  next
    fix r l assume "t = TLit l" "ls = sep st @ LLit l # r" "d1 = Dec r (after st) stk"
    with "2.prems" t d deep show ?thesis by (auto intro!: exI [of _ "JLit l"])
  qed
next
  case (4 n depth seen d)
  obtain ls st where d: "d = Dec ls st (st0 # stk)" using "4.prems"(3) by (cases d) auto
  show ?case
  proof (cases "more d")
    case False
    with "4.prems"(1) d obtain d1 where "next_token ls st (st0 # stk) = Tok DelimObjClose d1" "d' = d1"
      by (auto simp: dec_token_def split: tok_result.splits token.splits)
    with token_close_obj [of ls st st0 stk d1] False d "4.prems"(2)
    show ?thesis by (auto intro!: exI [of _ "[]"])
  next
    case True
    with "4.prems"(1) d obtain k d1 d2 where k: "next_token ls st (st0 # stk) = Tok (TString k) d1"
      and new: "k \<notin> set seen" and v: "walkJSON n (Suc depth) d1 = Some (Inr d2)"
      and rest: "walk_members n depth (k # seen) d2 = Some (Inr d')"
      by (auto simp: dec_token_def split: if_splits tok_result.splits token.splits option.splits sum.splits)
    have tok: "dec_token d = Tok (TString k) d1" using k d by simp
    from token_key [OF k] "4.prems"(2) d
    have d1: "ls = sep st @ LString k # dec_input d1" "dec_state d1 = ObjectColon" "dec_stack d1 = st0 # stk"
      by auto
    from "4.IH"(1) [OF True tok refl new v] d1(2)
    obtain w where w: "dec_input d1 = LColon # lex_of w @ dec_input d2" "json_ok (Suc depth) w"
      "dec_state d2 = ObjectComma" "dec_stack d2 = st0 # stk"
      using d1(3) by (auto simp: at_value_def after_def)
    from "4.IH"(2) [OF True tok refl new v refl rest] w
    obtain fs where fs: "dec_input d2 = fields_lex ObjectComma fs @ LObjClose # dec_input d'"
      "distinct (map fst fs)" "set (map fst fs) \<inter> set (k # seen) = {}"
      "\<forall>f\<in>set fs. json_ok (Suc depth) (snd f)" "dec_state d' = value_end st0" "dec_stack d' = stk"
      by auto
    show ?thesis
      using d d1 w fs new by (intro exI [of _ "(k, w) # fs"]) auto
  qed
next
  case (6 n depth d)
  obtain ls st where d: "d = Dec ls st (st0 # stk)" using "6.prems"(3) by (cases d) auto
  show ?case
  proof (cases "more d")
    case False
    with "6.prems"(1) d obtain d1 where "next_token ls st (st0 # stk) = Tok DelimArrClose d1" "d' = d1"
      by (auto simp: dec_token_def split: tok_result.splits token.splits)
    with token_close_arr [of ls st st0 stk d1] False d "6.prems"(2)
    show ?thesis by (auto intro!: exI [of _ "[]"])
  next
    case True
    with "6.prems"(1) obtain d1 where v: "walkJSON n (Suc depth) d = Some (Inr d1)"
      and rest: "walk_elems n depth d1 = Some (Inr d')"
      by (auto split: option.splits sum.splits)
    from "6.IH"(1) [OF True v] "6.prems"(2)
    obtain w where w: "dec_input d = sep (dec_state d) @ lex_of w @ dec_input d1" "json_ok (Suc depth) w"
      "dec_state d1 = ArrayComma" "dec_stack d1 = st0 # stk"
      using "6.prems"(3) by (auto simp: at_value_def after_def)
    from "6.IH"(2) [OF True v refl rest] w
    obtain vs where vs: "dec_input d1 = elems_lex ArrayComma vs @ LArrClose # dec_input d'"
      "\<forall>v\<in>set vs. json_ok (Suc depth) v" "dec_state d' = value_end st0" "dec_stack d' = stk"
      by auto
    show ?thesis using w vs by (intro exI [of _ "w # vs"]) auto
  qed
qed simp_all

section \<open>The walk accepts every well-formed value\<close>

lemma next_token_sep:
  "at_value st \<Longrightarrow> next_token (sep st @ ls) st stk = next_token ls (strip st) stk"
  by (cases st) (auto simp: at_value_def)

lemma strip_allowed: "at_value st \<Longrightarrow> value_allowed (strip st)"
  by (cases st) (auto simp: at_value_def)

lemma more_lex: "more (Dec (sep st @ lex_of v @ rest) st' stk)"
  by (cases v; cases st) (auto simp: more_def)

lemma lex_of_nonempty: "0 < length (lex_of v)"
  by (cases v) auto

lemma walk_elems_complete:
  assumes v: "\<And>v st stk n rest. v \<in> set vs \<Longrightarrow> at_value st \<Longrightarrow>
      2 * length (sep st @ lex_of v @ rest) < n \<Longrightarrow>
      walkJSON n (Suc depth) (Dec (sep st @ lex_of v @ rest) st stk) = Some (Inr (Dec rest (after st) stk))"
    and "st \<in> {ArrayStart, ArrayComma}"
    and "2 * length (elems_lex st vs @ LArrClose # rest) + 1 < n"
  shows "walk_elems n depth (Dec (elems_lex st vs @ LArrClose # rest) st (st0 # stk)) =
    Some (Inr (Dec rest (value_end st0) stk))"
  using assms
proof (induction vs arbitrary: st n)
  case Nil
  then show ?case by (cases n) (auto simp: more_def)
next
  case (Cons w vs)
  let ?r = "elems_lex ArrayComma vs @ LArrClose # rest"
  obtain m where n: "n = Suc m" using Cons.prems(3) by (cases n) auto
  have "walkJSON m (Suc depth) (Dec (sep st @ lex_of w @ ?r) st (st0 # stk)) = Some (Inr (Dec ?r ArrayComma (st0 # stk)))"
    using Cons.prems n by (subst Cons.prems(1)) (auto simp: at_value_def after_def)
  moreover have "walk_elems m depth (Dec ?r ArrayComma (st0 # stk)) = Some (Inr (Dec rest (value_end st0) stk))"
  proof (rule Cons.IH)
    show "2 * length ?r + 1 < m" using Cons.prems(3) n lex_of_nonempty [of w] by (cases "lex_of w") auto
  qed (use Cons.prems(1) in auto)
  ultimately show ?case using n by (simp add: more_lex)
qed

lemma walk_members_complete:
  assumes v: "\<And>k v st stk n rest. (k, v) \<in> set fs \<Longrightarrow> at_value st \<Longrightarrow>
      2 * length (sep st @ lex_of v @ rest) < n \<Longrightarrow>
      walkJSON n (Suc depth) (Dec (sep st @ lex_of v @ rest) st stk) = Some (Inr (Dec rest (after st) stk))"
    and "distinct (map fst fs)" and "set (map fst fs) \<inter> set seen = {}"
    and "st \<in> {ObjectStart, ObjectComma}"
    and "2 * length (fields_lex st fs @ LObjClose # rest) + 1 < n"
  shows "walk_members n depth seen (Dec (fields_lex st fs @ LObjClose # rest) st (st0 # stk)) =
    Some (Inr (Dec rest (value_end st0) stk))"
  using assms
proof (induction fs arbitrary: st n seen)
  case Nil
  then show ?case by (cases n) (auto simp: more_def)
next
  case (Cons f fs)
  obtain k w where f: "f = (k, w)" by (cases f)
  let ?r = "fields_lex ObjectComma fs @ LObjClose # rest"
  let ?d = "Dec (sep st @ LString k # LColon # lex_of w @ ?r) st (st0 # stk)"
  let ?d1 = "Dec (LColon # lex_of w @ ?r) ObjectColon (st0 # stk)"
  obtain m where n: "n = Suc m" using Cons.prems(5) by (cases n) auto
  have more: "more ?d" using Cons.prems(4) by (auto simp: more_def)
  have key: "dec_token ?d = Tok (TString k) ?d1"
    using Cons.prems(4) by auto
  have "walkJSON m (Suc depth) (Dec (sep ObjectColon @ lex_of w @ ?r) ObjectColon (st0 # stk)) =
      Some (Inr (Dec ?r (after ObjectColon) (st0 # stk)))"
    using Cons.prems n f by (intro Cons.prems(1)) (auto simp: at_value_def)
  then have "walkJSON m (Suc depth) ?d1 = Some (Inr (Dec ?r ObjectComma (st0 # stk)))"
    by (simp add: after_def)
  moreover have "walk_members m depth (k # seen) (Dec ?r ObjectComma (st0 # stk)) =
      Some (Inr (Dec rest (value_end st0) stk))"
  proof (rule Cons.IH)
    show "walkJSON n' (Suc depth) (Dec (sep st' @ lex_of v' @ rest') st' stk') = Some (Inr (Dec rest' (after st') stk'))"
      if "(k', v') \<in> set fs" "at_value st'" "2 * length (sep st' @ lex_of v' @ rest') < n'" for k' v' st' stk' n' rest'
      using that by (intro Cons.prems(1) [of k']) auto
  qed (use Cons.prems(2-5) n f in auto)
  ultimately show ?case using n f key more Cons.prems(3) by simp
qed

lemma walk_complete:
  "json_ok depth v \<Longrightarrow> at_value st \<Longrightarrow> 2 * length (sep st @ lex_of v @ rest) < n \<Longrightarrow>
   walkJSON n depth (Dec (sep st @ lex_of v @ rest) st stk) = Some (Inr (Dec rest (after st) stk))"
proof (induction v arbitrary: depth st stk n rest)
  case (JLit l)
  then show ?case
    by (cases n) (auto simp: next_token_sep strip_allowed after_def simp del: value_allowed.simps)
next
  case (JStr s)
  have "strip st \<noteq> ObjectStart \<and> strip st \<noteq> ObjectKey"
    using JStr.prems(2) by (cases st) (auto simp: at_value_def)
  with JStr show ?case
    by (cases n) (auto simp: next_token_sep strip_allowed after_def simp del: value_allowed.simps)
next
  case (JArr vs)
  obtain m where n: "n = Suc m" using JArr.prems(3) by (cases n) auto
  have "walk_elems m depth (Dec (elems_lex ArrayStart vs @ LArrClose # rest) ArrayStart (strip st # stk)) =
      Some (Inr (Dec rest (value_end (strip st)) stk))"
    using JArr n by (intro walk_elems_complete) auto
  with JArr.prems n show ?case
    by (simp add: next_token_sep strip_allowed after_def del: value_allowed.simps)
next
  case (JObj fs)
  obtain m where n: "n = Suc m" using JObj.prems(3) by (cases n) auto
  have "walk_members m depth [] (Dec (fields_lex ObjectStart fs @ LObjClose # rest) ObjectStart (strip st # stk)) =
      Some (Inr (Dec rest (value_end (strip st)) stk))"
    using JObj.prems n
    by (intro walk_members_complete JObj.IH) (auto simp: snds.simps)
  with JObj.prems n show ?case
    by (simp add: next_token_sep strip_allowed after_def del: value_allowed.simps)
qed

section \<open>The shape check\<close>

lemma validateJSONShape_sound:
  assumes "validateJSONShape ls = Inr ()"
  shows "\<exists>v. ls = lex_of v \<and> json_ok 0 v"
proof -
  from assms obtain d where d: "walkJSON (Suc (2 * length ls)) 0 (Dec ls TopValue []) = Some (Inr d)"
    and eof: "dec_token d = TokEOF"
    by (auto simp: validateJSONShape_def split: option.splits sum.splits tok_result.splits)
  from walk_sound(1) [OF d] obtain v where v: "ls = lex_of v @ dec_input d" "json_ok 0 v"
    "dec_state d = TopValue" "dec_stack d = []"
    by (auto simp: at_value_def after_def)
  have "dec_input d = []"
    using eof v(3,4) unfolding dec_token_def
    by (cases "dec_input d"; cases "hd (dec_input d)") auto
  with v show ?thesis by auto
qed

lemma validateJSONShape_complete:
  assumes "json_ok 0 v"
  shows "validateJSONShape (lex_of v) = Inr ()"
proof -
  have "walkJSON (Suc (2 * length (lex_of v))) 0 (Dec (sep TopValue @ lex_of v @ []) TopValue []) =
      Some (Inr (Dec [] (after TopValue) []))"
    using assms by (intro walk_complete) (auto simp: at_value_def)
  then show ?thesis by (simp add: validateJSONShape_def)
qed

text \<open>
  C18: the shape check accepts exactly the documents that are the text of one JSON value whose
  objects repeat no name and whose values are nested at most 64 levels deep; in particular the
  walk returns on every input and nothing may follow the value.
\<close>

theorem shape_check_exact:
  "validateJSONShape ls = Inr () \<longleftrightarrow> (\<exists>v. ls = lex_of v \<and> json_ok 0 v)"
  using validateJSONShape_sound validateJSONShape_complete by blast

end
