(* ===== verification/GoText.thy ===== *)
theory GoText
  imports Prelude
begin

text \<open>
  The parts of Go's \<open>strings\<close>, \<open>strconv\<close>, \<open>fmt\<close>, \<open>unicode/utf8\<close> and
  \<open>encoding/base64\<close> packages that the program relies on, over byte lists.
\<close>

section \<open>Bytes\<close>

definition byte :: "char \<Rightarrow> nat" where
  "byte c = of_char c"

definition in_range :: "nat \<Rightarrow> nat \<Rightarrow> char \<Rightarrow> bool" where
  "in_range lo hi c \<longleftrightarrow> lo \<le> byte c \<and> byte c \<le> hi"

definition is_digit :: "char \<Rightarrow> bool" where
  "is_digit c \<longleftrightarrow> in_range 48 57 c"

definition is_upper :: "char \<Rightarrow> bool" where
  "is_upper c \<longleftrightarrow> in_range 65 90 c"

definition is_lower :: "char \<Rightarrow> bool" where
  "is_lower c \<longleftrightarrow> in_range 97 122 c"

definition is_alnum :: "char \<Rightarrow> bool" where
  "is_alnum c \<longleftrightarrow> is_digit c \<or> is_upper c \<or> is_lower c"

definition to_upper :: "char \<Rightarrow> char" where
  "to_upper c = (if is_lower c then char_of (byte c - 32) else c)"

definition to_lower :: "char \<Rightarrow> char" where
  "to_lower c = (if is_upper c then char_of (byte c + 32) else c)"

lemma byte_less: "byte c < 256"
  by (simp add: byte_def)

lemma byte_inject [simp]: "byte c = byte d \<longleftrightarrow> c = d"
  by (simp add: byte_def)

lemma byte_char_of [simp]: "n < 256 \<Longrightarrow> byte (char_of n) = n"
  by (simp add: byte_def)

lemma char_of_byte [simp]: "char_of (byte c) = c"
  by (simp add: byte_def)

section \<open>Decimal numbers\<close>

text \<open>\<open>%d\<close> of a natural number.\<close>

fun nat_text :: "nat \<Rightarrow> string" where
  "nat_text n = (if n < 10 then [char_of (48 + n)] else nat_text (n div 10) @ [char_of (48 + n mod 10)])"

declare nat_text.simps [simp del]

definition int_text :: "int \<Rightarrow> string" where
  "int_text i = (if i < 0 then CHR ''-'' # nat_text (nat (- i)) else nat_text (nat i))"

definition digits_value :: "string \<Rightarrow> nat" where
  "digits_value s = foldl (\<lambda>n c. 10 * n + (byte c - 48)) 0 s"

text \<open>\<open>strconv.ParseInt (s, 10, 64)\<close> and \<open>ParseUint\<close> on unsigned digits; \<open>None\<close> is an error.\<close>

definition parse_digits :: "string \<Rightarrow> nat option" where
  "parse_digits s = (if s \<noteq> [] \<and> list_all is_digit s then Some (digits_value s) else None)"

definition parse_int64 :: "string \<Rightarrow> int option" where
  "parse_int64 s =
     (let neg = (case s of c # _ \<Rightarrow> c = CHR ''-'' | [] \<Rightarrow> False);
          signed = (case s of c # _ \<Rightarrow> c = CHR ''-'' \<or> c = CHR ''+'' | [] \<Rightarrow> False)
      in case parse_digits (if signed then tl s else s) of
           None \<Rightarrow> None
         | Some n \<Rightarrow>
             (let i = (if neg then - int n else int n)
              in if - max_int64 - 1 \<le> i \<and> i \<le> max_int64 then Some i else None))"

lemma nat_text_nonempty: "nat_text n \<noteq> []"
  by (simp add: nat_text.simps [of n])

lemma digits_value_snoc: "digits_value (s @ [c]) = 10 * digits_value s + (byte c - 48)"
  by (simp add: digits_value_def)

lemma is_digit_char_of: "n < 10 \<Longrightarrow> is_digit (char_of (48 + n :: nat))"
  by (simp add: is_digit_def in_range_def)

lemma nat_text_digits: "list_all is_digit (nat_text n)"
  by (induction n rule: nat_text.induct) (simp add: nat_text.simps is_digit_char_of)

lemma digits_value_nat_text: "digits_value (nat_text n) = n"
proof (induction n rule: nat_text.induct)
  case (1 n)
  have "digits_value (nat_text n) = n" if "n < 10"
    using that by (simp add: nat_text.simps [of n] digits_value_def)
  moreover have "digits_value (nat_text n) = n" if "\<not> n < 10"
    using that 1 by (simp add: nat_text.simps [of n] digits_value_snoc)
  ultimately show ?case by blast
qed

lemma parse_digits_nat_text [simp]: "parse_digits (nat_text n) = Some n"
  by (simp add: parse_digits_def nat_text_nonempty nat_text_digits digits_value_nat_text)

lemma nat_text_inject [simp]: "nat_text m = nat_text n \<longleftrightarrow> m = n"
  by (metis digits_value_nat_text)

lemma nat_text_hd_digit: "nat_text n = c # s \<Longrightarrow> is_digit c"
  using nat_text_digits [of n] by simp

lemma parse_int64_int_text:
  assumes "- max_int64 - 1 \<le> i" "i \<le> max_int64"
  shows "parse_int64 (int_text i) = Some i"
proof (cases "i < 0")
  case True
  with assms show ?thesis by (simp add: parse_int64_def int_text_def Let_def)
next
  case False
  obtain c s where cs: "nat_text (nat i) = c # s" by (cases "nat_text (nat i)") (simp_all add: nat_text_nonempty)
  then have "is_digit c" by (rule nat_text_hd_digit)
  then have "c \<noteq> CHR ''-''" "c \<noteq> CHR ''+''"
    by (auto simp: is_digit_def in_range_def byte_def)
  with False assms cs parse_digits_nat_text [of "nat i"] show ?thesis
    by (simp add: parse_int64_def int_text_def Let_def)
qed

section \<open>UTF-8\<close>

text \<open>
  \<open>rune_size s\<close> is the width of the well-formed encoding that begins \<open>s\<close>, \<open>None\<close> when there
  is none: Go's table of first bytes and of the range it leaves for the second byte.
\<close>

definition second_byte :: "nat \<Rightarrow> char \<Rightarrow> bool" where
  "second_byte b c =
     (if b = 224 then in_range 160 191 c
      else if b = 237 then in_range 128 159 c
      else if b = 240 then in_range 144 191 c
      else if b = 244 then in_range 128 143 c
      else in_range 128 191 c)"

definition rune_size :: "bytes \<Rightarrow> nat option" where
  "rune_size s =
     (case s of
        [] \<Rightarrow> None
      | c # s1 \<Rightarrow>
         (let b = byte c in
          if b < 128 then Some 1
          else if b < 194 \<or> 244 < b then None
          else (case s1 of
              [] \<Rightarrow> None
            | c2 # s2 \<Rightarrow>
                if \<not> second_byte b c2 then None
                else if b < 224 then Some 2
                else (case s2 of
                    [] \<Rightarrow> None
                  | c3 # s3 \<Rightarrow>
                      if \<not> in_range 128 191 c3 then None
                      else if b < 240 then Some 3
                      else (case s3 of
                          [] \<Rightarrow> None
                        | c4 # s4 \<Rightarrow> if in_range 128 191 c4 then Some 4 else None)))))"

lemma rune_size_pos: "rune_size s = Some n \<Longrightarrow> 0 < n \<and> s \<noteq> []"
  by (auto simp: rune_size_def Let_def split: list.splits if_splits)

function utf8_valid :: "bytes \<Rightarrow> bool" where
  "utf8_valid s =
     (if s = [] then True
      else case rune_size s of None \<Rightarrow> False | Some n \<Rightarrow> utf8_valid (drop n s))"
  by auto
termination
  by (relation "measure length") (auto dest: rune_size_pos)

declare utf8_valid.simps [simp del]

text \<open>\<open>utf8.RuneCountInString\<close>: a byte that begins no encoding counts as one rune.\<close>

function rune_count :: "bytes \<Rightarrow> nat" where
  "rune_count s =
     (if s = [] then 0
      else case rune_size s of
             None \<Rightarrow> Suc (rune_count (drop 1 s))
           | Some n \<Rightarrow> Suc (rune_count (drop n s)))"
  by auto
termination
  by (relation "measure length") (auto dest: rune_size_pos)

declare rune_count.simps [simp del]

lemma rune_count_None: "s \<noteq> [] \<Longrightarrow> rune_size s = None \<Longrightarrow> rune_count s = Suc (rune_count (drop 1 s))"
  by (subst rune_count.simps) simp

lemma rune_count_Some: "rune_size s = Some n \<Longrightarrow> rune_count s = Suc (rune_count (drop n s))"
  by (subst rune_count.simps) (auto dest: rune_size_pos)

lemma rune_count_Nil [simp]: "rune_count [] = 0"
  by (simp add: rune_count.simps)

lemma rune_count_le: "rune_count s \<le> length s"
proof (induction s rule: rune_count.induct)
  case (1 s)
  consider "s = []" | "s \<noteq> []" "rune_size s = None" | n where "rune_size s = Some n"
    by (cases "rune_size s") auto
  then show ?case
  proof cases
    case 2
    with 1(1) [OF 2] show ?thesis by (cases s) (simp_all add: rune_count_None)
  next
    case (3 n)
    then have n: "0 < n" "s \<noteq> []" by (auto dest: rune_size_pos)
    then have "length (drop n s) < length s" by simp
    moreover have "rune_count (drop n s) \<le> length (drop n s)"
      using 1(2) [OF n(2) 3] by simp
    ultimately show ?thesis by (simp only: rune_count_Some [OF 3])
  qed simp
qed

lemma utf8_valid_ascii: "list_all (\<lambda>c. byte c < 128) s \<Longrightarrow> utf8_valid s"
  by (induction s) (auto simp: utf8_valid.simps [of "_ # _"] utf8_valid.simps [of "[]"] rune_size_def Let_def)

text \<open>The encoding of a code point, as \<open>utf8.AppendRune\<close> writes it.\<close>

definition utf8_encode :: "nat \<Rightarrow> bytes" where
  "utf8_encode r =
     (if r < 128 then [char_of r]
      else if r < 2048 then [char_of (192 + r div 64), char_of (128 + r mod 64)]
      else if r < 65536 then
        [char_of (224 + r div 4096), char_of (128 + (r div 64) mod 64), char_of (128 + r mod 64)]
      else [char_of (240 + r div 262144), char_of (128 + (r div 4096) mod 64),
            char_of (128 + (r div 64) mod 64), char_of (128 + r mod 64)])"

definition replacement_rune :: nat where
  "replacement_rune = 65533"

section \<open>Substrings\<close>

definition has_prefix :: "bytes \<Rightarrow> bytes \<Rightarrow> bool" where
  "has_prefix s p \<longleftrightarrow> take (length p) s = p"

definition trim_prefix :: "bytes \<Rightarrow> bytes \<Rightarrow> bytes" where
  "trim_prefix s p = (if has_prefix s p then drop (length p) s else s)"

definition has_suffix :: "bytes \<Rightarrow> bytes \<Rightarrow> bool" where
  "has_suffix s p \<longleftrightarrow> has_prefix (rev s) (rev p)"

lemma has_prefix_iff: "has_prefix s p \<longleftrightarrow> (\<exists>r. s = p @ r)"
  unfolding has_prefix_def by (metis append_eq_conv_conj append_take_drop_id)

text \<open>\<open>strings.ReplaceAll (s, p, r)\<close> and \<open>bytes.ReplaceAll\<close> for a non-empty \<open>p\<close>.\<close>

function replace_all :: "bytes \<Rightarrow> bytes \<Rightarrow> bytes \<Rightarrow> bytes" where
  "replace_all p r s =
     (if p = [] then s
      else if has_prefix s p then r @ replace_all p r (drop (length p) s)
      else (case s of [] \<Rightarrow> [] | c # s' \<Rightarrow> c # replace_all p r s'))"
  by auto
termination
  by (relation "measure (\<lambda>(p, r, s). length s)")
     (auto simp: has_prefix_def, metis length_greater_0_conv diff_less take_eq_Nil)

declare replace_all.simps [simp del]

end
