(* ===== verification/Lexer.thy ===== *)
theory Lexer
  imports Json GoText
begin

text \<open>
  From bytes to lexemes and from lexemes to trees, as \<open>encoding/json\<close> scans a document: blanks,
  string literals with their escapes, numbers, literal names. \<open>parse_doc\<close> is the tree of a
  document; it inverts \<open>lex_of\<close>, so the tree a typed \<open>Decode\<close> reads is the one the shape check
  has walked.
\<close>

section \<open>String literals\<close>

definition is_blank :: "char \<Rightarrow> bool" where
  "is_blank c \<longleftrightarrow> byte c \<in> {32, 9, 13, 10}"

definition hex_value :: "char \<Rightarrow> nat option" where
  "hex_value c =
     (if is_digit c then Some (byte c - 48)
      else if in_range 97 102 c then Some (byte c - 87)
      else if in_range 65 70 c then Some (byte c - 55)
      else None)"

fun hex4 :: "bytes \<Rightarrow> (nat \<times> bytes) option" where
  "hex4 (a # b # c # d # s) =
     (case (hex_value a, hex_value b, hex_value c, hex_value d) of
        (Some w, Some x, Some y, Some z) \<Rightarrow> Some (((w * 16 + x) * 16 + y) * 16 + z, s)
      | _ \<Rightarrow> None)"
| "hex4 _ = None"

definition next_u4 :: "bytes \<Rightarrow> (nat \<times> bytes) option" where
  "next_u4 s = (case s of b # u # s' \<Rightarrow> if byte b = 92 \<and> u = CHR ''u'' then hex4 s' else None | _ \<Rightarrow> None)"

text \<open>\<open>\\u\<close> escapes: a surrogate pair is one rune, a lone surrogate the replacement rune.\<close>

definition unicode_escape :: "bytes \<Rightarrow> (bytes \<times> bytes) option" where
  "unicode_escape s =
     (case hex4 s of
        None \<Rightarrow> None
      | Some (r, s1) \<Rightarrow>
          if 55296 \<le> r \<and> r < 57344 then
            (case next_u4 s1 of
               Some (r2, s2) \<Rightarrow>
                 if r < 56320 \<and> 56320 \<le> r2 \<and> r2 < 57344
                 then Some (utf8_encode (65536 + (r - 55296) * 1024 + (r2 - 56320)), s2)
                 else Some (utf8_encode replacement_rune, s1)
             | None \<Rightarrow> Some (utf8_encode replacement_rune, s1))
          else Some (utf8_encode r, s1))"

definition escape :: "bytes \<Rightarrow> (bytes \<times> bytes) option" where
  "escape s =
     (case s of
        [] \<Rightarrow> None
      | e # s' \<Rightarrow>
          (let b = byte e in
           if b = 34 \<or> b = 92 \<or> b = 47 then Some ([e], s')
           else if e = CHR ''b'' then Some ([char_of (8::nat)], s')
           else if e = CHR ''f'' then Some ([char_of (12::nat)], s')
           else if e = CHR ''n'' then Some ([char_of (10::nat)], s')
           else if e = CHR ''r'' then Some ([char_of (13::nat)], s')
           else if e = CHR ''t'' then Some ([char_of (9::nat)], s')
           else if e = CHR ''u'' then unicode_escape s'
           else None))"

lemma hex4_shorter: "hex4 s = Some (r, s') \<Longrightarrow> length s' < length s"
  by (cases s rule: hex4.cases) (auto split: option.splits)

lemma escape_shorter: "escape s = Some (bs, s') \<Longrightarrow> length s' < length s"
  by (auto simp: escape_def unicode_escape_def next_u4_def Let_def
      split: list.splits if_splits option.splits prod.splits dest!: hex4_shorter)

function scan_string :: "bytes \<Rightarrow> (string \<times> bytes) option" where
  "scan_string [] = None"
| "scan_string (c # s) =
     (if byte c = 34 then Some ([], s)
      else if byte c = 92 then
        (case escape s of
           None \<Rightarrow> None
         | Some (bs, s') \<Rightarrow> map_option (\<lambda>(t, r). (bs @ t, r)) (scan_string s'))
      else if byte c < 32 then None
      else map_option (\<lambda>(t, r). (c # t, r)) (scan_string s))"
  by pat_completeness auto
termination
  by (relation "measure length") (auto dest: escape_shorter)

lemma scan_string_shorter: "scan_string s = Some (t, r) \<Longrightarrow> length r < length s"
proof (induction s arbitrary: t r rule: scan_string.induct)
  case (2 c s)
  then show ?case
    by (fastforce split: if_splits option.splits prod.splits dest: escape_shorter)
qed simp

section \<open>Numbers and literal names\<close>

definition scan_digits :: "bytes \<Rightarrow> (string \<times> bytes) option" where
  "scan_digits s =
     (case takeWhile is_digit s of [] \<Rightarrow> None | ds \<Rightarrow> Some (ds, dropWhile is_digit s))"

definition scan_fraction :: "bytes \<Rightarrow> (string \<times> bytes) option" where
  "scan_fraction s =
     (case s of
        c # s' \<Rightarrow>
          if c = CHR ''.'' then map_option (\<lambda>(ds, r). (c # ds, r)) (scan_digits s') else Some ([], s)
      | [] \<Rightarrow> Some ([], s))"

definition scan_exponent :: "bytes \<Rightarrow> (string \<times> bytes) option" where
  "scan_exponent s =
     (case s of
        e # s' \<Rightarrow>
          if e = CHR ''e'' \<or> e = CHR ''E'' then
            (case s' of
               g # s'' \<Rightarrow>
                 if g = CHR ''+'' \<or> g = CHR ''-''
                 then map_option (\<lambda>(ds, r). (e # g # ds, r)) (scan_digits s'')
                 else map_option (\<lambda>(ds, r). (e # ds, r)) (scan_digits s')
             | [] \<Rightarrow> None)
          else Some ([], s)
      | [] \<Rightarrow> Some ([], s))"

definition scan_integer :: "bytes \<Rightarrow> (string \<times> bytes) option" where
  "scan_integer s =
     (case s of
        [] \<Rightarrow> None
      | c # s' \<Rightarrow> if c = CHR ''0'' then Some ([c], s') else scan_digits s)"

definition scan_number :: "bytes \<Rightarrow> (string \<times> bytes) option" where
  "scan_number s =
     (let neg = (case s of c # _ \<Rightarrow> c = CHR ''-'' | [] \<Rightarrow> False)
      in case scan_integer (if neg then tl s else s) of
           None \<Rightarrow> None
         | Some (i, s1) \<Rightarrow>
             (case scan_fraction s1 of
                None \<Rightarrow> None
              | Some (f, s2) \<Rightarrow>
                  (case scan_exponent s2 of
                     None \<Rightarrow> None
                   | Some (e, s3) \<Rightarrow> Some ((if neg then ''-'' else []) @ i @ f @ e, s3))))"

lemma scan_digits_shorter: "scan_digits s = Some (ds, r) \<Longrightarrow> length r < length s"
proof -
  assume *: "scan_digits s = Some (ds, r)"
  then have "takeWhile is_digit s \<noteq> []" "r = dropWhile is_digit s"
    by (auto simp: scan_digits_def split: list.splits)
  then show ?thesis
    using arg_cong [OF takeWhile_dropWhile_id, of length is_digit s] by (cases "takeWhile is_digit s") auto
qed

lemma scan_number_shorter: "scan_number s = Some (t, r) \<Longrightarrow> length r < length s"
proof -
  assume *: "scan_number s = Some (t, r)"
  have frac: "length r' \<le> length s'" if "scan_fraction s' = Some (f, r')" for s' f r'
    using that by (auto simp: scan_fraction_def split: list.splits if_splits dest!: scan_digits_shorter)
  have ex: "length r' \<le> length s'" if "scan_exponent s' = Some (f, r')" for s' f r'
    using that by (auto simp: scan_exponent_def split: list.splits if_splits
        dest!: scan_digits_shorter)
  have int: "length r' < length s'" if "scan_integer s' = Some (f, r')" for s' f r'
    using that by (auto simp: scan_integer_def split: list.splits if_splits dest!: scan_digits_shorter)
  from * show ?thesis
    by (auto simp: scan_number_def Let_def split: option.splits prod.splits if_splits list.splits
        dest!: int frac ex)
qed

section \<open>Lexemes\<close>

function lex :: "bytes \<Rightarrow> lexeme list" where
  "lex [] = []"
| "lex (c # s) =
     (if is_blank c then lex s
      else if byte c = 123 then LObjOpen # lex s
      else if byte c = 125 then LObjClose # lex s
      else if byte c = 91 then LArrOpen # lex s
      else if byte c = 93 then LArrClose # lex s
      else if byte c = 58 then LColon # lex s
      else if byte c = 44 then LComma # lex s
      else if byte c = 34 then
        (case scan_string s of None \<Rightarrow> [LBad] | Some (t, r) \<Rightarrow> LString t # lex r)
      else if is_digit c \<or> byte c = 45 then
        (case scan_number (c # s) of None \<Rightarrow> [LBad] | Some (t, r) \<Rightarrow> LLit (LNum t) # lex r)
      else if has_prefix (c # s) ''true'' then LLit (LBool True) # lex (drop 3 s)
      else if has_prefix (c # s) ''false'' then LLit (LBool False) # lex (drop 4 s)
      else if has_prefix (c # s) ''null'' then LLit LNull # lex (drop 3 s)
      else [LBad])"
  by pat_completeness auto
termination
  by (relation "measure length") (auto dest: scan_string_shorter scan_number_shorter)

section \<open>Trees\<close>

definition head_is :: "lexeme \<Rightarrow> lexeme list \<Rightarrow> bool" where
  "head_is l ls = (case ls of [] \<Rightarrow> False | x # _ \<Rightarrow> x = l)"

definition parse_key :: "lexeme list \<Rightarrow> (string \<times> lexeme list) option" where
  "parse_key ls = (case ls of LString k # c # r \<Rightarrow> if c = LColon then Some (k, r) else None | _ \<Rightarrow> None)"

fun parse_value :: "nat \<Rightarrow> lexeme list \<Rightarrow> (json \<times> lexeme list) option"
  and parse_elems :: "nat \<Rightarrow> lexeme list \<Rightarrow> (json list \<times> lexeme list) option"
  and parse_fields :: "nat \<Rightarrow> lexeme list \<Rightarrow> ((string \<times> json) list \<times> lexeme list) option" where
  "parse_value 0 ls = None"
| "parse_value (Suc n) ls =
     (case ls of
        [] \<Rightarrow> None
      | l # r \<Rightarrow>
          (case l of
             LLit x \<Rightarrow> Some (JLit x, r)
           | LString s \<Rightarrow> Some (JStr s, r)
           | LArrOpen \<Rightarrow>
               if head_is LArrClose r then Some (JArr [], tl r)
               else (case parse_value n r of
                       None \<Rightarrow> None
                     | Some (v, r') \<Rightarrow> map_option (\<lambda>(vs, r''). (JArr (v # vs), r'')) (parse_elems n r'))
           | LObjOpen \<Rightarrow>
               if head_is LObjClose r then Some (JObj [], tl r)
               else (case parse_key r of
                       None \<Rightarrow> None
                     | Some (k, r1) \<Rightarrow>
                         (case parse_value n r1 of
                            None \<Rightarrow> None
                          | Some (v, r') \<Rightarrow>
                              map_option (\<lambda>(fs, r''). (JObj ((k, v) # fs), r'')) (parse_fields n r')))
           | _ \<Rightarrow> None))"
| "parse_elems 0 ls = None"
| "parse_elems (Suc n) ls =
     (if head_is LArrClose ls then Some ([], tl ls)
      else if head_is LComma ls then
        (case parse_value n (tl ls) of
           None \<Rightarrow> None
         | Some (v, r') \<Rightarrow> map_option (\<lambda>(vs, r''). (v # vs, r'')) (parse_elems n r'))
      else None)"
| "parse_fields 0 ls = None"
| "parse_fields (Suc n) ls =
     (if head_is LObjClose ls then Some ([], tl ls)
      else if head_is LComma ls then
        (case parse_key (tl ls) of
           None \<Rightarrow> None
         | Some (k, r1) \<Rightarrow>
             (case parse_value n r1 of
                None \<Rightarrow> None
              | Some (v, r') \<Rightarrow> map_option (\<lambda>(fs, r''). ((k, v) # fs, r'')) (parse_fields n r')))
      else None)"

lemma head_is_Cons [simp]: "head_is l (x # ls) \<longleftrightarrow> x = l"
  by (simp add: head_is_def)

lemma head_is_iff: "head_is l ls \<longleftrightarrow> (\<exists>r. ls = l # r)"
  by (cases ls) (auto simp: head_is_def)

lemma parse_key_Some: "parse_key ls = Some (k, r) \<longleftrightarrow> ls = LString k # LColon # r"
  by (auto simp: parse_key_def split: list.splits lexeme.splits)

lemma parse_key_key [simp]: "parse_key (LString k # LColon # r) = Some (k, r)"
  by (simp add: parse_key_Some)

definition parse_doc :: "lexeme list \<Rightarrow> json option" where
  "parse_doc ls = (case parse_value (Suc (length ls)) ls of Some (v, []) \<Rightarrow> Some v | _ \<Rightarrow> None)"

lemma lex_of_Cons: "\<exists>l ls. lex_of v = l # ls \<and> l \<notin> {LArrClose, LObjClose}"
  by (cases v) auto

lemma parse_lex:
  "length (lex_of v) \<le> n \<Longrightarrow> parse_value n (lex_of v @ r) = Some (v, r)"
  "length (lex_elems vs) < n \<Longrightarrow> parse_elems n (lex_elems vs @ LArrClose # r) = Some (vs, r)"
  "length (lex_fields fs) < n \<Longrightarrow> parse_fields n (lex_fields fs @ LObjClose # r) = Some (fs, r)"
proof (induction v and vs and fs arbitrary: n r and n r and n r rule: lex_of_lex_elems_lex_fields.induct)
  case (3 vs)
  then obtain m where m: "n = Suc m" by (cases n) auto
  show ?case
  proof (cases vs)
    case Nil
    with m show ?thesis by simp
  next
    case (Cons v vs')
    obtain l ls where l: "lex_of v = l # ls" "l \<notin> {LArrClose, LObjClose}"
      using lex_of_Cons by blast
    from 3 m Cons have "parse_value m (lex_of v @ lex_elems vs' @ LArrClose # r) =
        Some (v, lex_elems vs' @ LArrClose # r)" "parse_elems m (lex_elems vs' @ LArrClose # r) = Some (vs', r)"
      by (simp_all add: lex_elems_eq)
    moreover have "\<not> head_is LArrClose (lex_of v @ lex_elems vs' @ LArrClose # r)"
      using l by simp
    ultimately show ?thesis using m Cons by (simp add: lex_elems_eq)
  qed
next
  case (4 fs)
  then obtain m where m: "n = Suc m" by (cases n) auto
  show ?case
  proof (cases fs)
    case Nil
    with m show ?thesis by simp
  next
    case (Cons f fs')
    obtain k v where f: "f = (k, v)" by (cases f)
    from 4 m Cons f have "parse_value m (lex_of v @ lex_fields fs' @ LObjClose # r) =
        Some (v, lex_fields fs' @ LObjClose # r)" "parse_fields m (lex_fields fs' @ LObjClose # r) = Some (fs', r)"
      by (simp_all add: lex_fields_eq)
    with m Cons f show ?thesis by (simp add: lex_fields_eq)
  qed
next
  case 5
  then show ?case by (cases n) auto
next
  case (6 v vs)
  then show ?case by (cases n) auto
next
  case 7
  then show ?case by (cases n) auto
next
  case (8 k v fs)
  then show ?case by (cases n) auto
next
  case (1 l)
  then show ?case by (cases n) auto
next
  case (2 s)
  then show ?case by (cases n) auto
qed

lemma parse_sound:
  "parse_value n ls = Some (v, r) \<Longrightarrow> ls = lex_of v @ r"
  "parse_elems n ls = Some (vs, r) \<Longrightarrow> ls = lex_elems vs @ LArrClose # r"
  "parse_fields n ls = Some (fs, r) \<Longrightarrow> ls = lex_fields fs @ LObjClose # r"
proof (induction n arbitrary: ls v r vs fs)
  case (Suc n)
  {
    case 1
    then obtain l s where ls: "ls = l # s" by (cases ls) auto
    show ?case
    proof (cases l)
      case LArrOpen
      then show ?thesis using 1 ls Suc.IH(1,2)
        by (fastforce simp: lex_elems_eq head_is_iff split: if_splits option.splits)
    next
      case LObjOpen
      then show ?thesis using 1 ls Suc.IH(1,3)
        by (fastforce simp: lex_fields_eq head_is_iff parse_key_Some split: if_splits option.splits)
    qed (use 1 ls in auto)
  next
    case 2
    then show ?case using Suc.IH(1,2)
      by (fastforce simp: head_is_iff split: if_splits option.splits)
  next
    case 3
    then show ?case using Suc.IH(1,3)
      by (fastforce simp: head_is_iff parse_key_Some split: if_splits option.splits)
  }
qed simp_all

lemma parse_doc_iff: "parse_doc ls = Some v \<longleftrightarrow> ls = lex_of v"
proof
  assume "parse_doc ls = Some v"
  then have "parse_value (Suc (length ls)) ls = Some (v, [])"
    by (auto simp: parse_doc_def simp del: parse_value.simps split: option.splits list.splits)
  then show "ls = lex_of v" using parse_sound(1) [of _ ls v "[]"] by (simp del: parse_value.simps)
next
  assume ls: "ls = lex_of v"
  then have "parse_value (Suc (length ls)) (lex_of v @ []) = Some (v, [])"
    by (intro parse_lex(1)) simp
  with ls show "parse_doc ls = Some v" by (simp add: parse_doc_def del: parse_value.simps)
qed

lemma lex_of_inject: "lex_of v = lex_of w \<longleftrightarrow> v = w"
  by (metis option.inject parse_doc_iff)

end
