(* ===== verification/GoDecode.thy ===== *)
theory GoDecode
  imports Lexer Complex_Main
begin

text \<open>
  Typed decoding as \<open>encoding/json\<close> does it for the types the program declares. A decoder takes
  the value already in the destination and the tree and returns the new value, \<open>None\<close> for the
  error \<open>Decode\<close> reports at its end (the partly filled destination is never read then).

  A \<open>null\<close> leaves a string, number, bool or struct as it is and clears a pointer or slice. A
  field is found by its exact name, else by its name up to case folding, so that one object can
  write a field twice; a slice written twice reuses the elements of its backing array.
\<close>

section \<open>Numbers\<close>

fun bit_count :: "nat \<Rightarrow> nat" where
  "bit_count n = (if n = 0 then 0 else Suc (bit_count (n div 2)))"

declare bit_count.simps [simp del]

definition floor_log2 :: "nat \<Rightarrow> nat \<Rightarrow> int" where
  "floor_log2 n d =
     (let k = int (bit_count n) - int (bit_count d)
      in if (if 0 \<le> k then d * 2 ^ nat k \<le> n else d \<le> n * 2 ^ nat (- k)) then k else k - 1)"

definition round_half_even :: "nat \<Rightarrow> nat \<Rightarrow> nat" where
  "round_half_even n d =
     (let q = n div d; r = 2 * (n mod d)
      in if d < r \<or> (r = d \<and> odd q) then Suc q else q)"

text \<open>The binary64 number nearest to \<open>n / d\<close>; \<open>None\<close> when it is out of range.\<close>

definition round64 :: "nat \<Rightarrow> nat \<Rightarrow> rat option" where
  "round64 n d =
     (if n = 0 then Some 0
      else let e = max (- 1074) (floor_log2 n d - 52);
               q = (if 0 \<le> e then round_half_even n (d * 2 ^ nat e)
                    else round_half_even (n * 2 ^ nat (- e)) d);
               x = (if 0 \<le> e then of_nat (q * 2 ^ nat e) else of_nat q / 2 ^ nat (- e))
           in if x < 2 ^ 1024 then Some x else None)"

definition number_parts :: "string \<Rightarrow> bool \<times> string \<times> string \<times> int" where
  "number_parts s =
     (let neg = (case s of c # _ \<Rightarrow> c = CHR ''-'' | [] \<Rightarrow> False);
          s1 = (if neg then tl s else s);
          i = takeWhile is_digit s1;
          s2 = dropWhile is_digit s1;
          dot = (case s2 of c # _ \<Rightarrow> c = CHR ''.'' | [] \<Rightarrow> False);
          f = (if dot then takeWhile is_digit (tl s2) else []);
          s3 = (if dot then dropWhile is_digit (tl s2) else s2);
          s4 = tl s3;
          eneg = (case s4 of c # _ \<Rightarrow> c = CHR ''-'' | [] \<Rightarrow> False);
          n = int (digits_value (dropWhile (\<lambda>c. \<not> is_digit c) s4))
      in (neg, i, f, if eneg then - n else n))"

definition parse_float64 :: "string \<Rightarrow> rat option" where
  "parse_float64 s =
     (case number_parts s of
        (neg, i, f, e) \<Rightarrow>
          (let m = digits_value (i @ f); x = e - int (length f);
               r = (if 0 \<le> x then round64 (m * 10 ^ nat x) 1 else round64 m (10 ^ nat (- x)))
           in map_option (\<lambda>v. if neg then - v else v) r))"

text \<open>\<open>Decode\<close> into \<open>any\<close> turns every number into a \<open>float64\<close>; it fails only on the range.\<close>

fun any_ok :: "json \<Rightarrow> bool" where
  "any_ok (JLit (LNum s)) \<longleftrightarrow> parse_float64 s \<noteq> None"
| "any_ok (JLit _) \<longleftrightarrow> True"
| "any_ok (JStr s) \<longleftrightarrow> True"
| "any_ok (JArr vs) \<longleftrightarrow> (\<forall>v\<in>set vs. any_ok v)"
| "any_ok (JObj fs) \<longleftrightarrow> (\<forall>f\<in>set fs. any_ok (snd f))"

section \<open>Decoders\<close>

type_synonym 'a dec = "'a \<Rightarrow> json \<Rightarrow> 'a option"

definition dec_string :: "string dec" where
  "dec_string old v = (case v of JStr s \<Rightarrow> Some s | JLit LNull \<Rightarrow> Some old | _ \<Rightarrow> None)"

definition dec_bool :: "bool dec" where
  "dec_bool old v = (case v of JLit (LBool b) \<Rightarrow> Some b | JLit LNull \<Rightarrow> Some old | _ \<Rightarrow> None)"

definition dec_int :: "int dec" where
  "dec_int old v = (case v of JLit (LNum s) \<Rightarrow> parse_int64 s | JLit LNull \<Rightarrow> Some old | _ \<Rightarrow> None)"

definition dec_float :: "rat dec" where
  "dec_float old v = (case v of JLit (LNum s) \<Rightarrow> parse_float64 s | JLit LNull \<Rightarrow> Some old | _ \<Rightarrow> None)"

definition dec_raw :: "json option dec" where
  "dec_raw old v = Some (Some v)"

definition dec_ptr :: "'a \<Rightarrow> 'a dec \<Rightarrow> 'a option dec" where
  "dec_ptr zero d old v =
     (if v = JNull then Some None
      else map_option Some (d (case old of None \<Rightarrow> zero | Some x \<Rightarrow> x) v))"

text \<open>A slice: its elements and the stale elements left in its backing array after them.\<close>

datatype 'a slice = Slice (elems: "'a list") (spare: "'a list")

abbreviation nil_slice :: "'a slice" where
  "nil_slice \<equiv> Slice [] []"

abbreviation slice_len :: "'a slice \<Rightarrow> nat" where
  "slice_len s \<equiv> length (elems s)"

fun dec_elems :: "'a \<Rightarrow> 'a dec \<Rightarrow> 'a list \<Rightarrow> json list \<Rightarrow> 'a list option" where
  "dec_elems zero d olds [] = Some []"
| "dec_elems zero d olds (v # vs) =
     (case d (case olds of [] \<Rightarrow> zero | x # _ \<Rightarrow> x) v of
        None \<Rightarrow> None
      | Some x \<Rightarrow> map_option (\<lambda>xs. x # xs) (dec_elems zero d (tl olds) vs))"

definition dec_slice :: "'a \<Rightarrow> 'a dec \<Rightarrow> 'a slice dec" where
  "dec_slice zero d old v =
     (case v of
        JArr [] \<Rightarrow> Some nil_slice
      | JArr vs \<Rightarrow>
          (let olds = elems old @ spare old
           in map_option (\<lambda>xs. Slice xs (drop (length vs) olds)) (dec_elems zero d olds vs))
      | JLit LNull \<Rightarrow> Some nil_slice
      | _ \<Rightarrow> None)"

section \<open>Structs\<close>

text \<open>
  Case folding of a name: ASCII letters, and the two other code points that fold to an ASCII
  letter, the long s (C5 BF) and the Kelvin sign (E2 84 AA).
\<close>

fun fold_name :: "string \<Rightarrow> string" where
  "fold_name [] = []"
| "fold_name (c # s) =
     (if byte c = 197 \<and> (case s of d # _ \<Rightarrow> byte d = 191 | [] \<Rightarrow> False)
      then CHR ''S'' # fold_name (drop 1 s)
      else if byte c = 226 \<and> (case s of d # e # _ \<Rightarrow> byte d = 132 \<and> byte e = 170 | _ \<Rightarrow> False)
      then CHR ''K'' # fold_name (drop 2 s)
      else to_upper c # fold_name s)"

definition find_field :: "string list \<Rightarrow> string \<Rightarrow> string option" where
  "find_field names k =
     (if k \<in> set names then Some k else find (\<lambda>n. fold_name n = fold_name k) names)"

text \<open>\<open>strict\<close> is \<open>DisallowUnknownFields\<close>; \<open>f n\<close> decodes into the field called \<open>n\<close>.\<close>

fun dec_members :: "bool \<Rightarrow> string list \<Rightarrow> (string \<Rightarrow> 'r dec) \<Rightarrow> 'r \<Rightarrow> (string \<times> json) list \<Rightarrow> 'r option" where
  "dec_members strict names f r [] = Some r"
| "dec_members strict names f r ((k, v) # fs) =
     (case find_field names k of
        None \<Rightarrow> if strict then None else dec_members strict names f r fs
      | Some n \<Rightarrow>
          (case f n r v of
             None \<Rightarrow> None
           | Some r' \<Rightarrow> dec_members strict names f r' fs))"

definition dec_struct :: "bool \<Rightarrow> string list \<Rightarrow> (string \<Rightarrow> 'r dec) \<Rightarrow> 'r dec" where
  "dec_struct strict names f old v =
     (case v of
        JObj fs \<Rightarrow> dec_members strict names f old fs
      | JLit LNull \<Rightarrow> Some old
      | _ \<Rightarrow> None)"

section \<open>Facts\<close>

lemma find_field_SomeD: "find_field names k = Some n \<Longrightarrow> n \<in> set names \<and> fold_name n = fold_name k"
  by (auto simp: find_field_def find_Some_iff split: if_splits)

lemma find_field_exact [simp]: "k \<in> set names \<Longrightarrow> find_field names k = Some k"
  by (simp add: find_field_def)

lemma dec_members_names:
  "dec_members True names f r fs = Some r' \<Longrightarrow> \<forall>k\<in>fst ` set fs. find_field names k \<noteq> None"
  by (induction True names f r fs rule: dec_members.induct) (auto split: option.splits)

lemma dec_elems_length: "dec_elems zero d olds vs = Some xs \<Longrightarrow> length xs = length vs"
  by (induction zero d olds vs arbitrary: xs rule: dec_elems.induct) (auto split: option.splits)

lemma dec_slice_len:
  "dec_slice zero d old v = Some s \<Longrightarrow> slice_len s = (case v of JArr vs \<Rightarrow> length vs | _ \<Rightarrow> 0)"
  by (auto simp: dec_slice_def Let_def simp del: dec_elems.simps dest!: dec_elems_length
      split: json.splits lit.splits list.splits)

end
