(* ===== verification/ChatRequest.thy ===== *)
theory ChatRequest
  imports GoDecode
begin

text \<open>
  The request contract of \<open>internal/chatcompletions/request.go\<close>: the types of a Chat
  Completions request, \<open>Parse\<close> from bytes to a validated request with the capabilities it needs,
  and the checks it is made of. \<open>request_ok\<close> and \<open>needed\<close> say declaratively which
  requests are accepted and which capabilities they need.
\<close>

section \<open>Types and limits\<close>

definition MaxRequestBytes :: nat where "MaxRequestBytes = 1048576"
definition MaxRequestAliasBytes :: nat where "MaxRequestAliasBytes = 128"
definition MaxMessages :: nat where "MaxMessages = 4096"
definition MaxTools :: nat where "MaxTools = 128"

datatype capability = Text | Stream | Tools | ParallelTools | DeveloperRole

fun cap_name :: "capability \<Rightarrow> string" where
  "cap_name Text = ''text''"
| "cap_name Stream = ''stream''"
| "cap_name Tools = ''tools''"
| "cap_name ParallelTools = ''parallel-tools''"
| "cap_name DeveloperRole = ''developer-role''"

text \<open>The code sorts capabilities by their names; this is the rank of the name.\<close>

fun cap_rank :: "capability \<Rightarrow> nat" where
  "cap_rank DeveloperRole = 0"
| "cap_rank ParallelTools = 1"
| "cap_rank Stream = 2"
| "cap_rank Text = 3"
| "cap_rank Tools = 4"

instantiation capability :: linorder
begin

definition less_eq_capability :: "capability \<Rightarrow> capability \<Rightarrow> bool" where
  "less_eq_capability c d \<longleftrightarrow> cap_rank c \<le> cap_rank d"

definition less_capability :: "capability \<Rightarrow> capability \<Rightarrow> bool" where
  "less_capability c d \<longleftrightarrow> cap_rank c < cap_rank d"

instance
proof
  fix c d :: capability
  show "c \<le> d \<Longrightarrow> d \<le> c \<Longrightarrow> c = d"
    by (cases c; cases d) (simp_all add: less_eq_capability_def)
qed (auto simp: less_eq_capability_def less_capability_def)

end

lemma cap_rank_names:
  "cap_rank c < cap_rank d \<longleftrightarrow> (cap_name c, cap_name d) \<in> lexord {(a, b). byte a < byte b}"
  by (cases c; cases d) (simp_all add: byte_def)

record stream_options =
  IncludeUsage :: bool

record function_tool =
  ft_Name :: string
  ft_Description :: string
  ft_Parameters :: "json option"
  ft_Strict :: "bool option"

record tool =
  tool_Type :: string
  tool_Function :: function_tool

record call_function =
  cf_Name :: string
  cf_Arguments :: string

record tool_call =
  call_ID :: string
  call_Type :: string
  call_Function :: call_function

record message =
  Role :: string
  Content :: "json option"
  Name :: string
  ToolCallID :: string
  ToolCalls :: "tool_call slice"

record request =
  Model :: string
  Messages :: "message slice"
  StreamFlag :: bool
  StreamOptions :: "stream_options option"
  ToolList :: "tool slice"
  ToolChoice :: "json option"
  ParallelToolCalls :: "bool option"
  Temperature :: "rat option"
  TopP :: "rat option"
  MaxTokens :: "int option"
  MaxCompletionTokens :: "int option"

record text_part =
  part_Type :: string
  part_Text :: string

section \<open>Typed decoding\<close>

definition zero_call_function :: call_function where
  "zero_call_function = \<lparr>cf_Name = [], cf_Arguments = []\<rparr>"

definition dec_call_function :: "call_function dec" where
  "dec_call_function = dec_struct True [''name'', ''arguments'']
     (\<lambda>n r v. if n = ''name'' then map_option (\<lambda>x. r\<lparr>cf_Name := x\<rparr>) (dec_string (cf_Name r) v)
              else map_option (\<lambda>x. r\<lparr>cf_Arguments := x\<rparr>) (dec_string (cf_Arguments r) v))"

definition zero_tool_call :: tool_call where
  "zero_tool_call = \<lparr>call_ID = [], call_Type = [], call_Function = zero_call_function\<rparr>"

definition dec_tool_call :: "tool_call dec" where
  "dec_tool_call = dec_struct True [''id'', ''type'', ''function'']
     (\<lambda>n r v. if n = ''id'' then map_option (\<lambda>x. r\<lparr>call_ID := x\<rparr>) (dec_string (call_ID r) v)
              else if n = ''type'' then map_option (\<lambda>x. r\<lparr>call_Type := x\<rparr>) (dec_string (call_Type r) v)
              else map_option (\<lambda>x. r\<lparr>call_Function := x\<rparr>) (dec_call_function (call_Function r) v))"

definition zero_message :: message where
  "zero_message = \<lparr>Role = [], Content = None, Name = [], ToolCallID = [], ToolCalls = nil_slice\<rparr>"

definition dec_message :: "message dec" where
  "dec_message = dec_struct True [''role'', ''content'', ''name'', ''tool_call_id'', ''tool_calls'']
     (\<lambda>n r v. if n = ''role'' then map_option (\<lambda>x. r\<lparr>Role := x\<rparr>) (dec_string (Role r) v)
              else if n = ''content'' then map_option (\<lambda>x. r\<lparr>Content := x\<rparr>) (dec_raw (Content r) v)
              else if n = ''name'' then map_option (\<lambda>x. r\<lparr>Name := x\<rparr>) (dec_string (Name r) v)
              else if n = ''tool_call_id'' then map_option (\<lambda>x. r\<lparr>ToolCallID := x\<rparr>) (dec_string (ToolCallID r) v)
              else map_option (\<lambda>x. r\<lparr>ToolCalls := x\<rparr>)
                     (dec_slice zero_tool_call dec_tool_call (ToolCalls r) v))"

definition zero_function_tool :: function_tool where
  "zero_function_tool = \<lparr>ft_Name = [], ft_Description = [], ft_Parameters = None, ft_Strict = None\<rparr>"

definition dec_function_tool :: "function_tool dec" where
  "dec_function_tool = dec_struct True [''name'', ''description'', ''parameters'', ''strict'']
     (\<lambda>n r v. if n = ''name'' then map_option (\<lambda>x. r\<lparr>ft_Name := x\<rparr>) (dec_string (ft_Name r) v)
              else if n = ''description'' then map_option (\<lambda>x. r\<lparr>ft_Description := x\<rparr>) (dec_string (ft_Description r) v)
              else if n = ''parameters'' then map_option (\<lambda>x. r\<lparr>ft_Parameters := x\<rparr>) (dec_raw (ft_Parameters r) v)
              else map_option (\<lambda>x. r\<lparr>ft_Strict := x\<rparr>) (dec_ptr False dec_bool (ft_Strict r) v))"

definition zero_tool :: tool where
  "zero_tool = \<lparr>tool_Type = [], tool_Function = zero_function_tool\<rparr>"

definition dec_tool :: "tool dec" where
  "dec_tool = dec_struct True [''type'', ''function'']
     (\<lambda>n r v. if n = ''type'' then map_option (\<lambda>x. r\<lparr>tool_Type := x\<rparr>) (dec_string (tool_Type r) v)
              else map_option (\<lambda>x. r\<lparr>tool_Function := x\<rparr>) (dec_function_tool (tool_Function r) v))"

definition zero_stream_options :: stream_options where
  "zero_stream_options = \<lparr>IncludeUsage = False\<rparr>"

definition dec_stream_options :: "stream_options dec" where
  "dec_stream_options = dec_struct True [''include_usage'']
     (\<lambda>n r v. map_option (\<lambda>x. r\<lparr>IncludeUsage := x\<rparr>) (dec_bool (IncludeUsage r) v))"

definition zero_request :: request where
  "zero_request = \<lparr>Model = [], Messages = nil_slice, StreamFlag = False, StreamOptions = None,
     ToolList = nil_slice, ToolChoice = None, ParallelToolCalls = None, Temperature = None,
     TopP = None, MaxTokens = None, MaxCompletionTokens = None\<rparr>"

definition request_fields :: "string list" where
  "request_fields = [''model'', ''messages'', ''stream'', ''stream_options'', ''tools'', ''tool_choice'',
     ''parallel_tool_calls'', ''temperature'', ''top_p'', ''max_tokens'', ''max_completion_tokens'']"

definition dec_request_field :: "string \<Rightarrow> request dec" where
  "dec_request_field n r v =
     (if n = ''model'' then map_option (\<lambda>x. r\<lparr>Model := x\<rparr>) (dec_string (Model r) v)
      else if n = ''messages'' then map_option (\<lambda>x. r\<lparr>Messages := x\<rparr>)
        (dec_slice zero_message dec_message (Messages r) v)
      else if n = ''stream'' then map_option (\<lambda>x. r\<lparr>StreamFlag := x\<rparr>) (dec_bool (StreamFlag r) v)
      else if n = ''stream_options'' then map_option (\<lambda>x. r\<lparr>StreamOptions := x\<rparr>)
        (dec_ptr zero_stream_options dec_stream_options (StreamOptions r) v)
      else if n = ''tools'' then map_option (\<lambda>x. r\<lparr>ToolList := x\<rparr>)
        (dec_slice zero_tool dec_tool (ToolList r) v)
      else if n = ''tool_choice'' then map_option (\<lambda>x. r\<lparr>ToolChoice := x\<rparr>) (dec_raw (ToolChoice r) v)
      else if n = ''parallel_tool_calls'' then map_option (\<lambda>x. r\<lparr>ParallelToolCalls := x\<rparr>)
        (dec_ptr False dec_bool (ParallelToolCalls r) v)
      else if n = ''temperature'' then map_option (\<lambda>x. r\<lparr>Temperature := x\<rparr>)
        (dec_ptr 0 dec_float (Temperature r) v)
      else if n = ''top_p'' then map_option (\<lambda>x. r\<lparr>TopP := x\<rparr>) (dec_ptr 0 dec_float (TopP r) v)
      else if n = ''max_tokens'' then map_option (\<lambda>x. r\<lparr>MaxTokens := x\<rparr>)
        (dec_ptr 0 dec_int (MaxTokens r) v)
      else map_option (\<lambda>x. r\<lparr>MaxCompletionTokens := x\<rparr>)
        (dec_ptr 0 dec_int (MaxCompletionTokens r) v))"

definition dec_request :: "request dec" where
  "dec_request = dec_struct True request_fields dec_request_field"

definition dec_text_part :: "text_part dec" where
  "dec_text_part = dec_struct True [''type'', ''text'']
     (\<lambda>n r v. if n = ''type'' then map_option (\<lambda>x. r\<lparr>part_Type := x\<rparr>) (dec_string (part_Type r) v)
              else map_option (\<lambda>x. r\<lparr>part_Text := x\<rparr>) (dec_string (part_Text r) v))"

text \<open>The anonymous struct of \<open>validateToolChoice\<close>: a type, and a function with a name.\<close>

record named_choice =
  nc_Type :: string
  nc_Function :: string

definition dec_named_choice :: "named_choice dec" where
  "dec_named_choice = dec_struct True [''type'', ''function'']
     (\<lambda>n r v. if n = ''type'' then map_option (\<lambda>x. r\<lparr>nc_Type := x\<rparr>) (dec_string (nc_Type r) v)
              else map_option (\<lambda>x. r\<lparr>nc_Function := x\<rparr>)
                (dec_struct True [''name''] (\<lambda>n. dec_string) (nc_Function r) v))"

section \<open>The checks\<close>

definition alias_char :: "char \<Rightarrow> bool" where
  "alias_char c \<longleftrightarrow> is_alnum c \<or> c \<in> set ''._:/-''"

definition aliasPattern :: "string \<Rightarrow> bool" where
  "aliasPattern s \<longleftrightarrow> 1 \<le> length s \<and> length s \<le> MaxRequestAliasBytes \<and> list_all alias_char s"

definition functionPattern :: "string \<Rightarrow> bool" where
  "functionPattern s \<longleftrightarrow>
     1 \<le> length s \<and> length s \<le> 64 \<and> list_all (\<lambda>c. is_alnum c \<or> c = CHR ''_'' \<or> c = CHR ''-'') s"

abbreviation invalid_value :: "string \<Rightarrow> chat_error" where
  "invalid_value param \<equiv> ChatError ''invalid_value'' param"

definition validTextContent :: "json option \<Rightarrow> bool \<Rightarrow> bool" where
  "validTextContent raw nullable =
     (if raw = None \<or> raw = Some JNull then nullable
      else (case dec_string [] (the raw) of
              Some text \<Rightarrow> utf8_valid text
            | None \<Rightarrow>
                (case dec_slice \<lparr>part_Type = [], part_Text = []\<rparr> dec_text_part nil_slice (the raw) of
                   None \<Rightarrow> False
                 | Some parts \<Rightarrow>
                     slice_len parts \<noteq> 0
                     \<and> list_all (\<lambda>p. part_Type p = ''text'' \<and> utf8_valid (part_Text p)) (elems parts))))"

definition validJSONObject :: "json option \<Rightarrow> bool" where
  "validJSONObject raw =
     (case raw of
        None \<Rightarrow> True
      | Some v \<Rightarrow> (case v of JObj fs \<Rightarrow> any_ok v | _ \<Rightarrow> False))"

definition validateToolChoice :: "json \<Rightarrow> string list \<Rightarrow> bool" where
  "validateToolChoice raw tools =
     (case dec_string [] raw of
        Some mode \<Rightarrow> mode = ''none'' \<or> mode = ''auto'' \<or> mode = ''required''
      | None \<Rightarrow>
          (case dec_named_choice \<lparr>nc_Type = [], nc_Function = []\<rparr> raw of
             None \<Rightarrow> False
           | Some named \<Rightarrow> nc_Type named = ''function'' \<and> nc_Function named \<in> set tools))"

definition messages_param :: "nat \<Rightarrow> string" where
  "messages_param i = ''messages['' @ nat_text i @ '']''"

definition call_param :: "nat \<Rightarrow> nat \<Rightarrow> string" where
  "call_param i j = messages_param i @ ''.tool_calls['' @ nat_text j @ '']''"

definition tools_param :: "nat \<Rightarrow> string" where
  "tools_param i = ''tools['' @ nat_text i @ '']''"

definition bad_call :: "tool_call \<Rightarrow> bool" where
  "bad_call c \<longleftrightarrow>
     call_ID c = [] \<or> length (call_ID c) > 256 \<or> call_Type c \<noteq> ''function''
     \<or> \<not> functionPattern (cf_Name (call_Function c))
     \<or> length (cf_Arguments (call_Function c)) > MaxRequestBytes"

text \<open>\<open>required\<close> is the set of capabilities collected so far, returned extended.\<close>

definition validateMessage :: "message \<Rightarrow> nat \<Rightarrow> capability set \<Rightarrow> chat_error + capability set" where
  "validateMessage m index required =
     (let param = messages_param index in
      check (length (Name m) \<le> 64) (invalid_value (param @ ''.name''))
      (if Role m = ''developer'' \<or> Role m = ''system'' \<or> Role m = ''user'' then
         (let required = (if Role m = ''developer'' then insert DeveloperRole required else required)
          in check (\<not> (\<not> validTextContent (Content m) False \<or> ToolCallID m \<noteq> [] \<or> slice_len (ToolCalls m) > 0))
               (invalid_value param) (Inr required))
       else if Role m = ''assistant'' then
         check (\<not> (\<not> validTextContent (Content m) True \<or> ToolCallID m \<noteq> [])) (invalid_value param)
         (check (\<not> ((Content m = None \<or> Content m = Some JNull) \<and> slice_len (ToolCalls m) = 0))
            (invalid_value (param @ ''.content''))
         (and_then
            (first_error (map (\<lambda>(i, call). check (\<not> bad_call call) (invalid_value (call_param index i)) (Inr ()))
               (indexed (elems (ToolCalls m)))))
            (\<lambda>_. Inr (if slice_len (ToolCalls m) > 0 then insert Tools required else required))))
       else if Role m = ''tool'' then
         check (\<not> (ToolCallID m = [] \<or> length (ToolCallID m) > 256 \<or> \<not> validTextContent (Content m) False
                   \<or> slice_len (ToolCalls m) > 0))
           (invalid_value param) (Inr (insert Tools required))
       else Inl (invalid_value (param @ ''.role''))))"

fun validateMessages :: "nat \<Rightarrow> message list \<Rightarrow> capability set \<Rightarrow> chat_error + capability set" where
  "validateMessages i [] required = Inr required"
| "validateMessages i (m # ms) required =
     and_then (validateMessage m i required) (validateMessages (Suc i) ms)"

text \<open>The tool loop; \<open>seen\<close> are the function names met so far, returned extended.\<close>

fun validateTools :: "nat \<Rightarrow> tool list \<Rightarrow> string list \<Rightarrow> chat_error + string list" where
  "validateTools i [] seen = Inr seen"
| "validateTools i (t # ts) seen =
     (let name = ft_Name (tool_Function t) in
      check (\<not> (tool_Type t \<noteq> ''function'' \<or> \<not> functionPattern name)) (invalid_value (tools_param i))
      (check (name \<notin> set seen) (ChatError ''duplicate_tool'' (tools_param i @ ''.function.name''))
      (check (\<not> (length (ft_Description (tool_Function t)) > 4096
                 \<or> \<not> validJSONObject (ft_Parameters (tool_Function t))))
         (invalid_value (tools_param i @ ''.function.parameters''))
      (validateTools (Suc i) ts (name # seen)))))"

definition caps_list :: "capability set \<Rightarrow> capability list" where
  "caps_list cs = filter (\<lambda>c. c \<in> cs) [DeveloperRole, ParallelTools, Stream, Text, Tools]"

text \<open>\<open>required[c] = true\<close> under a condition.\<close>

definition require :: "bool \<Rightarrow> capability \<Rightarrow> capability set \<Rightarrow> capability set" where
  "require b c required = (if b then insert c required else required)"

definition validateLimits :: "request \<Rightarrow> chat_error + unit" where
  "validateLimits r =
     check (\<not> (case Temperature r of None \<Rightarrow> False | Some t \<Rightarrow> t < 0 \<or> t > 2)) (invalid_value ''temperature'')
     (check (\<not> (case TopP r of None \<Rightarrow> False | Some t \<Rightarrow> t < 0 \<or> t > 1)) (invalid_value ''top_p'')
     (check (\<not> (MaxTokens r \<noteq> None \<and> MaxCompletionTokens r \<noteq> None))
        (ChatError ''conflicting_parameters'' ''max_tokens'')
     (check (\<not> (case MaxTokens r of None \<Rightarrow> False | Some n \<Rightarrow> n < 1)) (invalid_value ''max_tokens'')
     (check (\<not> (case MaxCompletionTokens r of None \<Rightarrow> False | Some n \<Rightarrow> n < 1))
        (invalid_value ''max_completion_tokens'')
     (Inr ())))))"

definition validateRequest :: "request \<Rightarrow> chat_error + capability list" where
  "validateRequest r =
     check (aliasPattern (Model r)) (invalid_value ''model'')
     (check (\<not> (slice_len (Messages r) = 0 \<or> slice_len (Messages r) > MaxMessages)) (invalid_value ''messages'')
     (and_then (validateMessages 0 (elems (Messages r)) {Text}) (\<lambda>required.
      check (StreamFlag r \<or> StreamOptions r = None) (invalid_value ''stream_options'')
     (let required = require (StreamFlag r) Stream required in
      check (\<not> slice_len (ToolList r) > MaxTools) (invalid_value ''tools'')
     (and_then (validateTools 0 (elems (ToolList r)) []) (\<lambda>seen.
      let required = require (slice_len (ToolList r) > 0) Tools required in
      check (\<not> (ToolChoice r \<noteq> None
                \<and> (slice_len (ToolList r) = 0 \<or> \<not> validateToolChoice (the (ToolChoice r)) seen)))
        (invalid_value ''tool_choice'')
     (let required = require (ToolChoice r \<noteq> None) Tools required in
      check (\<not> (ParallelToolCalls r \<noteq> None \<and> slice_len (ToolList r) = 0)) (invalid_value ''parallel_tool_calls'')
     (let required = require (ParallelToolCalls r = Some True) ParallelTools required in
      and_then (validateLimits r) (\<lambda>_. Inr (caps_list required))))))))))"

section \<open>Parsing\<close>

definition ValidateJSONDocument :: "bytes \<Rightarrow> chat_error + unit" where
  "ValidateJSONDocument data = check (utf8_valid data) invalid_json (validateJSONShape (lex data))"

text \<open>\<open>Decode\<close> reads the next value of the stream; what it leaves must be the end of the input.\<close>

definition Parse :: "bytes \<Rightarrow> chat_error + request \<times> capability list" where
  "Parse data =
     check (data \<noteq> []) (ChatError ''invalid_request'' [])
     (check (length data \<le> MaxRequestBytes) (ChatError ''request_too_large'' [])
     (and_then (ValidateJSONDocument data) (\<lambda>_.
      case parse_value (Suc (length (lex data))) (lex data) of
        None \<Rightarrow> Inl (ChatError ''invalid_request'' [])
      | Some (v, rest) \<Rightarrow>
          (case dec_request zero_request v of
             None \<Rightarrow> Inl (ChatError ''invalid_request'' [])
           | Some r \<Rightarrow>
               check (rest = []) invalid_json
               (and_then (validateRequest r) (\<lambda>capabilities. Inr (r, capabilities)))))))"

section \<open>What is accepted\<close>

definition text_ok :: "message \<Rightarrow> bool" where
  "text_ok m \<longleftrightarrow> validTextContent (Content m) False"

definition message_ok :: "message \<Rightarrow> bool" where
  "message_ok m \<longleftrightarrow>
     length (Name m) \<le> 64
     \<and> (Role m \<in> {''developer'', ''system'', ''user''} \<and> text_ok m \<and> ToolCallID m = [] \<and> elems (ToolCalls m) = []
        \<or> Role m = ''assistant'' \<and> validTextContent (Content m) True \<and> ToolCallID m = []
          \<and> (Content m \<in> {None, Some JNull} \<longrightarrow> elems (ToolCalls m) \<noteq> [])
          \<and> (\<forall>c\<in>set (elems (ToolCalls m)). \<not> bad_call c)
        \<or> Role m = ''tool'' \<and> ToolCallID m \<noteq> [] \<and> length (ToolCallID m) \<le> 256 \<and> text_ok m
          \<and> elems (ToolCalls m) = [])"

definition message_caps :: "message \<Rightarrow> capability set" where
  "message_caps m =
     (if Role m = ''developer'' then {DeveloperRole}
      else if Role m = ''tool'' \<or> Role m = ''assistant'' \<and> elems (ToolCalls m) \<noteq> [] then {Tools}
      else {})"

definition tool_ok :: "tool \<Rightarrow> bool" where
  "tool_ok t \<longleftrightarrow>
     tool_Type t = ''function'' \<and> functionPattern (ft_Name (tool_Function t))
     \<and> length (ft_Description (tool_Function t)) \<le> 4096 \<and> validJSONObject (ft_Parameters (tool_Function t))"

definition tool_names :: "request \<Rightarrow> string list" where
  "tool_names r = map (\<lambda>t. ft_Name (tool_Function t)) (elems (ToolList r))"

definition request_ok :: "request \<Rightarrow> bool" where
  "request_ok r \<longleftrightarrow>
     aliasPattern (Model r)
     \<and> elems (Messages r) \<noteq> [] \<and> slice_len (Messages r) \<le> MaxMessages
     \<and> (\<forall>m\<in>set (elems (Messages r)). message_ok m)
     \<and> (StreamOptions r \<noteq> None \<longrightarrow> StreamFlag r)
     \<and> slice_len (ToolList r) \<le> MaxTools \<and> (\<forall>t\<in>set (elems (ToolList r)). tool_ok t)
     \<and> distinct (tool_names r)
     \<and> (\<forall>c. ToolChoice r = Some c \<longrightarrow> elems (ToolList r) \<noteq> [] \<and> validateToolChoice c (tool_names r))
     \<and> (ParallelToolCalls r \<noteq> None \<longrightarrow> elems (ToolList r) \<noteq> [])
     \<and> (\<forall>t. Temperature r = Some t \<longrightarrow> 0 \<le> t \<and> t \<le> 2) \<and> (\<forall>t. TopP r = Some t \<longrightarrow> 0 \<le> t \<and> t \<le> 1)
     \<and> (MaxTokens r = None \<or> MaxCompletionTokens r = None)
     \<and> (\<forall>n. MaxTokens r = Some n \<longrightarrow> 1 \<le> n) \<and> (\<forall>n. MaxCompletionTokens r = Some n \<longrightarrow> 1 \<le> n)"

definition needed :: "request \<Rightarrow> capability set" where
  "needed r =
     {Text} \<union> \<Union> (message_caps ` set (elems (Messages r)))
     \<union> (if StreamFlag r then {Stream} else {})
     \<union> (if elems (ToolList r) \<noteq> [] then {Tools} else {})
     \<union> (if ParallelToolCalls r = Some True then {ParallelTools} else {})"

lemma caps_list_sorted: "caps_list cs = sorted_list_of_set cs"
proof -
  have "c \<in> set (caps_list cs) \<longleftrightarrow> c \<in> cs" for c by (cases c) (simp_all add: caps_list_def)
  then have "set (caps_list cs) = cs" by blast
  moreover have "sorted_wrt (<) [DeveloperRole, ParallelTools, Stream, Text, Tools]"
    by (simp add: less_capability_def)
  then have "sorted_wrt (<) (caps_list cs)"
    unfolding caps_list_def by (rule sorted_wrt_filter)
  then have "sorted_list_of_set (set (caps_list cs)) = caps_list cs"
    by (intro sorted_list_of_set.idem_if_sorted_distinct) (simp_all add: strict_sorted_iff)
  ultimately show ?thesis by simp
qed

lemma validateMessage_Inr:
  "validateMessage m i req = Inr req' \<longleftrightarrow> message_ok m \<and> req' = req \<union> message_caps m"
proof -
  have calls: "(\<forall>(j, c)\<in>set (indexed cs). \<not> bad_call c) \<longleftrightarrow> (\<forall>c\<in>set cs. \<not> bad_call c)" for cs
    by (rule ball_indexed_snd)
  consider "Role m = ''developer''" | "Role m = ''system'' \<or> Role m = ''user''" | "Role m = ''assistant''"
    | "Role m = ''tool''" | "Role m \<notin> {''developer'', ''system'', ''user'', ''assistant'', ''tool''}"
    by blast
  then show ?thesis
  proof cases
    case 3
    then show ?thesis
      using calls [of "elems (ToolCalls m)"]
      by (auto simp: validateMessage_def message_ok_def message_caps_def Let_def and_then_Inr split_beta)
  qed (auto simp: validateMessage_def message_ok_def message_caps_def Let_def text_ok_def)
qed

lemma validateMessages_Inr:
  "validateMessages i ms req = Inr req' \<longleftrightarrow>
     (\<forall>m\<in>set ms. message_ok m) \<and> req' = req \<union> \<Union> (message_caps ` set ms)"
  by (induction ms arbitrary: i req) (auto simp: and_then_Inr validateMessage_Inr)

lemma validateTools_Inr:
  "validateTools i ts seen = Inr seen' \<longleftrightarrow>
     (\<forall>t\<in>set ts. tool_ok t)
     \<and> distinct (map (\<lambda>t. ft_Name (tool_Function t)) ts)
     \<and> set (map (\<lambda>t. ft_Name (tool_Function t)) ts) \<inter> set seen = {}
     \<and> seen' = rev (map (\<lambda>t. ft_Name (tool_Function t)) ts) @ seen"
  by (induction ts arbitrary: i seen) (auto simp: Let_def tool_ok_def)

lemma validateToolChoice_cong: "set xs = set ys \<Longrightarrow> validateToolChoice c xs = validateToolChoice c ys"
  by (simp add: validateToolChoice_def split: option.splits)

lemma validateToolChoice_rev [simp]: "validateToolChoice c (rev xs) = validateToolChoice c xs"
  by (rule validateToolChoice_cong) simp

lemma case_option_False: "(case x of None \<Rightarrow> False | Some t \<Rightarrow> P t) \<longleftrightarrow> (\<exists>t. x = Some t \<and> P t)"
  by (cases x) auto

lemma validateLimits_Inr:
  "validateLimits r = Inr u \<longleftrightarrow>
     (\<forall>t. Temperature r = Some t \<longrightarrow> 0 \<le> t \<and> t \<le> 2) \<and> (\<forall>t. TopP r = Some t \<longrightarrow> 0 \<le> t \<and> t \<le> 1)
     \<and> (MaxTokens r = None \<or> MaxCompletionTokens r = None)
     \<and> (\<forall>n. MaxTokens r = Some n \<longrightarrow> 1 \<le> n) \<and> (\<forall>n. MaxCompletionTokens r = Some n \<longrightarrow> 1 \<le> n)"
  by (auto simp: validateLimits_def case_option_False not_less)

definition collected :: "request \<Rightarrow> capability set" where
  "collected r =
     require (ParallelToolCalls r = Some True) ParallelTools
       (require (ToolChoice r \<noteq> None) Tools
         (require (slice_len (ToolList r) > 0) Tools
           (require (StreamFlag r) Stream ({Text} \<union> \<Union> (message_caps ` set (elems (Messages r)))))))"

lemma collected_needed:
  "(\<forall>c. ToolChoice r = Some c \<longrightarrow> elems (ToolList r) \<noteq> []) \<Longrightarrow> collected r = needed r"
  by (cases "ToolChoice r") (auto simp: needed_def collected_def require_def)

lemma validateRequest_Inr:
  "validateRequest r = Inr caps \<longleftrightarrow> request_ok r \<and> caps = sorted_list_of_set (needed r)"
proof -
  have "request_ok r \<and> caps = sorted_list_of_set (collected r)" if "validateRequest r = Inr caps"
    using that
    by (auto simp: validateRequest_def and_then_Inr validateMessages_Inr validateTools_Inr not_less
        validateLimits_Inr Let_def caps_list_sorted tool_names_def collected_def request_ok_def)
  moreover have "validateRequest r = Inr (sorted_list_of_set (collected r))" if "request_ok r"
    using that
    by (simp add: validateRequest_def and_then_Inr validateMessages_Inr validateTools_Inr not_less
        validateLimits_Inr Let_def caps_list_sorted tool_names_def collected_def request_ok_def) auto
  ultimately have "validateRequest r = Inr caps \<longleftrightarrow> request_ok r \<and> caps = sorted_list_of_set (collected r)"
    by blast
  moreover have "collected r = needed r" if "request_ok r"
    using that by (intro collected_needed) (simp add: request_ok_def)
  ultimately show ?thesis by metis
qed

section \<open>Parsing end to end\<close>

lemma validate_document_iff:
  "ValidateJSONDocument data = Inr () \<longleftrightarrow> utf8_valid data \<and> (\<exists>v. lex data = lex_of v \<and> json_ok 0 v)"
  using validateJSONShape_sound validateJSONShape_complete
  by (auto simp: ValidateJSONDocument_def)

lemma parse_value_lex: "parse_value (Suc (length (lex_of v))) (lex_of v) = Some (v, [])"
  using parse_lex(1) [of v "Suc (length (lex_of v))" "[]"] by (simp del: parse_value.simps)

lemma parse_value_iff: "parse_value (Suc (length ls)) ls = Some (v, []) \<longleftrightarrow> ls = lex_of v"
  using parse_value_lex parse_sound(1) [of "Suc (length ls)" ls v "[]"]
  by (auto simp del: parse_value.simps)

text \<open>
  C13: \<open>Parse\<close> succeeds exactly on a non-empty, well-formed UTF-8 body of at most one MiB that is
  one JSON value within the shape rules, decodes without unknown fields, and is an acceptable
  request; the capabilities it returns are those the request needs, sorted and without repetition.
\<close>

theorem parse_accepts_exactly:
  "Parse data = Inr (r, caps) \<longleftrightarrow>
     data \<noteq> [] \<and> length data \<le> MaxRequestBytes \<and> utf8_valid data
     \<and> (\<exists>v. lex data = lex_of v \<and> json_ok 0 v \<and> dec_request zero_request v = Some r)
     \<and> request_ok r \<and> caps = sorted_list_of_set (needed r)"
proof -
  have "Parse data = Inr (r, caps) \<longleftrightarrow>
      data \<noteq> [] \<and> length data \<le> MaxRequestBytes \<and> ValidateJSONDocument data = Inr ()
      \<and> (\<exists>v. parse_value (Suc (length (lex data))) (lex data) = Some (v, []) \<and> dec_request zero_request v = Some r)
      \<and> validateRequest r = Inr caps"
    by (auto simp: Parse_def and_then_Inr simp del: parse_value.simps split: option.splits)
  then show ?thesis
    unfolding parse_value_iff validate_document_iff validateRequest_Inr by (auto simp: lex_of_inject)
qed

definition value_error_codes :: "string set" where
  "value_error_codes = {''invalid_value'', ''duplicate_tool'', ''conflicting_parameters''}"

lemma validateMessages_codes:
  "validateMessages i ms req = Inl e \<Longrightarrow> err_code e = ''invalid_value''"
proof (induction ms arbitrary: i req)
  case (Cons m ms)
  have "err_code e = ''invalid_value''" if "validateMessage m i req = Inl e"
    using that
    by (auto simp: validateMessage_def Let_def check_def and_then_Inl split: if_splits
        dest!: first_error_Inl)
  with Cons show ?case by (auto simp: and_then_Inl)
qed simp

lemma validateTools_codes:
  "validateTools i ts seen = Inl e \<Longrightarrow> err_code e \<in> value_error_codes"
  by (induction ts arbitrary: i seen) (auto simp: Let_def check_Inl value_error_codes_def)

lemma validateRequest_codes:
  "validateRequest r = Inl e \<Longrightarrow> err_code e \<in> value_error_codes"
  by (auto simp: validateRequest_def validateLimits_def check_Inl and_then_Inl Let_def
      dest!: validateMessages_codes validateTools_codes)
     (auto simp: value_error_codes_def)

definition shape_error_codes :: "string set" where
  "shape_error_codes = {''invalid_json'', ''json_depth_exceeded'', ''duplicate_field''}"

lemma walk_codes:
  "walkJSON n depth d = Some (Inl e) \<Longrightarrow> err_code e \<in> shape_error_codes"
  "walk_members n depth seen d = Some (Inl e) \<Longrightarrow> err_code e \<in> shape_error_codes"
  "walk_elems n depth d = Some (Inl e) \<Longrightarrow> err_code e \<in> shape_error_codes"
proof (induction n depth d and n depth seen d and n depth d
    rule: walkJSON_walk_members_walk_elems.induct)
  case (2 n depth d)
  then show ?case
    by (auto simp: shape_error_codes_def split: if_splits tok_result.splits token.splits)
next
  case (4 n depth seen d)
  then show ?case
    by (auto simp: shape_error_codes_def split: if_splits tok_result.splits token.splits
        option.splits sum.splits)
next
  case (6 n depth d)
  then show ?case
    by (auto simp: shape_error_codes_def split: if_splits tok_result.splits token.splits
        option.splits sum.splits)
qed simp_all

lemma validate_document_codes:
  "ValidateJSONDocument data = Inl e \<Longrightarrow> err_code e \<in> shape_error_codes"
  using walk_codes(1)
  by (auto simp: ValidateJSONDocument_def validateJSONShape_def check_Inl shape_error_codes_def
      split: option.splits sum.splits tok_result.splits simp del: walkJSON.simps)



end
