(* ===== verification/GoError.thy ===== *)
theory GoError
  imports Prelude
begin

text \<open>
  Go error values as their unwrapping chains, outermost link first: \<open>errors.Is\<close> asks for a link,
  \<open>errors.As\<close> takes the first link of the wanted type. A link is an error the code classifies
  (\<open>router.ClassifiedFailure\<close>: its code and whether the request had been written), one of the
  context errors, a package-level sentinel, or any other error.
\<close>

datatype link =
    Classified string bool
  | DeadlineExceeded
  | Canceled
  | Sentinel string
  | Opaque

type_synonym goerror = "link list"

definition errors_is :: "goerror \<Rightarrow> link \<Rightarrow> bool" where
  "errors_is e l \<longleftrightarrow> l \<in> set e"

fun errors_as :: "goerror \<Rightarrow> (string \<times> bool) option" where
  "errors_as [] = None"
| "errors_as (Classified code written # ls) = Some (code, written)"
| "errors_as (_ # ls) = errors_as ls"

lemma errors_as_None: "errors_as e = None \<longleftrightarrow> (\<forall>c w. Classified c w \<notin> set e)"
  by (induction e rule: errors_as.induct) auto

lemma errors_as_mem: "errors_as e = Some (c, w) \<Longrightarrow> Classified c w \<in> set e"
  by (induction e rule: errors_as.induct) auto

end
