(* ===== verification/Sse.thy ===== *)
theory Sse
  imports ChatRequest GoError "HOL-Library.List_Lexorder" "HOL-Library.Char_ord"
begin

text \<open>
  The streaming relay of \<open>internal/streaming\<close>: \<open>readSSEData\<close> reads the next event of an upstream
  event stream, \<open>normalizeChunk\<close> checks a chunk and puts the public model name in it, and
  \<open>RelayChatCompletions\<close> copies chunk after chunk to the client until \<open>[DONE]\<close>.

  The upstream body is the bytes it yields and how it ends; splitting it into reads is invisible
  through \<open>bufio.Reader\<close>. The client's \<open>http.ResponseWriter\<close> answers its \<open>k\<close>-th write with the
  number of bytes it took and whether it failed. The request context is what its \<open>k\<close>-th check
  answers. \<open>json.Marshal\<close> of a chunk is a function of the tree.
\<close>

section \<open>Raw members\<close>

type_synonym members = "(string \<times> json) list"

text \<open>
  Decoding into \<open>map[string]json.RawMessage\<close>: \<open>None\<close> is the nil map; members written later
  come first, so that \<open>map_of\<close> finds them.
\<close>

definition dec_map :: "members option dec" where
  "dec_map old v =
     (case v of
        JObj fs \<Rightarrow> Some (Some (rev fs @ (case old of None \<Rightarrow> [] | Some m \<Rightarrow> m)))
      | JLit LNull \<Rightarrow> Some None
      | _ \<Rightarrow> None)"

definition unmarshal_map :: "json \<Rightarrow> members option option" where
  "unmarshal_map v = dec_map None v"

definition unmarshal_string :: "json option \<Rightarrow> string option" where
  "unmarshal_string raw = (case raw of None \<Rightarrow> None | Some v \<Rightarrow> dec_string [] v)"

definition unmarshal_int :: "json option \<Rightarrow> int option" where
  "unmarshal_int raw = (case raw of None \<Rightarrow> None | Some v \<Rightarrow> dec_int 0 v)"

text \<open>Into \<open>[]json.RawMessage\<close>: \<open>Some None\<close> is a nil slice, \<open>None\<close> an error.\<close>

definition unmarshal_list :: "json option \<Rightarrow> json list option option" where
  "unmarshal_list raw =
     (case raw of
        Some (JArr vs) \<Rightarrow> Some (Some vs)
      | Some (JLit LNull) \<Rightarrow> Some None
      | _ \<Rightarrow> None)"

record usage =
  PromptTokens :: "int option"
  CompletionTokens :: "int option"

definition dec_usage :: "usage dec" where
  "dec_usage = dec_struct False [''prompt_tokens'', ''completion_tokens'']
     (\<lambda>n r v. if n = ''prompt_tokens''
              then map_option (\<lambda>x. r\<lparr>PromptTokens := x\<rparr>) (dec_ptr 0 dec_int (PromptTokens r) v)
              else map_option (\<lambda>x. r\<lparr>CompletionTokens := x\<rparr>) (dec_ptr 0 dec_int (CompletionTokens r) v))"

record choice =
  ch_Index :: "int option"
  ch_Body :: "members option"
  ch_FinishReason :: "json option"

text \<open>\<open>body\<close> is the member that holds the message: \<open>delta\<close> in a chunk, \<open>message\<close> otherwise.\<close>

definition dec_choice :: "string \<Rightarrow> choice dec" where
  "dec_choice body = dec_struct False [''index'', body, ''finish_reason'']
     (\<lambda>n r v. if n = ''index'' then map_option (\<lambda>x. r\<lparr>ch_Index := x\<rparr>) (dec_ptr 0 dec_int (ch_Index r) v)
              else if n = body then map_option (\<lambda>x. r\<lparr>ch_Body := x\<rparr>) (dec_map (ch_Body r) v)
              else map_option (\<lambda>x. r\<lparr>ch_FinishReason := x\<rparr>) (dec_raw (ch_FinishReason r) v))"

definition zero_choice :: choice where
  "zero_choice = \<lparr>ch_Index = None, ch_Body = None, ch_FinishReason = None\<rparr>"

section \<open>Reading events\<close>

definition newline :: char where "newline = char_of (10 :: nat)"
definition carriage :: char where "carriage = char_of (13 :: nat)"

text \<open>How the body ends: at the end of the file, or with an error (a non-empty chain).\<close>

datatype stream_end = EndEOF | EndError link goerror

definition maxSSEEventBytes :: nat where
  "maxSSEEventBytes = 1048576"

text \<open>\<open>bufio.Reader.ReadLine\<close>: a line without its end, and the rest; \<open>None\<close> at the end.\<close>

definition read_line :: "bytes \<Rightarrow> (bytes \<times> bytes) option" where
  "read_line s =
     (if s = [] then None
      else (let line = takeWhile (\<lambda>c. c \<noteq> newline) s; rest = dropWhile (\<lambda>c. c \<noteq> newline) s
            in if rest = [] then Some (line, [])
               else Some (if line \<noteq> [] \<and> last line = carriage then butlast line else line, tl rest)))"

text \<open>The value of a \<open>data\<close> line, \<open>None\<close> for a comment, another field or a line without colon.\<close>

definition data_field :: "bytes \<Rightarrow> bytes option" where
  "data_field line =
     (if line = [] \<or> hd line = CHR '':'' then None
      else (let field = takeWhile (\<lambda>c. c \<noteq> CHR '':'') line; rest = dropWhile (\<lambda>c. c \<noteq> CHR '':'') line
            in if rest \<noteq> [] \<and> field = ''data'' then Some (trim_prefix (tl rest) '' '') else None))"

datatype event = EvData bytes bytes | EvEOF | EvInvalid | EvError goerror

lemma read_line_None [simp]: "read_line s = None \<longleftrightarrow> s = []"
  by (simp add: read_line_def Let_def)

lemma read_line_Nil [simp]: "read_line [] = None"
  by simp

lemma read_line_shorter: "read_line s = Some (line, rest) \<Longrightarrow> length rest < length s"
proof -
  assume *: "read_line s = Some (line, rest)"
  have "length (dropWhile (\<lambda>c. c \<noteq> newline) s) \<le> length s" by (rule length_dropWhile_le)
  with * show ?thesis
    by (cases "dropWhile (\<lambda>c. c \<noteq> newline) s") (auto simp: read_line_def Let_def split: if_splits)
qed

function readSSEData :: "stream_end \<Rightarrow> bytes \<Rightarrow> bytes \<Rightarrow> event" where
  "readSSEData fin event s =
     (case read_line s of
        None \<Rightarrow>
          (case fin of
             EndError l e \<Rightarrow> EvError (l # e)
           | EndEOF \<Rightarrow> if event \<noteq> [] then EvData (butlast event) [] else EvEOF)
      | Some (line, rest) \<Rightarrow>
          if length line > maxSSEEventBytes then EvInvalid
          else if line = [] then
            (if event \<noteq> [] then EvData (butlast event) rest else readSSEData fin event rest)
          else (case data_field line of
                  None \<Rightarrow> readSSEData fin event rest
                | Some v \<Rightarrow>
                    if length event + length v + 1 > maxSSEEventBytes then EvInvalid
                    else readSSEData fin (event @ v @ [newline]) rest))"
  by auto
termination
  by (relation "measure (\<lambda>(fin, event, s). length s)") (auto dest: read_line_shorter)

declare readSSEData.simps [simp del]

section \<open>Chunks\<close>

definition valid_name :: "string option \<Rightarrow> bool" where
  "valid_name s \<longleftrightarrow> (case s of None \<Rightarrow> False | Some n \<Rightarrow> n \<noteq> [] \<and> length n \<le> 64)"

definition validToolCallDelta :: "json \<Rightarrow> bool" where
  "validToolCallDelta raw =
     (case unmarshal_map raw of
        Some (Some call) \<Rightarrow>
          (let field = map_of call; function = map_option unmarshal_map (field ''function'') in
           call \<noteq> []
           \<and> (case unmarshal_int (field ''index'') of None \<Rightarrow> False | Some i \<Rightarrow> 0 \<le> i)
           \<and> (field ''id'' \<noteq> None \<longrightarrow> (case unmarshal_string (field ''id'') of None \<Rightarrow> False | Some i \<Rightarrow> i \<noteq> []))
           \<and> (field ''type'' \<noteq> None \<longrightarrow> unmarshal_string (field ''type'') = Some ''function'')
           \<and> (case function of
                None \<Rightarrow> True
              | Some (Some (Some fn)) \<Rightarrow>
                  fn \<noteq> []
                  \<and> (map_of fn ''name'' \<noteq> None \<longrightarrow> valid_name (unmarshal_string (map_of fn ''name'')))
                  \<and> (map_of fn ''arguments'' \<noteq> None \<longrightarrow> unmarshal_string (map_of fn ''arguments'') \<noteq> None)
                  \<and> (map_of fn ''name'' \<noteq> None \<or> map_of fn ''arguments'' \<noteq> None)
              | _ \<Rightarrow> False)
           \<and> (field ''id'' \<noteq> None \<or> field ''function'' \<noteq> None))
      | _ \<Rightarrow> False)"

text \<open>\<open>usageTokens\<close>: \<open>None\<close> is the error.\<close>

definition usageTokens :: "(string \<Rightarrow> json option) \<Rightarrow> (int option \<times> int option) option" where
  "usageTokens object =
     (case object ''usage'' of
        None \<Rightarrow> Some (None, None)
      | Some raw \<Rightarrow>
          if raw = JNull then Some (None, None)
          else (case dec_usage \<lparr>PromptTokens = None, CompletionTokens = None\<rparr> raw of
                  None \<Rightarrow> None
                | Some u \<Rightarrow>
                    (case (PromptTokens u, CompletionTokens u) of
                       (Some p, Some c) \<Rightarrow> if p < 0 \<or> c < 0 then None else Some (Some p, Some c)
                     | _ \<Rightarrow> None)))"

definition valid_finish :: "json option \<Rightarrow> bool" where
  "valid_finish raw \<longleftrightarrow> raw = None \<or> raw = Some JNull \<or> unmarshal_string raw \<noteq> None"

definition valid_chunk_choice :: "json \<Rightarrow> bool" where
  "valid_chunk_choice raw =
     (case dec_choice ''delta'' zero_choice raw of
        None \<Rightarrow> False
      | Some ch \<Rightarrow>
          (case (ch_Index ch, ch_Body ch) of
             (Some i, Some delta) \<Rightarrow>
               (let field = map_of delta in
                0 \<le> i
                \<and> (field ''role'' \<noteq> None \<longrightarrow> unmarshal_string (field ''role'') = Some ''assistant'')
                \<and> (field ''content'' \<noteq> None \<and> field ''content'' \<noteq> Some JNull \<longrightarrow>
                     unmarshal_string (field ''content'') \<noteq> None)
                \<and> (field ''tool_calls'' \<noteq> None \<longrightarrow>
                     (case unmarshal_list (field ''tool_calls'') of
                        Some (Some values) \<Rightarrow> list_all validToolCallDelta values
                      | _ \<Rightarrow> False))
                \<and> valid_finish (ch_FinishReason ch))
           | _ \<Rightarrow> False))"

text \<open>\<open>json.Marshal\<close> of a map writes its members sorted by name.\<close>

definition set_model :: "members \<Rightarrow> string \<Rightarrow> json" where
  "set_model m alias =
     JObj (sort_key fst ((''model'', JStr alias) # filter (\<lambda>f. fst f \<noteq> ''model'') m))"

definition parse_object :: "bytes \<Rightarrow> members option" where
  "parse_object payload =
     (case ValidateJSONDocument payload of
        Inl _ \<Rightarrow> None
      | Inr _ \<Rightarrow>
          (case parse_doc (lex payload) of
             None \<Rightarrow> None
           | Some v \<Rightarrow> (case unmarshal_map v of Some (Some m) \<Rightarrow> Some m | _ \<Rightarrow> None)))"

definition normalizeChunk :: "bytes \<Rightarrow> string \<Rightarrow> (json \<times> int option \<times> int option) option" where
  "normalizeChunk payload alias =
     (case parse_object payload of
        None \<Rightarrow> None
      | Some m \<Rightarrow>
          (let object = map_of m in
           if (case unmarshal_string (object ''id'') of None \<Rightarrow> True | Some i \<Rightarrow> i = [])
              \<or> unmarshal_string (object ''object'') \<noteq> Some ''chat.completion.chunk'' then None
           else (case unmarshal_list (object ''choices'') of
                   Some (Some choices) \<Rightarrow>
                     if \<not> list_all valid_chunk_choice choices then None
                     else (case usageTokens object of
                             None \<Rightarrow> None
                           | Some (i, out) \<Rightarrow> Some (set_model m alias, i, out))
                 | _ \<Rightarrow> None)))"

section \<open>The relay\<close>

record chat_result =
  Committed :: bool
  Completed :: bool
  Bytes :: nat
  Events :: nat
  InputTokens :: "int option"
  OutputTokens :: "int option"
  FirstEventAt :: "time option"

text \<open>
  What the relay meets outside the stream: whether the writer can flush, what its writes answer,
  the context at each check, the clock, and the encoder of a chunk. \<open>relay_state\<close> is the result
  so far with the bytes the client has been given and the numbers of writes and checks made.
\<close>

record relay_env =
  flusher :: bool
  write_answer :: "nat \<Rightarrow> bytes \<Rightarrow> nat \<times> goerror"
  context_err :: "nat \<Rightarrow> goerror"
  time_now :: time
  marshal :: "json \<Rightarrow> bytes"

record relay_state =
  res :: chat_result
  out :: bytes
  writes :: nat
  checks :: nat

definition zero_result :: chat_result where
  "zero_result = \<lparr>Committed = False, Completed = False, Bytes = 0, Events = 0, InputTokens = None,
     OutputTokens = None, FirstEventAt = None\<rparr>"

definition start_state :: relay_state where
  "start_state = \<lparr>res = zero_result, out = [], writes = 0, checks = 0\<rparr>"

definition ErrStreamingUnsupported :: goerror where
  "ErrStreamingUnsupported = [Sentinel ''ErrStreamingUnsupported'']"
definition ErrEmptyUpstream :: goerror where "ErrEmptyUpstream = [Sentinel ''ErrEmptyUpstream'']"
definition ErrIncompleteStream :: goerror where "ErrIncompleteStream = [Sentinel ''ErrIncompleteStream'']"
definition ErrInvalidSSE :: goerror where "ErrInvalidSSE = [Sentinel ''ErrInvalidSSE'']"
definition ErrShortWrite :: goerror where "ErrShortWrite = [Sentinel ''io.ErrShortWrite'']"

text \<open>\<open>ctx.Err()\<close>: the answer, and the state with one more check made; \<open>[]\<close> is nil.\<close>

definition ctx_err :: "relay_env \<Rightarrow> relay_state \<Rightarrow> goerror \<times> relay_state" where
  "ctx_err env s = (context_err env (checks s), s\<lparr>checks := Suc (checks s)\<rparr>)"

definition writeChatFrame :: "relay_env \<Rightarrow> bytes \<Rightarrow> relay_state \<Rightarrow> goerror \<times> relay_state" where
  "writeChatFrame env frame s =
     (let (n, err) = write_answer env (writes s) frame;
          s' = s\<lparr>res := (res s)\<lparr>Bytes := Bytes (res s) + n\<rparr>, out := out s @ take n frame,
                 writes := Suc (writes s)\<rparr>
      in (if err \<noteq> [] then err else if n \<noteq> length frame then ErrShortWrite else [], s'))"

definition data_prefix :: bytes where "data_prefix = ''data: ''"

definition done_frame :: bytes where
  "done_frame = data_prefix @ ''[DONE]'' @ [newline, newline]"

definition chunk_frame :: "relay_env \<Rightarrow> json \<Rightarrow> bytes" where
  "chunk_frame env v = data_prefix @ marshal env v @ [newline, newline]"

definition commit :: "relay_env \<Rightarrow> relay_state \<Rightarrow> relay_state" where
  "commit env s =
     (if Committed (res s) then s
      else s\<lparr>res := (res s)\<lparr>Committed := True, FirstEventAt := Some (time_now env)\<rparr>\<rparr>)"

definition count_event :: "int option \<Rightarrow> int option \<Rightarrow> relay_state \<Rightarrow> relay_state" where
  "count_event i t s =
     s\<lparr>res := (res s)\<lparr>Events := Suc (Events (res s)),
        InputTokens := (if i \<noteq> None then i else InputTokens (res s)),
        OutputTokens := (if t \<noteq> None then t else OutputTokens (res s))\<rparr>\<rparr>"

lemma readSSEData_shorter:
  "readSSEData fin event s = EvData payload rest \<Longrightarrow> s \<noteq> [] \<Longrightarrow> length rest < length s"
  "readSSEData fin event s = EvData payload rest \<Longrightarrow> length rest \<le> length s"
proof (induction fin event s rule: readSSEData.induct)
  case (1 fin event s)
  {
    assume ev: "readSSEData fin event s = EvData payload rest"
    show "length rest \<le> length s"
    proof (cases "read_line s")
      case None
      with ev show ?thesis by (auto simp: readSSEData.simps [of fin event s] split: stream_end.splits if_splits)
    next
      case (Some p)
      obtain line r where p: "p = (line, r)" by (cases p)
      with Some have "length r < length s" by (simp add: read_line_shorter)
      with ev Some p 1(2,4,6) show ?thesis
        by (fastforce simp: readSSEData.simps [of fin event s] split: if_splits option.splits)
    qed
  }
  note le = this
  {
    assume ev: "readSSEData fin event s = EvData payload rest" and ne: "s \<noteq> []"
    then obtain line r where p: "read_line s = Some (line, r)"
      by (cases "read_line s") auto
    then have "length r < length s" by (simp add: read_line_shorter)
    with ev p 1(2,4,6) show "length rest < length s"
      by (fastforce simp: readSSEData.simps [of fin event s] split: if_splits option.splits)
  }
qed

lemma readSSEData_Nil: "readSSEData fin [] [] \<noteq> EvData payload rest"
  by (simp add: readSSEData.simps split: stream_end.splits)

lemma readSSEData_decreases: "readSSEData fin [] s = EvData payload rest \<Longrightarrow> length rest < length s"
  using readSSEData_shorter(1) readSSEData_Nil by (cases "s = []") auto

text \<open>The loop of \<open>RelayChatCompletions\<close>; the error is \<open>[]\<close> when it returns nil.\<close>

function relay_loop :: "relay_env \<Rightarrow> string \<Rightarrow> stream_end \<Rightarrow> bytes \<Rightarrow> relay_state \<Rightarrow> goerror \<times> relay_state" where
  "relay_loop env alias fin s st =
     (let (e1, st1) = ctx_err env st in
      if e1 \<noteq> [] then (e1, st1)
      else let ev = readSSEData fin [] s; (e2, st2) = ctx_err env st1 in
        if e2 \<noteq> [] then (e2, st2)
        else (case ev of
            EvEOF \<Rightarrow> (if Committed (res st2) then ErrIncompleteStream else ErrEmptyUpstream, st2)
          | EvInvalid \<Rightarrow> (ErrInvalidSSE, st2)
          | EvError e \<Rightarrow> (e, st2)
          | EvData payload rest \<Rightarrow>
              if payload = ''[DONE]'' then
                (if \<not> Committed (res st2) then (ErrInvalidSSE, st2)
                 else let (e3, st3) = writeChatFrame env done_frame st2 in
                   if e3 \<noteq> [] then (e3, st3)
                   else ([], st3\<lparr>res := (res st3)\<lparr>Completed := True\<rparr>\<rparr>))
              else (case normalizeChunk payload alias of
                  None \<Rightarrow> (Opaque # ErrInvalidSSE, st2)
                | Some (v, i, t) \<Rightarrow>
                    (let (e3, st3) = writeChatFrame env (chunk_frame env v) (commit env st2) in
                     if e3 \<noteq> [] then (e3, st3)
                     else relay_loop env alias fin rest (count_event i t st3)))))"
  by auto
termination
  by (relation "measure (\<lambda>(env, alias, fin, s, st). length s)")
     (auto dest: readSSEData_decreases [OF sym])

declare relay_loop.simps [simp del]

definition RelayChatCompletions ::
    "relay_env \<Rightarrow> string \<Rightarrow> stream_end \<Rightarrow> bytes \<Rightarrow> goerror \<times> relay_state" where
  "RelayChatCompletions env alias fin s =
     (if flusher env then relay_loop env alias fin s start_state
      else (ErrStreamingUnsupported, start_state))"

lemma readSSEData_error: "readSSEData fin event s = EvError e \<Longrightarrow> e \<noteq> []"
proof (induction fin event s rule: readSSEData.induct)
  case (1 fin event s)
  then show ?case
    by (cases "read_line s")
       (fastforce simp: readSSEData.simps [of fin event s] split: stream_end.splits if_splits option.splits)+
qed

section \<open>What the client is given\<close>

definition frames :: "relay_env \<Rightarrow> json list \<Rightarrow> bytes" where
  "frames env vs = concat (map (chunk_frame env) vs)"

definition names_model :: "string \<Rightarrow> json \<Rightarrow> bool" where
  "names_model alias v \<longleftrightarrow> (\<exists>fs. v = JObj fs \<and> map_of fs ''model'' = Some (JStr alias))"

lemma map_of_filter_other: "map_of (filter (\<lambda>f. fst f \<noteq> k) m) k = None"
  by (induction m) auto

lemma map_of_insort_key:
  "k \<notin> fst ` set fs \<Longrightarrow> map_of (insort_key fst (k, v) fs) k = Some v"
  by (induction fs) auto

lemma map_of_sort_key_unique:
  "map_of fs k = None \<Longrightarrow> map_of (sort_key fst ((k, v) # fs)) k = Some v"
  by (simp add: map_of_insort_key map_of_eq_None_iff)

lemma set_model_names: "names_model alias (set_model m alias)"
  unfolding names_model_def set_model_def
  by (rule exI, rule conjI [OF refl], rule map_of_sort_key_unique, rule map_of_filter_other)

lemma normalizeChunk_names: "normalizeChunk p alias = Some (v, i, t) \<Longrightarrow> names_model alias v"
  by (auto simp: normalizeChunk_def Let_def set_model_names split: option.splits if_splits)

definition relaying :: "relay_env \<Rightarrow> string \<Rightarrow> relay_state \<Rightarrow> bool" where
  "relaying env alias st \<longleftrightarrow>
     \<not> Completed (res st) \<and> Bytes (res st) = length (out st)
     \<and> (\<exists>vs. out st = frames env vs \<and> Events (res st) = length vs \<and> list_all (names_model alias) vs
          \<and> (Committed (res st) \<longleftrightarrow> vs \<noteq> []))"

text \<open>What holds when the relay returns: \<open>vs\<close> are the chunks it began to send.\<close>

definition relayed :: "relay_env \<Rightarrow> string \<Rightarrow> goerror \<Rightarrow> relay_state \<Rightarrow> bool" where
  "relayed env alias e st \<longleftrightarrow>
     (e = [] \<longleftrightarrow> Completed (res st))
     \<and> (\<exists>vs. prefix (out st) (frames env vs @ done_frame) \<and> list_all (names_model alias) vs
          \<and> (Committed (res st) \<longleftrightarrow> vs \<noteq> [])
          \<and> (\<not> Committed (res st) \<longrightarrow> out st = [] \<and> Events (res st) = 0)
          \<and> (Completed (res st) \<longrightarrow>
               out st = frames env vs @ done_frame \<and> Events (res st) = length vs \<and> vs \<noteq> []))"

lemma relaying_relayed: "relaying env alias st \<Longrightarrow> e \<noteq> [] \<Longrightarrow> relayed env alias e st"
  unfolding relaying_def relayed_def
  by (elim conjE exE, intro conjI exI) (auto simp: frames_def)

lemma ctx_err_relaying:
  "ctx_err env st = (e, st') \<Longrightarrow> relaying env alias st \<Longrightarrow> relaying env alias st'"
  by (auto simp: ctx_err_def relaying_def)

lemma frames_Nil [simp]: "frames env [] = []"
  by (simp add: frames_def)

lemma frames_snoc: "frames env (vs @ [v]) = frames env vs @ chunk_frame env v"
  by (simp add: frames_def)

lemma write_ok:
  "writeChatFrame env f s = ([], s') \<Longrightarrow>
   out s' = out s @ f \<and> Bytes (res s') = Bytes (res s) + length f \<and> Events (res s') = Events (res s)
   \<and> Committed (res s') = Committed (res s) \<and> Completed (res s') = Completed (res s)"
  by (auto simp: writeChatFrame_def Let_def ErrShortWrite_def split: prod.splits if_splits)

lemma write_fail:
  "writeChatFrame env f s = (e, s') \<Longrightarrow>
   prefix (out s') (out s @ f) \<and> Committed (res s') = Committed (res s)
   \<and> Completed (res s') = Completed (res s) \<and> Events (res s') = Events (res s)"
  by (auto simp: writeChatFrame_def Let_def take_is_prefix split: prod.splits if_splits)

lemma chunk_sent:
  assumes "relaying env alias st" and "names_model alias v"
    and "writeChatFrame env (chunk_frame env v) (commit env st) = (e, st')"
  shows "e = [] \<Longrightarrow> relaying env alias (count_event i t st')"
    and "e \<noteq> [] \<Longrightarrow> relayed env alias e st'"
proof -
  obtain vs where vs: "out st = frames env vs" "Events (res st) = length vs" "list_all (names_model alias) vs"
    "Committed (res st) \<longleftrightarrow> vs \<noteq> []" "\<not> Completed (res st)" "Bytes (res st) = length (out st)"
    using assms(1) by (auto simp: relaying_def)
  have c: "Committed (res (commit env st))" "out (commit env st) = out st"
    "Events (res (commit env st)) = Events (res st)" "\<not> Completed (res (commit env st))"
    "Bytes (res (commit env st)) = Bytes (res st)"
    using vs(5) by (simp_all add: commit_def)
  show "relaying env alias (count_event i t st')" if "e = []"
    using write_ok [of env _ "commit env st" st'] assms(2,3) c vs that
    by (auto simp: relaying_def count_event_def frames_snoc frames_snoc [of _ "[]", simplified] intro!: exI [of _ "vs @ [v]"])
  show "relayed env alias e st'" if "e \<noteq> []"
    using write_fail [OF assms(3)] assms(2) c vs that
    by (auto simp: relayed_def frames_snoc frames_snoc [of _ "[]", simplified] intro!: exI [of _ "vs @ [v]"] prefix_prefix)
qed

lemma done_sent:
  assumes "relaying env alias st" and "Committed (res st)"
    and "writeChatFrame env done_frame st = (e, st')"
  shows "e = [] \<Longrightarrow> relayed env alias [] (st'\<lparr>res := (res st')\<lparr>Completed := True\<rparr>\<rparr>)"
    and "e \<noteq> [] \<Longrightarrow> relayed env alias e st'"
proof -
  obtain vs where vs: "out st = frames env vs" "Events (res st) = length vs" "list_all (names_model alias) vs"
    "vs \<noteq> []" "\<not> Completed (res st)"
    using assms(1,2) by (auto simp: relaying_def)
  show "relayed env alias [] (st'\<lparr>res := (res st')\<lparr>Completed := True\<rparr>\<rparr>)" if "e = []"
    using write_ok [of env done_frame st st'] assms vs that
    by (auto simp: relayed_def intro!: exI [of _ vs])
  show "relayed env alias e st'" if "e \<noteq> []"
    using write_fail [OF assms(3)] assms(2) vs that by (auto simp: relayed_def intro!: exI [of _ vs])
qed

lemma relay_loop_relayed:
  "relaying env al st \<Longrightarrow> relay_loop env al fin s st = (e, st') \<Longrightarrow> relayed env al e st'"
proof (induction env al fin s st arbitrary: e st' rule: relay_loop.induct)
  case (1 env al fin s st)
  note errs = ErrIncompleteStream_def ErrEmptyUpstream_def ErrInvalidSSE_def
  obtain e1 st1 where c1: "ctx_err env st = (e1, st1)" by (cases "ctx_err env st")
  obtain e2 st2 where c2: "ctx_err env st1 = (e2, st2)" by (cases "ctx_err env st1")
  have ok1: "relaying env al st1" and ok2: "relaying env al st2"
    using 1(2) c1 c2 by (auto intro: ctx_err_relaying)
  note unfold = relay_loop.simps [of env al fin s st] c1 c2
  show ?case
  proof (cases "e1 = [] \<and> e2 = []")
    case False
    then show ?thesis
      using 1(3) ok1 ok2 by (auto simp: unfold Let_def intro!: relaying_relayed split: if_splits)
  next
    case True
    show ?thesis
    proof (cases "readSSEData fin [] s")
      case (EvData payload rest)
      show ?thesis
      proof (cases "payload = ''[DONE]''")
        case True
        with \<open>e1 = [] \<and> e2 = []\<close> EvData 1(3) ok2 show ?thesis
          by (auto simp: unfold Let_def errs split: if_splits prod.splits
              intro: relaying_relayed done_sent)
      next
        case False
        show ?thesis
        proof (cases "normalizeChunk payload al")
          case None
          with False True EvData 1(3) ok2 show ?thesis
            by (auto simp: unfold Let_def intro!: relaying_relayed)
        next
          case (Some x)
          obtain v i t where x: "x = (v, i, t)" by (cases x)
          obtain e3 st3 where w: "writeChatFrame env (chunk_frame env v) (commit env st2) = (e3, st3)"
            by (cases "writeChatFrame env (chunk_frame env v) (commit env st2)")
          have v: "names_model al v" using Some x by (auto intro: normalizeChunk_names)
          show ?thesis
          proof (cases "e3 = []")
            case True
            have "relaying env al (count_event i t st3)" by (rule chunk_sent(1) [OF ok2 v w True])
            moreover have "relay_loop env al fin rest (count_event i t st3) = (e, st')"
              using 1(3) \<open>e1 = [] \<and> e2 = []\<close> EvData False Some x w True by (simp add: unfold Let_def)
            ultimately show ?thesis
              using \<open>e1 = [] \<and> e2 = []\<close> EvData False Some x w True c1 c2
              by (intro 1(1) [OF refl c1 [symmetric] _ refl refl c2 [symmetric] _ EvData False Some x [symmetric]
                  refl refl w [symmetric]]) simp_all
          next
            case nonempty: False
            with chunk_sent(2) [OF ok2 v w nonempty] 1(3) True EvData False Some x w show ?thesis
              by (auto simp: unfold Let_def)
          qed
        qed
      qed
    next
      case EvEOF
      with True 1(3) ok2 show ?thesis
        by (auto simp: unfold Let_def errs split: if_splits intro!: relaying_relayed)
    next
      case EvInvalid
      with True 1(3) ok2 show ?thesis
        by (auto simp: unfold Let_def errs intro!: relaying_relayed)
    next
      case (EvError e0)
      then have "e0 \<noteq> []" using readSSEData_error by blast
      with True 1(3) ok2 EvError show ?thesis
        by (auto simp: unfold Let_def intro!: relaying_relayed)
    qed
  qed
qed

lemma relay_relayed:
  "RelayChatCompletions env al fin s = (e, st) \<Longrightarrow> relayed env al e st"
proof -
  have start: "relaying env al start_state"
    by (auto simp: relaying_def start_state_def zero_result_def frames_def)
  then show "RelayChatCompletions env al fin s = (e, st) \<Longrightarrow> relayed env al e st"
    using relay_loop_relayed [OF start] relaying_relayed [OF start]
    by (auto simp: RelayChatCompletions_def ErrStreamingUnsupported_def split: if_splits)
qed


lemma read_line_step:
  assumes "newline \<notin> set line" and "line = [] \<or> last line \<noteq> carriage"
  shows "read_line (line @ newline # rest) = Some (line, rest)"
proof -
  have "takeWhile (\<lambda>c. c \<noteq> newline) (line @ newline # rest) = line"
    "dropWhile (\<lambda>c. c \<noteq> newline) (line @ newline # rest) = newline # rest"
    using assms(1) by (auto simp: takeWhile_append dropWhile_append)
  with assms(2) show ?thesis by (auto simp: read_line_def Let_def)
qed

lemma data_field_data: "data_field (data_prefix @ v) = Some v"
  by (simp add: data_field_def data_prefix_def trim_prefix_def has_prefix_def)

definition wire_text :: "bytes \<Rightarrow> bool" where
  "wire_text p \<longleftrightarrow> newline \<notin> set p \<and> carriage \<notin> set p \<and> length p + 7 \<le> maxSSEEventBytes"

lemma newline_char: "newline = CHR 0x0A" "carriage = CHR 0x0D"
  by code_simp+

lemma data_prefix_wire: "newline \<notin> set data_prefix" "carriage \<notin> set data_prefix" "length data_prefix = 6"
  by (simp_all add: data_prefix_def newline_char)

lemma last_data_prefix: "carriage \<notin> set p \<Longrightarrow> last (data_prefix @ p) \<noteq> carriage"
  using data_prefix_wire(2) by (metis Un_iff append_is_Nil_conv last_in_set length_0_conv
      data_prefix_wire(3) set_append zero_neq_numeral)

lemma read_frame:
  assumes "wire_text p"
  shows "readSSEData fin [] (data_prefix @ p @ newline # newline # rest) = EvData p rest"
proof -
  have line: "read_line (data_prefix @ p @ newline # newline # rest) = Some (data_prefix @ p, newline # rest)"
    using read_line_step [of "data_prefix @ p" "newline # rest"] assms data_prefix_wire last_data_prefix [of p]
    by (auto simp: wire_text_def)
  have blank: "read_line (newline # rest) = Some ([], rest)"
    using read_line_step [of "[]" rest] by simp
  have len: "length (data_prefix @ p) \<le> maxSSEEventBytes" "Suc (length p) \<le> maxSSEEventBytes"
    using assms data_prefix_wire(3) by (simp_all add: wire_text_def)
  have ne: "data_prefix @ p \<noteq> []" by (simp add: data_prefix_def)
  have "readSSEData fin [] (data_prefix @ p @ newline # newline # rest) =
      readSSEData fin (p @ [newline]) (newline # rest)"
    using line len ne data_field_data [of p]
    by (subst readSSEData.simps) (auto simp: not_less)
  also have "\<dots> = EvData p rest"
    by (subst readSSEData.simps) (simp add: blank)
  finally show ?thesis .
qed

text \<open>
  framing round trip: an upstream or client that reads a frame the relay wrote with the code's
  own event reader gets back exactly the payload and the bytes after the frame, provided the
  encoder writes no line end and the frame fits the event limit.
\<close>

theorem frame_roundtrip:
  assumes "wire_text (marshal env v)"
  shows "readSSEData fin [] (chunk_frame env v @ rest) = EvData (marshal env v) rest"
  using read_frame [OF assms] by (simp add: chunk_frame_def)

definition plain_env :: relay_env where
  "plain_env = \<lparr>flusher = True, write_answer = (\<lambda>k data. (length data, [])), context_err = (\<lambda>k. []),
     time_now = 0, marshal = (\<lambda>v. ''{}'')\<rparr>"

lemma frame_roundtrip_witness:
  "readSSEData EndEOF [] (chunk_frame plain_env (JObj []) @ done_frame) = EvData ''{}'' done_frame"
proof -
  have "wire_text (marshal plain_env (JObj []))"
    by (simp add: plain_env_def wire_text_def newline_char maxSSEEventBytes_def)
  from frame_roundtrip [OF this, of EndEOF done_frame] show ?thesis by (simp add: plain_env_def)
qed

text \<open>An environment in which nothing interferes with the relay.\<close>

definition quiet :: "relay_env \<Rightarrow> bool" where
  "quiet env \<longleftrightarrow>
     flusher env \<and> (\<forall>k. context_err env k = []) \<and> (\<forall>k d. write_answer env k d = (length d, []))"

definition wire :: "bytes list \<Rightarrow> bytes" where
  "wire ps = concat (map (\<lambda>p. data_prefix @ p @ [newline, newline]) ps)"

lemma wire_Cons: "wire (p # ps) @ r = data_prefix @ p @ newline # newline # (wire ps @ r)"
  by (simp add: wire_def)

lemma relay_quiet:
  assumes "quiet env" and "list_all wire_text ps" and "list_all (\<lambda>p. p \<noteq> ''[DONE]'') ps"
    and "list_all2 (\<lambda>p v. \<exists>i t. normalizeChunk p al = Some (v, i, t)) ps vs"
    and "Committed (res st) \<or> ps \<noteq> []" and "\<not> Completed (res st)"
  shows "\<exists>st'. relay_loop env al fin (wire ps @ done_frame) st = ([], st')
    \<and> out st' = out st @ frames env vs @ done_frame"
  using assms(2-6)
proof (induction ps arbitrary: vs st)
  case Nil
  have "wire_text ''[DONE]''" by (simp add: wire_text_def newline_char maxSSEEventBytes_def)
  from read_frame [OF this, of fin "[]"] have "readSSEData fin [] done_frame = EvData ''[DONE]'' []"
    by (simp add: done_frame_def)
  with Nil assms(1) show ?case
    by (subst relay_loop.simps) (simp add: wire_def ctx_err_def quiet_def writeChatFrame_def Let_def)
next
  case (Cons p ps)
  then obtain v vs' i t where v: "vs = v # vs'" "normalizeChunk p al = Some (v, i, t)"
    "list_all2 (\<lambda>p v. \<exists>i t. normalizeChunk p al = Some (v, i, t)) ps vs'"
    by (auto simp: list_all2_Cons1)
  have rd: "readSSEData fin [] (wire (p # ps) @ done_frame) = EvData p (wire ps @ done_frame)"
    using Cons.prems(1) unfolding wire_Cons by (intro read_frame) simp
  define st2 where "st2 = snd (ctx_err env (snd (ctx_err env st)))"
  define st3 where "st3 = snd (writeChatFrame env (chunk_frame env v) (commit env st2))"
  have st3: "writeChatFrame env (chunk_frame env v) (commit env st2) = ([], st3)"
    using assms(1) by (simp add: st3_def writeChatFrame_def quiet_def Let_def)
  have comm: "Committed (res (count_event i t st3))" "\<not> Completed (res (count_event i t st3))"
    "out (count_event i t st3) = out st @ chunk_frame env v"
    using write_ok [OF st3] Cons.prems(5)
    by (auto simp: count_event_def commit_def st2_def ctx_err_def)
  obtain st' where st': "relay_loop env al fin (wire ps @ done_frame) (count_event i t st3) = ([], st')"
    "out st' = out (count_event i t st3) @ frames env vs' @ done_frame"
    using Cons.IH [of vs' "count_event i t st3"] Cons.prems(1,2) v(3) comm(1,2) by auto
  have "relay_loop env al fin (wire (p # ps) @ done_frame) st =
      relay_loop env al fin (wire ps @ done_frame) (count_event i t st3)"
    using assms(1) Cons.prems(2) v(2) st3 rd
    by (subst relay_loop.simps) (simp add: st2_def ctx_err_def quiet_def Let_def)
  with st' comm(3) v(1) show ?case by (simp add: frames_def)
qed

text \<open>
  a well-formed upstream stream passes through completely: from frames of valid chunks closed
  by the end marker, with a writer that takes everything and a context that stays alive, the relay
  returns no error and the client is given the normalised frames in order and the end marker.
\<close>

theorem relay_passes_valid_stream:
  assumes "quiet env" and "ps \<noteq> []" and "list_all wire_text ps" and "list_all (\<lambda>p. p \<noteq> ''[DONE]'') ps"
    and "list_all2 (\<lambda>p v. \<exists>i t. normalizeChunk p al = Some (v, i, t)) ps vs"
  shows "\<exists>st. RelayChatCompletions env al fin (wire ps @ done_frame) = ([], st)
    \<and> out st = frames env vs @ done_frame"
  using relay_quiet [OF assms(1,3-5), of start_state fin] assms(1,2)
  by (auto simp: RelayChatCompletions_def quiet_def start_state_def zero_result_def)

definition quoted :: "string \<Rightarrow> bytes" where
  "quoted s = CHR 0x22 # s @ [CHR 0x22]"

definition example_chunk :: bytes where
  "example_chunk = ''{'' @ quoted ''id'' @ '':'' @ quoted ''c1'' @ '','' @ quoted ''object'' @ '':''
     @ quoted ''chat.completion.chunk'' @ '','' @ quoted ''choices'' @ '':[]}''"

definition example_norm :: json where
  "example_norm = JObj [(''choices'', JArr []), (''id'', JStr ''c1''), (''model'', JStr ''public''),
     (''object'', JStr ''chat.completion.chunk'')]"

lemma example_stream:
  "quiet plain_env" "list_all wire_text [example_chunk]" "list_all (\<lambda>p. p \<noteq> ''[DONE]'') [example_chunk]"
  "list_all2 (\<lambda>p v. \<exists>i t. normalizeChunk p ''public'' = Some (v, i, t)) [example_chunk] [example_norm]"
proof -
  show "quiet plain_env" by (simp add: quiet_def plain_env_def)
  show "list_all wire_text [example_chunk]"
    by (simp add: wire_text_def maxSSEEventBytes_def newline_char example_chunk_def quoted_def)
  show "list_all (\<lambda>p. p \<noteq> ''[DONE]'') [example_chunk]" by code_simp
  have "normalizeChunk example_chunk ''public'' = Some (example_norm, None, None)" by code_simp
  then show "list_all2 (\<lambda>p v. \<exists>i t. normalizeChunk p ''public'' = Some (v, i, t)) [example_chunk] [example_norm]"
    by (intro list.rel_intros exI)
qed

lemma example_relay:
  "\<exists>st. RelayChatCompletions plain_env ''public'' EndEOF (wire [example_chunk] @ done_frame) = ([], st)"
  using relay_quiet [OF example_stream, of start_state EndEOF] example_stream(1)
  by (auto simp: RelayChatCompletions_def quiet_def start_state_def zero_result_def)

lemma relay_passes_valid_stream_witness:
  "\<exists>st. RelayChatCompletions plain_env ''public'' EndEOF (wire [example_chunk] @ done_frame) = ([], st)
    \<and> out st = frames plain_env [example_norm] @ done_frame"
  by (rule relay_passes_valid_stream [OF example_stream(1) _ example_stream(2-4)]) simp


end
