(* ===== verification/Engine.thy ===== *)
theory Engine
  imports ChatRequest GoError
begin

text \<open>
  The routing engine of \<open>internal/router\<close>: the snapshot types of \<open>snapshot.go\<close>, and
  \<open>engine.go\<close>: \<open>Run\<close> tries the eligible destinations of a snapshot in order, classifies every
  attempt, and falls back only where the request cannot have been served.

  The world \<open>'w\<close> is what the engine does not own. \<open>engine_env\<close> is how it is met: the clock, the
  error of the incoming context and of a context with a given deadline, and the executor's
  \<open>Execute\<close>, which is given the deadline of the attempt. An empty error chain is nil.
\<close>

section \<open>Snapshots\<close>

record destination =
  ID :: string
  dest_Name :: string
  ModelID :: string
  ProviderModelID :: string
  ConnectionID :: string
  BaseURL :: string
  Adapter :: string
  AllowPrivateNetwork :: bool
  CredentialID :: string
  SecretID :: string
  SecretName :: string
  EgressID :: string
  EgressType :: string
  Weight :: int
  Capabilities :: "string list"
  ExclusionReasons :: "string list"

record snapshot =
  ConfigRevision :: int
  RouteID :: string
  Alias :: string
  StrategyID :: string
  StrategyVersionID :: string
  StrategyVersion :: int
  MaxAttempts :: int
  AttemptTimeout :: duration
  TotalTimeout :: duration
  Destinations :: "destination list"

definition Eligible :: "destination \<Rightarrow> bool" where
  "Eligible d \<longleftrightarrow> ExclusionReasons d = []"

section \<open>Attempts\<close>

record upstream_result =
  StatusCode :: int
  ContentType :: string
  up_RetryAfter :: string
  up_ProviderRequestID :: string
  Body :: bytes
  up_InputTokens :: "int option"
  up_OutputTokens :: "int option"

definition zero_upstream :: upstream_result where
  "zero_upstream = \<lparr>StatusCode = 0, ContentType = [], up_RetryAfter = [], up_ProviderRequestID = [],
     Body = [], up_InputTokens = None, up_OutputTokens = None\<rparr>"

record attempt =
  Sequence :: nat
  DestinationID :: string
  at_StatusCode :: int
  ErrorClass :: string
  Retryable :: bool
  FallbackReason :: string
  Outcome :: string
  ProviderRequestID :: string
  RetryAfter :: string
  StartedAt :: time
  CompletedAt :: time
  Duration :: duration

record run_result =
  Upstream :: upstream_result
  Attempts :: "attempt list"

record run_error =
  re_Code :: string
  re_Attempts :: "attempt list"
  re_Cause :: goerror

record 'w engine_env =
  clock :: "'w \<Rightarrow> time \<times> 'w"
  client_err :: "'w \<Rightarrow> goerror"
  timer_err :: "time \<Rightarrow> 'w \<Rightarrow> goerror"
  execute :: "destination \<Rightarrow> request \<Rightarrow> string \<Rightarrow> time \<Rightarrow> 'w \<Rightarrow> (upstream_result \<times> goerror) \<times> 'w"

text \<open>The error of a context derived from the incoming one with a deadline.\<close>

definition context_error :: "('w, 'a) engine_env_scheme \<Rightarrow> time \<Rightarrow> 'w \<Rightarrow> goerror" where
  "context_error env deadline w =
     (if client_err env w \<noteq> [] then client_err env w else timer_err env deadline w)"

definition new_attempt ::
    "nat \<Rightarrow> string \<Rightarrow> int \<Rightarrow> string \<Rightarrow> string \<Rightarrow> time \<Rightarrow> time \<Rightarrow> attempt" where
  "new_attempt seq dest status request_id retry_after started completed =
     \<lparr>Sequence = seq, DestinationID = dest, at_StatusCode = status, ErrorClass = [], Retryable = False,
      FallbackReason = [], Outcome = ''error'', ProviderRequestID = request_id, RetryAfter = retry_after,
      StartedAt = started, CompletedAt = completed, Duration = completed - started\<rparr>"

text \<open>
  \<open>classifyAttempt\<close>: \<open>parent\<close> and \<open>expired\<close> (the total timeout's) say whether those contexts have an error. The results
  are whether to fall back, the code of the run when not, and the attempt filled in.
\<close>

definition classifyAttempt ::
    "bool \<Rightarrow> bool \<Rightarrow> goerror \<Rightarrow> int \<Rightarrow> attempt \<Rightarrow> bool \<times> string \<times> attempt" where
  "classifyAttempt parent expired err status a =
     (if parent then
        (False, ''request_cancelled'', a\<lparr>ErrorClass := ''client_cancelled'', Outcome := ''cancelled''\<rparr>)
      else if expired then
        (False, ''total_timeout'', a\<lparr>ErrorClass := ''total_timeout'', Outcome := ''indeterminate''\<rparr>)
      else if err \<noteq> [] then
        (case errors_as err of
           Some (code, written) \<Rightarrow>
             if code = ''transport_error'' then
               (if \<not> written then
                  (True, [], a\<lparr>ErrorClass := code, Retryable := True, FallbackReason := ''transport_pre_send''\<rparr>)
                else (False, ''indeterminate_upstream'', a\<lparr>ErrorClass := code, Outcome := ''indeterminate''\<rparr>))
             else if code = ''invalid_response'' \<or> code = ''response_too_large'' then
               (True, [], a\<lparr>ErrorClass := code, Retryable := True, FallbackReason := code\<rparr>)
             else (False, code, a\<lparr>ErrorClass := code\<rparr>)
         | None \<Rightarrow>
             if errors_is err DeadlineExceeded then
               (False, ''indeterminate_upstream'', a\<lparr>ErrorClass := ''attempt_timeout'', Outcome := ''indeterminate''\<rparr>)
             else (False, ''upstream_error'', a\<lparr>ErrorClass := ''unclassified_error''\<rparr>))
      else if status = 429 then
        (True, [], a\<lparr>ErrorClass := ''provider_status'', Retryable := True, FallbackReason := ''rate_limited''\<rparr>)
      else if status = 500 \<or> status = 502 \<or> status = 503 \<or> status = 504 then
        (True, [], a\<lparr>ErrorClass := ''provider_status'', Retryable := True, FallbackReason := ''provider_transient''\<rparr>)
      else (False, ''provider_error'', a\<lparr>ErrorClass := ''provider_status''\<rparr>))"

definition terminalContextError :: "bool \<Rightarrow> goerror \<Rightarrow> attempt list \<Rightarrow> run_error" where
  "terminalContextError parent err attempts =
     \<lparr>re_Code = (if parent then ''request_cancelled'' else ''total_timeout''), re_Attempts = attempts,
      re_Cause = err\<rparr>"

section \<open>Runs\<close>

definition ok_status :: "int \<Rightarrow> bool" where
  "ok_status s \<longleftrightarrow> 200 \<le> s \<and> s < 300"

text \<open>The loop over the first \<open>limit\<close> eligible destinations, \<open>i\<close> of them already tried.\<close>

fun run_loop ::
    "'w engine_env \<Rightarrow> snapshot \<Rightarrow> request \<Rightarrow> time \<Rightarrow> nat \<Rightarrow> destination list \<Rightarrow> run_result \<Rightarrow> 'w
     \<Rightarrow> (run_result \<times> run_error option) \<times> 'w" where
  "run_loop env snap req total_dl i [] r w =
     ((r, Some \<lparr>re_Code = ''fallback_exhausted'', re_Attempts = Attempts r, re_Cause = []\<rparr>), w)"
| "run_loop env snap req total_dl i (d # ds) r w =
     (let err = context_error env total_dl w in
      if err \<noteq> [] then ((r, Some (terminalContextError (client_err env w \<noteq> []) err (Attempts r))), w)
      else
        let (now, w1) = clock env w;
            deadline = min total_dl (now + AttemptTimeout snap);
            (started, w2) = clock env w1;
            ((upstream, execute_err), w3) = execute env d req (Alias snap) deadline w2;
            (completed, w4) = clock env w3;
            a = new_attempt (Suc i) (ID d) (StatusCode upstream) (up_ProviderRequestID upstream)
                  (up_RetryAfter upstream) started completed;
            (retry, code, a') = classifyAttempt (client_err env w4 \<noteq> []) (context_error env total_dl w4 \<noteq> [])
                  execute_err (StatusCode upstream) a
        in if execute_err = [] \<and> ok_status (StatusCode upstream) then
             ((\<lparr>Upstream = upstream, Attempts = Attempts r @ [a'\<lparr>Outcome := ''success''\<rparr>]\<rparr>, None), w4)
           else
             let r' = \<lparr>Upstream = upstream, Attempts = Attempts r @ [a']\<rparr> in
             if \<not> retry then
               ((r', Some \<lparr>re_Code = code, re_Attempts = Attempts r', re_Cause = execute_err\<rparr>), w4)
             else if ds = [] then
               ((r', Some \<lparr>re_Code = ''fallback_exhausted'', re_Attempts = Attempts r', re_Cause = execute_err\<rparr>), w4)
             else run_loop env snap req total_dl (Suc i) ds r' w4)"

declare run_loop.simps(2) [simp del]

definition eligible :: "snapshot \<Rightarrow> destination list" where
  "eligible snap = filter Eligible (Destinations snap)"

definition attempt_limit :: "snapshot \<Rightarrow> nat" where
  "attempt_limit snap = min (nat (MaxAttempts snap)) (length (eligible snap))"

definition empty_result :: run_result where
  "empty_result = \<lparr>Upstream = zero_upstream, Attempts = []\<rparr>"

definition refuse :: "string \<Rightarrow> run_result \<times> run_error option" where
  "refuse code = (empty_result, Some \<lparr>re_Code = code, re_Attempts = [], re_Cause = []\<rparr>)"

definition Run ::
    "'w engine_env \<Rightarrow> snapshot \<Rightarrow> request \<Rightarrow> 'w \<Rightarrow> (run_result \<times> run_error option) \<times> 'w" where
  "Run env snap req w =
     (if MaxAttempts snap < 1 \<or> AttemptTimeout snap \<le> 0 \<or> TotalTimeout snap \<le> 0 then
        (refuse ''invalid_router_snapshot'', w)
      else if StreamFlag req then (refuse ''streaming_not_supported'', w)
      else if eligible snap = [] then (refuse ''no_eligible_destination'', w)
      else
        let (now, w1) = clock env w in
        run_loop env snap req (now + TotalTimeout snap) 0 (take (attempt_limit snap) (eligible snap))
          empty_result w1)"

section \<open>Which attempts fall back\<close>

text \<open>
  The outcomes after which a second destination may be tried: the request never left, the upstream
  answered with an unusable response, or it answered that it has not served the request.
\<close>

definition safe_outcome :: "goerror \<Rightarrow> int \<Rightarrow> bool" where
  "safe_outcome err status \<longleftrightarrow>
     (if err = [] then status \<in> {429, 500, 502, 503, 504}
      else errors_as err = Some (''transport_error'', False)
        \<or> (\<exists>written. errors_as err \<in> {Some (''invalid_response'', written), Some (''response_too_large'', written)}))"

definition fallback_reasons :: "string set" where
  "fallback_reasons = {''transport_pre_send'', ''invalid_response'', ''response_too_large'', ''rate_limited'',
     ''provider_transient''}"

text \<open>Every branch of \<open>classifyAttempt\<close>, as a case rule for its result.\<close>

lemma classify_cases:
  assumes "classifyAttempt p t err st a = (retry, code, a')"
  obtains
    (cancelled) "p" "\<not> retry" "a' = a\<lparr>ErrorClass := ''client_cancelled'', Outcome := ''cancelled''\<rparr>"
      "code = ''request_cancelled''"
  | (timeout) "\<not> p" "t" "\<not> retry" "a' = a\<lparr>ErrorClass := ''total_timeout'', Outcome := ''indeterminate''\<rparr>"
      "code = ''total_timeout''"
  | (fallback) reason cls where "\<not> p" "\<not> t" "retry" "safe_outcome err st" "reason \<in> fallback_reasons"
      "a' = a\<lparr>ErrorClass := cls, Retryable := True, FallbackReason := reason\<rparr>"
  | (written) "\<not> p" "\<not> t" "\<not> retry" "\<not> safe_outcome err st" "err \<noteq> []"
      "errors_as err = Some (''transport_error'', True)" "code = ''indeterminate_upstream''"
      "a' = a\<lparr>ErrorClass := ''transport_error'', Outcome := ''indeterminate''\<rparr>"
  | (failure) w where "\<not> p" "\<not> t" "\<not> retry" "\<not> safe_outcome err st" "err \<noteq> []" "errors_as err = Some (code, w)"
      "a' = a\<lparr>ErrorClass := code\<rparr>"
  | (deadline) "\<not> p" "\<not> t" "\<not> retry" "\<not> safe_outcome err st" "err \<noteq> []" "errors_as err = None"
      "code = ''indeterminate_upstream''"
      "a' = a\<lparr>ErrorClass := ''attempt_timeout'', Outcome := ''indeterminate''\<rparr>"
  | (unclassified) "\<not> p" "\<not> t" "\<not> retry" "\<not> safe_outcome err st" "err \<noteq> []" "errors_as err = None"
      "code = ''upstream_error''" "a' = a\<lparr>ErrorClass := ''unclassified_error''\<rparr>"
  | (answered) "\<not> p" "\<not> t" "\<not> retry" "\<not> safe_outcome err st" "err = []" "code = ''provider_error''"
      "a' = a\<lparr>ErrorClass := ''provider_status''\<rparr>"
proof -
  note defs = classifyAttempt_def safe_outcome_def fallback_reasons_def
  consider (p) "p" | (t) "\<not> p" "t" | (ok) "\<not> p" "\<not> t" by blast
  then show thesis
  proof cases
    case p
    then show thesis by (intro that(1)) (use assms in \<open>simp_all add: classifyAttempt_def\<close>)
  next
    case t
    then show thesis by (intro that(2)) (use assms in \<open>auto simp add: classifyAttempt_def\<close>)
  next
    case ok
    show thesis
    proof (cases "err = []")
      case True
      consider "st = 429" | "st = 500 \<or> st = 502 \<or> st = 503 \<or> st = 504"
        | "st \<noteq> 429" "st \<noteq> 500" "st \<noteq> 502" "st \<noteq> 503" "st \<noteq> 504" by blast
      then show thesis
      proof cases
        case 1
        then show thesis
          by (intro that(3) [of "''rate_limited''" "''provider_status''"])
             (use assms ok True in \<open>simp_all add: defs\<close>)
      next
        case 2
        then show thesis
          by (intro that(3) [of "''provider_transient''" "''provider_status''"])
             (use assms ok True in \<open>auto simp add: defs\<close>)
      next
        case 3
        then show thesis
          by (intro that(8)) (use assms ok True in \<open>simp_all add: defs\<close>)
      qed
    next
      case nonempty: False
      show thesis
      proof (cases "errors_as err")
        case None
        show thesis
        proof (cases "errors_is err DeadlineExceeded")
          case True
          with None show thesis by (intro that(6)) (use assms ok nonempty in \<open>simp_all add: defs\<close>)
        next
          case False
          with None show thesis by (intro that(7)) (use assms ok nonempty in \<open>simp_all add: defs\<close>)
        qed
      next
        case (Some cw)
        then obtain c w where cw: "errors_as err = Some (c, w)" by (cases cw) simp
        consider "c = ''transport_error''" "w" | "c = ''transport_error''" "\<not> w"
          | "c = ''invalid_response''" | "c = ''response_too_large''"
          | "c \<noteq> ''transport_error''" "c \<noteq> ''invalid_response''" "c \<noteq> ''response_too_large''" by blast
        then show thesis
        proof cases
          case 1
          with cw show thesis by (intro that(4)) (use assms ok nonempty in \<open>simp_all add: defs\<close>)
        next
          case 2
          with cw show thesis
            by (intro that(3) [of "''transport_pre_send''" c]) (use assms ok nonempty in \<open>simp_all add: defs\<close>)
        next
          case 3
          with cw show thesis by (intro that(3) [of c c]) (use assms ok nonempty in \<open>simp_all add: defs\<close>)
        next
          case 4
          with cw show thesis by (intro that(3) [of c c]) (use assms ok nonempty in \<open>simp_all add: defs\<close>)
        next
          case 5
          with cw show thesis by (intro that(5) [of w]) (use assms ok nonempty in \<open>auto simp add: defs\<close>)
        qed
      qed
    qed
  qed
qed

lemma classify_retry_iff:
  "classifyAttempt p t err st a = (retry, code, a') \<Longrightarrow> retry \<longleftrightarrow> \<not> p \<and> \<not> t \<and> safe_outcome err st"
  by (erule classify_cases) simp_all

lemma classify_fields:
  "classifyAttempt p t err st a = (retry, code, a') \<Longrightarrow>
   Sequence a' = Sequence a \<and> DestinationID a' = DestinationID a \<and> StartedAt a' = StartedAt a
   \<and> CompletedAt a' = CompletedAt a \<and> at_StatusCode a' = at_StatusCode a \<and> Duration a' = Duration a"
  by (erule classify_cases) simp_all

lemma classify_retry_attempt:
  "classifyAttempt p t err st a = (True, code, a') \<Longrightarrow>
   Retryable a' \<and> FallbackReason a' \<in> fallback_reasons \<and> Outcome a' = Outcome a"
  by (erule classify_cases) simp_all

definition outcomes :: "string set" where
  "outcomes = {''success'', ''error'', ''partial'', ''cancelled'', ''indeterminate''}"

lemma classify_outcome:
  "classifyAttempt p t err st a = (retry, code, a') \<Longrightarrow> Outcome a \<in> outcomes \<Longrightarrow> Outcome a' \<in> outcomes"
  by (erule classify_cases) (simp_all add: outcomes_def)

lemma ok_status_unsafe: "ok_status st \<Longrightarrow> \<not> safe_outcome [] st"
  by (auto simp: ok_status_def safe_outcome_def)

section \<open>What a run does\<close>

text \<open>An attempt after which the run went on: it is safe to ask another destination.\<close>

definition retried :: "attempt \<Rightarrow> bool" where
  "retried a \<longleftrightarrow>
     Retryable a \<and> FallbackReason a \<in> fallback_reasons \<and> Outcome a = ''error''
     \<and> (\<exists>err. safe_outcome err (at_StatusCode a))"

definition trail :: "destination list \<Rightarrow> attempt list \<Rightarrow> bool" where
  "trail ts as \<longleftrightarrow> map DestinationID as = map ID ts \<and> map Sequence as = [1..<Suc (length ts)]"

definition ran :: "destination list \<Rightarrow> run_result \<Rightarrow> run_error option \<Rightarrow> bool" where
  "ran ds r e \<longleftrightarrow>
     (\<exists>ts. prefix ts ds \<and> trail ts (Attempts r))
     \<and> (\<forall>a\<in>set (butlast (Attempts r)). retried a) \<and> (\<forall>a\<in>set (Attempts r). Outcome a \<in> outcomes)
     \<and> (case e of
          None \<Rightarrow> Attempts r \<noteq> [] \<and> Outcome (last (Attempts r)) = ''success'' \<and> ok_status (StatusCode (Upstream r))
            \<and> ErrorClass (last (Attempts r)) \<noteq> []
        | Some x \<Rightarrow> re_Attempts x = Attempts r \<and> (\<forall>a\<in>set (Attempts r). Outcome a \<noteq> ''success''))"

lemma trail_snoc:
  "trail ts as \<Longrightarrow> DestinationID a = ID d \<Longrightarrow> Sequence a = Suc (length ts) \<Longrightarrow> trail (ts @ [d]) (as @ [a])"
  by (simp add: trail_def)

lemma retried_outcome: "retried a \<Longrightarrow> Outcome a \<in> outcomes \<and> Outcome a \<noteq> ''success''"
  by (auto simp: retried_def outcomes_def)

lemma ran_stop:
  assumes "trail ts as" "\<forall>a\<in>set as. retried a" "DestinationID a = ID d" "Sequence a = Suc (length ts)"
    and "Outcome a \<in> outcomes" "Attempts r = as @ [a]"
    and "case e of None \<Rightarrow> Outcome a = ''success'' \<and> ok_status (StatusCode (Upstream r)) \<and> ErrorClass a \<noteq> []
         | Some x \<Rightarrow> re_Attempts x = Attempts r \<and> Outcome a \<noteq> ''success''"
  shows "ran (ts @ d # ds) r e"
proof -
  have "prefix (ts @ [d]) (ts @ d # ds)" by simp
  moreover have "trail (ts @ [d]) (Attempts r)" using assms by (simp add: trail_snoc)
  ultimately have "\<exists>ts'. prefix ts' (ts @ d # ds) \<and> trail ts' (Attempts r)" by fastforce
  then show ?thesis
    using assms retried_outcome unfolding ran_def by (auto split: option.splits)
qed

lemma classify_not_success:
  "classifyAttempt p t err st a = (retry, code, a') \<Longrightarrow> Outcome a = ''error'' \<Longrightarrow>
   Outcome a' \<in> outcomes \<and> Outcome a' \<noteq> ''success'' \<and> (retry \<longrightarrow> Outcome a' = ''error'')"
  by (erule classify_cases) (simp_all add: outcomes_def)

lemma classify_answered_class:
  "classifyAttempt p t [] st a = (retry, code, a') \<Longrightarrow> ok_status st \<Longrightarrow> ErrorClass a' \<noteq> []"
  by (erule classify_cases) (simp_all add: ok_status_unsafe)

lemma run_loop_ran:
  assumes "trail ts (Attempts r)" and "\<forall>a\<in>set (Attempts r). retried a"
    and "run_loop env snap req dl (length ts) ds r w = ((r', e), w')"
  shows "ran (ts @ ds) r' e"
  using assms
proof (induction ds arbitrary: ts r w)
  case Nil
  then show ?case by (auto simp: ran_def retried_outcome dest: in_set_butlastD)
next
  case (Cons d ds)
  show ?case
  proof (cases "context_error env dl w = []")
    case False
    with Cons.prems have r: "r' = r" "\<exists>x. e = Some x \<and> re_Attempts x = Attempts r"
      by (auto simp: run_loop.simps(2) terminalContextError_def)
    moreover have "\<exists>ts'. prefix ts' (ts @ d # ds) \<and> trail ts' (Attempts r)"
      using Cons.prems(1) by (intro exI [of _ ts]) simp
    ultimately show ?thesis
      using Cons.prems(1,2) by (auto simp: ran_def retried_outcome dest: in_set_butlastD)
  next
    case True
    obtain now w1 where c1: "clock env w = (now, w1)" by (cases "clock env w")
    obtain started w2 where c2: "clock env w1 = (started, w2)" by (cases "clock env w1")
    let ?x = "execute env d req (Alias snap) (min dl (now + AttemptTimeout snap)) w2"
    obtain up err w3 where c3: "?x = ((up, err), w3)" by (metis prod.collapse)
    obtain completed w4 where c4: "clock env w3 = (completed, w4)" by (cases "clock env w3")
    let ?a = "new_attempt (Suc (length ts)) (ID d) (StatusCode up) (up_ProviderRequestID up)
        (up_RetryAfter up) started completed"
    obtain retry code a where cl: "classifyAttempt (client_err env w4 \<noteq> []) (context_error env dl w4 \<noteq> [])
        err (StatusCode up) ?a = (retry, code, a)" by (metis prod.collapse)
    have a: "DestinationID a = ID d" "Sequence a = Suc (length ts)" "at_StatusCode a = StatusCode up"
      using classify_fields [OF cl] by (simp_all add: new_attempt_def)
    have out: "Outcome a \<in> outcomes" "Outcome a \<noteq> ''success''" "retry \<longrightarrow> Outcome a = ''error''"
      using classify_not_success [OF cl] by (simp_all add: new_attempt_def)
    note step = run_loop.simps(2) c1 c2 c3 c4 cl True Let_def
    show ?thesis
    proof (cases "err = [] \<and> ok_status (StatusCode up)")
      case True
      then have "r' = \<lparr>Upstream = up, Attempts = Attempts r @ [a\<lparr>Outcome := ''success''\<rparr>]\<rparr>" "e = None"
        using Cons.prems(3) cl by (simp_all add: step)
      moreover have "ErrorClass a \<noteq> []"
        by (rule classify_answered_class [OF _ conjunct2 [OF True]]) (use cl True in \<open>simp only:\<close>)
      ultimately show ?thesis
        using True a Cons.prems(1,2)
        by (intro ran_stop [of ts "Attempts r" "a\<lparr>Outcome := ''success''\<rparr>"]) (simp_all add: outcomes_def)
    next
      case notok: False
      show ?thesis
      proof (cases "retry \<and> ds \<noteq> []")
        case False
        then obtain x where "r' = \<lparr>Upstream = up, Attempts = Attempts r @ [a]\<rparr>" "e = Some x"
          "re_Attempts x = Attempts r @ [a]"
          using Cons.prems(3) notok by (cases retry) (auto simp add: step)
        with a out Cons.prems(1,2) show ?thesis
          by (intro ran_stop [of ts "Attempts r" a]) simp_all
      next
        case True
        let ?r = "\<lparr>Upstream = up, Attempts = Attempts r @ [a]\<rparr>"
        have "retried a"
          using cl True out classify_retry_attempt [of _ _ _ _ _ code a] classify_retry_iff [OF cl] a(3)
          by (auto simp: retried_def)
        moreover have "run_loop env snap req dl (length (ts @ [d])) ds ?r w4 = ((r', e), w')"
          using Cons.prems(3) notok True by (simp add: step)
        moreover have "trail (ts @ [d]) (Attempts ?r)" using Cons.prems(1) a by (simp add: trail_snoc)
        ultimately have "ran ((ts @ [d]) @ ds) r' e"
          using Cons.prems(2) by (intro Cons.IH [of _ ?r w4]) auto
        then show ?thesis by simp
      qed
    qed
  qed
qed

lemma Run_ran:
  "fst (Run env snap req w) = (r, e) \<Longrightarrow> ran (take (attempt_limit snap) (eligible snap)) r e"
proof (cases "MaxAttempts snap < 1 \<or> AttemptTimeout snap \<le> 0 \<or> TotalTimeout snap \<le> 0 \<or> StreamFlag req
    \<or> eligible snap = []")
  case True
  have refused: "ran ds empty_result (Some \<lparr>re_Code = c, re_Attempts = [], re_Cause = []\<rparr>)" for ds c
    by (auto simp: ran_def empty_result_def trail_def intro: exI [of _ "[]"])
  assume "fst (Run env snap req w) = (r, e)"
  with True refused show ?thesis
    by (auto simp: Run_def refuse_def split: if_splits)
next
  case False
  assume "fst (Run env snap req w) = (r, e)"
  with False obtain now w1 where "fst (run_loop env snap req (now + TotalTimeout snap) (length ([] :: destination list))
      (take (attempt_limit snap) (eligible snap)) empty_result w1) = (r, e)"
    by (auto simp: Run_def Let_def split: prod.splits)
  then obtain w' where "run_loop env snap req (now + TotalTimeout snap) (length ([] :: destination list))
      (take (attempt_limit snap) (eligible snap)) empty_result w1 = ((r, e), w')"
    by (metis prod.collapse)
  from run_loop_ran [OF _ _ this] show ?thesis
    by (simp add: trail_def empty_result_def)
qed

text \<open>
  C21: a run tries the eligible destinations of the snapshot in their order, without gap or
  repetition, at most \<open>MaxAttempts\<close> of them, and records the attempts with sequence numbers
  1, 2, ...; it goes on after an attempt only if that attempt was retryable, failed, and cannot
  have been served; it reports no error exactly when its last attempt was answered with a 2xx.
\<close>

theorem run_attempts:
  "case fst (Run env snap req w) of (r, e) \<Rightarrow>
     (\<exists>ts. prefix ts (take (attempt_limit snap) (eligible snap))
        \<and> map DestinationID (Attempts r) = map ID ts
        \<and> map Sequence (Attempts r) = [1..<Suc (length ts)])
     \<and> (\<forall>a\<in>set (butlast (Attempts r)). retried a)
     \<and> (case e of
          None \<Rightarrow> Attempts r \<noteq> [] \<and> Outcome (last (Attempts r)) = ''success'' \<and> ok_status (StatusCode (Upstream r))
        | Some x \<Rightarrow> re_Attempts x = Attempts r \<and> (\<forall>a\<in>set (Attempts r). Outcome a \<noteq> ''success''))"
  using Run_ran [of env snap req w] unfolding ran_def trail_def
  by (cases "fst (Run env snap req w)") (auto split: option.splits)


subsection \<open>A steady executor\<close>

text \<open>Contexts that never end, and an executor that answers by destination alone.\<close>

definition steady :: "'w engine_env \<Rightarrow> (destination \<Rightarrow> upstream_result \<times> goerror) \<Rightarrow> bool" where
  "steady env ans \<longleftrightarrow>
     (\<forall>dl w. context_error env dl w = []) \<and> (\<forall>d req al dl w. fst (execute env d req al dl w) = ans d)"

definition safe_answer :: "upstream_result \<times> goerror \<Rightarrow> bool" where
  "safe_answer x \<longleftrightarrow> safe_outcome (snd x) (StatusCode (fst x))"

definition good_answer :: "upstream_result \<times> goerror \<Rightarrow> bool" where
  "good_answer x \<longleftrightarrow> snd x = [] \<and> ok_status (StatusCode (fst x))"

text \<open>The destinations that get the request: those with safe failures, and the one after them.\<close>

definition tried :: "(destination \<Rightarrow> upstream_result \<times> goerror) \<Rightarrow> destination list \<Rightarrow> destination list" where
  "tried ans ds = take (Suc (length (takeWhile (\<lambda>d. safe_answer (ans d)) ds))) ds"

lemma good_not_safe: "good_answer x \<Longrightarrow> \<not> safe_answer x"
  by (auto simp: good_answer_def safe_answer_def ok_status_unsafe)

lemma tried_Cons: "tried ans (d # ds) = d # (if safe_answer (ans d) then tried ans ds else [])"
  by (simp add: tried_def)

lemma steady_client: "steady env ans \<Longrightarrow> client_err env w = []"
  unfolding steady_def context_error_def by metis

lemma run_loop_steady:
  assumes "steady env ans" and "ds \<noteq> []"
  shows "case fst (run_loop env snap req dl i ds r w) of (r', e) \<Rightarrow>
    map DestinationID (Attempts r') = map DestinationID (Attempts r) @ map ID (tried ans ds)
    \<and> Upstream r' = fst (ans (last (tried ans ds)))
    \<and> (case e of None \<Rightarrow> good_answer (ans (last (tried ans ds)))
       | Some x \<Rightarrow> \<not> good_answer (ans (last (tried ans ds)))
           \<and> (safe_answer (ans (last (tried ans ds))) \<longrightarrow> re_Code x = ''fallback_exhausted''))"
  using assms(2)
proof (induction ds arbitrary: i r w)
  case (Cons d ds)
  obtain now w1 where c1: "clock env w = (now, w1)" by (cases "clock env w")
  obtain started w2 where c2: "clock env w1 = (started, w2)" by (cases "clock env w1")
  let ?x = "execute env d req (Alias snap) (min dl (now + AttemptTimeout snap)) w2"
  obtain up err where ans: "ans d = (up, err)" by (cases "ans d")
  obtain w3 where c3: "?x = ((up, err), w3)"
    using assms(1) ans unfolding steady_def by (metis prod.collapse)
  obtain completed w4 where c4: "clock env w3 = (completed, w4)" by (cases "clock env w3")
  have quiet: "context_error env dl w' = []" "client_err env w' = []" for w'
    using assms(1) steady_client [OF assms(1)] by (simp_all add: steady_def)
  obtain retry code a where cl: "classifyAttempt False False err (StatusCode up)
      (new_attempt (Suc i) (ID d) (StatusCode up) (up_ProviderRequestID up) (up_RetryAfter up) started completed)
      = (retry, code, a)" by (metis prod.collapse)
  have id: "DestinationID a = ID d" using classify_fields [OF cl] by (simp add: new_attempt_def)
  have retry: "retry \<longleftrightarrow> safe_answer (ans d)"
    using classify_retry_iff [OF cl] by (simp add: safe_answer_def ans)
  let ?r = "\<lparr>Upstream = up, Attempts = Attempts r @ [a]\<rparr>"
  have step: "fst (run_loop env snap req dl i (d # ds) r w) =
      (if good_answer (ans d) then (\<lparr>Upstream = up, Attempts = Attempts r @ [a\<lparr>Outcome := ''success''\<rparr>]\<rparr>, None)
       else if \<not> retry then (?r, Some \<lparr>re_Code = code, re_Attempts = Attempts ?r, re_Cause = err\<rparr>)
       else if ds = [] then (?r, Some \<lparr>re_Code = ''fallback_exhausted'', re_Attempts = Attempts ?r, re_Cause = err\<rparr>)
       else fst (run_loop env snap req dl (Suc i) ds ?r w4))"
    using cl by (simp add: run_loop.simps(2) c1 c2 c3 c4 quiet Let_def good_answer_def ans)
  show ?case
  proof (cases "\<not> good_answer (ans d) \<and> retry \<and> ds \<noteq> []")
    case True
    then have "tried ans ds \<noteq> []" by (simp add: tried_def)
    moreover from this True retry have "last (tried ans (d # ds)) = last (tried ans ds)" by (simp add: tried_Cons)
    ultimately show ?thesis
      using True Cons.IH [of ?r "Suc i" w4] id step retry
      by (auto simp: tried_Cons [of ans d ds] split: prod.splits option.splits)
  next
    case False
    then have "tried ans (d # ds) = [d]"
      using good_not_safe [of "ans d"] retry by (cases ds) (auto simp: tried_Cons tried_def)
    with False step id retry good_not_safe [of "ans d"] show ?thesis
      by (cases "good_answer (ans d)") (auto simp: ans split: if_splits)
  qed
qed simp

text \<open>
  with healthy contexts and an executor that answers by destination, a run is the sequential
  search its contract describes: it asks the eligible destinations in order as long as their
  answers are safe failures, stops at the first other answer, returns that answer, and succeeds
  exactly when it is a 2xx; if all allowed destinations failed safely the code is
  \<open>fallback_exhausted\<close>.
\<close>

theorem run_steady:
  assumes "steady env ans" and "1 \<le> MaxAttempts snap" and "0 < AttemptTimeout snap" and "0 < TotalTimeout snap"
    and "\<not> StreamFlag req" and "eligible snap \<noteq> []"
  shows "case fst (Run env snap req w) of (r, e) \<Rightarrow>
    (let asked = tried ans (take (attempt_limit snap) (eligible snap)); final = ans (last asked) in
     map DestinationID (Attempts r) = map ID asked \<and> Upstream r = fst final
     \<and> (case e of None \<Rightarrow> good_answer final
        | Some x \<Rightarrow> \<not> good_answer final \<and> (safe_answer final \<longrightarrow> re_Code x = ''fallback_exhausted'')))"
proof -
  obtain now w1 where c: "clock env w = (now, w1)" by (cases "clock env w")
  have "0 < attempt_limit snap" using assms(2,6) by (simp add: attempt_limit_def)
  then have ne: "take (attempt_limit snap) (eligible snap) \<noteq> []" using assms(6) by simp
  have "fst (Run env snap req w) = fst (run_loop env snap req (now + TotalTimeout snap) 0
      (take (attempt_limit snap) (eligible snap)) empty_result w1)"
    using assms c by (simp add: Run_def not_le)
  with run_loop_steady [OF assms(1) ne, where snap = snap and req = req and dl = "now + TotalTimeout snap" and i = 0
      and r = empty_result and w = w1]
  show ?thesis by (simp add: Let_def empty_result_def)
qed

definition example_destination :: "string \<Rightarrow> destination" where
  "example_destination i = \<lparr>ID = i, dest_Name = i, ModelID = ''m'', ProviderModelID = ''p'', ConnectionID = ''c'',
     BaseURL = ''https://x'', Adapter = ''openai-chat-v1'', AllowPrivateNetwork = False, CredentialID = ''cr'',
     SecretID = ''s'', SecretName = ''s'', EgressID = ''e'', EgressType = ''direct'', Weight = 1,
     Capabilities = [''text''], ExclusionReasons = []\<rparr>"

definition example_snapshot :: snapshot where
  "example_snapshot = \<lparr>ConfigRevision = 1, RouteID = ''r'', Alias = ''public'', StrategyID = ''s'',
     StrategyVersionID = ''v'', StrategyVersion = 1, MaxAttempts = 3, AttemptTimeout = second,
     TotalTimeout = minute, Destinations = [example_destination ''a'', example_destination ''b'']\<rparr>"

definition example_answer :: "destination \<Rightarrow> upstream_result \<times> goerror" where
  "example_answer d = (if ID d = ''a'' then (zero_upstream\<lparr>StatusCode := 503\<rparr>, []) else (zero_upstream\<lparr>StatusCode := 200\<rparr>, []))"

definition example_env :: "time engine_env" where
  "example_env = \<lparr>clock = (\<lambda>w. (w, w + 1)), client_err = (\<lambda>w. []), timer_err = (\<lambda>dl w. []),
     execute = (\<lambda>d req al dl w. (example_answer d, w))\<rparr>"

lemma run_steady_witness:
  "map DestinationID (Attempts (fst (fst (Run example_env example_snapshot zero_request 0)))) = [''a'', ''b'']
   \<and> snd (fst (Run example_env example_snapshot zero_request 0)) = None"
proof -
  have el: "eligible example_snapshot = [example_destination ''a'', example_destination ''b'']"
    by (simp add: eligible_def example_snapshot_def Eligible_def example_destination_def)
  then have lim: "take (attempt_limit example_snapshot) (eligible example_snapshot) =
      [example_destination ''a'', example_destination ''b'']"
    by (simp add: attempt_limit_def example_snapshot_def)
  have steady: "steady example_env example_answer"
    by (simp add: steady_def example_env_def context_error_def)
  have tried: "tried example_answer [example_destination ''a'', example_destination ''b''] =
      [example_destination ''a'', example_destination ''b'']"
    by (simp add: tried_Cons tried_def safe_answer_def safe_outcome_def example_answer_def example_destination_def
        zero_upstream_def)
  have "good_answer (example_answer (example_destination ''b''))"
    by (simp add: good_answer_def example_answer_def example_destination_def ok_status_def)
  with run_steady [OF steady, of example_snapshot zero_request 0] tried lim el show ?thesis
    by (auto simp: example_snapshot_def zero_request_def example_destination_def Let_def split: prod.splits option.splits)
qed

text \<open>
  a successful run does not leave its last attempt free of an error class: the attempt of a 2xx
  answer carries the class \<open>provider_status\<close> (or that of a context that ended meanwhile) next to the
  outcome \<open>success\<close>.
\<close>

theorem success_keeps_error_class:
  "case fst (Run env snap req w) of (r, e) \<Rightarrow> e = None \<longrightarrow> ErrorClass (last (Attempts r)) \<noteq> []"
  using Run_ran [of env snap req w] by (auto simp: ran_def split: prod.splits)

lemma example_run: "snd (fst (Run example_env example_snapshot zero_request 0)) = None"
  by code_simp

lemma run_attempts_witness:
  "map Sequence (Attempts (fst (fst (Run example_env example_snapshot zero_request 0)))) =
     [1..<Suc (length (Attempts (fst (fst (Run example_env example_snapshot zero_request 0)))))]"
proof (cases "fst (Run example_env example_snapshot zero_request 0)")
  case (Pair r e)
  from run_attempts [where env = example_env and snap = example_snapshot and req = zero_request and w = 0] obtain ts :: "destination list"
    where "map DestinationID (Attempts r) = map ID ts" "map Sequence (Attempts r) = [1..<Suc (length ts)]"
    unfolding Pair prod.case by blast
  then show ?thesis using map_eq_imp_length_eq [of DestinationID "Attempts r" ID ts] by (simp add: Pair)
qed

lemma success_keeps_error_class_witness:
  "ErrorClass (last (Attempts (fst (fst (Run example_env example_snapshot zero_request 0))))) \<noteq> []"
  using success_keeps_error_class [where env = example_env and snap = example_snapshot and req = zero_request and w = 0] example_run
  by (auto split: prod.splits)

end
