(* ===== verification/StreamEngine.thy ===== *)
theory StreamEngine
  imports Engine Sse
begin

text \<open>
  \<open>RunStream\<close> of \<open>internal/router/stream_engine.go\<close>: as \<open>Run\<close>, but an attempt that is answered
  with a 2xx is relayed to the client as it arrives, and nothing may be retried once the client has
  been given a byte.

  The stream executor is a component of the environment; the client's writer, the attempt's context
  and the clock during a relay are the \<open>relay_env\<close> of the world at that moment, and \<open>after_relay\<close>
  is the world after it. Next to the result of the code the model returns the bytes the client was
  given in all attempts together.
\<close>

record stream_upstream =
  su_StatusCode :: int
  su_ContentType :: string
  su_RetryAfter :: string
  su_ProviderRequestID :: string
  su_Body :: bytes
  su_End :: stream_end

record stream_run_result =
  sr_Attempts :: "attempt list"
  sr_Committed :: bool
  sr_Completed :: bool
  sr_Bytes :: nat
  sr_Events :: nat
  sr_InputTokens :: "int option"
  sr_OutputTokens :: "int option"
  sr_FirstEventAt :: "time option"

record 'w stream_env = "'w engine_env" +
  open_stream :: "destination \<Rightarrow> request \<Rightarrow> time \<Rightarrow> 'w \<Rightarrow> (stream_upstream \<times> goerror) \<times> 'w"
  relay_world :: "time \<Rightarrow> 'w \<Rightarrow> relay_env"
  after_relay :: "'w \<Rightarrow> 'w"

definition empty_stream_result :: stream_run_result where
  "empty_stream_result = \<lparr>sr_Attempts = [], sr_Committed = False, sr_Completed = False, sr_Bytes = 0,
     sr_Events = 0, sr_InputTokens = None, sr_OutputTokens = None, sr_FirstEventAt = None\<rparr>"

definition add_attempt :: "stream_run_result \<Rightarrow> attempt \<Rightarrow> stream_run_result" where
  "add_attempt r a = r\<lparr>sr_Attempts := sr_Attempts r @ [a]\<rparr>"

definition take_relay :: "chat_result \<Rightarrow> stream_run_result \<Rightarrow> stream_run_result" where
  "take_relay c r = r\<lparr>sr_Committed := Committed c, sr_Completed := Completed c, sr_Bytes := Bytes c,
     sr_Events := Events c, sr_InputTokens := InputTokens c, sr_OutputTokens := OutputTokens c,
     sr_FirstEventAt := FirstEventAt c\<rparr>"

definition run_fail :: "string \<Rightarrow> stream_run_result \<Rightarrow> goerror \<Rightarrow> run_error option" where
  "run_fail code r cause = Some \<lparr>re_Code = code, re_Attempts = sr_Attempts r, re_Cause = cause\<rparr>"

text \<open>The end of an attempt that did not commit: stop, or go on to the next destination.\<close>

datatype verdict = Stop stream_run_result "run_error option" | Next stream_run_result

definition judge :: "bool \<Rightarrow> string \<Rightarrow> attempt \<Rightarrow> stream_run_result \<Rightarrow> goerror \<Rightarrow> bool \<Rightarrow> verdict" where
  "judge retry code a r cause remaining =
     (let r' = add_attempt r a in
      if \<not> retry then Stop r' (run_fail code r' cause)
      else if \<not> remaining then Stop r' (run_fail ''fallback_exhausted'' r' cause)
      else Next r')"

text \<open>An attempt whose relay returned \<open>c\<close> with error \<open>err\<close>; \<open>gone\<close>: the client's context has ended.\<close>

definition relay_verdict ::
    "bool \<Rightarrow> bool \<Rightarrow> attempt \<Rightarrow> chat_result \<Rightarrow> goerror \<Rightarrow> stream_run_result \<Rightarrow> bool \<Rightarrow> verdict" where
  "relay_verdict gone expired a c err r remaining =
     (let r1 = take_relay c r in
      if err = [] then Stop (add_attempt r1 (a\<lparr>Outcome := ''success''\<rparr>)) None
      else if Committed c then
        (let a' = (if gone then a\<lparr>ErrorClass := ''client_cancelled'', Outcome := ''cancelled''\<rparr>
                   else a\<lparr>ErrorClass := ''stream_interrupted'', Outcome := ''partial''\<rparr>);
             r2 = add_attempt r1 a'
         in Stop r2 (run_fail (if gone then ''request_cancelled'' else ''stream_interrupted'') r2 err))
      else if errors_is err Canceled \<or> errors_is err DeadlineExceeded then
        (let a' = (if gone then a\<lparr>ErrorClass := ''client_cancelled'', Outcome := ''cancelled''\<rparr>
                   else a\<lparr>ErrorClass := ''indeterminate_stream'', Outcome := ''indeterminate''\<rparr>);
             r2 = add_attempt r1 a'
         in Stop r2 (run_fail (if gone then ''request_cancelled'' else ''indeterminate_upstream'') r2 err))
      else
        (let (retry, code, a') = classifyAttempt gone expired (Classified ''invalid_response'' True # err)
               (at_StatusCode a) a
         in judge retry code a' r1 err remaining))"

fun stream_loop ::
    "'w stream_env \<Rightarrow> snapshot \<Rightarrow> request \<Rightarrow> time \<Rightarrow> nat \<Rightarrow> destination list \<Rightarrow> stream_run_result \<Rightarrow> bytes
     \<Rightarrow> 'w \<Rightarrow> ((stream_run_result \<times> run_error option) \<times> bytes) \<times> 'w" where
  "stream_loop env snap req dl i [] r sent w =
     (((r, run_fail ''fallback_exhausted'' r []), sent), w)"
| "stream_loop env snap req dl i (d # ds) r sent w =
     (let err = context_error env dl w in
      if err \<noteq> [] then
        (((r, Some (terminalContextError (client_err env w \<noteq> []) err (sr_Attempts r))), sent), w)
      else
        let (now, w1) = clock env w;
            deadline = min dl (now + AttemptTimeout snap);
            (started, w2) = clock env w1;
            ((up, open_err), w3) = open_stream env d req deadline w2
        in if open_err \<noteq> [] \<or> \<not> ok_status (su_StatusCode up) then
             let (completed, w4) = clock env w3;
                 a = new_attempt (Suc i) (ID d) (su_StatusCode up) (su_ProviderRequestID up)
                       (su_RetryAfter up) started completed;
                 (retry, code, a') = classifyAttempt (client_err env w4 \<noteq> []) (context_error env dl w4 \<noteq> [])
                       open_err (su_StatusCode up) a
             in (case judge retry code a' r open_err (ds \<noteq> []) of
                   Stop r' e \<Rightarrow> (((r', e), sent), w4)
                 | Next r' \<Rightarrow> stream_loop env snap req dl (Suc i) ds r' sent w4)
           else
             let (relay_err, st) = RelayChatCompletions (relay_world env deadline w3) (Alias snap)
                   (su_End up) (su_Body up);
                 (completed, w4) = clock env (after_relay env w3);
                 a = new_attempt (Suc i) (ID d) (su_StatusCode up) (su_ProviderRequestID up) [] started completed
             in (case relay_verdict (client_err env w4 \<noteq> []) (context_error env dl w4 \<noteq> []) a (res st)
                        relay_err r (ds \<noteq> []) of
                   Stop r' e \<Rightarrow> (((r', e), sent @ out st), w4)
                 | Next r' \<Rightarrow> stream_loop env snap req dl (Suc i) ds r' (sent @ out st) w4))"

declare stream_loop.simps(2) [simp del]

definition stream_refuse :: "string \<Rightarrow> (stream_run_result \<times> run_error option) \<times> bytes" where
  "stream_refuse code =
     ((empty_stream_result, Some \<lparr>re_Code = code, re_Attempts = [], re_Cause = []\<rparr>), [])"

text \<open>\<open>streams\<close>: the engine's executor is a \<open>StreamExecutor\<close>.\<close>

definition RunStream ::
    "bool \<Rightarrow> 'w stream_env \<Rightarrow> snapshot \<Rightarrow> request \<Rightarrow> 'w
     \<Rightarrow> ((stream_run_result \<times> run_error option) \<times> bytes) \<times> 'w" where
  "RunStream streams env snap req w =
     (if \<not> streams \<or> MaxAttempts snap < 1 \<or> AttemptTimeout snap \<le> 0 \<or> TotalTimeout snap \<le> 0 then
        (stream_refuse ''streaming_not_supported'', w)
      else if \<not> StreamFlag req then (stream_refuse ''streaming_required'', w)
      else if eligible snap = [] then (stream_refuse ''no_eligible_destination'', w)
      else
        let (now, w1) = clock env w in
        stream_loop env snap req (now + TotalTimeout snap) 0 (take (attempt_limit snap) (eligible snap))
          empty_stream_result [] w1)"

section \<open>What a streamed run does\<close>

definition stream_retried :: "attempt \<Rightarrow> bool" where
  "stream_retried a \<longleftrightarrow>
     Retryable a \<and> FallbackReason a \<in> fallback_reasons \<and> Outcome a = ''error''"

lemma judge_Next:
  "judge retry code a r cause remaining = Next r' \<longleftrightarrow> retry \<and> remaining \<and> r' = add_attempt r a"
  by (auto simp: judge_def Let_def)

lemma judge_Stop:
  "judge retry code a r cause remaining = Stop r' e \<Longrightarrow>
   r' = add_attempt r a \<and> (\<exists>c. e = run_fail c r' cause) \<and> \<not> (retry \<and> remaining)"
  by (auto simp: judge_def Let_def split: if_splits)

lemma relay_verdict_Next:
  assumes "relay_verdict gone expired a c err r remaining = Next r'" and "Outcome a = ''error''"
  shows "\<exists>a'. r' = add_attempt (take_relay c r) a' \<and> \<not> Committed c \<and> err \<noteq> [] \<and> stream_retried a'
    \<and> DestinationID a' = DestinationID a \<and> Sequence a' = Sequence a"
proof -
  obtain retry code a' where cl: "classifyAttempt gone expired (Classified ''invalid_response'' True # err)
      (at_StatusCode a) a = (retry, code, a')" by (metis prod.collapse)
  have "judge retry code a' (take_relay c r) err remaining = Next r'" "err \<noteq> []" "\<not> Committed c"
    using assms(1) cl by (auto simp: relay_verdict_def Let_def split: if_splits)
  with classify_retry_attempt [of gone expired _ _ a code a'] classify_fields [OF cl] cl assms(2)
  show ?thesis by (auto simp: judge_Next stream_retried_def)
qed

lemma relay_verdict_Stop:
  assumes "relay_verdict gone expired a c err r remaining = Stop r' e" and "Outcome a = ''error''"
  shows "\<exists>a'. r' = add_attempt (take_relay c r) a'
    \<and> DestinationID a' = DestinationID a \<and> Sequence a' = Sequence a \<and> Outcome a' \<in> outcomes
    \<and> (e = None \<longleftrightarrow> err = []) \<and> (e = None \<longleftrightarrow> Outcome a' = ''success'')
    \<and> (\<forall>x. e = Some x \<longrightarrow> re_Attempts x = sr_Attempts r'
         \<and> (Committed c \<longrightarrow> re_Code x = ''stream_interrupted'' \<or> re_Code x = ''request_cancelled''))"
proof (cases "err = []")
  case True
  with assms show ?thesis by (auto simp: relay_verdict_def Let_def outcomes_def)
next
  case nonempty: False
  show ?thesis
  proof (cases "Committed c \<or> errors_is err Canceled \<or> errors_is err DeadlineExceeded")
    case True
    with assms nonempty show ?thesis
      by (cases gone; cases "Committed c") (auto simp: relay_verdict_def Let_def outcomes_def run_fail_def)
  next
    case False
    obtain retry code a' where cl: "classifyAttempt gone expired (Classified ''invalid_response'' True # err)
      (at_StatusCode a) a = (retry, code, a')" by (metis prod.collapse)
    with assms(1) False nonempty have "judge retry code a' (take_relay c r) err remaining = Stop r' e"
      by (simp add: relay_verdict_def Let_def)
    then obtain code' where "r' = add_attempt (take_relay c r) a'" "e = run_fail code' r' err"
      using judge_Stop by blast
    with classify_fields [OF cl] classify_not_success [OF cl assms(2)] False nonempty show ?thesis
      by (intro exI [of _ a']) (simp add: run_fail_def)
  qed
qed

definition streamed ::
    "string \<Rightarrow> destination list \<Rightarrow> stream_run_result \<Rightarrow> run_error option \<Rightarrow> bytes \<Rightarrow> bool" where
  "streamed al ds r e sent \<longleftrightarrow>
     (\<exists>ts. prefix ts ds \<and> trail ts (sr_Attempts r))
     \<and> (\<forall>a\<in>set (butlast (sr_Attempts r)). stream_retried a)
     \<and> (\<exists>env vs. prefix sent (frames env vs @ done_frame) \<and> list_all (names_model al) vs
          \<and> (e = None \<longrightarrow> sent = frames env vs @ done_frame \<and> vs \<noteq> []))
     \<and> (\<not> sr_Committed r \<longrightarrow> sent = [])
     \<and> (e = None \<longleftrightarrow> sr_Completed r)
     \<and> (e = None \<longrightarrow> sr_Attempts r \<noteq> [] \<and> Outcome (last (sr_Attempts r)) = ''success'')
     \<and> (\<forall>x. e = Some x \<longrightarrow> re_Attempts x = sr_Attempts r
          \<and> (sr_Committed r \<longrightarrow> re_Code x = ''stream_interrupted'' \<or> re_Code x = ''request_cancelled''))"

lemma nothing_sent: "\<exists>env vs. prefix [] (frames env vs @ done_frame) \<and> list_all (names_model al) vs"
  by (intro exI [of _ plain_env] exI [of _ "[]"]) simp

lemma streamed_quiet_stop:
  assumes "prefix ts ds" "trail ts (sr_Attempts r)" "\<forall>a\<in>set (butlast (sr_Attempts r)). stream_retried a"
    and "\<not> sr_Committed r" "\<not> sr_Completed r" "e = Some x" "re_Attempts x = sr_Attempts r"
  shows "streamed al ds r e []"
  using assms nothing_sent [of al] unfolding streamed_def by blast

text \<open>What holds of the result whenever the loop goes on.\<close>

definition streaming :: "destination list \<Rightarrow> stream_run_result \<Rightarrow> bool" where
  "streaming ts r \<longleftrightarrow>
     trail ts (sr_Attempts r) \<and> (\<forall>a\<in>set (sr_Attempts r). stream_retried a)
     \<and> \<not> sr_Committed r \<and> \<not> sr_Completed r"

lemma sr_add [simp]:
  "sr_Attempts (add_attempt r a) = sr_Attempts r @ [a]" "sr_Committed (add_attempt r a) = sr_Committed r"
  "sr_Completed (add_attempt r a) = sr_Completed r"
  by (simp_all add: add_attempt_def)

lemma sr_take [simp]:
  "sr_Attempts (take_relay c r) = sr_Attempts r" "sr_Committed (take_relay c r) = Committed c"
  "sr_Completed (take_relay c r) = Completed c"
  by (simp_all add: take_relay_def)

lemma streaming_add:
  "streaming ts r \<Longrightarrow> stream_retried a \<Longrightarrow> DestinationID a = ID d \<Longrightarrow> Sequence a = Suc (length ts) \<Longrightarrow>
   streaming (ts @ [d]) (add_attempt r a)"
  by (simp add: streaming_def trail_snoc)

lemma stream_loop_streamed:
  assumes "streaming ts r" and "stream_loop env snap req dl (length ts) ds r [] w = (((r', e), sent), w')"
  shows "streamed (Alias snap) (ts @ ds) r' e sent"
  using assms
proof (induction ds arbitrary: ts r w)
  case Nil
  then show ?case
    by (auto simp: streaming_def run_fail_def dest: in_set_butlastD
        intro!: streamed_quiet_stop [of ts ts])
next
  case (Cons d ds)
  have trail: "trail ts (sr_Attempts r)" "\<forall>a\<in>set (sr_Attempts r). stream_retried a"
    "\<not> sr_Committed r" "\<not> sr_Completed r"
    using Cons.prems(1) by (simp_all add: streaming_def)
  show ?case
  proof (cases "context_error env dl w = []")
    case False
    with Cons.prems(2) have "r' = r" "sent = []" "\<exists>x. e = Some x \<and> re_Attempts x = sr_Attempts r"
      by (auto simp: stream_loop.simps(2) terminalContextError_def)
    with trail show ?thesis
      by (auto dest: in_set_butlastD intro!: streamed_quiet_stop [of ts])
  next
    case True
    obtain now w1 where c1: "clock env w = (now, w1)" by (cases "clock env w")
    obtain started w2 where c2: "clock env w1 = (started, w2)" by (cases "clock env w1")
    let ?dl = "min dl (now + AttemptTimeout snap)"
    obtain up oerr w3 where c3: "open_stream env d req ?dl w2 = ((up, oerr), w3)" by (metis prod.collapse)
    show ?thesis
    proof (cases "oerr \<noteq> [] \<or> \<not> ok_status (su_StatusCode up)")
      case notopen: True
      obtain completed w4 where c4: "clock env w3 = (completed, w4)" by (cases "clock env w3")
      let ?a = "new_attempt (Suc (length ts)) (ID d) (su_StatusCode up) (su_ProviderRequestID up)
          (su_RetryAfter up) started completed"
      obtain retry code a where cl: "classifyAttempt (client_err env w4 \<noteq> []) (context_error env dl w4 \<noteq> [])
          oerr (su_StatusCode up) ?a = (retry, code, a)" by (metis prod.collapse)
      have a: "DestinationID a = ID d" "Sequence a = Suc (length ts)" "Outcome a \<noteq> ''success''"
        using classify_fields [OF cl] classify_not_success [OF cl] by (simp_all add: new_attempt_def)
      have fails: "oerr = [] \<longrightarrow> \<not> ok_status (su_StatusCode up)" using notopen by simp
      note step = stream_loop.simps(2) c1 c2 c3 c4 cl True fails Let_def
      show ?thesis
      proof (cases "judge retry code a r oerr (ds \<noteq> [])")
        case (Stop r2 e2)
        with Cons.prems(2) have r: "r' = r2" "e = e2" "sent = []" by (simp_all add: step)
        with judge_Stop [OF Stop] have r': "r' = add_attempt r a" "\<exists>x. e = Some x \<and> re_Attempts x = sr_Attempts r'"
          by (auto simp: run_fail_def)
        with r trail a show ?thesis
          by (auto intro!: streamed_quiet_stop [of "ts @ [d]"] trail_snoc)
      next
        case (Next r2)
        then have r2: "retry" "r2 = add_attempt r a" by (simp_all add: judge_Next)
        have "stream_retried a"
          using cl r2(1) classify_retry_attempt [of _ _ _ _ ?a code a] by (auto simp: stream_retried_def new_attempt_def)
        then have "streaming (ts @ [d]) r2" using Cons.prems(1) a r2 by (simp add: streaming_add)
        moreover have "stream_loop env snap req dl (length (ts @ [d])) ds r2 [] w4 = (((r', e), sent), w')"
          using Cons.prems(2) Next by (simp add: step)
        ultimately show ?thesis using Cons.IH [of "ts @ [d]" r2 w4] by simp
      qed
    next
      case opened: False
      let ?renv = "relay_world env ?dl w3"
      obtain rerr st where rel: "RelayChatCompletions ?renv (Alias snap) (su_End up) (su_Body up) = (rerr, st)"
        by (cases "RelayChatCompletions ?renv (Alias snap) (su_End up) (su_Body up)")
      obtain completed w4 where c4: "clock env (after_relay env w3) = (completed, w4)"
        by (cases "clock env (after_relay env w3)")
      let ?a = "new_attempt (Suc (length ts)) (ID d) (su_StatusCode up) (su_ProviderRequestID up) [] started completed"
      have opens: "oerr = []" "ok_status (su_StatusCode up)" using opened by simp_all
      note step = stream_loop.simps(2) c1 c2 c3 c4 True opens rel Let_def
      have a: "Outcome ?a = ''error''" "DestinationID ?a = ID d" "Sequence ?a = Suc (length ts)"
        by (simp_all add: new_attempt_def)
      have relayed: "relayed ?renv (Alias snap) rerr st" by (rule relay_relayed [OF rel])
      show ?thesis
      proof (cases "relay_verdict (client_err env w4 \<noteq> []) (context_error env dl w4 \<noteq> []) ?a (res st) rerr r (ds \<noteq> [])")
        case (Stop r2 e2)
        with Cons.prems(2) have r: "r' = r2" "e = e2" "sent = out st" by (simp_all add: step)
        obtain a' where a': "r' = add_attempt (take_relay (res st) r) a'" "DestinationID a' = ID d"
          "Sequence a' = Suc (length ts)" "e = None \<longleftrightarrow> rerr = []" "e = None \<longleftrightarrow> Outcome a' = ''success''"
          "\<forall>x. e = Some x \<longrightarrow> re_Attempts x = sr_Attempts r'
             \<and> (Committed (res st) \<longrightarrow> re_Code x = ''stream_interrupted'' \<or> re_Code x = ''request_cancelled'')"
          using relay_verdict_Stop [OF Stop a(1)] r a by auto
        have "trail (ts @ [d]) (sr_Attempts r')" using a' trail by (simp add: trail_snoc)
        moreover have "prefix (ts @ [d]) (ts @ d # ds)" by simp
        ultimately have "\<exists>ts'. prefix ts' (ts @ d # ds) \<and> trail ts' (sr_Attempts r')" by blast
        moreover have "\<forall>b\<in>set (butlast (sr_Attempts r')). stream_retried b" using a' trail by simp
        moreover have "\<exists>env vs. prefix sent (frames env vs @ done_frame) \<and> list_all (names_model (Alias snap)) vs
            \<and> (e = None \<longrightarrow> sent = frames env vs @ done_frame \<and> vs \<noteq> [])"
          using relayed a'(4) r unfolding relayed_def by blast
        ultimately show ?thesis
          unfolding streamed_def using relayed a' r unfolding relayed_def by auto
      next
        case (Next r2)
        obtain a' where a': "r2 = add_attempt (take_relay (res st) r) a'" "\<not> Committed (res st)" "rerr \<noteq> []"
          "stream_retried a'" "DestinationID a' = ID d" "Sequence a' = Suc (length ts)"
          using relay_verdict_Next [OF Next a(1)] a by auto
        have "\<not> Completed (res st)" "out st = []" using relayed a'(2,3) by (auto simp: relayed_def)
        then have "streaming (ts @ [d]) r2"
          using Cons.prems(1) a' by (auto simp: streaming_def trail_snoc)
        moreover have "stream_loop env snap req dl (length (ts @ [d])) ds r2 [] w4 = (((r', e), sent), w')"
          using Cons.prems(2) Next \<open>out st = []\<close> by (simp add: step)
        ultimately show ?thesis using Cons.IH [of "ts @ [d]" r2 w4] by simp
      qed
    qed
  qed
qed

lemma RunStream_streamed:
  "fst (RunStream streams env snap req w) = ((r, e), sent) \<Longrightarrow>
   streamed (Alias snap) (take (attempt_limit snap) (eligible snap)) r e sent"
proof -
  assume *: "fst (RunStream streams env snap req w) = ((r, e), sent)"
  have refused: "streamed al ds empty_stream_result (Some \<lparr>re_Code = c, re_Attempts = [], re_Cause = []\<rparr>) []" for al ds c
    by (rule streamed_quiet_stop [of "[]"]) (auto simp: empty_stream_result_def trail_def)
  show ?thesis
  proof (cases "fst (RunStream streams env snap req w) \<in> range stream_refuse")
    case True
    with * refused show ?thesis by (auto simp: stream_refuse_def)
  next
    case False
    with * have "stream_refuse c \<noteq> ((r, e), sent)" for c by (metis rangeI)
    with * obtain now w1 where "fst (stream_loop env snap req (now + TotalTimeout snap) (length ([] :: destination list))
        (take (attempt_limit snap) (eligible snap)) empty_stream_result [] w1) = ((r, e), sent)"
      by (auto simp: RunStream_def Let_def split: if_splits prod.splits)
    then obtain w' where "stream_loop env snap req (now + TotalTimeout snap) (length ([] :: destination list))
        (take (attempt_limit snap) (eligible snap)) empty_stream_result [] w1 = (((r, e), sent), w')"
      by (metis prod.collapse)
    from stream_loop_streamed [OF _ this] show ?thesis
      by (simp add: streaming_def trail_def empty_stream_result_def)
  qed
qed


definition example_stream_env :: "time stream_env" where
  "example_stream_env = \<lparr>clock = (\<lambda>w. (w, w + 1)), client_err = (\<lambda>w. []), timer_err = (\<lambda>dl w. []),
     execute = (\<lambda>d req al dl w. (example_answer d, w)),
     open_stream = (\<lambda>d req dl w. ((\<lparr>su_StatusCode = 200, su_ContentType = ''text/event-stream'', su_RetryAfter = [],
        su_ProviderRequestID = [], su_Body = wire [example_chunk] @ done_frame, su_End = EndEOF\<rparr>, []), w)),
     relay_world = (\<lambda>dl w. plain_env), after_relay = (\<lambda>w. w)\<rparr>"

lemma example_stream_run:
  "snd (fst (fst (RunStream True example_stream_env example_snapshot (zero_request\<lparr>StreamFlag := True\<rparr>) 0))) = None"
proof -
  obtain st where st: "RelayChatCompletions plain_env ''public'' EndEOF (wire [example_chunk] @ done_frame) = ([], st)"
    using example_relay by blast
  show ?thesis
    by (simp add: RunStream_def eligible_def example_snapshot_def Eligible_def example_destination_def attempt_limit_def
        stream_loop.simps example_stream_env_def context_error_def ok_status_def st relay_verdict_def Let_def)
qed


end
