(* ===== verification/Redaction.thy ===== *)
theory Redaction
  imports GoText
begin

text \<open>
  The redactor of \<open>internal/redact/redact.go\<close>: values registered with a reference count, removed
  through idempotent handles, and cut out of every output, longest first; and the log handler that
  passes every string of a record through it.

  Entries are shared by pointer between the digest map and the ordered list, so they live in a heap
  indexed by numbers. A handle is an index into \<open>handles\<close>, which remembers the digest its closure
  captured and whether its \<open>sync.Once\<close> has run. SHA-256 is a parameter.
\<close>

section \<open>The registry\<close>

definition Replacement :: bytes where
  "Replacement = ''[REDACTED]''"

record entry =
  Value :: bytes
  refs :: int

record redactor =
  entries :: "bytes \<Rightarrow> nat option"
  ordered :: "nat list"
  heap :: "nat \<Rightarrow> entry"
  fresh :: nat
  handles :: "(bytes \<times> bool) list"

definition new_redactor :: redactor where
  "new_redactor = \<lparr>entries = (\<lambda>d. None), ordered = [], heap = (\<lambda>i. \<lparr>Value = [], refs = 0\<rparr>),
     fresh = 0, handles = []\<rparr>"

datatype redact_error = ErrInvalidValue | DigestCollision

definition entry_len :: "(nat \<Rightarrow> entry) \<Rightarrow> nat \<Rightarrow> int" where
  "entry_len h i = int (length (Value (h i)))"

definition Register ::
    "(bytes \<Rightarrow> bytes) \<Rightarrow> redactor \<Rightarrow> bytes \<Rightarrow> (redact_error + nat) \<times> redactor" where
  "Register sha r v =
     (if length v < 8 \<or> length v > 16384 then (Inl ErrInvalidValue, r)
      else
        let digest = sha v in
        (case entries r digest of
           Some i \<Rightarrow>
             if Value (heap r i) \<noteq> v then (Inl DigestCollision, r)
             else (Inr (length (handles r)),
                   r\<lparr>heap := (heap r)(i := (heap r i)\<lparr>refs := refs (heap r i) + 1\<rparr>),
                     handles := handles r @ [(digest, False)]\<rparr>)
         | None \<Rightarrow>
             let i = fresh r; h = (heap r)(i := \<lparr>Value = v, refs = 1\<rparr>) in
             (Inr (length (handles r)),
              r\<lparr>entries := (entries r)(digest := Some i),
                ordered := sort_key (\<lambda>j. - entry_len h j) (ordered r @ [i]),
                heap := h, fresh := Suc i, handles := handles r @ [(digest, False)]\<rparr>)))"

text \<open>The closure \<open>Register\<close> returned: \<open>once.Do\<close> of the removal.\<close>

definition remove :: "redactor \<Rightarrow> nat \<Rightarrow> redactor" where
  "remove r k =
     (case handles r ! k of (digest, fired) \<Rightarrow>
        if fired then r
        else
          let r = r\<lparr>handles := (handles r)[k := (digest, True)]\<rparr> in
          (case entries r digest of
             None \<Rightarrow> r
           | Some i \<Rightarrow>
               let item = (heap r i)\<lparr>refs := refs (heap r i) - 1\<rparr> in
               if refs item > 0 then r\<lparr>heap := (heap r)(i := item)\<rparr>
               else r\<lparr>entries := (entries r)(digest := None),
                      ordered := remove1 i (ordered r),
                      heap := (heap r)(i := item\<lparr>Value := replicate (length (Value item)) (char_of (0 :: nat))\<rparr>)\<rparr>))"

definition Bytes :: "redactor \<Rightarrow> bytes \<Rightarrow> bytes" where
  "Bytes r v = fold (\<lambda>i result. replace_all (Value (heap r i)) Replacement result) (ordered r) v"

text \<open>The values a redactor cuts out, in order.\<close>

definition registered :: "redactor \<Rightarrow> bytes list" where
  "registered r = map (\<lambda>i. Value (heap r i)) (ordered r)"

lemma Bytes_fold: "Bytes r v = fold (\<lambda>p result. replace_all p Replacement result) (registered r) v"
  by (simp add: Bytes_def registered_def fold_map comp_def)

section \<open>Log records\<close>

text \<open>
  An attribute value after \<open>Resolve\<close>. \<open>KAny\<close> is a value of any other type with the text the
  handler makes of it (the bytes, \<open>Error ()\<close>, \<open>String ()\<close> or \<open>fmt.Sprint\<close>); \<open>KPlain\<close> is a number,
  bool, time or duration, passed on as it is.
\<close>

datatype log_value = KString bytes | KGroup "(bytes \<times> log_value) list" | KAny bytes | KPlain bytes

fun redact_value :: "(bytes \<Rightarrow> bytes) \<Rightarrow> log_value \<Rightarrow> log_value" where
  "redact_value f (KString s) = KString (f s)"
| "redact_value f (KGroup as) = KGroup (map (\<lambda>(k, v). (f k, redact_value f v)) as)"
| "redact_value f (KAny s) = KString (f s)"
| "redact_value f (KPlain s) = KPlain s"

definition redactAttr :: "redactor \<Rightarrow> bytes \<times> log_value \<Rightarrow> bytes \<times> log_value" where
  "redactAttr r a = (Bytes r (fst a), redact_value (Bytes r) (snd a))"

datatype binding = Attrs "(bytes \<times> log_value) list" | Group bytes

text \<open>What reaches the next handler: the bindings in order, the message and the attributes.\<close>

definition Handle ::
    "redactor \<Rightarrow> binding list \<Rightarrow> bytes \<Rightarrow> (bytes \<times> log_value) list
     \<Rightarrow> binding list \<times> bytes \<times> (bytes \<times> log_value) list" where
  "Handle r bs message attrs =
     (map (\<lambda>b. case b of
             Group g \<Rightarrow> if g \<noteq> [] then Group (Bytes r g) else Attrs []
           | Attrs as \<Rightarrow> Attrs (map (redactAttr r) as)) bs,
      Bytes r message, map (redactAttr r) attrs)"

text \<open>The texts of a log value and of what reaches the next handler.\<close>

fun texts :: "log_value \<Rightarrow> bytes list" where
  "texts (KString s) = [s]"
| "texts (KGroup as) = concat (map (\<lambda>(k, v). k # texts v) as)"
| "texts (KAny s) = [s]"
| "texts (KPlain s) = []"

definition attr_texts :: "bytes \<times> log_value \<Rightarrow> bytes list" where
  "attr_texts a = fst a # texts (snd a)"

fun binding_texts :: "binding \<Rightarrow> bytes list" where
  "binding_texts (Attrs as) = concat (map attr_texts as)"
| "binding_texts (Group g) = [g]"

definition record_texts :: "binding list \<times> bytes \<times> (bytes \<times> log_value) list \<Rightarrow> bytes list" where
  "record_texts x = (case x of (bs, m, as) \<Rightarrow> concat (map binding_texts bs) @ m # concat (map attr_texts as))"

section \<open>Replacing removes\<close>

lemma replace_all_match:
  "p \<noteq> [] \<Longrightarrow> has_prefix s p \<Longrightarrow> replace_all p r s = r @ replace_all p r (drop (length p) s)"
  by (subst replace_all.simps) simp

lemma replace_all_Nil [simp]: "replace_all p r [] = []"
  by (subst replace_all.simps) (auto simp: has_prefix_def)

lemma replace_all_step:
  "p \<noteq> [] \<Longrightarrow> \<not> has_prefix (c # s) p \<Longrightarrow> replace_all p r (c # s) = c # replace_all p r s"
  by (subst replace_all.simps) simp

lemma prefix_disjoint:
  assumes "prefix v (R @ X)" "R \<noteq> []" "set v \<inter> set R = {}"
  shows "v = []"
proof (cases v)
  case (Cons c v')
  with assms(1,2) have "c = hd R" by (cases R) auto
  with assms(2,3) Cons show ?thesis by (cases R) auto
qed simp

lemma replace_prefix:
  assumes "p \<noteq> []" "R \<noteq> []" "set v \<inter> set R = {}" "prefix v (replace_all p R s)"
  shows "prefix v s"
  using assms(3,4)
proof (induction s arbitrary: v)
  case (Cons c s)
  show ?case
  proof (cases "has_prefix (c # s) p")
    case True
    with Cons.prems(2) have "prefix v (R @ replace_all p R (drop (length p) (c # s)))"
      by (simp only: replace_all_match assms(1) not_False_eq_True)
    from prefix_disjoint [OF this assms(2) Cons.prems(1)] show ?thesis by simp
  next
    case False
    with Cons.prems(2) have "prefix v (c # replace_all p R s)" by (simp add: replace_all_step assms(1))
    with Cons.IH [of "tl v"] Cons.prems(1) show ?thesis by (cases v) auto
  qed
qed simp

lemma sublist_disjoint:
  assumes "sublist v (R @ X)" "v \<noteq> []" "R \<noteq> []" "set v \<inter> set R = {}"
  shows "sublist v X"
proof -
  from assms(1) obtain a b where ab: "R @ X = a @ v @ b" by (auto simp: sublist_def)
  show ?thesis
  proof (cases "length R \<le> length a")
    case True
    with ab obtain a' where "a = R @ a'"
      by (metis append_eq_append_conv_if append_take_drop_id)
    with ab show ?thesis by (auto simp: sublist_def)
  next
    case False
    then have "hd v \<in> set R"
    proof -
      have "R ! length a = (a @ v @ b) ! length a" using False ab by (metis not_le nth_append)
      also have "\<dots> = hd v" using assms(2) by (simp add: nth_append hd_conv_nth)
      finally show ?thesis using False by (metis not_le nth_mem)
    qed
    with assms(2,4) show ?thesis using hd_in_set by blast
  qed
qed

lemma replace_no_new:
  assumes "p \<noteq> []" "R \<noteq> []" "v \<noteq> []" "set v \<inter> set R = {}"
  shows "sublist v (replace_all p R s) \<Longrightarrow> sublist v s"
proof (induction s rule: length_induct)
  case (1 s)
  show ?case
  proof (cases "has_prefix s p")
    case True
    from "1.prems" have "sublist v (R @ replace_all p R (drop (length p) s))"
      by (simp only: replace_all_match [OF assms(1) True])
    then have "sublist v (replace_all p R (drop (length p) s))"
      by (rule sublist_disjoint [OF _ assms(3,2,4)])
    moreover have "length (drop (length p) s) < length s"
      using True assms(1) by (cases s) (auto simp: has_prefix_def)
    ultimately have "sublist v (drop (length p) s)" using "1.IH" by blast
    then show ?thesis by (meson sublist_drop sublist_order.order_trans)
  next
    case False
    show ?thesis
    proof (cases s)
      case (Cons c s')
      with False "1.prems" assms(1) have "sublist v (c # replace_all p R s')"
        by (simp add: replace_all_step)
      then consider "prefix v (c # replace_all p R s')" | "sublist v (replace_all p R s')"
        by (auto simp: sublist_Cons_right)
      then show ?thesis
      proof cases
        case 1
        then have "prefix v (replace_all p R s)" using Cons False assms(1) by (simp add: replace_all_step)
        then have "prefix v s" by (rule replace_prefix [OF assms(1,2,4)])
        then show ?thesis by (rule prefix_imp_sublist)
      next
        case 2
        then have "sublist v s'" using "1.IH" Cons by simp
        then show ?thesis using Cons by (simp add: sublist_Cons_right)
      qed
    qed (use "1.prems" in simp)
  qed
qed

lemma replace_removes:
  assumes "p \<noteq> []" "R \<noteq> []" "set p \<inter> set R = {}"
  shows "\<not> sublist p (replace_all p R s)"
proof (induction s rule: length_induct)
  case (1 s)
  show ?case
  proof (cases "has_prefix s p")
    case True
    then have "length (drop (length p) s) < length s"
      using assms(1) by (cases s) (auto simp: has_prefix_def)
    with 1 have "\<not> sublist p (replace_all p R (drop (length p) s))" by blast
    with sublist_disjoint [OF _ assms(1,2,3)] show ?thesis
      unfolding replace_all_match [OF assms(1) True] by blast
  next
    case False
    show ?thesis
    proof (cases s)
      case Nil
      with assms(1) show ?thesis by simp
    next
      case (Cons c s')
      have "\<not> prefix p (replace_all p R s)"
        using replace_prefix [OF assms, of s] False by (auto simp: has_prefix_iff prefix_def)
      moreover have "\<not> sublist p (replace_all p R s')" using 1 Cons by simp
      ultimately show ?thesis using Cons False assms(1) by (simp add: replace_all_step sublist_Cons_right)
    qed
  qed
qed

lemma fold_replace_none:
  assumes "v \<noteq> []" "set v \<inter> set R = {}" "R \<noteq> []" "[] \<notin> set ps"
  shows "\<not> sublist v s \<Longrightarrow> \<not> sublist v (fold (\<lambda>p x. replace_all p R x) ps s)"
  using assms(4)
proof (induction ps arbitrary: s)
  case (Cons p ps)
  then show ?case using replace_no_new [OF _ assms(3,1,2), of p s] by auto
qed simp

lemma fold_replace_removes:
  assumes "v \<in> set ps" "v \<noteq> []" "set v \<inter> set R = {}" "R \<noteq> []" "[] \<notin> set ps"
  shows "\<not> sublist v (fold (\<lambda>p x. replace_all p R x) ps s)"
  using assms(1,5)
proof (induction ps arbitrary: s)
  case (Cons p ps)
  show ?case
  proof (cases "v = p")
    case True
    with replace_removes [OF assms(2,4,3)] Cons.prems show ?thesis
      using fold_replace_none [OF assms(2,3,4), of ps "replace_all v R s"] by auto
  next
    case False
    with Cons show ?thesis by auto
  qed
qed simp

lemma Bytes_removes:
  assumes "v \<in> set (registered r)" "[] \<notin> set (registered r)" "set v \<inter> set Replacement = {}"
  shows "\<not> sublist v (Bytes r s)"
  unfolding Bytes_fold using assms
  by (intro fold_replace_removes) (auto simp: Replacement_def)

section \<open>The boundary contract\<close>

text \<open>
  What the log handler relies on: a cleaning function over a state such that nothing the state
  hides occurs in what it returns.
\<close>

locale sanitizer =
  fixes clean :: "'s \<Rightarrow> bytes \<Rightarrow> bytes" and hides :: "'s \<Rightarrow> bytes \<Rightarrow> bool"
  assumes clean_hides: "hides st v \<Longrightarrow> \<not> sublist v (clean st s)"
begin

lemma value_hides: "hides st v \<Longrightarrow> x \<in> set (texts (redact_value (clean st) a)) \<Longrightarrow> \<not> sublist v x"
proof (induction a)
  case (KGroup as)
  then show ?case using clean_hides by auto blast
qed (use clean_hides in auto)

lemma attr_hides:
  "hides st v \<Longrightarrow> x \<in> set (attr_texts (clean st (fst a), redact_value (clean st) (snd a))) \<Longrightarrow> \<not> sublist v x"
  using clean_hides value_hides by (auto simp: attr_texts_def)

end

definition hidden :: "redactor \<Rightarrow> bytes \<Rightarrow> bool" where
  "hidden r v \<longleftrightarrow> v \<in> set (registered r) \<and> [] \<notin> set (registered r) \<and> set v \<inter> set Replacement = {}"

interpretation boundary: sanitizer Bytes hidden
  by unfold_locales (auto simp: hidden_def Bytes_removes)

lemma Handle_hides:
  assumes "hidden r v" and "x \<in> set (record_texts (Handle r bs message attrs))"
    and "Group [] \<notin> set bs \<or> v \<noteq> []"
  shows "\<not> sublist v x"
proof -
  have attr: "x \<notin> set (attr_texts (redactAttr r a)) \<or> \<not> sublist v x" for a
    using boundary.attr_hides [OF assms(1), of x a] by (auto simp: redactAttr_def)
  have bind: "\<not> sublist v x" if "x \<in> set (binding_texts (case b of Group g \<Rightarrow> if g \<noteq> [] then Group (Bytes r g) else Attrs []
      | Attrs as \<Rightarrow> Attrs (map (redactAttr r) as)))" for b
    using that attr boundary.clean_hides [OF assms(1)] by (cases b) (auto split: if_splits)
  from assms(2) show ?thesis
    using attr bind boundary.clean_hides [OF assms(1)] by (auto simp: record_texts_def Handle_def)
qed

section \<open>Reachable registries\<close>

inductive reach :: "(bytes \<Rightarrow> bytes) \<Rightarrow> redactor \<Rightarrow> bool" for sha where
  reach_new: "reach sha new_redactor"
| reach_register: "reach sha r \<Longrightarrow> reach sha (snd (Register sha r v))"
| reach_remove: "reach sha r \<Longrightarrow> k < length (handles r) \<Longrightarrow> reach sha (remove r k)"

text \<open>The states after \<open>r\<close> in which the handle \<open>k\<close> has not been used.\<close>

inductive keeps :: "(bytes \<Rightarrow> bytes) \<Rightarrow> nat \<Rightarrow> redactor \<Rightarrow> redactor \<Rightarrow> bool" for sha k where
  keeps_refl: "keeps sha k r r"
| keeps_register: "keeps sha k r r' \<Longrightarrow> keeps sha k r (snd (Register sha r' v))"
| keeps_remove: "keeps sha k r r' \<Longrightarrow> j < length (handles r') \<Longrightarrow> j \<noteq> k \<Longrightarrow> keeps sha k r (remove r' j)"

definition live :: "redactor \<Rightarrow> bytes \<Rightarrow> nat" where
  "live r d = length (filter (\<lambda>h. h = (d, False)) (handles r))"

definition by_length :: "redactor \<Rightarrow> bool" where
  "by_length r \<longleftrightarrow> sorted (map (\<lambda>i. - entry_len (heap r) i) (ordered r))"

definition inv :: "(bytes \<Rightarrow> bytes) \<Rightarrow> redactor \<Rightarrow> bool" where
  "inv sha r \<longleftrightarrow>
     (\<forall>d i. entries r d = Some i \<longrightarrow> i < fresh r \<and> sha (Value (heap r i)) = d \<and> Value (heap r i) \<noteq> []
        \<and> refs (heap r i) = int (live r d) \<and> 0 < live r d)
     \<and> (\<forall>d. entries r d = None \<longrightarrow> live r d = 0)
     \<and> distinct (ordered r) \<and> set (ordered r) = ran (entries r) \<and> by_length r"

lemma inv_entry:
  "inv sha r \<Longrightarrow> entries r d = Some i \<Longrightarrow>
   i < fresh r \<and> sha (Value (heap r i)) = d \<and> Value (heap r i) \<noteq> [] \<and> refs (heap r i) = int (live r d)
   \<and> 0 < live r d"
  by (simp add: inv_def)

lemma inv_unique:
  assumes "inv sha r" "entries r d = Some i" "entries r e = Some i"
  shows "d = e"
  using inv_entry [OF assms(1,2)] inv_entry [OF assms(1,3)] by simp

lemma invI:
  assumes "\<And>d i. entries r d = Some i \<Longrightarrow> i < fresh r \<and> sha (Value (heap r i)) = d \<and> Value (heap r i) \<noteq> []
      \<and> refs (heap r i) = int (live r d) \<and> 0 < live r d"
    and "\<And>d. entries r d = None \<Longrightarrow> live r d = 0"
    and "distinct (ordered r)" "set (ordered r) = ran (entries r)" "by_length r"
  shows "inv sha r"
  unfolding inv_def using assms by blast

lemma inv_none: "inv sha r \<Longrightarrow> entries r d = None \<Longrightarrow> live r d = 0"
  by (simp add: inv_def)

lemma inv_ordered: "inv sha r \<Longrightarrow> distinct (ordered r) \<and> set (ordered r) = ran (entries r) \<and> by_length r"
  by (simp add: inv_def)

lemma inv_new: "inv sha new_redactor"
  by (simp add: inv_def new_redactor_def live_def by_length_def)

lemma live_append: "live (r\<lparr>handles := handles r @ [(d, False)]\<rparr>) e = live r e + (if e = d then 1 else 0)"
  by (simp add: live_def)

lemma by_length_refs:
  assumes "by_length r" "ordered r' = ordered r" "heap r' = (heap r)(i := (heap r i)\<lparr>refs := n\<rparr>)"
  shows "by_length r'"
proof -
  have "entry_len (heap r') = entry_len (heap r)"
    unfolding assms(3) entry_len_def by (rule ext) simp
  with assms(1,2) show ?thesis by (simp add: by_length_def)
qed

lemma live_simps [simp]:
  "live (r\<lparr>entries := e\<rparr>) d = live r d" "live (r\<lparr>ordered := o'\<rparr>) d = live r d"
  "live (r\<lparr>heap := h\<rparr>) d = live r d" "live (r\<lparr>fresh := n\<rparr>) d = live r d"
  by (simp_all add: live_def)

lemma inv_register:
  assumes "inv sha r"
  shows "inv sha (snd (Register sha r v))"
proof (cases "length v < 8 \<or> length v > 16384")
  case False
  then have v: "v \<noteq> []" by auto
  show ?thesis
  proof (cases "entries r (sha v)")
    case None
    let ?i = "fresh r"
    let ?h = "(heap r)(?i := \<lparr>Value = v, refs = 1\<rparr>)"
    have old: "?i \<notin> set (ordered r)" "?i \<notin> ran (entries r)"
      using assms by (auto simp: inv_def ran_def)
    have "sorted (map (\<lambda>j. - entry_len ?h j) (sort_key (\<lambda>j. - entry_len ?h j) (ordered r @ [?i])))"
      by (rule sorted_sort_key)
    with None False v assms old show ?thesis
      by (auto simp: inv_def Register_def Let_def live_append by_length_def ran_map_upd live_def
          split: if_splits intro: less_SucI)
  next
    case (Some i)
    show ?thesis
    proof (cases "Value (heap r i) = v")
      case True
      define r' where "r' = snd (Register sha r v)"
      have r': "entries r' = entries r" "fresh r' = fresh r" "ordered r' = ordered r"
        "heap r' = (heap r)(i := (heap r i)\<lparr>refs := refs (heap r i) + 1\<rparr>)"
        "live r' d = live r d + (if d = sha v then 1 else 0)" for d
        using Some True False by (simp_all add: r'_def Register_def live_def)
      have "by_length r'" by (rule by_length_refs [OF _ r'(3,4)]) (simp add: inv_ordered [OF assms])
      then have "inv sha r'"
      proof (intro invI)
        fix d j
        assume "entries r' d = Some j"
        with r'(1) have e: "entries r d = Some j" by simp
        show "j < fresh r' \<and> sha (Value (heap r' j)) = d \<and> Value (heap r' j) \<noteq> []
            \<and> refs (heap r' j) = int (live r' d) \<and> 0 < live r' d"
        proof (cases "d = sha v")
          case True
          with e Some have "j = i" by simp
          with inv_entry [OF assms e] True show ?thesis unfolding r' by simp
        next
          case False
          with inv_unique [OF assms e] Some have "j \<noteq> i" by auto
          with inv_entry [OF assms e] False show ?thesis unfolding r' by simp
        qed
      next
        fix d
        assume "entries r' d = None"
        with r'(1) Some inv_none [OF assms] show "live r' d = 0" by (auto simp: r'(5))
      qed (use inv_ordered [OF assms] r' in simp_all)
      then show ?thesis by (simp add: r'_def)
    qed (use Some assms in \<open>simp add: Register_def\<close>)
  qed
qed (use assms in \<open>auto simp: Register_def\<close>)

lemma live_fire:
  assumes "k < length (handles r)" "handles r ! k = (d, False)"
  shows "live (r\<lparr>handles := (handles r)[k := (d, True)]\<rparr>) e = (if e = d then live r e - 1 else live r e)"
    and "0 < live r d"
proof -
  have split: "handles r = take k (handles r) @ (d, False) # drop (Suc k) (handles r)"
    using id_take_nth_drop [OF assms(1)] assms(2) by simp
  then have "(handles r)[k := (d, True)] = take k (handles r) @ (d, True) # drop (Suc k) (handles r)"
    using assms(1) by (simp add: upd_conv_take_nth_drop)
  then show "live (r\<lparr>handles := (handles r)[k := (d, True)]\<rparr>) e = (if e = d then live r e - 1 else live r e)"
    by (subst (2 3) live_def, subst (1 2) split) (simp add: live_def)
  show "0 < live r d"
    unfolding live_def by (subst split) simp
qed

lemma inv_remove:
  assumes "inv sha r" "k < length (handles r)"
  shows "inv sha (remove r k)"
proof -
  obtain d f where h: "handles r ! k = (d, f)" by (cases "handles r ! k")
  show ?thesis
  proof (cases f)
    case True
    with h assms show ?thesis by (simp add: remove_def)
  next
    case False
    with h have h: "handles r ! k = (d, False)" by simp
    let ?r = "r\<lparr>handles := (handles r)[k := (d, True)]\<rparr>"
    note live = live_fire [OF assms(2) h]
    from live(2) assms(1) obtain i where i: "entries r d = Some i" by (cases "entries r d") (auto simp: inv_def)
    have inj: "e = d" if "entries r e = Some i" for e
      using inv_unique [OF assms(1) that i] .
    have refs: "refs (heap r i) = int (live r d)" using i assms(1) by (auto simp: inv_def)
    show ?thesis
    proof (cases "live r d = 1")
      case False
      then have "1 < live r d" using live(2) by linarith
      define r' where "r' = remove r k"
      have r': "entries r' = entries r" "fresh r' = fresh r" "ordered r' = ordered r"
        "heap r' = (heap r)(i := (heap r i)\<lparr>refs := refs (heap r i) - 1\<rparr>)"
        "live r' e = (if e = d then live r e - 1 else live r e)" for e
        using h i refs \<open>1 < live r d\<close> live(1) by (simp_all add: r'_def remove_def Let_def)
      have "by_length r'" by (rule by_length_refs [OF _ r'(3,4)]) (simp add: inv_ordered [OF assms(1)])
      then have "inv sha r'"
      proof (intro invI)
        fix e j
        assume "entries r' e = Some j"
        with r'(1) have e: "entries r e = Some j" by simp
        show "j < fresh r' \<and> sha (Value (heap r' j)) = e \<and> Value (heap r' j) \<noteq> []
            \<and> refs (heap r' j) = int (live r' e) \<and> 0 < live r' e"
        proof (cases "e = d")
          case True
          with e i have "j = i" by simp
          with inv_entry [OF assms(1) e] True \<open>1 < live r d\<close> show ?thesis
            unfolding r' by (simp add: of_nat_diff)
        next
          case False
          with inj e have "j \<noteq> i" by auto
          with inv_entry [OF assms(1) e] False show ?thesis unfolding r' by simp
        qed
      next
        fix e
        assume "entries r' e = None"
        with r'(1) i inv_none [OF assms(1)] show "live r' e = 0" by (auto simp: r'(5))
      qed (use inv_ordered [OF assms(1)] r' in simp_all)
      then show ?thesis by (simp add: r'_def)
    next
      case True
      define r' where "r' = remove r k"
      let ?h = "(heap r)(i := (heap r i)\<lparr>refs := 0, Value := replicate (length (Value (heap r i))) (char_of (0::nat))\<rparr>)"
      have r': "entries r' = (entries r)(d := None)" "fresh r' = fresh r" "ordered r' = remove1 i (ordered r)"
        "heap r' = ?h" "live r' e = (if e = d then live r e - 1 else live r e)" for e
        using h i refs True live(1) by (simp_all add: r'_def remove_def Let_def)
      have ran: "ran ((entries r)(d := None)) = ran (entries r) - {i}"
        by (simp add: ran_def set_eq_iff) (metis i inj option.inject)
      have "sorted (map (\<lambda>j. - entry_len (heap r) j) (remove1 i (ordered r)))"
        using inv_ordered [OF assms(1)] by (intro sorted_map_remove1) (simp add: by_length_def)
      moreover have "map (\<lambda>j. - entry_len (heap r') j) (remove1 i (ordered r)) =
          map (\<lambda>j. - entry_len (heap r) j) (remove1 i (ordered r))"
        unfolding r' by (simp add: entry_len_def)
      ultimately have "by_length r'" by (simp only: by_length_def r'(3))
      then have "inv sha r'"
      proof (intro invI)
        fix e j
        assume "entries r' e = Some j"
        with r'(1) have e: "entries r e = Some j" "e \<noteq> d" by (auto split: if_splits)
        with inj have "j \<noteq> i" by auto
        with inv_entry [OF assms(1) e(1)] e(2) show "j < fresh r' \<and> sha (Value (heap r' j)) = e
            \<and> Value (heap r' j) \<noteq> [] \<and> refs (heap r' j) = int (live r' e) \<and> 0 < live r' e"
          unfolding r' by simp
      next
        fix e
        assume "entries r' e = None"
        with r'(1) True inv_none [OF assms(1)] show "live r' e = 0" by (auto simp: r'(5) split: if_splits)
      next
        show "set (ordered r') = ran (entries r')"
          using inv_ordered [OF assms(1)] ran r' by (simp add: set_remove1_eq)
      qed (use inv_ordered [OF assms(1)] r' in simp_all)
      then show ?thesis by (simp add: r'_def)
    qed
  qed
qed

lemma reach_inv: "reach sha r \<Longrightarrow> inv sha r"
  by (induction rule: reach.induct) (auto intro: inv_new inv_register inv_remove)

section \<open>What registration promises\<close>

text \<open>The handle \<open>k\<close> is unused and stands for the value \<open>v\<close>, which the registry holds.\<close>

definition holds :: "(bytes \<Rightarrow> bytes) \<Rightarrow> nat \<Rightarrow> bytes \<Rightarrow> redactor \<Rightarrow> bool" where
  "holds sha k v r \<longleftrightarrow>
     inv sha r \<and> k < length (handles r) \<and> handles r ! k = (sha v, False)
     \<and> (\<exists>i. entries r (sha v) = Some i \<and> Value (heap r i) = v)"

lemma live_pos: "k < length (handles r) \<Longrightarrow> handles r ! k = (d, False) \<Longrightarrow> 0 < live r d"
  by (rule live_fire(2))

lemma live_two:
  assumes "k < length (handles r)" "handles r ! k = (d, False)" "j < length (handles r)" "handles r ! j = (d, False)" "j \<noteq> k"
  shows "1 < live r d"
proof -
  let ?r = "r\<lparr>handles := (handles r)[k := (d, True)]\<rparr>"
  have "0 < live ?r d" using assms by (intro live_pos [of j]) simp_all
  then show ?thesis using live_fire(1) [OF assms(1,2), of d] by simp
qed

lemma holds_after_register:
  assumes "holds sha k v r"
  shows "holds sha k v (snd (Register sha r w))"
proof -
  obtain i where i: "inv sha r" "k < length (handles r)" "handles r ! k = (sha v, False)"
    "entries r (sha v) = Some i" "Value (heap r i) = v" "i < fresh r"
    using assms inv_entry by (auto simp: holds_def)
  have "handles (snd (Register sha r w)) ! k = (sha v, False) \<and> k < length (handles (snd (Register sha r w)))"
    using i(2,3) by (auto simp: Register_def Let_def nth_append split: option.splits)
  moreover have "\<exists>i. entries (snd (Register sha r w)) (sha v) = Some i \<and> Value (heap (snd (Register sha r w)) i) = v"
    using i(4-6) by (auto simp: Register_def Let_def split: option.splits)
  ultimately show ?thesis using inv_register [OF i(1)] by (auto simp: holds_def)
qed

lemma holds_after_remove:
  assumes "holds sha k v r" "j < length (handles r)" "j \<noteq> k"
  shows "holds sha k v (remove r j)"
proof -
  obtain i where i: "inv sha r" "k < length (handles r)" "handles r ! k = (sha v, False)"
    "entries r (sha v) = Some i" "Value (heap r i) = v"
    using assms(1) by (auto simp: holds_def)
  obtain d f where h: "handles r ! j = (d, f)" by (cases "handles r ! j")
  show ?thesis
  proof (cases f)
    case True
    with h assms(1) show ?thesis by (simp add: remove_def)
  next
    case False
    with h have h: "handles r ! j = (d, False)" by simp
    have keep: "handles (remove r j) ! k = (sha v, False) \<and> k < length (handles (remove r j))"
      using i(2,3) assms(3) h by (auto simp: remove_def Let_def split: option.splits)
    have "\<exists>i. entries (remove r j) (sha v) = Some i \<and> Value (heap (remove r j) i) = v"
    proof (cases "d = sha v")
      case True
      have "1 < live r d" using live_two [OF i(2,3) assms(2)] h True assms(3) by simp
      then have "0 < refs (heap r i) - 1" using inv_entry [OF i(1,4)] True by simp
      with i(4,5) h True show ?thesis by (simp add: remove_def Let_def)
    next
      case False
      have "i' \<noteq> i" if "entries r d = Some i'" for i'
        using inv_unique [OF i(1) that] i(4) False by auto
      with i(4,5) h False show ?thesis by (auto simp: remove_def Let_def split: option.splits)
    qed
    with keep inv_remove [OF i(1) assms(2)] show ?thesis by (auto simp: holds_def)
  qed
qed

lemma keeps_holds: "keeps sha k r r' \<Longrightarrow> holds sha k v r \<Longrightarrow> holds sha k v r'"
  by (induction rule: keeps.induct) (auto intro: holds_after_register holds_after_remove)

lemma register_holds:
  assumes "inv sha r" "Register sha r v = (Inr k, r')"
  shows "holds sha k v r'"
proof -
  have "inv sha r'" using inv_register [OF assms(1), of v] assms(2) by simp
  with assms(2) show ?thesis
    by (auto simp: holds_def Register_def Let_def split: if_splits option.splits)
qed

lemma holds_hidden:
  assumes "holds sha k v r" "set v \<inter> set Replacement = {}"
  shows "hidden r v"
proof -
  from assms(1) obtain i where i: "inv sha r" "entries r (sha v) = Some i" "Value (heap r i) = v"
    by (auto simp: holds_def)
  then have "i \<in> set (ordered r)" using inv_ordered [OF i(1)] by (auto simp: ran_def)
  moreover have "Value (heap r j) \<noteq> []" if "j \<in> set (ordered r)" for j
    using that inv_ordered [OF i(1)] inv_entry [OF i(1)] by (auto simp: ran_def)
  ultimately have "v \<in> set (registered r)" "[] \<notin> set (registered r)"
    using i(3) by (auto simp: registered_def) metis
  with assms(2) show ?thesis by (simp add: hidden_def)
qed

lemma registered_hidden:
  assumes "reach sha r" "Register sha r v = (Inr k, r1)" "keeps sha k r1 r2" "set v \<inter> set Replacement = {}"
  shows "hidden r2 v"
  using holds_hidden keeps_holds [OF assms(3) register_holds [OF reach_inv [OF assms(1)] assms(2)]] assms(4)
  by blast

lemma registered_nonempty: "Register sha r v = (Inr k, r1) \<Longrightarrow> v \<noteq> []"
  by (auto simp: Register_def split: if_splits)


definition example_secret :: bytes where "example_secret = ''sk-live-01''"


lemma remove_idem: "k < length (handles r) \<Longrightarrow> remove (remove r k) k = remove r k"
proof -
  assume k: "k < length (handles r)"
  obtain d f where h: "handles r ! k = (d, f)" by (cases "handles r ! k")
  have "handles (remove r k) ! k = (d, True)"
    using h k by (cases f) (auto simp: remove_def Let_def split: option.splits)
  then show ?thesis by (simp add: remove_def [of "remove r k"])
qed

lemma remove1_sort_snoc:
  assumes "x \<notin> set xs" "distinct xs" "sorted (map f xs)"
  shows "remove1 x (sort_key f (xs @ [x])) = xs"
proof -
  have "remove1 x (sort_key f (xs @ [x])) = filter (\<lambda>y. x \<noteq> y) (sort_key f (xs @ [x]))"
    using assms(1,2) by (simp add: distinct_remove1_removeAll removeAll_filter_not_eq)
  also have "\<dots> = sort_key f (filter (\<lambda>y. x \<noteq> y) (xs @ [x]))" by (simp only: filter_sort)
  also have "filter (\<lambda>y. x \<noteq> y) (xs @ [x]) = xs" using assms(1) by (auto intro: filter_True)
  also have "sort_key f xs = xs" using assms(3) by (rule sort_key_id_if_sorted)
  finally show ?thesis .
qed

text \<open>
  Registering a value and using its handle once leaves the registry cutting out exactly the
  values it cut out before, in the same order, and using the handle again changes nothing: values
  registered twice stay until both handles are used.
\<close>

theorem register_remove_roundtrip:
  assumes "reach sha r" and "Register sha r v = (Inr k, r1)"
  shows "registered (remove r1 k) = registered r \<and> remove (remove r1 k) k = remove r1 k"
proof
  have inv: "inv sha r" by (rule reach_inv [OF assms(1)])
  have len: "\<not> (length v < 8 \<or> length v > 16384)" using assms(2) by (auto simp: Register_def split: if_splits)
  have k: "k = length (handles r)" "handles r1 = handles r @ [(sha v, False)]"
    using assms(2) len by (auto simp: Register_def Let_def split: option.splits if_splits)
  then show "remove (remove r1 k) k = remove r1 k" by (intro remove_idem) simp
  show "registered (remove r1 k) = registered r"
  proof (cases "entries r (sha v)")
    case (Some i)
    then have v: "Value (heap r i) = v"
      "r1 = r\<lparr>heap := (heap r)(i := (heap r i)\<lparr>refs := refs (heap r i) + 1\<rparr>), handles := handles r @ [(sha v, False)]\<rparr>"
      using assms(2) len by (auto simp: Register_def Let_def split: if_splits)
    have "0 < refs (heap r i)" using inv_entry [OF inv Some] by simp
    with v(2) k Some show ?thesis by (simp add: remove_def Let_def registered_def nth_append)
  next
    case None
    let ?i = "fresh r"
    let ?h = "(heap r)(?i := \<lparr>Value = v, refs = 1\<rparr>)"
    have r1: "r1 = r\<lparr>entries := (entries r)(sha v := Some ?i),
        ordered := sort_key (\<lambda>j. - entry_len ?h j) (ordered r @ [?i]), heap := ?h, fresh := Suc ?i,
        handles := handles r @ [(sha v, False)]\<rparr>"
      using assms(2) len None by (auto simp: Register_def Let_def)
    have new: "?i \<notin> set (ordered r)"
      using inv_ordered [OF inv] inv_entry [OF inv] by (auto simp: ran_def)
    have "map (\<lambda>j. - entry_len ?h j) (ordered r) = map (\<lambda>j. - entry_len (heap r) j) (ordered r)"
      using new by (auto simp: entry_len_def)
    then have "sorted (map (\<lambda>j. - entry_len ?h j) (ordered r))"
      using inv_ordered [OF inv] by (simp only: by_length_def)
    then have "remove1 ?i (sort_key (\<lambda>j. - entry_len ?h j) (ordered r @ [?i])) = ordered r"
      using inv_ordered [OF inv] by (intro remove1_sort_snoc new) simp_all
    with r1 k new show ?thesis
      by (auto simp: remove_def Let_def registered_def nth_append)
  qed
qed

lemma register_remove_roundtrip_witness:
  "registered (remove (snd (Register id new_redactor example_secret)) 0) = registered new_redactor"
proof -
  have reg: "Register id new_redactor example_secret = (Inr 0, snd (Register id new_redactor example_secret))"
    by (simp add: Register_def new_redactor_def example_secret_def Let_def)
  from register_remove_roundtrip [OF reach_new reg] show ?thesis by blast
qed

end
