(* ===== verification/Database.thy ===== *)
theory Database
  imports Prelude GoText
begin

text \<open>
  The installation database of \<open>internal/storage\<close>: the tables the modelled operations use, one
  record per table with the columns of \<open>migrations/*.sql\<close>, and transactions.

  A timestamp column holds what \<open>time.Parse\<close> makes of its text, \<open>None\<close> for a text that does not
  parse; the code writes UTC times in \<open>RFC3339Nano\<close>, which parse back to themselves. A table is a
  list of rows; an update maps over it, and the number of rows affected is the number of rows that
  match. \<open>faults\<close> names the statements that fail: the only way a statement that violates no
  constraint can fail here is an error of the database itself.
\<close>

section \<open>Rows\<close>

type_synonym stamp = "time option"

record admin_user =
  user_id :: string
  user_name :: string
  password_phc :: string
  auth_version :: int
  user_created :: stamp
  user_updated :: stamp

record admin_session =
  id_hash :: bytes
  ses_admin :: string
  ses_auth_version :: int
  csrf_hash :: bytes
  csrf_previous :: "bytes option"
  csrf_rotated :: stamp
  ses_created :: stamp
  last_seen :: stamp
  expires :: stamp
  revoked :: "stamp option"
  idle_seconds :: "int option"

record audit_event =
  au_actor_type :: string
  au_actor_id :: string
  au_action :: string
  au_kind :: string
  au_resource :: string
  au_result :: string
  au_version :: int
  au_code :: string
  au_occurred :: time

record resource =
  res_id :: string
  res_kind :: string
  res_name :: string
  res_display :: "string option"
  res_description :: "string option"
  res_version :: int
  res_spec :: string
  res_created :: stamp
  res_updated :: stamp

record provider_account =
  pa_resource :: string
  pa_provider :: string

record provider_connection =
  pn_resource :: string
  pn_provider :: string
  pn_base_url :: string
  pn_private :: bool
  pn_enabled :: bool

record egress =
  eg_resource :: string
  eg_type :: string
  eg_enabled :: bool

record credential_row =
  cd_resource :: string
  cd_account :: string
  cd_egress :: string
  cd_secret :: string
  cd_status :: string
  cd_blocked :: "string option"

record model_row =
  md_resource :: string
  md_connection :: string
  md_model :: string
  md_capabilities :: "string list option"
  md_enabled :: bool

record destination_row =
  dn_resource :: string
  dn_model :: string
  dn_credential :: string
  dn_weight :: int
  dn_enabled :: bool

record strategy_version =
  sv_id :: string
  sv_strategy :: string
  sv_number :: int
  sv_definition :: string
  sv_checksum :: string
  sv_published :: time

record secret_row =
  se_id :: string
  se_name :: string
  se_key_version :: int
  se_algorithm :: string
  se_nonce :: bytes
  se_ciphertext :: bytes
  se_fingerprint :: string
  se_version :: int
  se_created :: stamp
  se_updated :: stamp

record installation_row =
  in_id :: string
  in_key_version :: int
  in_revision :: int
  in_key_check :: "bytes option"
  in_created :: stamp
  in_updated :: stamp

record settings_row =
  st_version :: int
  st_spec :: string
  st_updated :: stamp

record agent_token =
  at_resource :: string
  verifier :: "bytes option"
  token_prefix :: "string option"
  issued_at :: "stamp option"
  expires_at :: "stamp option"
  revoked_at :: "stamp option"
  allowed_routes :: "string list option"

record route =
  route_resource :: string
  model_alias :: string
  route_strategy :: string
  route_active :: "string option"
  route_enabled :: bool

record consumed_plan =
  nonce_hash :: bytes
  plan_expires :: time
  plan_consumed :: time

record request_row =
  rq_id :: string
  rq_agent :: "string option"
  rq_route :: "string option"
  rq_alias :: string
  rq_started :: time
  rq_completed :: "time option"
  rq_outcome :: "string option"
  rq_status :: "int option"
  rq_input :: "int option"
  rq_output :: "int option"
  rq_ttft :: "int option"
  rq_duration :: "int option"

record attempt_row =
  ar_id :: string
  ar_request :: string
  ar_sequence :: nat
  ar_destination :: "string option"
  ar_started :: time
  ar_completed :: time
  ar_outcome :: string
  ar_error_class :: "string option"
  ar_status :: "int option"
  ar_request_ref :: "string option"
  ar_retryable :: bool
  ar_fallback :: "string option"

record observation_row =
  ob_id :: string
  ob_attempt :: string
  ob_destination :: string
  ob_source :: string
  ob_resets :: time
  ob_observed :: time

record cooldown_row =
  co_id :: string
  co_kind :: string
  co_resource :: string
  co_reason :: string
  co_starts :: time
  co_ends :: time
  co_source :: string

record login_stat =
  ls_minute :: int
  ls_reason :: string
  ls_count :: int

record database =
  admin_users :: "admin_user list"
  admin_sessions :: "admin_session list"
  audit_events :: "audit_event list"
  resources :: "resource list"
  agent_tokens :: "agent_token list"
  routes :: "route list"
  provider_accounts :: "provider_account list"
  provider_connections :: "provider_connection list"
  egresses :: "egress list"
  credential_rows :: "credential_row list"
  model_rows :: "model_row list"
  destination_rows :: "destination_row list"
  strategy_versions :: "strategy_version list"
  secret_rows :: "secret_row list"
  installation :: "installation_row option"
  settings_rows :: "settings_row option"
  consumed_plan_tokens :: "consumed_plan list"
  requests :: "request_row list"
  attempts :: "attempt_row list"
  observations :: "observation_row list"
  cooldowns :: "cooldown_row list"
  login_stats :: "login_stat list"

definition empty_database :: database where
  "empty_database = \<lparr>admin_users = [], admin_sessions = [], audit_events = [], resources = [], agent_tokens = [],
     routes = [], provider_accounts = [], provider_connections = [], egresses = [], credential_rows = [],
     model_rows = [], destination_rows = [], strategy_versions = [], secret_rows = [], installation = None,
     settings_rows = None, consumed_plan_tokens = [], requests = [], attempts = [], observations = [], cooldowns = [],
     login_stats = []\<rparr>"

section \<open>Statements\<close>

text \<open>\<open>UPDATE ... SET f WHERE p\<close>: the table and the number of rows affected.\<close>

definition update_where :: "('r \<Rightarrow> bool) \<Rightarrow> ('r \<Rightarrow> 'r) \<Rightarrow> 'r list \<Rightarrow> 'r list \<times> nat" where
  "update_where p f rows = (map (\<lambda>r. if p r then f r else r) rows, length (filter p rows))"

definition delete_where :: "('r \<Rightarrow> bool) \<Rightarrow> 'r list \<Rightarrow> 'r list" where
  "delete_where p rows = filter (\<lambda>r. \<not> p r) rows"

lemma update_where_affected: "snd (update_where p f rows) = 0 \<longleftrightarrow> (\<forall>r\<in>set rows. \<not> p r)"
  by (simp add: update_where_def filter_empty_conv)

lemma update_where_none: "\<forall>r\<in>set rows. \<not> p r \<Longrightarrow> fst (update_where p f rows) = rows"
  by (induction rows) (auto simp: update_where_def)

lemma length_update_where [simp]: "length (fst (update_where p f rows)) = length rows"
  by (simp add: update_where_def)

lemma map_key_update_where:
  "(\<And>r. p r \<Longrightarrow> k (f r) = k r) \<Longrightarrow> map k (fst (update_where p f rows)) = map k rows"
  by (simp add: update_where_def)

lemma find_update_where_other:
  "(\<And>r. p r \<Longrightarrow> \<not> q r \<and> \<not> q (f r)) \<Longrightarrow> find q (fst (update_where p f rows)) = find q rows"
  by (induction rows) (auto simp: update_where_def)

lemma find_update_where:
  "find q rows = Some r \<Longrightarrow> (\<And>r. p r \<Longrightarrow> q (f r) \<longleftrightarrow> q r) \<Longrightarrow>
   find q (fst (update_where p f rows)) = Some (if p r then f r else r)"
  by (induction rows) (auto simp: update_where_def)

lemma find_key_unique:
  "distinct (map k rows) \<Longrightarrow> r \<in> set rows \<Longrightarrow> find (\<lambda>r'. k r' = k r) rows = Some r"
  by (induction rows) auto

lemma affected_unique:
  assumes "distinct (map k rows)"
  shows "length (filter (\<lambda>r. k r = x \<and> p r) rows) \<le> 1"
  using assms
proof (induction rows)
  case (Cons a rows)
  have "k r \<noteq> k a" if "r \<in> set rows" for r
    using Cons.prems imageI [OF that, of k] by auto
  then have "k a = x \<Longrightarrow> filter (\<lambda>r. k r = x \<and> p r) rows = []"
    by (auto simp: filter_empty_conv)
  with Cons show ?case by auto
qed simp

lemma affected_one:
  assumes "distinct (map k rows)"
  shows "length (filter (\<lambda>r. k r = x \<and> p r) rows) = 1 \<longleftrightarrow>
    (\<exists>r. find (\<lambda>r. k r = x) rows = Some r \<and> p r)"
  using assms
proof (induction rows)
  case (Cons a rows)
  show ?case
  proof (cases "k a = x")
    case True
    have "k r \<noteq> x" if "r \<in> set rows" for r
      using Cons.prems True imageI [OF that, of k] by auto
    then have "filter (\<lambda>r. k r = x \<and> p r) rows = []"
      by (simp add: filter_empty_conv)
    with True show ?thesis by simp
  next
    case False
    with Cons show ?thesis by simp
  qed
qed simp

section \<open>Transactions\<close>

record faults =
  fails :: "string \<Rightarrow> bool"
  commit_fails :: bool
  commit_durable :: bool

definition no_faults :: faults where
  "no_faults = \<lparr>fails = (\<lambda>s. False), commit_fails = False, commit_durable = False\<rparr>"

text \<open>
  \<open>BeginTx\<close>, the body, \<open>Commit\<close>, with the deferred \<open>Rollback\<close>: an error of the body leaves the
  database as it was. After a commit that returns an error the changes may or may not be there.
\<close>

definition transact ::
    "faults \<Rightarrow> 'e \<Rightarrow> 'e \<Rightarrow> ('d \<Rightarrow> ('e + 'a) \<times> 'd) \<Rightarrow> 'd \<Rightarrow> ('e + 'a) \<times> 'd" where
  "transact f begin_error commit_error body db =
     (if fails f ''begin'' then (Inl begin_error, db)
      else (case body db of
              (Inl e, _) \<Rightarrow> (Inl e, db)
            | (Inr a, db') \<Rightarrow>
                if commit_fails f then (Inl commit_error, if commit_durable f then db' else db)
                else (Inr a, db')))"

lemma transact_Inr:
  "transact f eb ec body db = (Inr a, db') \<longleftrightarrow>
     \<not> fails f ''begin'' \<and> \<not> commit_fails f \<and> body db = (Inr a, db')"
  by (auto simp: transact_def split: prod.splits sum.splits)

lemma transact_rollback:
  "transact f eb ec body db = (Inl e, db') \<Longrightarrow> \<not> commit_fails f \<Longrightarrow> db' = db"
  by (auto simp: transact_def split: prod.splits sum.splits if_splits)

lemma transact_all_or_nothing:
  "snd (transact f eb ec body db) = db \<or> (\<exists>a. body db = (Inr a, snd (transact f eb ec body db)))"
  by (auto simp: transact_def split: prod.splits sum.splits)

text \<open>A statement that the database refuses, and the sequencing of statements.\<close>

type_synonym ('e, 'a) step = "database \<Rightarrow> ('e + 'a) \<times> database"

definition returns :: "'a \<Rightarrow> ('e, 'a) step" where
  "returns a db = (Inr a, db)"

definition raises :: "'e \<Rightarrow> ('e, 'a) step" where
  "raises e db = (Inl e, db)"

definition bind_step :: "('e, 'a) step \<Rightarrow> ('a \<Rightarrow> ('e, 'b) step) \<Rightarrow> ('e, 'b) step" where
  "bind_step m k db = (case m db of (Inl e, db') \<Rightarrow> (Inl e, db') | (Inr a, db') \<Rightarrow> k a db')"

definition guard :: "bool \<Rightarrow> 'e \<Rightarrow> ('e, unit) step" where
  "guard b e = (if b then returns () else raises e)"

definition modify :: "(database \<Rightarrow> database) \<Rightarrow> ('e, unit) step" where
  "modify f db = (Inr (), f db)"

definition lift :: "('e + 'a) \<Rightarrow> ('e, 'a) step" where
  "lift r db = (r, db)"

definition reads :: "(database \<Rightarrow> 'a) \<Rightarrow> ('e, 'a) step" where
  "reads f db = (Inr (f db), db)"

lemma bind_step_Inr:
  "bind_step m k db = (Inr b, db'') \<longleftrightarrow> (\<exists>a db'. m db = (Inr a, db') \<and> k a db' = (Inr b, db''))"
  by (auto simp: bind_step_def split: prod.splits sum.splits)

lemma guard_Inr: "guard b e db = (Inr u, db') \<longleftrightarrow> b \<and> db' = db"
  by (auto simp: guard_def returns_def raises_def)

lemma step_simps [simp]:
  "returns a db = (Inr a, db)" "raises e db = (Inl e, db)" "modify f db = (Inr (), f db)"
  "lift r db = (r, db)" "reads g db = (Inr (g db), db)"
  by (simp_all add: returns_def raises_def modify_def lift_def reads_def)

lemma bind_run [simp]:
  "m db = (Inr a, db') \<Longrightarrow> bind_step m k db = k a db'"
  "m db = (Inl e, db') \<Longrightarrow> bind_step m k db = (Inl e, db')"
  by (simp_all add: bind_step_def)

lemma guard_run [simp]:
  "guard True e db = (Inr (), db)" "guard False e db = (Inl e, db)"
  by (simp_all add: guard_def)

lemmas step_elims = bind_step_Inr guard_Inr

section \<open>Audit\<close>

record actor =
  actor_Type :: string
  actor_ID :: string

text \<open>\<open>insertAudit\<close>; the fresh event id carries no information and is left out.\<close>

definition insertAudit ::
    "faults \<Rightarrow> 'e \<Rightarrow> time \<Rightarrow> actor \<Rightarrow> string \<Rightarrow> string \<Rightarrow> string \<Rightarrow> string \<Rightarrow> int \<Rightarrow> ('e, unit) step" where
  "insertAudit f err now actor action kind resource outcome version =
     bind_step (guard (\<not> fails f ''audit'') err) (\<lambda>_.
     modify (\<lambda>db. db\<lparr>audit_events := audit_events db @
       [\<lparr>au_actor_type = actor_Type actor, au_actor_id = actor_ID actor, au_action = action, au_kind = kind,
         au_resource = resource, au_result = outcome, au_version = version, au_code = [], au_occurred = now\<rparr>]\<rparr>))"

end
