(* ===== verification/Base64.thy ===== *)
theory Base64
  imports GoText
begin

text \<open>
  \<open>base64.RawURLEncoding\<close>, and its \<open>Strict ()\<close> decoder: no padding, the URL alphabet, the unused
  low bits of the last digit zero. As in Go the decoder skips carriage returns and newlines, so that
  a text decodes to the bytes it was encoded from, but several texts may decode to the same bytes;
  \<open>canonical\<close> texts are the encoder's.
\<close>

section \<open>Digits\<close>

definition b64_char :: "nat \<Rightarrow> char" where
  "b64_char n =
     (if n < 26 then char_of (65 + n)
      else if n < 52 then char_of (71 + n)
      else if n < 62 then char_of (n - 4)
      else if n = 62 then CHR ''-''
      else CHR ''_'')"

definition b64_value :: "char \<Rightarrow> nat option" where
  "b64_value c =
     (if is_upper c then Some (byte c - 65)
      else if is_lower c then Some (byte c - 71)
      else if is_digit c then Some (byte c + 4)
      else if c = CHR ''-'' then Some 62
      else if c = CHR ''_'' then Some 63
      else None)"

lemma byte_minus: "byte (CHR ''-'') = 45" "byte (CHR ''_'') = 95"
  by (simp_all add: byte_def)

lemma b64_value_char [simp]: "n < 64 \<Longrightarrow> b64_value (b64_char n) = Some n"
  by (auto simp: b64_char_def b64_value_def is_upper_def is_lower_def is_digit_def in_range_def byte_minus)

lemma b64_char_value: "b64_value c = Some n \<Longrightarrow> n < 64 \<and> b64_char n = c"
  by (auto simp: b64_char_def b64_value_def is_upper_def is_lower_def is_digit_def in_range_def
      split: if_splits)

section \<open>Groups\<close>

fun encode_groups :: "nat list \<Rightarrow> nat list" where
  "encode_groups (a # b # c # xs) =
     a div 4 # ((a mod 4) * 16 + b div 16) # ((b mod 16) * 4 + c div 64) # c mod 64 # encode_groups xs"
| "encode_groups [a, b] = [a div 4, (a mod 4) * 16 + b div 16, (b mod 16) * 4]"
| "encode_groups [a] = [a div 4, (a mod 4) * 16]"
| "encode_groups [] = []"

fun decode_groups :: "nat list \<Rightarrow> nat list option" where
  "decode_groups (w # x # y # z # ds) =
     map_option (\<lambda>xs. (w * 4 + x div 16) # ((x mod 16) * 16 + y div 4) # ((y mod 4) * 64 + z) # xs) (decode_groups ds)"
| "decode_groups [w, x, y] = (if y mod 4 = 0 then Some [w * 4 + x div 16, (x mod 16) * 16 + y div 4] else None)"
| "decode_groups [w, x] = (if x mod 16 = 0 then Some [w * 4 + x div 16] else None)"
| "decode_groups [w] = None"
| "decode_groups [] = Some []"

lemma encode_groups_bound: "\<forall>x\<in>set xs. x < 256 \<Longrightarrow> \<forall>d\<in>set (encode_groups xs). d < 64"
  by (induction xs rule: encode_groups.induct) auto

lemma decode_encode_groups: "\<forall>x\<in>set xs. x < 256 \<Longrightarrow> decode_groups (encode_groups xs) = Some xs"
  by (induction xs rule: encode_groups.induct) auto

lemma decode_groups_bound:
  "decode_groups ds = Some xs \<Longrightarrow> \<forall>d\<in>set ds. d < 64 \<Longrightarrow> \<forall>x\<in>set xs. x < 256"
  by (induction ds arbitrary: xs rule: decode_groups.induct) (auto split: if_splits)

lemma encode_decode_groups:
  "decode_groups ds = Some xs \<Longrightarrow> \<forall>d\<in>set ds. d < 64 \<Longrightarrow> encode_groups xs = ds"
  by (induction ds arbitrary: xs rule: decode_groups.induct) (auto split: if_splits)

lemma length_encode_groups: "length (encode_groups xs) = (4 * length xs + 2) div 3"
  by (induction xs rule: encode_groups.induct) auto

section \<open>Texts\<close>

fun all_some :: "'a option list \<Rightarrow> 'a list option" where
  "all_some [] = Some []"
| "all_some (x # xs) = (case x of None \<Rightarrow> None | Some a \<Rightarrow> map_option (\<lambda>as. a # as) (all_some xs))"

lemma all_some_map: "all_some (map f xs) = Some ys \<longleftrightarrow> map f xs = map Some ys"
  by (induction xs arbitrary: ys) (auto split: option.splits simp: Cons_eq_map_conv map_eq_Cons_conv)

definition base64_encode :: "bytes \<Rightarrow> string" where
  "base64_encode s = map b64_char (encode_groups (map byte s))"

definition skip_breaks :: "string \<Rightarrow> string" where
  "skip_breaks s = filter (\<lambda>c. byte c \<noteq> 10 \<and> byte c \<noteq> 13) s"

definition base64_decode :: "string \<Rightarrow> bytes option" where
  "base64_decode s =
     (case all_some (map b64_value (skip_breaks s)) of
        None \<Rightarrow> None
      | Some ds \<Rightarrow> map_option (map char_of) (decode_groups ds))"

definition canonical :: "string \<Rightarrow> bool" where
  "canonical s \<longleftrightarrow> (\<exists>x. s = base64_encode x)"

lemma b64_char_no_break: "n < 64 \<Longrightarrow> byte (b64_char n) \<noteq> 10 \<and> byte (b64_char n) \<noteq> 13"
  by (auto simp: b64_char_def byte_minus)

lemma encode_bound: "\<forall>d\<in>set (encode_groups (map byte s)). d < 64"
  by (rule encode_groups_bound) (auto simp: byte_less)

lemma skip_breaks_encode [simp]: "skip_breaks (base64_encode s) = base64_encode s"
  using encode_bound [of s] b64_char_no_break
  by (auto simp: skip_breaks_def base64_encode_def filter_id_conv)

lemma base64_decode_encode [simp]: "base64_decode (base64_encode s) = Some s"
proof -
  have "map b64_value (base64_encode s) = map Some (encode_groups (map byte s))"
    using encode_bound [of s] by (simp add: base64_encode_def)
  then have "all_some (map b64_value (base64_encode s)) = Some (encode_groups (map byte s))"
    by (simp only: all_some_map)
  then show ?thesis
    using decode_encode_groups [of "map byte s"] byte_less
    by (auto simp: base64_decode_def comp_def)
qed

lemma base64_encode_decode:
  assumes "base64_decode s = Some x"
  shows "base64_encode x = skip_breaks s"
proof -
  obtain ds xs where ds: "map b64_value (skip_breaks s) = map Some ds" "decode_groups ds = Some xs" "x = map char_of xs"
    using assms by (auto simp: base64_decode_def all_some_map split: option.splits)
  have each: "\<forall>i<length ds. ds ! i < 64 \<and> b64_char (ds ! i) = skip_breaks s ! i"
  proof safe
    fix i assume "i < length ds"
    moreover from ds(1) have "length (skip_breaks s) = length ds" by (metis length_map)
    ultimately have "b64_value (skip_breaks s ! i) = Some (ds ! i)" using ds(1) by (metis nth_map)
    then show "ds ! i < 64" "b64_char (ds ! i) = skip_breaks s ! i" using b64_char_value by blast+
  qed
  then have bound: "\<forall>d\<in>set ds. d < 64" by (metis in_set_conv_nth)
  from ds(1) have len: "length (skip_breaks s) = length ds" by (metis length_map)
  with each have chars: "map b64_char ds = skip_breaks s" by (auto intro: nth_equalityI)
  have "map byte x = xs"
    using decode_groups_bound [OF ds(2) bound] ds(3) by (auto intro!: map_idI)
  then show ?thesis
    using encode_decode_groups [OF ds(2) bound] chars by (simp add: base64_encode_def)
qed

lemma length_base64_encode: "length (base64_encode s) = (4 * length s + 2) div 3"
  by (simp add: base64_encode_def length_encode_groups)

lemma base64_encode_inject [simp]: "base64_encode x = base64_encode y \<longleftrightarrow> x = y"
  by (metis base64_decode_encode option.inject)

section \<open>The codec contract\<close>

text \<open>An injective encoding with a decoder that returns what was encoded.\<close>

locale codec =
  fixes enc :: "'a \<Rightarrow> string" and dec :: "string \<Rightarrow> 'a option"
  assumes dec_enc: "dec (enc x) = Some x"
begin

lemma enc_inj: "enc x = enc y \<Longrightarrow> x = y"
  by (metis dec_enc option.inject)

lemma distinct_map_enc: "distinct xs \<Longrightarrow> distinct (map enc xs)"
  by (auto simp: distinct_map intro!: inj_onI dest: enc_inj)

end

interpretation base64: codec base64_encode base64_decode
  by unfold_locales (rule base64_decode_encode)

end
