(* ===== verification/Session.thy ===== *)
theory Session
  imports Database Base64
begin

text \<open>
  Administrative sessions, \<open>internal/storage/admin_session.go\<close>: creating a session, using it for a
  request, rotating its CSRF token, revoking it. SHA-256 and the random bytes are parameters; a
  failed read of the random source is \<open>None\<close>.
\<close>

datatype session_error =
    SessionInvalid
  | CsrfInvalid
  | StateInvalid
  | VersionConflict
  | RandomUnavailable
  | Failed string

record admin_identity =
  ad_ID :: string
  ad_Username :: string
  ad_AuthVersion :: int
  ad_CreatedAt :: time
  ad_UpdatedAt :: time

record verified_admin =
  va_ID :: string
  va_Username :: string
  va_AuthVersion :: int

record session_context =
  cx_Admin :: admin_identity
  cx_ExpiresAt :: time
  cx_CSRFToken :: string

record credentials =
  cr_SessionToken :: string
  cr_CSRFToken :: string
  cr_Admin :: admin_identity
  cr_ExpiresAt :: time

record session_row =
  row_admin :: admin_identity
  row_csrf :: bytes
  row_previous :: "bytes option"
  row_rotated :: time
  row_created :: time
  row_last :: time
  row_absolute :: time
  row_idle :: int

section \<open>Tokens\<close>

definition adminTokenBytes :: nat where "adminTokenBytes = 32"
definition previousCSRFWindow :: duration where "previousCSRFWindow = 60 * second"
definition sha256_size :: nat where "sha256_size = 32"

definition newAdminToken :: "(bytes \<Rightarrow> bytes) \<Rightarrow> bytes option \<Rightarrow> session_error + string \<times> bytes" where
  "newAdminToken sha raw =
     (case raw of
        None \<Rightarrow> Inl RandomUnavailable
      | Some r \<Rightarrow> Inr (base64_encode r, sha (base64_encode r)))"

definition decodeAdminToken :: "(bytes \<Rightarrow> bytes) \<Rightarrow> string \<Rightarrow> session_error + bytes" where
  "decodeAdminToken sha token =
     (if length token \<noteq> 43 then Inl SessionInvalid
      else (case base64_decode token of
              None \<Rightarrow> Inl SessionInvalid
            | Some raw \<Rightarrow>
                if length raw \<noteq> adminTokenBytes then Inl SessionInvalid
                else if base64_encode raw \<noteq> token then Inl SessionInvalid
                else Inr (sha token)))"

definition minTime :: "time \<Rightarrow> time \<Rightarrow> time" where
  "minTime a b = (if a < b then a else b)"

section \<open>Reading a session\<close>

text \<open>The checks of \<open>readLiveSession\<close> on the joined row, in their order.\<close>

definition check_row :: "admin_session \<Rightarrow> admin_user \<Rightarrow> time \<Rightarrow> session_error + session_row" where
  "check_row s u now =
     (case (user_created u, user_updated u, csrf_rotated s, ses_created s, last_seen s, expires s) of
        (Some uc, Some uu, Some rot, Some cre, Some seen, Some expiry) \<Rightarrow>
          (case idle_seconds s of
             None \<Rightarrow> Inl SessionInvalid
           | Some idle \<Rightarrow>
               check (\<not> (revoked s \<noteq> None \<or> idle < 300 \<or> idle > 86400 \<or> auth_version u < 1
                         \<or> ses_auth_version s \<noteq> auth_version u
                         \<or> length (id_hash s) \<noteq> sha256_size \<or> length (csrf_hash s) \<noteq> sha256_size
                         \<or> (case csrf_previous s of None \<Rightarrow> False | Some p \<Rightarrow> length p \<noteq> sha256_size))) SessionInvalid
               (check (\<not> (cre < uc \<or> seen < cre \<or> expiry \<le> cre \<or> rot < cre)) StateInvalid
               (check (now < expiry \<and> now < seen + idle * second) SessionInvalid
                 (Inr \<lparr>row_admin = \<lparr>ad_ID = user_id u, ad_Username = user_name u, ad_AuthVersion = auth_version u,
                                     ad_CreatedAt = uc, ad_UpdatedAt = uu\<rparr>,
                       row_csrf = csrf_hash s, row_previous = csrf_previous s, row_rotated = rot, row_created = cre,
                       row_last = seen, row_absolute = expiry, row_idle = idle\<rparr>))))
      | _ \<Rightarrow> Inl StateInvalid)"

definition readLiveSession :: "faults \<Rightarrow> bytes \<Rightarrow> time \<Rightarrow> (session_error, session_row) step" where
  "readLiveSession f h now db =
     (if fails f ''read session'' then (Inl (Failed ''read session''), db)
      else (case find (\<lambda>s. id_hash s = h) (admin_sessions db) of
              None \<Rightarrow> (Inl SessionInvalid, db)
            | Some s \<Rightarrow>
                (case find (\<lambda>u. user_id u = ses_admin s) (admin_users db) of
                   None \<Rightarrow> (Inl SessionInvalid, db)
                 | Some u \<Rightarrow> (check_row s u now, db))))"

definition validCSRF :: "session_row \<Rightarrow> bytes \<Rightarrow> time \<Rightarrow> bool" where
  "validCSRF row provided now \<longleftrightarrow>
     row_csrf row = provided
     \<or> (row_previous row = Some provided \<and> length provided = sha256_size
        \<and> row_rotated row \<le> now \<and> now \<le> row_rotated row + previousCSRFWindow)"

text \<open>The activity time of a request never lies before the recorded one.\<close>

definition activity :: "session_row \<Rightarrow> time \<Rightarrow> time" where
  "activity row now = (if now < row_last row then row_last row else now)"

definition rotation :: "session_row \<Rightarrow> time \<Rightarrow> time" where
  "rotation row now = (if activity row now < row_rotated row then row_rotated row else activity row now)"

section \<open>Operations\<close>

text \<open>\<open>UPDATE admin_sessions SET g WHERE id_hash=? AND revoked_at IS NULL\<close>, one row affected.\<close>

definition update_session ::
    "faults \<Rightarrow> string \<Rightarrow> bytes \<Rightarrow> (admin_session \<Rightarrow> admin_session) \<Rightarrow> (session_error, unit) step" where
  "update_session f site h g =
     bind_step (guard (\<not> fails f site) (Failed site)) (\<lambda>_ db.
       case update_where (\<lambda>s. id_hash s = h \<and> revoked s = None) g (admin_sessions db) of
         (rows, n) \<Rightarrow> if n \<noteq> 1 then (Inl SessionInvalid, db) else (Inr (), db\<lparr>admin_sessions := rows\<rparr>))"

definition useAdminSessionTx ::
    "faults \<Rightarrow> (bytes \<Rightarrow> bytes) \<Rightarrow> string \<Rightarrow> string \<Rightarrow> bool \<Rightarrow> time \<Rightarrow> (session_error, session_context) step" where
  "useAdminSessionTx f sha token csrf requireCSRF now =
     bind_step (lift (decodeAdminToken sha token)) (\<lambda>h.
     bind_step (readLiveSession f h now) (\<lambda>row.
     bind_step (guard (requireCSRF \<longrightarrow> (case decodeAdminToken sha csrf of
                          Inl _ \<Rightarrow> False | Inr provided \<Rightarrow> validCSRF row provided now)) CsrfInvalid) (\<lambda>_.
     bind_step (update_session f ''touch'' h (\<lambda>s. s\<lparr>last_seen := Some (activity row now)\<rparr>)) (\<lambda>_.
     returns \<lparr>cx_Admin = row_admin row,
              cx_ExpiresAt = minTime (row_absolute row) (activity row now + row_idle row * second),
              cx_CSRFToken = []\<rparr>))))"

abbreviation begin_failed :: session_error where "begin_failed \<equiv> Failed ''begin''"
abbreviation commit_failed :: session_error where "commit_failed \<equiv> Failed ''admin_session_commit_failed''"

definition UseAdminSession ::
    "faults \<Rightarrow> (bytes \<Rightarrow> bytes) \<Rightarrow> string \<Rightarrow> string \<Rightarrow> bool \<Rightarrow> time \<Rightarrow> (session_error, session_context) step" where
  "UseAdminSession f sha token csrf requireCSRF now =
     transact f begin_failed commit_failed (useAdminSessionTx f sha token csrf requireCSRF now)"

definition AuthorizeAdminMutationTx ::
    "faults \<Rightarrow> (bytes \<Rightarrow> bytes) \<Rightarrow> string \<Rightarrow> string \<Rightarrow> time \<Rightarrow> (session_error, actor) step" where
  "AuthorizeAdminMutationTx f sha token csrf now =
     bind_step (useAdminSessionTx f sha token csrf True now) (\<lambda>cx.
     returns \<lparr>actor_Type = ''admin'', actor_ID = ad_ID (cx_Admin cx)\<rparr>)"

definition CreateAdminSession ::
    "faults \<Rightarrow> (bytes \<Rightarrow> bytes) \<Rightarrow> bytes option \<Rightarrow> bytes option \<Rightarrow> verified_admin \<Rightarrow> int \<Rightarrow> int \<Rightarrow> time
     \<Rightarrow> (session_error, credentials) step" where
  "CreateAdminSession f sha raw1 raw2 v idle absolute now =
     bind_step (guard (\<not> (va_ID v = [] \<or> va_Username v = [] \<or> va_AuthVersion v < 1 \<or> idle < 300 \<or> idle > 86400
                          \<or> absolute < 300 \<or> absolute > 604800 \<or> idle > absolute)) StateInvalid) (\<lambda>_.
     bind_step (lift (newAdminToken sha raw1)) (\<lambda>(token, token_hash).
     bind_step (lift (newAdminToken sha raw2)) (\<lambda>(csrf, csrf_hash).
     let expiry = now + absolute * second in
     transact f begin_failed commit_failed (
       bind_step (guard (\<not> fails f ''read admin'') (Failed ''read admin'')) (\<lambda>_.
       bind_step (reads (\<lambda>db. find (\<lambda>u. user_id u = va_ID v) (admin_users db))) (\<lambda>found.
       case found of
         None \<Rightarrow> raises VersionConflict
       | Some u \<Rightarrow>
           bind_step (guard (user_name u = va_Username v \<and> auth_version u = va_AuthVersion v) VersionConflict) (\<lambda>_.
           (case (user_created u, user_updated u) of
              (Some created, Some updated) \<Rightarrow>
                bind_step (guard (\<not> now < created) StateInvalid) (\<lambda>_.
                bind_step (reads (\<lambda>db. \<forall>s\<in>set (admin_sessions db). id_hash s \<noteq> token_hash)) (\<lambda>new.
                bind_step (guard (new \<and> \<not> fails f ''insert session'') (Failed ''admin_session_create_failed'')) (\<lambda>_.
                bind_step (modify (\<lambda>db. db\<lparr>admin_sessions := admin_sessions db @
                    [\<lparr>id_hash = token_hash, ses_admin = va_ID v, ses_auth_version = va_AuthVersion v,
                      csrf_hash = csrf_hash, csrf_previous = None, csrf_rotated = Some now,
                      ses_created = Some now, last_seen = Some now, expires = Some expiry, revoked = None,
                      idle_seconds = Some idle\<rparr>]\<rparr>)) (\<lambda>_.
                bind_step (insertAudit f (Failed ''admin_session_audit_failed'') now
                    \<lparr>actor_Type = ''admin'', actor_ID = va_ID v\<rparr> ''admin.session_create'' ''AdminSession'' []
                    ''success'' (va_AuthVersion v)) (\<lambda>_.
                returns \<lparr>cr_SessionToken = token, cr_CSRFToken = csrf,
                   cr_Admin = \<lparr>ad_ID = va_ID v, ad_Username = user_name u, ad_AuthVersion = auth_version u,
                               ad_CreatedAt = created, ad_UpdatedAt = updated\<rparr>,
                   cr_ExpiresAt = minTime expiry (now + idle * second)\<rparr>)))))
            | _ \<Rightarrow> raises StateInvalid))))))))"

definition RotateAdminSessionCSRF ::
    "faults \<Rightarrow> (bytes \<Rightarrow> bytes) \<Rightarrow> bytes option \<Rightarrow> string \<Rightarrow> time \<Rightarrow> (session_error, session_context) step" where
  "RotateAdminSessionCSRF f sha raw token now =
     bind_step (lift (decodeAdminToken sha token)) (\<lambda>h.
     bind_step (lift (newAdminToken sha raw)) (\<lambda>(csrf, new_hash).
     transact f begin_failed commit_failed (
       bind_step (readLiveSession f h now) (\<lambda>row.
       bind_step (update_session f ''rotate'' h (\<lambda>s. s\<lparr>csrf_previous := Some (csrf_hash s), csrf_hash := new_hash,
           csrf_rotated := Some (rotation row now), last_seen := Some (activity row now)\<rparr>)) (\<lambda>_.
       returns \<lparr>cx_Admin = row_admin row,
                cx_ExpiresAt = minTime (row_absolute row) (activity row now + row_idle row * second),
                cx_CSRFToken = csrf\<rparr>)))))"

definition RevokeAdminSession ::
    "faults \<Rightarrow> (bytes \<Rightarrow> bytes) \<Rightarrow> string \<Rightarrow> string \<Rightarrow> time \<Rightarrow> (session_error, unit) step" where
  "RevokeAdminSession f sha token csrf now =
     bind_step (lift (decodeAdminToken sha token)) (\<lambda>h.
     transact f begin_failed commit_failed (
       bind_step (readLiveSession f h now) (\<lambda>row.
       bind_step (guard (case decodeAdminToken sha csrf of
                           Inl _ \<Rightarrow> False | Inr provided \<Rightarrow> validCSRF row provided now) CsrfInvalid) (\<lambda>_.
       bind_step (update_session f ''revoke'' h (\<lambda>s. s\<lparr>revoked := Some (Some now)\<rparr>)) (\<lambda>_.
       insertAudit f (Failed ''admin_session_audit_failed'') now
         \<lparr>actor_Type = ''admin'', actor_ID = ad_ID (row_admin row)\<rparr> ''admin.session_logout'' ''AdminSession'' []
         ''success'' (ad_AuthVersion (row_admin row)))))))"

text \<open>
  \<open>ResetAdminPassword\<close> of \<open>admin_identity.go\<close>. \<open>phc\<close> is the new password hash; \<open>settings\<close> and
  \<open>settings'\<close> are the resource versions of the settings read before and inside the transaction.
\<close>

definition ResetAdminPassword ::
    "faults \<Rightarrow> session_error + int \<Rightarrow> session_error + string \<Rightarrow> session_error + int \<Rightarrow> time
     \<Rightarrow> (session_error, admin_identity) step" where
  "ResetAdminPassword f settings phc settings' now =
     bind_step (lift settings) (\<lambda>version.
     bind_step (lift phc) (\<lambda>hash.
     transact f begin_failed commit_failed (
       bind_step (lift settings') (\<lambda>current.
       bind_step (guard (current = version) VersionConflict) (\<lambda>_.
       bind_step (guard (\<not> fails f ''read admin'') (Failed ''read admin'')) (\<lambda>_.
       bind_step (reads admin_users) (\<lambda>users.
       case users of
         [u] \<Rightarrow>
           bind_step (guard (\<not> fails f ''count admins'') (Failed ''count admins'')) (\<lambda>_.
           bind_step (guard (\<not> (auth_version u < 1 \<or> auth_version u = max_int64)) (Failed ''installation_incomplete'')) (\<lambda>_.
           (case (user_created u, user_updated u) of
              (Some created, Some _) \<Rightarrow>
                bind_step (guard (\<not> fails f ''reset password'') (Failed ''admin_password_reset_failed'')) (\<lambda>_.
                bind_step (\<lambda>db. case update_where
                    (\<lambda>v. user_id v = user_id u \<and> auth_version v = auth_version u)
                    (\<lambda>v. v\<lparr>password_phc := hash, auth_version := auth_version v + 1, user_updated := Some now\<rparr>)
                    (admin_users db) of
                  (rows, n) \<Rightarrow> if n \<noteq> 1 then (Inl VersionConflict, db) else (Inr (), db\<lparr>admin_users := rows\<rparr>)) (\<lambda>_.
                bind_step (guard (\<not> fails f ''revoke sessions'') (Failed ''admin_session_revocation_failed'')) (\<lambda>_.
                bind_step (modify (\<lambda>db. db\<lparr>admin_sessions := fst (update_where
                    (\<lambda>s. ses_admin s = user_id u \<and> revoked s = None) (\<lambda>s. s\<lparr>revoked := Some (Some now)\<rparr>)
                    (admin_sessions db))\<rparr>)) (\<lambda>_.
                bind_step (insertAudit f (Failed ''admin_password_reset_audit_failed'') now
                    \<lparr>actor_Type = ''cli'', actor_ID = user_id u\<rparr> ''admin.password_reset'' ''Admin'' (user_id u) ''success''
                    (auth_version u + 1)) (\<lambda>_.
                returns \<lparr>ad_ID = user_id u, ad_Username = user_name u, ad_AuthVersion = auth_version u + 1,
                   ad_CreatedAt = created, ad_UpdatedAt = now\<rparr>)))))
            | _ \<Rightarrow> raises (Failed ''installation_incomplete''))))
       | _ \<Rightarrow> raises (Failed ''installation_incomplete''))))))))"

section \<open>When a session is accepted\<close>

definition live_session :: "database \<Rightarrow> bytes \<Rightarrow> time \<Rightarrow> session_row \<Rightarrow> bool" where
  "live_session db h now row \<longleftrightarrow>
     (\<exists>s u. find (\<lambda>s. id_hash s = h) (admin_sessions db) = Some s
       \<and> find (\<lambda>u. user_id u = ses_admin s) (admin_users db) = Some u \<and> check_row s u now = Inr row)"

definition csrf_ok :: "(bytes \<Rightarrow> bytes) \<Rightarrow> session_row \<Rightarrow> string \<Rightarrow> time \<Rightarrow> bool" where
  "csrf_ok sha row csrf now \<longleftrightarrow> (\<exists>p. decodeAdminToken sha csrf = Inr p \<and> validCSRF row p now)"

lemma csrf_ok_case:
  "(case decodeAdminToken sha csrf of Inl _ \<Rightarrow> False | Inr p \<Rightarrow> validCSRF row p now) \<longleftrightarrow> csrf_ok sha row csrf now"
  by (auto simp: csrf_ok_def split: sum.splits)

text \<open>The primary key of the session table.\<close>

definition keyed :: "database \<Rightarrow> bool" where
  "keyed db \<longleftrightarrow> distinct (map id_hash (admin_sessions db))"

lemma readLive_Inr:
  "readLiveSession f h now db = (Inr row, db') \<longleftrightarrow>
     \<not> fails f ''read session'' \<and> db' = db \<and> live_session db h now row"
  by (auto simp: readLiveSession_def live_session_def split: option.splits)

lemma check_row_Inr:
  "check_row s u now = Inr row \<longleftrightarrow>
     (\<exists>idle. revoked s = None \<and> idle_seconds s = Some idle \<and> 300 \<le> idle \<and> idle \<le> 86400
        \<and> 1 \<le> auth_version u \<and> ses_auth_version s = auth_version u
        \<and> length (id_hash s) = sha256_size \<and> length (csrf_hash s) = sha256_size
        \<and> (\<forall>p. csrf_previous s = Some p \<longrightarrow> length p = sha256_size)
        \<and> user_created u = Some (ad_CreatedAt (row_admin row)) \<and> user_updated u = Some (ad_UpdatedAt (row_admin row))
        \<and> csrf_rotated s = Some (row_rotated row) \<and> ses_created s = Some (row_created row)
        \<and> last_seen s = Some (row_last row) \<and> expires s = Some (row_absolute row)
        \<and> ad_CreatedAt (row_admin row) \<le> row_created row \<and> row_created row \<le> row_last row
        \<and> row_created row < row_absolute row \<and> row_created row \<le> row_rotated row
        \<and> now < row_absolute row \<and> now < row_last row + idle * second
        \<and> row_csrf row = csrf_hash s \<and> row_previous row = csrf_previous s \<and> row_idle row = idle
        \<and> ad_ID (row_admin row) = user_id u \<and> ad_Username (row_admin row) = user_name u
        \<and> ad_AuthVersion (row_admin row) = auth_version u)"
  by (cases row, cases "row_admin row")
     (auto simp: check_row_def not_less split: option.splits)

lemma update_session_Inr:
  "update_session f site h g db = (Inr u, db') \<longleftrightarrow>
     \<not> fails f site \<and> length (filter (\<lambda>s. id_hash s = h \<and> revoked s = None) (admin_sessions db)) = 1
     \<and> db' = db\<lparr>admin_sessions := map (\<lambda>s. if id_hash s = h \<and> revoked s = None then g s else s) (admin_sessions db)\<rparr>"
  by (auto simp: update_session_def update_where_def step_elims)

lemma live_affected:
  assumes "keyed db" "live_session db h now row"
  shows "length (filter (\<lambda>s. id_hash s = h \<and> revoked s = None) (admin_sessions db)) = 1"
  using assms by (subst affected_one) (auto simp: keyed_def live_session_def check_row_Inr)

lemma use_Inr:
  "useAdminSessionTx f sha token csrf req now db = (Inr cx, db') \<longleftrightarrow>
     (\<exists>h row. decodeAdminToken sha token = Inr h \<and> \<not> fails f ''read session'' \<and> live_session db h now row
        \<and> (req \<longrightarrow> csrf_ok sha row csrf now)
        \<and> update_session f ''touch'' h (\<lambda>s. s\<lparr>last_seen := Some (activity row now)\<rparr>) db = (Inr (), db')
        \<and> cx = \<lparr>cx_Admin = row_admin row,
                cx_ExpiresAt = minTime (row_absolute row) (activity row now + row_idle row * second),
                cx_CSRFToken = []\<rparr>)"
  by (auto simp: useAdminSessionTx_def step_elims readLive_Inr csrf_ok_case)

text \<open>What the acceptance of a session token means, in terms of the stored rows.\<close>

definition accepts :: "(bytes \<Rightarrow> bytes) \<Rightarrow> database \<Rightarrow> string \<Rightarrow> string \<Rightarrow> bool \<Rightarrow> time \<Rightarrow> bool" where
  "accepts sha db token csrf req now \<longleftrightarrow>
     (\<exists>raw row. token = base64_encode raw \<and> length raw = adminTokenBytes
        \<and> live_session db (sha token) now row \<and> (req \<longrightarrow> csrf_ok sha row csrf now))"

lemma decode_Inr:
  "decodeAdminToken sha token = Inr h \<longleftrightarrow>
     (\<exists>raw. token = base64_encode raw \<and> length raw = adminTokenBytes) \<and> h = sha token"
proof
  assume "decodeAdminToken sha token = Inr h"
  then show "(\<exists>raw. token = base64_encode raw \<and> length raw = adminTokenBytes) \<and> h = sha token"
    by (auto simp: decodeAdminToken_def split: option.splits if_splits)
next
  assume "(\<exists>raw. token = base64_encode raw \<and> length raw = adminTokenBytes) \<and> h = sha token"
  then show "decodeAdminToken sha token = Inr h"
    by (auto simp: decodeAdminToken_def length_base64_encode adminTokenBytes_def)
qed

lemma use_accepts:
  assumes "keyed db"
  shows "(\<exists>cx db'. useAdminSessionTx no_faults sha token csrf req now db = (Inr cx, db'))
    \<longleftrightarrow> accepts sha db token csrf req now"
  using live_affected [OF assms]
  by (auto simp: use_Inr accepts_def decode_Inr update_session_Inr no_faults_def)

section \<open>How sessions evolve\<close>

definition evolves :: "admin_session \<Rightarrow> admin_session \<Rightarrow> bool" where
  "evolves s s' \<longleftrightarrow>
     id_hash s' = id_hash s \<and> ses_admin s' = ses_admin s \<and> ses_auth_version s' = ses_auth_version s
     \<and> ses_created s' = ses_created s \<and> expires s' = expires s \<and> idle_seconds s' = idle_seconds s
     \<and> (revoked s \<noteq> None \<longrightarrow> s' = s)
     \<and> (\<forall>t. last_seen s = Some t \<longrightarrow> (\<exists>t'. last_seen s' = Some t' \<and> t \<le> t'))"

definition table_evolves :: "admin_session list \<Rightarrow> admin_session list \<Rightarrow> bool" where
  "table_evolves ss ss' \<longleftrightarrow> length ss \<le> length ss' \<and> (\<forall>i<length ss. evolves (ss ! i) (ss' ! i))"

lemma evolves_refl [simp]: "evolves s s"
  by (simp add: evolves_def)

lemma evolves_trans:
  assumes "evolves a b" "evolves b c"
  shows "evolves a c"
proof -
  have "\<exists>t'. last_seen c = Some t' \<and> t \<le> t'" if "last_seen a = Some t" for t
    using assms that unfolding evolves_def by (metis order_trans)
  moreover have "c = a" if "revoked a \<noteq> None" using assms that by (simp add: evolves_def)
  ultimately show ?thesis using assms by (simp add: evolves_def)
qed

lemma table_evolves_refl [simp]: "table_evolves ss ss"
  by (simp add: table_evolves_def)

lemma table_evolves_trans: "table_evolves a b \<Longrightarrow> table_evolves b c \<Longrightarrow> table_evolves a c"
  unfolding table_evolves_def by (meson evolves_trans le_trans less_le_trans)

lemma table_evolves_map:
  "(\<And>s. s \<in> set ss \<Longrightarrow> P s \<Longrightarrow> evolves s (g s)) \<Longrightarrow> table_evolves ss (map (\<lambda>s. if P s then g s else s) ss)"
  by (auto simp: table_evolves_def)

lemma table_evolves_append [simp]: "table_evolves ss (ss @ new)"
  by (simp add: table_evolves_def nth_append)

lemma filter_single:
  assumes "length (filter P xs) = 1" "a \<in> set xs" "P a" "b \<in> set xs" "P b"
  shows "a = b"
proof -
  from assms(1) obtain x where "filter P xs = [x]" by (auto simp: length_Suc_conv)
  moreover have "a \<in> set (filter P xs)" "b \<in> set (filter P xs)" using assms(2-5) by simp_all
  ultimately show ?thesis by simp
qed

text \<open>The row read is the row updated, and its times are the ones the new times are compared with.\<close>

lemma live_updated:
  assumes "live_session db h now row" "s \<in> set (admin_sessions db)" "id_hash s = h" "revoked s = None"
    and "length (filter (\<lambda>s. id_hash s = h \<and> revoked s = None) (admin_sessions db)) = 1"
  shows "last_seen s = Some (row_last row)"
proof -
  from assms(1) obtain s0 u where s0: "find (\<lambda>s. id_hash s = h) (admin_sessions db) = Some s0" "check_row s0 u now = Inr row"
    by (auto simp: live_session_def)
  then have "s0 \<in> set (admin_sessions db)" "id_hash s0 = h" "revoked s0 = None" "last_seen s0 = Some (row_last row)"
    by (auto simp: find_Some_iff check_row_Inr)
  then show ?thesis using filter_single [OF assms(5), of s s0] assms by simp
qed

lemma update_session_evolves:
  assumes "update_session f site h g db = (Inr u, db')" "live_session db h now row"
    and "\<And>s. revoked s = None \<Longrightarrow> last_seen s = Some (row_last row) \<Longrightarrow> evolves s (g s)"
    and "\<And>s. id_hash (g s) = id_hash s"
  shows "table_evolves (admin_sessions db) (admin_sessions db') \<and> (keyed db \<longrightarrow> keyed db')"
proof
  have up: "length (filter (\<lambda>s. id_hash s = h \<and> revoked s = None) (admin_sessions db)) = 1"
    "db' = db\<lparr>admin_sessions := map (\<lambda>s. if id_hash s = h \<and> revoked s = None then g s else s) (admin_sessions db)\<rparr>"
    using assms(1) by (auto simp: update_session_Inr)
  show "table_evolves (admin_sessions db) (admin_sessions db')"
    using assms(3) live_updated [OF assms(2) _ _ _ up(1)] unfolding up(2) by (auto intro!: table_evolves_map)
  have "map id_hash (admin_sessions db') = map id_hash (admin_sessions db)"
    using assms(4) by (auto simp: up(2))
  then show "keyed db \<longrightarrow> keyed db'" by (simp add: keyed_def)
qed

lemma activity_ge: "row_last row \<le> activity row now" "now \<le> activity row now"
  by (simp_all add: activity_def)

lemma use_evolves:
  "useAdminSessionTx f sha token csrf req now db = (Inr cx, db') \<Longrightarrow>
   table_evolves (admin_sessions db) (admin_sessions db') \<and> (keyed db \<longrightarrow> keyed db')"
  unfolding use_Inr
  by (elim exE conjE, rule update_session_evolves, assumption, assumption) (simp_all add: evolves_def activity_ge)

lemma audit_sessions:
  "insertAudit f e now a x k r o' v db = (Inr u, db') \<Longrightarrow> admin_sessions db' = admin_sessions db"
  by (auto simp: insertAudit_def step_elims)

lemma keyed_cong: "admin_sessions db' = admin_sessions db \<Longrightarrow> keyed db' = keyed db"
  by (simp add: keyed_def)

definition good_step :: "database \<Rightarrow> database \<Rightarrow> bool" where
  "good_step db db' \<longleftrightarrow>
     table_evolves (admin_sessions db) (admin_sessions db') \<and> (keyed db \<longrightarrow> keyed db')"

lemma good_step_refl [simp]: "good_step db db"
  by (simp add: good_step_def)

lemma good_step_trans: "good_step a b \<Longrightarrow> good_step b c \<Longrightarrow> good_step a c"
  using table_evolves_trans by (auto simp: good_step_def)

lemma transact_good:
  assumes "\<And>a db'. body db = (Inr a, db') \<Longrightarrow> good_step db db'"
  shows "good_step db (snd (transact f eb ec body db))"
  using transact_all_or_nothing [of f eb ec body db] assms by (metis good_step_refl)

lemma use_good: "good_step db (snd (UseAdminSession f sha token csrf req now db))"
  unfolding UseAdminSession_def by (rule transact_good) (simp add: good_step_def use_evolves)

lemma lift_bind_good:
  assumes "\<And>a. r = Inr a \<Longrightarrow> good_step db (snd (k a db))"
  shows "good_step db (snd (bind_step (lift r) k db))"
  using assms by (cases r) (simp_all add: bind_step_def)

lemma rotate_good: "good_step db (snd (RotateAdminSessionCSRF f sha raw token now db))"
  unfolding RotateAdminSessionCSRF_def
proof (intro lift_bind_good, clarsimp split: prod.split, rule transact_good)
  fix h csrf new_hash a db'
  assume "bind_step (readLiveSession f h now) (\<lambda>row.
       bind_step (update_session f ''rotate'' h (\<lambda>s. s\<lparr>csrf_previous := Some (csrf_hash s), csrf_hash := new_hash,
           csrf_rotated := Some (rotation row now), last_seen := Some (activity row now)\<rparr>)) (\<lambda>_.
       returns \<lparr>cx_Admin = row_admin row,
                cx_ExpiresAt = minTime (row_absolute row) (activity row now + row_idle row * second),
                cx_CSRFToken = csrf\<rparr>)) db = (Inr a, db')"
  then obtain row where "live_session db h now row"
    "update_session f ''rotate'' h (\<lambda>s. s\<lparr>csrf_previous := Some (csrf_hash s), csrf_hash := new_hash,
           csrf_rotated := Some (rotation row now), last_seen := Some (activity row now)\<rparr>) db = (Inr (), db')"
    by (auto simp: step_elims readLive_Inr)
  then show "good_step db db'"
    unfolding good_step_def
    by - (rule update_session_evolves, assumption, assumption, simp_all add: evolves_def activity_ge)
qed

lemma revoke_good: "good_step db (snd (RevokeAdminSession f sha token csrf now db))"
  unfolding RevokeAdminSession_def
proof (intro lift_bind_good, rule transact_good, goal_cases)
  case (1 h a db')
  then obtain row db1 where r: "live_session db h now row"
    "update_session f ''revoke'' h (\<lambda>s. s\<lparr>revoked := Some (Some now)\<rparr>) db = (Inr (), db1)"
    "admin_sessions db' = admin_sessions db1"
    by (auto simp: step_elims readLive_Inr dest: audit_sessions)
  have "good_step db db1"
    unfolding good_step_def
    by (rule update_session_evolves [OF r(2,1)]) (auto simp: evolves_def)
  with r(3) show ?case by (simp add: good_step_def keyed_def)
qed

lemma guard_bind_good:
  assumes "b \<Longrightarrow> good_step db (snd (k () db))"
  shows "good_step db (snd (bind_step (guard b e) k db))"
  using assms by (cases b) (simp_all add: bind_step_def)

lemma lift_pair_good:
  assumes "\<And>a b. r = Inr (a, b) \<Longrightarrow> good_step db (snd (k a b db))"
  shows "good_step db (snd (bind_step (lift r) (\<lambda>(a, b). k a b) db))"
  by (rule lift_bind_good) (use assms in \<open>simp split: prod.split\<close>)

lemma create_good: "good_step db (snd (CreateAdminSession f sha raw1 raw2 v idle absolute now db))"
  unfolding CreateAdminSession_def Let_def
proof (rule guard_bind_good, rule lift_pair_good, rule lift_pair_good, rule transact_good, goal_cases)
  case (1 token token_hash csrf csrf_hash a db')
  then show ?case
    by (auto simp: step_elims good_step_def keyed_def split: option.splits dest!: audit_sessions)
qed

lemma reset_good: "good_step db (snd (ResetAdminPassword f settings phc settings' now db))"
  unfolding ResetAdminPassword_def
proof (intro lift_bind_good, rule transact_good, goal_cases)
  case (1 version hash a db')
  then obtain uid where "admin_sessions db' = map (\<lambda>s. if ses_admin s = uid \<and> revoked s = None
      then s\<lparr>revoked := Some (Some now)\<rparr> else s) (admin_sessions db)"
    by (auto simp: step_elims update_where_def simp del: map_eq_conv split: option.splits list.splits dest!: audit_sessions)
  moreover have "table_evolves (admin_sessions db) (map (\<lambda>s. if ses_admin s = uid \<and> revoked s = None
      then s\<lparr>revoked := Some (Some now)\<rparr> else s) (admin_sessions db))"
    by (rule table_evolves_map) (simp add: evolves_def)
  moreover have "map id_hash (map (\<lambda>s. if ses_admin s = uid \<and> revoked s = None
      then s\<lparr>revoked := Some (Some now)\<rparr> else s) (admin_sessions db)) = map id_hash (admin_sessions db)"
    by simp
  ultimately show ?case by (simp add: good_step_def keyed_def del: map_map)
qed

text \<open>
  The steps of the installation as the session table sees them: the operations on sessions with
  any arguments, times and faults, the authorisation of a mutation, and any change elsewhere.
\<close>

inductive session_step :: "(bytes \<Rightarrow> bytes) \<Rightarrow> database \<Rightarrow> database \<Rightarrow> bool" for sha where
  step_create: "session_step sha db (snd (CreateAdminSession f sha raw1 raw2 v idle absolute now db))"
| step_use: "session_step sha db (snd (UseAdminSession f sha token csrf req now db))"
| step_authorize: "useAdminSessionTx f sha token csrf req now db = (Inr cx, db') \<Longrightarrow> session_step sha db db'"
| step_rotate: "session_step sha db (snd (RotateAdminSessionCSRF f sha raw token now db))"
| step_revoke: "session_step sha db (snd (RevokeAdminSession f sha token csrf now db))"
| step_reset: "session_step sha db (snd (ResetAdminPassword f settings phc settings' now db))"
| step_other: "admin_sessions db' = admin_sessions db \<Longrightarrow> session_step sha db db'"

inductive_cases session_step_cases: "session_step sha db db'"

lemma use_tx_good:
  "useAdminSessionTx f sha token csrf req now db = (Inr cx, db') \<Longrightarrow> good_step db db'"
  unfolding good_step_def by (rule use_evolves)

lemma same_sessions_good: "admin_sessions db' = admin_sessions db \<Longrightarrow> good_step db db'"
  by (simp add: good_step_def keyed_def)

lemma session_step_good: "session_step sha db db' \<Longrightarrow> good_step db db'"
  by (erule session_step_cases)
     (simp_all only: create_good use_good rotate_good revoke_good reset_good use_tx_good same_sessions_good)

abbreviation session_steps :: "(bytes \<Rightarrow> bytes) \<Rightarrow> database \<Rightarrow> database \<Rightarrow> bool" where
  "session_steps sha \<equiv> (session_step sha)\<^sup>*\<^sup>*"

lemma session_steps_good: "session_steps sha db db' \<Longrightarrow> good_step db db'"
  by (induction rule: rtranclp_induct) (auto intro: good_step_trans session_step_good)

lemma evolved_row:
  assumes "good_step db db'" "keyed db" "find (\<lambda>s. id_hash s = h) (admin_sessions db) = Some s"
  obtains s' where "find (\<lambda>s. id_hash s = h) (admin_sessions db') = Some s'" "evolves s s'"
proof -
  from assms(3) obtain i where i: "i < length (admin_sessions db)" "admin_sessions db ! i = s" "id_hash s = h"
    by (auto simp: find_Some_iff)
  with assms(1) have ev: "i < length (admin_sessions db')" "evolves s (admin_sessions db' ! i)"
    by (auto simp: good_step_def table_evolves_def)
  then have "id_hash (admin_sessions db' ! i) = h" using i by (simp add: evolves_def)
  moreover have "distinct (map id_hash (admin_sessions db'))"
    using assms(1,2) by (simp add: good_step_def keyed_def)
  ultimately have "find (\<lambda>s. id_hash s = h) (admin_sessions db') = Some (admin_sessions db' ! i)"
    using ev(1) find_key_unique [of id_hash "admin_sessions db'" "admin_sessions db' ! i"] by auto
  with that ev(2) show thesis by blast
qed

lemma transact_success:
  assumes "fst (transact f eb ec body db) = Inr a"
  obtains db' where "body db = (Inr a, db')"
  using assms that by (auto simp: transact_def split: prod.splits sum.splits if_splits)

definition session_of :: "(bytes \<Rightarrow> bytes) \<Rightarrow> string \<Rightarrow> database \<Rightarrow> admin_session option" where
  "session_of sha token db = find (\<lambda>s. id_hash s = sha token) (admin_sessions db)"

lemma accepted_live:
  assumes "fst (UseAdminSession f sha token csrf req now db) = Inr cx"
  shows "\<exists>row s u. session_of sha token db = Some s \<and> check_row s u now = Inr row"
proof -
  from assms obtain db' where "useAdminSessionTx f sha token csrf req now db = (Inr cx, db')"
    unfolding UseAdminSession_def by (rule transact_success)
  then show ?thesis by (auto simp: use_Inr decode_Inr live_session_def session_of_def)
qed


lemma stays_out:
  assumes "keyed db" and "session_of sha token db = Some s" and "session_steps sha db db'"
    and "revoked s \<noteq> None \<or> (\<exists>t. expires s = Some t \<and> t \<le> now)"
  shows "\<forall>f csrf req. \<exists>e. fst (UseAdminSession f sha token csrf req now db') = Inl e"
proof (intro allI)
  fix f csrf req
  obtain s' where s': "session_of sha token db' = Some s'" "evolves s s'"
    using evolved_row [OF session_steps_good [OF assms(3)] assms(1)] assms(2) unfolding session_of_def by metis
  have "check_row s' u now \<noteq> Inr row" for u row
    using s'(2) assms(4) by (auto simp: check_row_Inr evolves_def)
  then have "fst (UseAdminSession f sha token csrf req now db') \<noteq> Inr cx" for cx
    using accepted_live [of f sha token csrf req now db' cx] s'(1) by auto
  then show "\<exists>e. fst (UseAdminSession f sha token csrf req now db') = Inl e"
    by (cases "fst (UseAdminSession f sha token csrf req now db')") auto
qed

text \<open>
  C24: revocation and expiry are final: once a session is revoked it authenticates no request after
  any sequence of operations, and at or after the absolute expiry it was created with no sequence
  of operations, however recent its use, makes it authenticate one.
\<close>

theorem revoked_or_expired_stays_out:
  assumes "keyed db" and "session_of sha token db = Some s" and "session_steps sha db db'"
    and "revoked s \<noteq> None \<or> (\<exists>t. expires s = Some t \<and> t \<le> now)"
  shows "\<forall>f csrf req. \<exists>e. fst (UseAdminSession f sha token csrf req now db') = Inl e"
  using assms by (rule stays_out)

lemma case_single_Inr:
  "(case us of [u] \<Rightarrow> g u | _ \<Rightarrow> raises e) db = (Inr a, db') \<longleftrightarrow> (\<exists>u. us = [u] \<and> g u db = (Inr a, db'))"
  by (auto split: list.splits)

lemma case_times_Inr:
  "(case x of None \<Rightarrow> raises e | Some c \<Rightarrow> (case y of None \<Rightarrow> raises e | Some d \<Rightarrow> g c)) db = (Inr a, db') \<longleftrightarrow>
     (\<exists>c d. x = Some c \<and> y = Some d \<and> g c db = (Inr a, db'))"
  by (auto split: option.splits)

lemma reset_revokes:
  assumes "ResetAdminPassword f settings phc settings' now db = (Inr a, db')"
  shows "\<forall>s\<in>set (admin_sessions db'). ses_admin s = ad_ID a \<longrightarrow> revoked s \<noteq> None"
  using assms unfolding ResetAdminPassword_def
  by (auto simp: transact_Inr step_elims update_where_def case_single_Inr case_times_Inr dest!: audit_sessions)

lemma reset_keyed: "ResetAdminPassword f settings phc settings' now db = (Inr a, db') \<Longrightarrow> keyed db \<Longrightarrow> keyed db'"
  using reset_good [of db f settings phc settings' now] by (simp add: good_step_def)

text \<open>
  resetting the administrator's password ends every session the administrator had: after a
  successful \<open>ResetAdminPassword\<close> none of them authenticates a request again, whatever operations
  follow, with whatever CSRF token and at whatever time.
\<close>

theorem reset_ends_sessions:
  assumes "keyed db" and "ResetAdminPassword f settings phc settings' now db = (Inr a, db')"
    and "session_of sha token db' = Some s" and "ses_admin s = ad_ID a" and "session_steps sha db' db''"
  shows "\<forall>g csrf req later. \<exists>e. fst (UseAdminSession g sha token csrf req later db'') = Inl e"
proof -
  have "s \<in> set (admin_sessions db')" using assms(3) by (auto simp: session_of_def find_Some_iff)
  then have "revoked s \<noteq> None" using reset_revokes [OF assms(2)] assms(4) by blast
  then show ?thesis using stays_out [OF reset_keyed [OF assms(2,1)] assms(3,5)] by blast
qed

definition sample_sha :: "bytes \<Rightarrow> bytes" where
  "sample_sha b = replicate 32 CHR ''h''"

definition sample_user :: admin_user where
  "sample_user = \<lparr>user_id = ''a'', user_name = ''root'', password_phc = [], auth_version = 1,
     user_created = Some 0, user_updated = Some 0\<rparr>"

definition sample_session :: admin_session where
  "sample_session = \<lparr>id_hash = replicate 32 CHR ''h'', ses_admin = ''a'', ses_auth_version = 1,
     csrf_hash = replicate 32 CHR ''c'', csrf_previous = None, csrf_rotated = Some 5, ses_created = Some 5,
     last_seen = Some 6, expires = Some 1000, revoked = None, idle_seconds = Some 300\<rparr>"

definition sample_db :: database where
  "sample_db = empty_database\<lparr>admin_users := [sample_user], admin_sessions := [sample_session]\<rparr>"

definition sample_token :: string where
  "sample_token = base64_encode (replicate 32 CHR ''t'')"

lemma sample_keyed: "keyed sample_db"
  by (simp add: keyed_def sample_db_def)

lemma sample_found: "session_of sample_sha sample_token sample_db = Some sample_session"
  by (simp add: session_of_def sample_sha_def sample_db_def sample_session_def)


lemma revoked_or_expired_stays_out_witness:
  "\<exists>e. fst (UseAdminSession no_faults sample_sha sample_token [] False 1000 sample_db) = Inl e"
  by (rule revoked_or_expired_stays_out [rule_format, OF sample_keyed sample_found])
     (simp_all add: sample_session_def)

definition after_reset :: "(session_error + admin_identity) \<times> database" where
  "after_reset = ResetAdminPassword no_faults (Inr 1) (Inr ''phc'') (Inr 1) 50 sample_db"

lemma reset_ends_sessions_witness:
  "\<exists>e. fst (UseAdminSession no_faults sample_sha sample_token [] False 100 (snd after_reset)) = Inl e"
proof -
  have r: "\<exists>a s. fst after_reset = Inr a \<and> session_of sample_sha sample_token (snd after_reset) = Some s \<and> ses_admin s = ad_ID a"
    by (simp add: after_reset_def ResetAdminPassword_def transact_def bind_step_def no_faults_def sample_db_def
        sample_user_def sample_session_def guard_def insertAudit_def update_where_def session_of_def sample_sha_def
        max_int64_def)
  then obtain a s where "ResetAdminPassword no_faults (Inr 1) (Inr ''phc'') (Inr 1) 50 sample_db = (Inr a, snd after_reset)"
    "session_of sample_sha sample_token (snd after_reset) = Some s" "ses_admin s = ad_ID a"
    unfolding after_reset_def by (metis prod.collapse)
  then show ?thesis
    using reset_ends_sessions [OF sample_keyed, of no_faults "Inr 1" "Inr ''phc''" "Inr 1" 50 a "snd after_reset"] by blast
qed

end
