(* ===== verification/FailedLogin.thy ===== *)
theory FailedLogin
  imports Database "HOL-Library.AList" "HOL-Library.List_Lexorder" "HOL-Library.Char_ord"
begin

text \<open>
  The failed-login counters of \<open>internal/storage/failed_login_statistics.go\<close>: a map in memory that
  one minute fills, and the table it is written to. The Go map from reason to count is an association
  list with distinct keys; an operation takes the fault behaviour of the transaction it may run.
\<close>

section \<open>State\<close>

type_synonym counts = "(string \<times> int) list"

record statistics =
  retentionSeconds :: int
  st_minute :: int
  st_counts :: counts
  closed :: bool

definition newFailedLoginStatistics :: "int \<Rightarrow> statistics" where
  "newFailedLoginStatistics retention =
     \<lparr>retentionSeconds = retention, st_minute = 0, st_counts = [], closed = False\<rparr>"

definition login_reasons :: "string list" where
  "login_reasons = [''invalid_credentials'', ''throttled'', ''malformed'', ''unavailable'']"

definition validLoginReason :: "string \<Rightarrow> bool" where
  "validLoginReason reason \<longleftrightarrow> reason \<in> set login_reasons"

text \<open>Reading a missing key of a Go map gives the zero value.\<close>

definition count_of :: "counts \<Rightarrow> string \<Rightarrow> int" where
  "count_of m r = (case map_of m r of None \<Rightarrow> 0 | Some n \<Rightarrow> n)"

text \<open>Addition that stops at \<open>math.MaxInt64\<close>, as the memory map and the table both do it.\<close>

definition saturated_add :: "int \<Rightarrow> int \<Rightarrow> int" where
  "saturated_add a b = (if b > max_int64 - a then max_int64 else a + b)"

text \<open>Go's \<open>minute -= minute % 60\<close>: the remainder has the sign of the dividend.\<close>

definition floor_minute :: "int \<Rightarrow> int" where
  "floor_minute t = t - sgn t * (\<bar>t\<bar> mod 60)"

section \<open>Writing a batch\<close>

definition upsert_row :: "int \<Rightarrow> string \<Rightarrow> int \<Rightarrow> login_stat list \<Rightarrow> login_stat list" where
  "upsert_row m r n rows =
     (if \<exists>row\<in>set rows. ls_minute row = m \<and> ls_reason row = r
      then fst (update_where (\<lambda>row. ls_minute row = m \<and> ls_reason row = r)
                  (\<lambda>row. row\<lparr>ls_count := saturated_add (ls_count row) n\<rparr>) rows)
      else rows @ [\<lparr>ls_minute = m, ls_reason = r, ls_count = n\<rparr>])"

fun upsert_all :: "faults \<Rightarrow> int \<Rightarrow> counts \<Rightarrow> (string, unit) step" where
  "upsert_all f m [] = returns ()"
| "upsert_all f m ((r, n) # rest) =
     (if n < 1 \<or> \<not> validLoginReason r then upsert_all f m rest
      else bind_step (guard (\<not> fails f (''upsert '' @ r)) ''upsert'') (\<lambda>_.
           bind_step (modify (\<lambda>db. db\<lparr>login_stats := upsert_row m r n (login_stats db)\<rparr>)) (\<lambda>_.
           upsert_all f m rest)))"

definition flush :: "faults \<Rightarrow> int \<Rightarrow> int \<Rightarrow> counts \<Rightarrow> int \<Rightarrow> (string, unit) step" where
  "flush f retention m counts nowUnix =
     transact f ''begin'' ''commit'' (
       bind_step (upsert_all f m counts) (\<lambda>_.
       if retention > 0 then
         bind_step (guard (\<not> fails f ''expire'') ''expire'') (\<lambda>_.
         modify (\<lambda>db. db\<lparr>login_stats := delete_where
           (\<lambda>row. ls_minute row \<le> floor_minute (nowUnix - retention)) (login_stats db)\<rparr>))
       else returns ()))"

section \<open>Counting\<close>

definition bump :: "string \<Rightarrow> counts \<Rightarrow> counts" where
  "bump r m = (if count_of m r < max_int64 then AList.update r (count_of m r + 1) m else m)"

fun merge_counts :: "counts \<Rightarrow> counts \<Rightarrow> counts" where
  "merge_counts [] m = m"
| "merge_counts ((r, n) # rest) m = merge_counts rest (AList.update r (saturated_add (count_of m r) n) m)"

definition requeue :: "counts \<Rightarrow> statistics \<Rightarrow> statistics" where
  "requeue batch s = s\<lparr>st_counts := merge_counts batch (st_counts s)\<rparr>"

text \<open>The part of \<open>record\<close> under the mutex: the batch of the minute that ended, and the new state.\<close>

definition count_login :: "string \<Rightarrow> int \<Rightarrow> statistics \<Rightarrow> (int \<times> counts) \<times> int \<times> statistics" where
  "count_login reason m s =
     (let s1 = (if st_minute s = 0 then s\<lparr>st_minute := m\<rparr> else s);
          m1 = (if m < st_minute s1 then st_minute s1 else m);
          batch = (if m1 > st_minute s1 then (st_minute s1, st_counts s1) else (0, []));
          s2 = (if m1 > st_minute s1 then s1\<lparr>st_minute := m1, st_counts := []\<rparr> else s1)
      in (batch, m1, s2\<lparr>st_counts := bump reason (st_counts s2)\<rparr>))"

definition record_login ::
    "faults \<Rightarrow> string \<Rightarrow> time \<Rightarrow> statistics \<Rightarrow> database \<Rightarrow> statistics \<times> database" where
  "record_login f reason now s db =
     (if \<not> validLoginReason reason then (s, db)
      else (let m = floor_minute (unix_seconds now) in
        if closed s then (s, snd (flush f (retentionSeconds s) m [(reason, 1)] m db))
        else (case count_login reason m s of
                ((oldMinute, old), m1, s') \<Rightarrow>
                  if old = [] then (s', db)
                  else (case flush f (retentionSeconds s) oldMinute old m1 db of
                          (Inl _, db') \<Rightarrow> (requeue old s', db')
                        | (Inr _, db') \<Rightarrow> (s', db')))))"

definition flushCurrent :: "faults \<Rightarrow> time \<Rightarrow> statistics \<Rightarrow> database \<Rightarrow> statistics \<times> database" where
  "flushCurrent f now s db =
     (let batch = st_counts s; s' = s\<lparr>st_counts := []\<rparr> in
      if batch = [] \<and> retentionSeconds s = 0 then (s', db)
      else (case flush f (retentionSeconds s) (st_minute s) batch (unix_seconds now) db of
              (Inl _, db') \<Rightarrow> (requeue batch s', db')
            | (Inr _, db') \<Rightarrow> (s', db')))"

text \<open>\<open>closeAndFlush\<close>: the final flush of \<open>run\<close>, and a second try with what it left.\<close>

definition closeAndFlush ::
    "faults \<Rightarrow> time \<Rightarrow> faults \<Rightarrow> time \<Rightarrow> statistics \<Rightarrow> database \<Rightarrow> statistics \<times> database" where
  "closeAndFlush f now f' now' s db =
     (case flushCurrent f now (s\<lparr>closed := True\<rparr>) db of
        (s1, db1) \<Rightarrow>
          (s1\<lparr>st_counts := []\<rparr>,
           if st_counts s1 = [] then db1
           else snd (flush f' (retentionSeconds s1) (st_minute s1) (st_counts s1) (unix_seconds now') db1)))"

definition ListFailedLoginStatistics :: "database \<Rightarrow> time \<Rightarrow> int \<Rightarrow> string + login_stat list" where
  "ListFailedLoginStatistics db since limit =
     (if limit < 1 \<or> limit > 10000 then Inl ''invalid_failed_login_statistics_limit''
      else Inr (take (nat limit) (sort_key ls_minute (sort_key ls_reason
                  (filter (\<lambda>row. unix_seconds since \<le> ls_minute row) (login_stats db))))))"

section \<open>What a batch and the table hold\<close>

definition batch_sum :: "counts \<Rightarrow> string \<Rightarrow> int" where
  "batch_sum m r = sum_list (map snd (filter (\<lambda>p. fst p = r) m))"

definition total :: "string \<Rightarrow> login_stat list \<Rightarrow> int" where
  "total r rows = sum_list (map ls_count (filter (\<lambda>row. ls_reason row = r) rows))"

definition good_counts :: "counts \<Rightarrow> bool" where
  "good_counts m \<longleftrightarrow> distinct (map fst m) \<and> (\<forall>(r, n)\<in>set m. 1 \<le> n \<and> n \<le> max_int64 \<and> validLoginReason r)"

definition row_key :: "login_stat \<Rightarrow> int \<times> string" where
  "row_key row = (ls_minute row, ls_reason row)"

definition good_rows :: "login_stat list \<Rightarrow> bool" where
  "good_rows rows \<longleftrightarrow> distinct (map row_key rows)
     \<and> (\<forall>row\<in>set rows. 1 \<le> ls_count row \<and> ls_count row \<le> max_int64 \<and> validLoginReason (ls_reason row))"

lemma batch_sum_simps [simp]:
  "batch_sum [] r = 0"
  "batch_sum ((r', n) # m) r = (if r' = r then n else 0) + batch_sum m r"
  by (simp_all add: batch_sum_def)

lemma batch_sum_zero: "r \<notin> fst ` set m \<Longrightarrow> batch_sum m r = 0"
  by (induction m) auto

lemma count_of_batch_sum: "distinct (map fst m) \<Longrightarrow> count_of m r = batch_sum m r"
proof (induction m)
  case (Cons p m)
  then show ?case by (cases p) (auto simp: count_of_def batch_sum_zero)
qed (simp add: count_of_def)

lemma count_of_nonneg: "good_counts m \<Longrightarrow> 0 \<le> count_of m r"
  by (force simp: count_of_def good_counts_def split: option.splits dest!: map_of_SomeD)

lemma batch_sum_nonneg: "\<forall>(r, n)\<in>set m. 1 \<le> n \<Longrightarrow> 0 \<le> batch_sum m r"
  by (induction m) auto

lemma count_of_update [simp]: "count_of (AList.update r n m) r' = (if r' = r then n else count_of m r')"
  by (simp add: count_of_def update_conv')

lemma good_counts_update:
  assumes "good_counts m" "1 \<le> n" "n \<le> max_int64" "validLoginReason r"
  shows "good_counts (AList.update r n m)"
proof -
  have "set (AList.update r n m) \<subseteq> insert (r, n) (set m)"
    by (induction m) auto
  moreover have "distinct (map fst (AList.update r n m))"
    using assms(1) by (simp add: good_counts_def distinct_update)
  ultimately show ?thesis using assms by (fastforce simp: good_counts_def)
qed

lemma saturated_add_bounds:
  "1 \<le> a \<Longrightarrow> 0 \<le> b \<Longrightarrow> a \<le> max_int64 \<Longrightarrow> b \<le> max_int64 \<Longrightarrow> 1 \<le> saturated_add a b \<and> saturated_add a b \<le> max_int64"
  by (simp add: saturated_add_def max_int64_def)

lemma saturated_add_exact: "a + b \<le> max_int64 \<Longrightarrow> saturated_add a b = a + b"
  by (simp add: saturated_add_def)

lemma good_counts_bump: "good_counts m \<Longrightarrow> validLoginReason r \<Longrightarrow> good_counts (bump r m)"
  using count_of_nonneg [of m r] by (simp add: bump_def good_counts_update)

lemma count_of_bump:
  "count_of m r < max_int64 \<Longrightarrow> count_of (bump r' m) r = count_of m r + (if r' = r then 1 else 0)"
  by (simp add: bump_def)

lemma good_counts_Nil [simp]: "good_counts []"
  by (simp add: good_counts_def)

lemma good_counts_Cons: "good_counts ((r, n) # m) \<Longrightarrow>
    good_counts m \<and> 1 \<le> n \<and> n \<le> max_int64 \<and> validLoginReason r \<and> r \<notin> fst ` set m"
  by (auto simp: good_counts_def)

lemma merge_good:
  "good_counts batch \<Longrightarrow> good_counts m \<Longrightarrow> good_counts (merge_counts batch m)"
proof (induction batch m rule: merge_counts.induct)
  case (2 r n rest m)
  have b: "good_counts rest" "1 \<le> n" "n \<le> max_int64" "validLoginReason r"
    using good_counts_Cons [OF 2(2)] by auto
  have "1 \<le> saturated_add (count_of m r) n \<and> saturated_add (count_of m r) n \<le> max_int64"
    using b count_of_nonneg [OF 2(3), of r] by (simp add: saturated_add_def max_int64_def)
  then have "good_counts (AList.update r (saturated_add (count_of m r) n) m)"
    using b(4) 2(3) by (intro good_counts_update) auto
  with 2(1) b(1) show ?case by simp
qed simp

lemma merge_sum:
  "good_counts batch \<Longrightarrow> good_counts m \<Longrightarrow> count_of m r + batch_sum batch r \<le> max_int64 \<Longrightarrow>
   count_of (merge_counts batch m) r = count_of m r + batch_sum batch r"
proof (induction batch m rule: merge_counts.induct)
  case (2 r' n rest m)
  have b: "good_counts rest" "1 \<le> n" "n \<le> max_int64" "validLoginReason r'" "r' \<notin> fst ` set rest"
    using good_counts_Cons [OF 2(2)] by auto
  let ?m = "AList.update r' (saturated_add (count_of m r') n) m"
  have "good_counts ?m"
    using b count_of_nonneg [OF 2(3), of r'] 2(3)
    by (intro good_counts_update) (auto simp: saturated_add_def max_int64_def)
  moreover have "0 \<le> batch_sum rest r"
    using b(1) by (intro batch_sum_nonneg) (auto simp: good_counts_def)
  moreover have c: "count_of ?m r = count_of m r + (if r' = r then n else 0)"
    using 2(4) \<open>0 \<le> batch_sum rest r\<close> by (auto intro!: saturated_add_exact)
  ultimately show ?case using 2(1) b(1) 2(4) by simp
qed simp


lemma total_append [simp]: "total r (xs @ ys) = total r xs + total r ys"
  by (simp add: total_def)

lemma total_Cons: "total r (x # xs) = (if ls_reason x = r then ls_count x else 0) + total r xs"
  by (simp add: total_def)

lemma total_Nil [simp]: "total r [] = 0"
  by (simp add: total_def)

lemma total_nonneg: "good_rows rows \<Longrightarrow> 0 \<le> total r rows"
  unfolding total_def good_rows_def by (intro sum_list_nonneg) auto

lemma total_member: "good_rows rows \<Longrightarrow> row \<in> set rows \<Longrightarrow> ls_count row \<le> total (ls_reason row) rows"
proof (induction rows)
  case (Cons a rows)
  then have "good_rows rows" by (auto simp: good_rows_def)
  with Cons total_nonneg [of rows "ls_reason row"] show ?case
    by (auto simp: total_Cons good_rows_def)
qed simp

lemma total_update_one:
  assumes "distinct (map row_key rows)" "row \<in> set rows"
    and "row_key row = (m, r)" "\<And>x. ls_reason (g x) = ls_reason x"
  shows "total r' (map (\<lambda>x. if ls_minute x = m \<and> ls_reason x = r then g x else x) rows)
    = total r' rows + (if r' = r then ls_count (g row) - ls_count row else 0)"
  using assms
proof (induction rows)
  case (Cons a rows)
  show ?case
  proof (cases "row_key a = (m, r)")
    case True
    with Cons.prems have "row = a" by (metis Cons.prems(1) distinct.simps(2) image_eqI list.set_map list.simps(9) set_ConsD)
    moreover have "map (\<lambda>x. if ls_minute x = m \<and> ls_reason x = r then g x else x) rows = rows"
    proof (rule map_idI)
      fix x assume "x \<in> set rows"
      then have "row_key x \<noteq> (m, r)" using Cons.prems(1) True by (metis distinct.simps(2) image_eqI list.set_map list.simps(9))
      then show "(if ls_minute x = m \<and> ls_reason x = r then g x else x) = x" by (auto simp: row_key_def)
    qed
    ultimately show ?thesis using True Cons.prems(4) by (auto simp: total_Cons row_key_def)
  next
    case False
    with Cons.prems have "row \<in> set rows" by auto
    with Cons False show ?thesis by (auto simp: total_Cons row_key_def)
  qed
qed simp

lemma upsert_total:
  assumes "good_rows rows" "0 \<le> n" "r' = r \<Longrightarrow> total r rows + n \<le> max_int64"
  shows "total r' (upsert_row m r n rows) = total r' rows + (if r' = r then n else 0)"
proof (cases "\<exists>row\<in>set rows. ls_minute row = m \<and> ls_reason row = r")
  case True
  then obtain row where row: "row \<in> set rows" "ls_minute row = m" "ls_reason row = r" by blast
  let ?g = "\<lambda>row. row\<lparr>ls_count := saturated_add (ls_count row) n\<rparr>"
  have u: "upsert_row m r n rows = map (\<lambda>x. if ls_minute x = m \<and> ls_reason x = r then ?g x else x) rows"
    using True by (simp add: upsert_row_def update_where_def)
  have "total r' (upsert_row m r n rows) = total r' rows + (if r' = r then ls_count (?g row) - ls_count row else 0)"
    unfolding u using assms(1) row by (intro total_update_one) (auto simp: good_rows_def row_key_def)
  moreover have "r' = r \<Longrightarrow> saturated_add (ls_count row) n = ls_count row + n"
    using total_member [OF assms(1) row(1)] row(3) assms(3) by (intro saturated_add_exact) simp
  ultimately show ?thesis by simp
next
  case False
  then show ?thesis by (auto simp: upsert_row_def total_Cons)
qed

lemma upsert_good:
  assumes "good_rows rows" "1 \<le> n" "n \<le> max_int64" "validLoginReason r"
  shows "good_rows (upsert_row m r n rows)"
proof (cases "\<exists>row\<in>set rows. ls_minute row = m \<and> ls_reason row = r")
  case True
  let ?h = "\<lambda>x. if ls_minute x = m \<and> ls_reason x = r then x\<lparr>ls_count := saturated_add (ls_count x) n\<rparr> else x"
  have u: "upsert_row m r n rows = map ?h rows"
    using True by (simp add: upsert_row_def update_where_def)
  have "row_key (?h x) = row_key x" for x by (simp add: row_key_def)
  then have "map row_key (map ?h rows) = map row_key rows" by (simp only: map_map comp_def)
  then have "distinct (map row_key (map ?h rows))" using assms(1) by (simp only: good_rows_def)
  moreover have "1 \<le> ls_count (?h x) \<and> ls_count (?h x) \<le> max_int64 \<and> validLoginReason (ls_reason (?h x))"
    if "x \<in> set rows" for x
    using assms that saturated_add_bounds [of "ls_count x" n] by (auto simp: good_rows_def)
  then have "\<forall>y\<in>set (map ?h rows). 1 \<le> ls_count y \<and> ls_count y \<le> max_int64 \<and> validLoginReason (ls_reason y)"
    unfolding set_map by blast
  ultimately show ?thesis unfolding u good_rows_def by blast
next
  case False
  then show ?thesis using assms by (auto simp: upsert_row_def good_rows_def row_key_def)
qed

lemma upsert_all_Inr:
  assumes "upsert_all f m batch db = (Inr u, db')" "good_counts batch" "good_rows (login_stats db)"
  shows "good_rows (login_stats db') \<and>
    (total r (login_stats db) + batch_sum batch r \<le> max_int64 \<longrightarrow>
       total r (login_stats db') = total r (login_stats db) + batch_sum batch r)"
  using assms
proof (induction f m batch arbitrary: db rule: upsert_all.induct)
  case (1 f m)
  then show ?case by simp
next
  case (2 f m r' n rest)
  have b: "good_counts rest" "1 \<le> n" "n \<le> max_int64" "validLoginReason r'"
    using good_counts_Cons [OF 2(4)] by auto
  let ?db = "db\<lparr>login_stats := upsert_row m r' n (login_stats db)\<rparr>"
  have step: "upsert_all f m rest ?db = (Inr u, db')"
    using 2(3) b by (simp add: step_elims)
  have g: "good_rows (login_stats ?db)" using upsert_good [OF 2(5)] b by simp
  have "0 \<le> batch_sum rest r" using b(1) by (intro batch_sum_nonneg) (auto simp: good_counts_def)
  then have "total r (login_stats ?db) = total r (login_stats db) + (if r = r' then n else 0)"
    if "total r (login_stats db) + batch_sum ((r', n) # rest) r \<le> max_int64"
    using that upsert_total [OF 2(5), of n r r' m] b(2) by auto
  with 2(2) [OF _ step b(1) g] b show ?case by auto
qed


section \<open>Conservation of the counts\<close>

definition tally :: "string \<Rightarrow> statistics \<times> database \<Rightarrow> int" where
  "tally r w = count_of (st_counts (fst w)) r + total r (login_stats (snd w))"

definition sound :: "statistics \<times> database \<Rightarrow> bool" where
  "sound w \<longleftrightarrow> good_counts (st_counts (fst w)) \<and> good_rows (login_stats (snd w))
     \<and> \<not> closed (fst w) \<and> retentionSeconds (fst w) = 0"

text \<open>A commit that reports an error has not taken effect.\<close>

definition clean :: "faults \<Rightarrow> bool" where
  "clean f \<longleftrightarrow> \<not> (commit_fails f \<and> commit_durable f)"

lemma flush_outcome:
  assumes "clean f" "good_counts batch" "good_rows (login_stats db)"
  shows "case flush f 0 m batch now db of
      (Inl _, db') \<Rightarrow> db' = db
    | (Inr _, db') \<Rightarrow> good_rows (login_stats db') \<and>
        (total r (login_stats db) + batch_sum batch r \<le> max_int64 \<longrightarrow>
           total r (login_stats db') = total r (login_stats db) + batch_sum batch r)"
  using assms(1) upsert_all_Inr [of f m batch db _ _ r, OF _ assms(2,3)]
  by (auto simp: flush_def transact_def clean_def step_elims bind_step_def split: prod.splits sum.splits)

lemma count_login_split:
  assumes "count_login r' m s = ((old_m, old), m1, s')" "good_counts (st_counts s)" "validLoginReason r'"
  shows "good_counts old" "good_counts (st_counts s')" "closed s' = closed s" "retentionSeconds s' = retentionSeconds s"
    "count_of (st_counts s) r < max_int64 \<Longrightarrow>
      batch_sum old r + count_of (st_counts s') r = count_of (st_counts s) r + (if r' = r then 1 else 0)"
proof -
  have old: "old = [] \<and> st_counts s' = bump r' (st_counts s) \<or> old = st_counts s \<and> st_counts s' = bump r' []"
    using assms(1) by (auto simp: count_login_def Let_def split: if_splits)
  show "good_counts old" "good_counts (st_counts s')" "closed s' = closed s" "retentionSeconds s' = retentionSeconds s"
    using old assms by (auto simp: good_counts_bump count_login_def Let_def split: if_splits)
  have "batch_sum (st_counts s) r = count_of (st_counts s) r"
    using assms(2) by (simp add: good_counts_def count_of_batch_sum)
  moreover have "count_of [] r < max_int64" by (simp add: count_of_def max_int64_def)
  ultimately show "count_of (st_counts s) r < max_int64 \<Longrightarrow>
      batch_sum old r + count_of (st_counts s') r = count_of (st_counts s) r + (if r' = r then 1 else 0)"
    using old by (auto simp: count_of_bump) (simp_all add: count_of_def)
qed

lemma requeue_tally:
  assumes "good_counts batch" "sound (s, db)" "tally r (s, db) + batch_sum batch r \<le> max_int64"
  shows "sound (requeue batch s, db)" "tally r (requeue batch s, db) = tally r (s, db) + batch_sum batch r"
proof -
  have "0 \<le> total r (login_stats db)" using assms(2) by (simp add: sound_def total_nonneg)
  then show "sound (requeue batch s, db)" "tally r (requeue batch s, db) = tally r (s, db) + batch_sum batch r"
    using assms by (simp_all add: sound_def requeue_def tally_def merge_good merge_sum)
qed

lemma record_tally:
  assumes "sound (s, db)" "clean f" "tally r (s, db) < max_int64"
  shows "sound (record_login f r' now s db)"
    "tally r (record_login f r' now s db) = tally r (s, db) + (if r' = r \<and> validLoginReason r' then 1 else 0)"
proof -
  let ?w = "record_login f r' now s db"
  let ?m = "floor_minute (unix_seconds now)"
  have "sound ?w \<and> tally r ?w = tally r (s, db) + (if r' = r \<and> validLoginReason r' then 1 else 0)"
  proof (cases "validLoginReason r'")
    case False
    then show ?thesis using assms by (simp add: record_login_def)
  next
    case True
    obtain om old m1 s' where c: "count_login r' ?m s = ((om, old), m1, s')" by (metis prod.exhaust)
    note cl = count_login_split [OF c _ True]
    have g: "good_counts (st_counts s)" "good_rows (login_stats db)" "\<not> closed s" "retentionSeconds s = 0"
      using assms(1) by (simp_all add: sound_def)
    have "0 \<le> total r (login_stats db)" using g by (simp add: total_nonneg)
    then have sum: "batch_sum old r + count_of (st_counts s') r = count_of (st_counts s) r + (if r' = r then 1 else 0)"
      using assms(3) by (intro cl(5) g(1)) (simp add: tally_def)
    have s': "sound (s', db)" using cl(1-4) g by (simp add: sound_def)
    have nonneg: "0 \<le> batch_sum old r" "0 \<le> count_of (st_counts s') r"
      using cl(1,2) g(1) by (auto intro!: batch_sum_nonneg count_of_nonneg simp: good_counts_def)
    have le: "tally r (s', db) + batch_sum old r \<le> max_int64"
      using sum assms(3) by (simp add: tally_def split: if_splits)
    show ?thesis
    proof (cases "old = []")
      case True
      then show ?thesis using s' sum g c \<open>validLoginReason r'\<close> by (simp add: record_login_def tally_def)
    next
      case False
      note out = flush_outcome [OF assms(2) cl(1) g(2), where m = om and now = m1 and r = r, OF g(1)]
      show ?thesis
      proof (cases "flush f 0 om old m1 db")
        case (Pair res db')
        show ?thesis
        proof (cases res)
          case (Inl e)
          then have "db' = db" using out Pair by simp
          then show ?thesis
            using Pair Inl False c g \<open>validLoginReason r'\<close> requeue_tally [OF cl(1) s' le, OF g(1)] sum
            by (simp add: record_login_def tally_def)
        next
          case (Inr u)
          then have "good_rows (login_stats db')" "total r (login_stats db') = total r (login_stats db) + batch_sum old r"
            using out Pair le nonneg by (auto simp: tally_def)
          then show ?thesis
            using Pair Inr False c g \<open>validLoginReason r'\<close> s' sum by (simp add: record_login_def tally_def sound_def)
        qed
      qed
    qed
  qed
  then show "sound ?w" "tally r ?w = tally r (s, db) + (if r' = r \<and> validLoginReason r' then 1 else 0)" by auto
qed

lemma flushCurrent_tally:
  assumes "sound (s, db)" "clean f" "tally r (s, db) \<le> max_int64"
  shows "sound (flushCurrent f now s db)" "tally r (flushCurrent f now s db) = tally r (s, db)"
proof -
  let ?b = "st_counts s" let ?s = "s\<lparr>st_counts := []\<rparr>"
  have g: "good_counts ?b" "good_rows (login_stats db)" "retentionSeconds s = 0"
    using assms(1) by (simp_all add: sound_def)
  have b: "batch_sum ?b r = count_of ?b r" using g(1) by (simp add: good_counts_def count_of_batch_sum)
  have s: "sound (?s, db)" using assms(1) by (simp add: sound_def)
  have t: "tally r (?s, db) + batch_sum ?b r = tally r (s, db)" by (simp add: tally_def b count_of_def)
  have "sound (flushCurrent f now s db) \<and> tally r (flushCurrent f now s db) = tally r (s, db)"
  proof (cases "?b = []")
    case True
    then show ?thesis using assms(1) s g t by (simp add: flushCurrent_def Let_def)
  next
    case False
    show ?thesis
    proof (cases "flush f 0 (st_minute s) ?b (unix_seconds now) db")
      case (Pair res db')
      note out = flush_outcome [OF assms(2) g(1,2), where m = "st_minute s" and now = "unix_seconds now" and r = r]
      show ?thesis
      proof (cases res)
        case (Inl e)
        then show ?thesis
          using Pair out False g requeue_tally [OF g(1) s, of r] t assms(3) by (simp add: flushCurrent_def Let_def)
      next
        case (Inr u)
        then have "good_rows (login_stats db')" "total r (login_stats db') = total r (login_stats db) + batch_sum ?b r"
          using Pair out assms(3) by (auto simp: tally_def b)
        then show ?thesis
          using Pair Inr False g s by (simp add: flushCurrent_def Let_def sound_def tally_def b count_of_def)
      qed
    qed
  qed
  then show "sound (flushCurrent f now s db)" "tally r (flushCurrent f now s db) = tally r (s, db)" by auto
qed


datatype stat_op = RecordOp faults string time | FlushOp faults time

fun stat_step :: "stat_op \<Rightarrow> statistics \<times> database \<Rightarrow> statistics \<times> database" where
  "stat_step (RecordOp f reason now) w = record_login f reason now (fst w) (snd w)"
| "stat_step (FlushOp f now) w = flushCurrent f now (fst w) (snd w)"

fun clean_op :: "stat_op \<Rightarrow> bool" where
  "clean_op (RecordOp f reason now) = clean f"
| "clean_op (FlushOp f now) = clean f"

fun records_of :: "string \<Rightarrow> stat_op \<Rightarrow> int" where
  "records_of r (RecordOp f reason now) = (if reason = r \<and> validLoginReason reason then 1 else 0)"
| "records_of r (FlushOp f now) = 0"

lemma stat_step_tally:
  assumes "sound w" "clean_op op" "tally r w < max_int64"
  shows "sound (stat_step op w) \<and> tally r (stat_step op w) = tally r w + records_of r op"
proof (cases op)
  case (RecordOp f reason now)
  then show ?thesis using assms record_tally [of "fst w" "snd w" f r reason now] by simp
next
  case (FlushOp f now)
  then show ?thesis using assms flushCurrent_tally [of "fst w" "snd w" f r now] by simp
qed

lemma records_of_bounds: "0 \<le> records_of r op \<and> records_of r op \<le> 1"
  by (cases op) auto

lemma fold_tally:
  assumes "sound w" "\<forall>op\<in>set ops. clean_op op" "tally r w + int (length ops) < max_int64"
  shows "sound (fold stat_step ops w) \<and> tally r (fold stat_step ops w) = tally r w + (\<Sum>op\<leftarrow>ops. records_of r op)"
  using assms
proof (induction ops arbitrary: w)
  case (Cons op ops)
  then have s: "sound (stat_step op w)" "tally r (stat_step op w) = tally r w + records_of r op"
    using stat_step_tally [of w op r] by auto
  have "tally r (stat_step op w) + int (length ops) < max_int64"
    using s(2) records_of_bounds [of r op] Cons.prems(3) by simp
  with Cons.IH [OF s(1)] Cons.prems(2) s(2) show ?case by simp
qed simp


definition outage :: faults where
  "outage = \<lparr>fails = (\<lambda>s. s = ''begin''), commit_fails = False, commit_durable = False\<rparr>"


section \<open>The listing\<close>

lemma sorted_wrt_lex:
  "sorted_wrt P xs \<Longrightarrow> (\<And>k. sorted_wrt R (filter (\<lambda>x. g x = k) xs)) \<Longrightarrow>
   sorted_wrt (\<lambda>a b. P a b \<and> (g a = g b \<longrightarrow> R a b)) xs"
proof (induction xs)
  case (Cons x xs)
  have "sorted_wrt R (filter (\<lambda>y. g y = k) xs)" for k
    using Cons.prems(2) [of k] by (auto split: if_splits)
  moreover have "\<forall>y\<in>set xs. g x = g y \<longrightarrow> R x y"
    using Cons.prems(2) [of "g x"] by auto
  ultimately show ?case using Cons by simp
qed simp

lemma sort_key_sorted_wrt: "sorted_wrt (\<lambda>a b. g a \<le> g b) (sort_key g xs)"
  using sorted_sort_key [of g xs] by (simp add: sorted_map)

text \<open>
  The listing is a page in order: the rows from \<open>since\<close> on, at most \<open>limit\<close> of them, sorted by
  minute and within a minute by reason, and the first ones of that order when there are more.
\<close>

theorem listing_in_order:
  assumes "ListFailedLoginStatistics db since limit = Inr rows"
  shows "sorted_wrt (\<lambda>a b. ls_minute a \<le> ls_minute b \<and> (ls_minute a = ls_minute b \<longrightarrow> ls_reason a \<le> ls_reason b)) rows
    \<and> 1 \<le> limit \<and> limit \<le> 10000 \<and> int (length rows) \<le> limit
    \<and> (\<exists>later. mset rows + mset later = mset (filter (\<lambda>row. unix_seconds since \<le> ls_minute row) (login_stats db))
          \<and> (later \<noteq> [] \<longrightarrow> int (length rows) = limit)
          \<and> (\<forall>a\<in>set rows. \<forall>b\<in>set later. ls_minute a \<le> ls_minute b))"
proof -
  let ?f = "filter (\<lambda>row. unix_seconds since \<le> ls_minute row) (login_stats db)"
  let ?s = "sort_key ls_minute (sort_key ls_reason ?f)"
  have lim: "1 \<le> limit" "limit \<le> 10000" and rows: "rows = take (nat limit) ?s"
    using assms by (auto simp: ListFailedLoginStatistics_def split: if_splits)
  have "sorted_wrt (\<lambda>a b. ls_reason a \<le> ls_reason b) (filter (\<lambda>row. ls_minute row = k) ?s)" for k
    by (simp add: sort_key_stable sorted_wrt_filter sort_key_sorted_wrt)
  then have s: "sorted_wrt (\<lambda>a b. ls_minute a \<le> ls_minute b \<and> (ls_minute a = ls_minute b \<longrightarrow> ls_reason a \<le> ls_reason b)) ?s"
    by (intro sorted_wrt_lex sort_key_sorted_wrt)
  have app: "?s = rows @ drop (nat limit) ?s" by (simp add: rows)
  have "mset rows + mset (drop (nat limit) ?s) = mset ?f"
    by (metis app mset_append mset_sort)
  moreover have "drop (nat limit) ?s \<noteq> [] \<longrightarrow> int (length rows) = limit"
    using lim by (simp add: rows)
  moreover have "\<forall>a\<in>set rows. \<forall>b\<in>set (drop (nat limit) ?s). ls_minute a \<le> ls_minute b"
    using s app by (metis (no_types, lifting) sorted_wrt_append)
  moreover have "sorted_wrt (\<lambda>a b. ls_minute a \<le> ls_minute b \<and> (ls_minute a = ls_minute b \<longrightarrow> ls_reason a \<le> ls_reason b)) rows"
    using s app by (metis (no_types, lifting) sorted_wrt_append)
  moreover have "int (length rows) \<le> limit" using lim by (simp add: rows)
  ultimately show ?thesis using lim by blast
qed

lemma listing_in_order_witness:
  "\<exists>rows. ListFailedLoginStatistics (empty_database\<lparr>login_stats := [\<lparr>ls_minute = 60, ls_reason = ''throttled'', ls_count = 1\<rparr>,
     \<lparr>ls_minute = 0, ls_reason = ''throttled'', ls_count = 1\<rparr>]\<rparr>) 0 1 = Inr rows \<and> int (length rows) \<le> 1"
  using listing_in_order [of "empty_database\<lparr>login_stats := [\<lparr>ls_minute = 60, ls_reason = ''throttled'', ls_count = 1\<rparr>,
     \<lparr>ls_minute = 0, ls_reason = ''throttled'', ls_count = 1\<rparr>]\<rparr>" 0 1]
  by (simp add: ListFailedLoginStatistics_def)

end
