(* ===== verification/Password.thy ===== *)
theory Password
  imports Base64 GoText
begin

text \<open>
  Password hashing, \<open>internal/adminauth/password.go\<close>. Argon2id (a third-party package) is the
  parameter \<open>idkey password salt iterations memory\<close>; the random salt is an argument, \<open>None\<close> when the
  random source fails. A parameter record holds \<open>uint32\<close> fields as natural numbers.
\<close>

datatype password_error = ErrInvalidPassword | ErrInvalidParameters | ErrInvalidPHC | PasswordRandomUnavailable

definition MinMemoryKiB :: nat where "MinMemoryKiB = 19456"
definition MaxMemoryKiB :: nat where "MaxMemoryKiB = 65536"
definition MinIterations :: nat where "MinIterations = 2"
definition MaxIterations :: nat where "MaxIterations = 6"
definition SaltBytes :: nat where "SaltBytes = 16"
definition HashBytes :: nat where "HashBytes = 32"
definition MaxPasswordBytes :: nat where "MaxPasswordBytes = 1024"
definition MinPasswordRunes :: nat where "MinPasswordRunes = 12"
definition maxPHCBytes :: nat where "maxPHCBytes = 256"

record parameters =
  MemoryKiB :: nat
  Iterations :: nat

definition valid_parameters :: "parameters \<Rightarrow> bool" where
  "valid_parameters p \<longleftrightarrow> \<not> (MemoryKiB p < MinMemoryKiB \<or> MemoryKiB p > MaxMemoryKiB
     \<or> Iterations p < MinIterations \<or> Iterations p > MaxIterations)"

definition ValidatePassword :: "bytes \<Rightarrow> bool" where
  "ValidatePassword password \<longleftrightarrow> \<not> (length password > MaxPasswordBytes \<or> \<not> utf8_valid password
     \<or> rune_count password < MinPasswordRunes)"

section \<open>Text helpers\<close>

text \<open>\<open>strings.Split\<close> at a one-byte separator.\<close>

fun split_at :: "char \<Rightarrow> string \<Rightarrow> string list" where
  "split_at c [] = [[]]"
| "split_at c (x # xs) =
     (if x = c then [] # split_at c xs
      else (case split_at c xs of [] \<Rightarrow> [[x]] | p # ps \<Rightarrow> (x # p) # ps))"

text \<open>The standard alphabet differs from the URL alphabet of theory Base64 in two characters.\<close>

definition to_std :: "char \<Rightarrow> char" where
  "to_std c = (if c = CHR ''-'' then CHR ''+'' else if c = CHR ''_'' then CHR ''/'' else c)"

definition of_std :: "char \<Rightarrow> char" where
  "of_std c = (if c = CHR ''+'' then CHR ''-'' else if c = CHR ''/'' then CHR ''_''
               else if c = CHR ''-'' \<or> c = CHR ''_'' then CHR ''='' else c)"

definition std_encode :: "bytes \<Rightarrow> string" where
  "std_encode b = map to_std (base64_encode b)"

definition std_decode :: "string \<Rightarrow> bytes option" where
  "std_decode s = base64_decode (map of_std s)"

text \<open>\<open>strconv.ParseUint (s, 10, 32)\<close>.\<close>

definition parse_uint32 :: "string \<Rightarrow> nat option" where
  "parse_uint32 s = (case parse_digits s of None \<Rightarrow> None | Some n \<Rightarrow> if n < 4294967296 then Some n else None)"

section \<open>Operations\<close>

definition phc_text :: "parameters \<Rightarrow> bytes \<Rightarrow> bytes \<Rightarrow> string" where
  "phc_text p salt digest =
     ''$argon2id$v=19$m='' @ nat_text (MemoryKiB p) @ '',t='' @ nat_text (Iterations p) @ '',p=1$''
       @ std_encode salt @ ''$'' @ std_encode digest"

definition Hash ::
    "(bytes \<Rightarrow> bytes \<Rightarrow> nat \<Rightarrow> nat \<Rightarrow> bytes) \<Rightarrow> bytes option \<Rightarrow> bytes \<Rightarrow> parameters \<Rightarrow> password_error + string" where
  "Hash idkey salt password p =
     check (ValidatePassword password) ErrInvalidPassword
     (check (valid_parameters p) ErrInvalidParameters
     (case salt of
        None \<Rightarrow> Inl PasswordRandomUnavailable
      | Some s \<Rightarrow> Inr (phc_text p s (idkey password s (Iterations p) (MemoryKiB p)))))"

definition ParsePHC :: "string \<Rightarrow> (parameters \<times> bytes \<times> bytes) option" where
  "ParsePHC encoded =
     (if encoded = [] \<or> length encoded > maxPHCBytes then None
      else (case split_at CHR ''$'' encoded of
        [p0, p1, p2, p3, p4, p5] \<Rightarrow>
          if p0 \<noteq> [] \<or> p1 \<noteq> ''argon2id'' \<or> p2 \<noteq> ''v=19'' then None
          else (case split_at CHR '','' p3 of
            [m, t, par] \<Rightarrow>
              if \<not> has_prefix m ''m='' \<or> \<not> has_prefix t ''t='' \<or> par \<noteq> ''p=1'' then None
              else (case (parse_uint32 (trim_prefix m ''m=''), parse_uint32 (trim_prefix t ''t='')) of
                (Some memory, Some iterations) \<Rightarrow>
                  (let p = \<lparr>MemoryKiB = memory, Iterations = iterations\<rparr> in
                   if \<not> valid_parameters p then None
                   else (case (std_decode p4, std_decode p5) of
                     (Some salt, Some digest) \<Rightarrow>
                       if length salt \<noteq> SaltBytes \<or> length digest \<noteq> HashBytes then None
                       else if phc_text p salt digest \<noteq> encoded then None
                       else Some (p, salt, digest)
                   | _ \<Rightarrow> None))
              | _ \<Rightarrow> None)
          | _ \<Rightarrow> None)
      | _ \<Rightarrow> None))"

definition Verify ::
    "(bytes \<Rightarrow> bytes \<Rightarrow> nat \<Rightarrow> nat \<Rightarrow> bytes) \<Rightarrow> bytes \<Rightarrow> string \<Rightarrow> password_error + bool" where
  "Verify idkey password encoded =
     check (ValidatePassword password) ErrInvalidPassword
     (case ParsePHC encoded of
        None \<Rightarrow> Inl ErrInvalidPHC
      | Some (p, salt, expected) \<Rightarrow> Inr (idkey password salt (Iterations p) (MemoryKiB p) = expected))"

section \<open>The encoding is exact\<close>

lemma split_at_single [simp]: "c \<notin> set xs \<Longrightarrow> split_at c xs = [xs]"
  by (induction xs) auto

lemma split_at_append [simp]: "c \<notin> set xs \<Longrightarrow> split_at c (xs @ c # ys) = xs # split_at c ys"
  by (induction xs) auto

lemma b64_char_plain: "n < 64 \<Longrightarrow> is_alnum (b64_char n) \<or> b64_char n = CHR ''-'' \<or> b64_char n = CHR ''_''"
  by (auto simp: b64_char_def is_alnum_def is_upper_def is_lower_def is_digit_def in_range_def)

lemma base64_chars: "c \<in> set (base64_encode b) \<Longrightarrow> is_alnum c \<or> c = CHR ''-'' \<or> c = CHR ''_''"
  using encode_bound [of b] b64_char_plain by (auto simp: base64_encode_def)

lemma of_to_std: "is_alnum c \<or> c = CHR ''-'' \<or> c = CHR ''_'' \<Longrightarrow> of_std (to_std c) = c"
  by (auto simp: of_std_def to_std_def is_alnum_def is_upper_def is_lower_def is_digit_def in_range_def byte_def)

lemma std_decode_encode [simp]: "std_decode (std_encode b) = Some b"
proof -
  have "map of_std (std_encode b) = base64_encode b"
    using base64_chars [of _ b] of_to_std unfolding std_encode_def map_map by (intro map_idI) simp
  then show ?thesis by (simp add: std_decode_def)
qed

lemma std_chars: "c \<in> set (std_encode b) \<Longrightarrow> c \<noteq> CHR ''$''"
proof -
  assume "c \<in> set (std_encode b)"
  then obtain d where d: "c = to_std d" "is_alnum d \<or> d = CHR ''-'' \<or> d = CHR ''_''"
    using base64_chars [of _ b] by (auto simp: std_encode_def)
  then show ?thesis
    by (auto simp: to_std_def is_alnum_def is_upper_def is_lower_def is_digit_def in_range_def byte_def split: if_splits)
qed

lemma length_std_encode: "length (std_encode b) = (4 * length b + 2) div 3"
  by (simp add: std_encode_def length_base64_encode)

lemma nat_text_char: "c \<in> set (nat_text n) \<Longrightarrow> is_digit c"
  using nat_text_digits [of n] by (auto simp: list_all_iff)

lemma nat_text_no: "CHR ''$'' \<notin> set (nat_text n)" "CHR '','' \<notin> set (nat_text n)"
  by (auto dest!: nat_text_char simp: is_digit_def in_range_def byte_def)

lemma length_nat_text: "n < 10 ^ k \<Longrightarrow> 0 < k \<Longrightarrow> length (nat_text n) \<le> k"
proof (induction k arbitrary: n)
  case (Suc k)
  show ?case
  proof (cases "n < 10")
    case True
    then show ?thesis by (simp add: nat_text.simps [of n])
  next
    case False
    with Suc.prems have "n div 10 < 10 ^ k" "0 < k" by (auto simp: gr0_conv_Suc) (cases k, auto)
    with Suc.IH [of "n div 10"] False show ?thesis by (simp add: nat_text.simps [of n])
  qed
qed simp

lemma parse_uint32_text: "n \<le> 65536 \<Longrightarrow> parse_uint32 (nat_text n) = Some n"
  by (simp add: parse_uint32_def)

lemma trim_has_prefix [simp]: "has_prefix (p @ s) p" "trim_prefix (p @ s) p = s"
  by (simp_all add: trim_prefix_def has_prefix_def)

lemma phc_length:
  assumes "valid_parameters p" "length salt = SaltBytes" "length digest = HashBytes"
  shows "length (phc_text p salt digest) \<le> maxPHCBytes"
proof -
  have "length (nat_text (MemoryKiB p)) \<le> 5" "length (nat_text (Iterations p)) \<le> 1"
    using assms(1) by (auto intro!: length_nat_text simp: valid_parameters_def MaxMemoryKiB_def MaxIterations_def)
  with assms(2,3) show ?thesis
    by (simp add: phc_text_def length_std_encode SaltBytes_def HashBytes_def maxPHCBytes_def)
qed

lemma phc_split:
  "split_at CHR ''$'' (phc_text p salt digest) =
     [[], ''argon2id'', ''v=19'', ''m='' @ nat_text (MemoryKiB p) @ '',t='' @ nat_text (Iterations p) @ '',p=1'',
      std_encode salt, std_encode digest]"
proof -
  let ?params = "''m='' @ nat_text (MemoryKiB p) @ '',t='' @ nat_text (Iterations p) @ '',p=1''"
  have "phc_text p salt digest =
     [] @ CHR ''$'' # (''argon2id'' @ CHR ''$'' # (''v=19'' @ CHR ''$'' # (?params @ CHR ''$'' # (std_encode salt @ CHR ''$'' # std_encode digest))))"
    by (simp add: phc_text_def)
  moreover have "CHR ''$'' \<notin> set ?params" by (simp add: nat_text_no)
  moreover have "CHR ''$'' \<notin> set (std_encode salt)" "CHR ''$'' \<notin> set (std_encode digest)"
    using std_chars by blast+
  ultimately show ?thesis by (simp only:) ((subst split_at_append, simp)+, simp)
qed

lemma params_split:
  "split_at CHR '','' (''m='' @ nat_text m @ '',t='' @ nat_text t @ '',p=1'') =
     [''m='' @ nat_text m, ''t='' @ nat_text t, ''p=1'']"
proof -
  have "''m='' @ nat_text m @ '',t='' @ nat_text t @ '',p=1'' =
      (''m='' @ nat_text m) @ CHR '','' # ((''t='' @ nat_text t) @ CHR '','' # ''p=1'')"
    by simp
  moreover have "CHR '','' \<notin> set (''m='' @ nat_text m)" "CHR '','' \<notin> set (''t='' @ nat_text t)"
    by (simp_all add: nat_text_no)
  ultimately show ?thesis by (simp only: split_at_append) simp
qed

lemma ParsePHC_text:
  assumes "valid_parameters p" "length salt = SaltBytes" "length digest = HashBytes"
  shows "ParsePHC (phc_text p salt digest) = Some (p, salt, digest)"
proof -
  have "MemoryKiB p \<le> 65536" "Iterations p \<le> 65536"
    using assms(1) by (auto simp: valid_parameters_def MaxMemoryKiB_def MaxIterations_def)
  then have "parse_uint32 (nat_text (MemoryKiB p)) = Some (MemoryKiB p)"
    "parse_uint32 (nat_text (Iterations p)) = Some (Iterations p)"
    by (simp_all add: parse_uint32_text)
  moreover have "phc_text p salt digest \<noteq> []" by (simp add: phc_text_def)
  ultimately show ?thesis
    using assms phc_length [OF assms]
    by (simp only: ParsePHC_def phc_split params_split list.case trim_has_prefix prod.case option.case Let_def
        std_decode_encode) (cases p, simp)
qed

lemma ParsePHC_Some:
  assumes "ParsePHC encoded = Some (p, salt, digest)"
  shows "encoded = phc_text p salt digest \<and> valid_parameters p \<and> length salt = SaltBytes \<and> length digest = HashBytes"
  using assms unfolding ParsePHC_def
  by (simp add: Let_def split: if_splits list.splits option.splits)

text \<open>
  C34: a stored hash is accepted only in its one canonical spelling and only with parameters within the
  bounds: \<open>ParsePHC\<close> reads parameters, salt and digest out of a text exactly when the text is what
  \<open>Hash\<close> writes for them, the memory is 19456 to 65536 KiB, the passes are 2 to 6, the salt is 16 bytes
  and the digest 32, so a corrupt row cannot ask for more work than that.
\<close>

theorem phc_canonical_and_bounded:
  "ParsePHC encoded = Some (p, salt, digest) \<longleftrightarrow>
     encoded = phc_text p salt digest \<and> MinMemoryKiB \<le> MemoryKiB p \<and> MemoryKiB p \<le> MaxMemoryKiB
     \<and> MinIterations \<le> Iterations p \<and> Iterations p \<le> MaxIterations
     \<and> length salt = SaltBytes \<and> length digest = HashBytes"
  using ParsePHC_Some [of encoded p salt digest] ParsePHC_text [of p salt digest]
  by (auto simp: valid_parameters_def)

text \<open>
  a password verifies against the hash made of it, and another password verifies exactly when
  Argon2id derives the same key from it with the stored salt and parameters.
\<close>

theorem hash_verify_roundtrip:
  assumes "Hash idkey (Some salt) password p = Inr phc"
    and "length salt = SaltBytes" and "\<And>pw s t m. length (idkey pw s t m) = HashBytes"
  shows "Verify idkey password phc = Inr True \<and> (\<forall>other. ValidatePassword other \<longrightarrow> Verify idkey other phc =
      Inr (idkey other salt (Iterations p) (MemoryKiB p) = idkey password salt (Iterations p) (MemoryKiB p)))"
  using assms by (auto simp: Hash_def Verify_def ParsePHC_text)

definition sample_key :: "bytes \<Rightarrow> bytes \<Rightarrow> nat \<Rightarrow> nat \<Rightarrow> bytes" where
  "sample_key pw s t m = take 32 (pw @ replicate 32 CHR ''0'')"

lemma hash_verify_roundtrip_witness:
  "\<exists>phc. Hash sample_key (Some (replicate 16 CHR ''s'')) ''correct horse'' \<lparr>MemoryKiB = 19456, Iterations = 2\<rparr> = Inr phc
     \<and> Verify sample_key ''correct horse'' phc = Inr True
     \<and> Verify sample_key ''battery staple'' phc = Inr False"
proof -
  have v: "ValidatePassword ''correct horse''" "ValidatePassword ''battery staple''" by code_simp+
  then obtain phc where h: "Hash sample_key (Some (replicate 16 CHR ''s'')) ''correct horse'' \<lparr>MemoryKiB = 19456, Iterations = 2\<rparr> = Inr phc"
    by (simp add: Hash_def valid_parameters_def MinMemoryKiB_def MaxMemoryKiB_def MinIterations_def MaxIterations_def)
  have k: "\<And>pw s t m. length (sample_key pw s t m) = HashBytes" by (simp add: sample_key_def HashBytes_def)
  have s: "length (replicate 16 CHR ''s'') = SaltBytes" by (simp add: SaltBytes_def)
  have "sample_key ''battery staple'' s t m \<noteq> sample_key ''correct horse'' s t m" for s t m
    by (simp add: sample_key_def)
  with hash_verify_roundtrip [OF h s k] v(2) h show ?thesis by auto
qed

end
