(* ===== verification/Frame.thy ===== *)
theory Frame
  imports Database
begin

text \<open>
  Frame rules for database steps: \<open>frame g m\<close> says that the step \<open>m\<close>, whatever its result, leaves
  the part \<open>g\<close> of the database as it was. The rules follow the combinators, so that a handler's frame
  is proved by \<open>intro frame_intros\<close>. Further rules invert a case distinction that ended well.
\<close>

definition frame :: "(database \<Rightarrow> 'x) \<Rightarrow> ('e, 'a) step \<Rightarrow> bool" where
  "frame g m \<longleftrightarrow> (\<forall>db. g (snd (m db)) = g db)"

named_theorems frame_intros \<open>frame rules of the combinators\<close>

lemma frameD: "frame g m \<Longrightarrow> g (snd (m db)) = g db"
  by (simp add: frame_def)

lemma frame_run: "frame g m \<Longrightarrow> m db = (r, db') \<Longrightarrow> g db' = g db"
  by (metis frameD snd_conv)

lemma frame_basic [frame_intros]:
  "frame g (returns a)" "frame g (raises e)" "frame g (lift r)" "frame g (reads h)" "frame g (guard b e)"
  by (simp_all add: frame_def guard_def)

lemma frame_modify [frame_intros]: "(\<And>db. g (h db) = g db) \<Longrightarrow> frame g (modify h)"
  by (simp add: frame_def)

lemma frame_bind [frame_intros]: "frame g m \<Longrightarrow> (\<And>a. frame g (k a)) \<Longrightarrow> frame g (bind_step m k)"
  by (auto simp: frame_def bind_step_def split: prod.splits sum.splits) (metis snd_conv)+

lemma frame_transact [frame_intros]: "frame g m \<Longrightarrow> frame g (transact f eb ec m)"
  by (auto simp: frame_def transact_def split: prod.splits sum.splits) (metis snd_conv)+

lemma frame_cases [frame_intros]:
  "(b \<Longrightarrow> frame g m) \<Longrightarrow> (\<not> b \<Longrightarrow> frame g m') \<Longrightarrow> frame g (if b then m else m')"
  "frame g m \<Longrightarrow> (\<And>x. frame g (k x)) \<Longrightarrow> frame g (case opt of None \<Rightarrow> m | Some x \<Rightarrow> k x)"
  "(\<And>x y. frame g (j x y)) \<Longrightarrow> frame g (case p of (x, y) \<Rightarrow> j x y)"
  "frame g m \<Longrightarrow> (\<And>x xs. frame g (l x xs)) \<Longrightarrow> frame g (case list of [] \<Rightarrow> m | x # xs \<Rightarrow> l x xs)"
  "(\<And>x. frame g (i x)) \<Longrightarrow> (\<And>x. frame g (k x)) \<Longrightarrow> frame g (case s of Inl x \<Rightarrow> i x | Inr x \<Rightarrow> k x)"
  by (auto split: option.split prod.split list.split sum.split)

lemma frame_audit [frame_intros]:
  "(\<And>f db. g (audit_events_update f db) = g db) \<Longrightarrow> frame g (insertAudit f err now a act kind res out v)"
  by (simp add: insertAudit_def frame_intros)

section \<open>Inverting case distinctions\<close>

lemma case_option_Inr:
  "(case x of None \<Rightarrow> raises e | Some u \<Rightarrow> g u) db = (Inr a, db') \<longleftrightarrow> (\<exists>u. x = Some u \<and> g u db = (Inr a, db'))"
  by (auto split: option.splits)

lemma if_raises_Inr:
  "(if b then raises e else m) db = (Inr a, db') \<longleftrightarrow> \<not> b \<and> m db = (Inr a, db')"
  by auto

lemmas case_elims = case_option_Inr if_raises_Inr

text \<open>The same for results without a state.\<close>

lemma if_Inl_Inr: "(if b then Inl e else r) = Inr a \<longleftrightarrow> \<not> b \<and> r = Inr a"
  by simp

lemma case_option_Inl_Inr: "(case x of None \<Rightarrow> Inl e | Some u \<Rightarrow> g u) = Inr a \<longleftrightarrow> (\<exists>u. x = Some u \<and> g u = Inr a)"
  by (cases x) auto

lemma case_prod_Inr: "(case p of (x, y) \<Rightarrow> g x y) = Inr a \<longleftrightarrow> (\<exists>x y. p = (x, y) \<and> g x y = Inr a)"
  by (cases p) auto

lemmas sum_elims = if_Inl_Inr case_option_Inl_Inr case_prod_Inr

end
