(* ===== verification/Login.thy ===== *)
theory Login
  imports Session FailedLogin Password Frame Complex_Main
begin

text \<open>
  Password login, \<open>internal/storage/admin_login.go\<close>: the admission control (token buckets for all
  clients together and for each client, exponential delays after failures) and \<open>Login\<close> itself.

  Bucket contents are \<open>float64\<close> in the code. They are rationals here, and every floating-point
  operation is followed by the rounding \<open>rnd\<close>, a parameter; \<open>rnd = id\<close> is exact arithmetic. The Go
  map of clients is an association list with distinct addresses.
\<close>

section \<open>Addresses\<close>

text \<open>\<open>netip.Addr\<close>: invalid, 32 bits, or 128 bits with a zone.\<close>

datatype addr = Invalid | IPv4 nat | IPv6 nat string

definition is_valid :: "addr \<Rightarrow> bool" where
  "is_valid a \<longleftrightarrow> a \<noteq> Invalid"

definition is_unspecified :: "addr \<Rightarrow> bool" where
  "is_unspecified a \<longleftrightarrow> a = IPv4 0 \<or> a = IPv6 0 []"

definition unmap :: "addr \<Rightarrow> addr" where
  "unmap a = (case a of IPv6 n z \<Rightarrow> if n div 4294967296 = 65535 then IPv4 (n mod 4294967296) else a | _ \<Rightarrow> a)"

lemma unmap_unmap [simp]: "unmap (unmap a) = unmap a"
  by (simp add: unmap_def split: addr.splits)

section \<open>Buckets\<close>

type_synonym rounding = "rat \<Rightarrow> rat"

record bucket =
  tokens :: rat
  updated :: time

record login_client =
  client_bucket :: bucket
  failures :: nat
  blockedUntil :: time
  timeSeen :: time

record admission =
  global :: bucket
  clients :: "(addr \<times> login_client) list"
  globalRate :: nat
  globalBurst :: nat
  clientRate :: nat
  clientBurst :: nat
  maxClients :: nat
  clientIdle :: duration

text \<open>\<open>Time.Sub\<close> saturates; \<open>Duration.Minutes\<close> adds whole and fractional minutes.\<close>

definition time_sub :: "time \<Rightarrow> time \<Rightarrow> duration" where
  "time_sub t u = max (- max_int64 - 1) (min max_int64 (t - u))"

definition minutes :: "rounding \<Rightarrow> duration \<Rightarrow> rat" where
  "minutes rnd d = rnd (of_int (d div minute) + rnd (of_int (d mod minute) / 60000000000))"

definition refill :: "rounding \<Rightarrow> nat \<Rightarrow> nat \<Rightarrow> time \<Rightarrow> bucket \<Rightarrow> bucket" where
  "refill rnd rate burst now b =
     (if is_zero (updated b) then \<lparr>tokens = of_nat burst, updated = now\<rparr>
      else if updated b < now then
        (let t = rnd (tokens b + rnd (minutes rnd (time_sub now (updated b)) * of_nat rate))
         in \<lparr>tokens = (if t > of_nat burst then of_nat burst else t), updated = now\<rparr>)
      else b)"

definition ceilSecond :: "duration \<Rightarrow> duration" where
  "ceilSecond v = (if v \<le> 0 then second else ((v + second - 1) div second) * second)"

text \<open>\<open>time.Duration (x)\<close> of a float truncates towards zero.\<close>

definition truncate_rat :: "rat \<Rightarrow> int" where
  "truncate_rat x = (if x < 0 then - \<lfloor>- x\<rfloor> else \<lfloor>x\<rfloor>)"

definition tokenRetry :: "rounding \<Rightarrow> nat \<Rightarrow> bucket \<Rightarrow> duration" where
  "tokenRetry rnd rate b =
     (if rate < 1 then minute
      else ceilSecond (truncate_rat (rnd (rnd (rnd (1 - tokens b) / of_nat rate) * 60000000000))))"

definition take_token :: "rounding \<Rightarrow> bucket \<Rightarrow> bucket" where
  "take_token rnd b = b\<lparr>tokens := rnd (tokens b - 1)\<rparr>"

section \<open>Admission\<close>

definition prune :: "time \<Rightarrow> admission \<Rightarrow> admission" where
  "prune now a = a\<lparr>clients := filter (\<lambda>(k, c). now < timeSeen c + clientIdle a) (clients a)\<rparr>"

definition put_client :: "addr \<Rightarrow> login_client \<Rightarrow> admission \<Rightarrow> admission" where
  "put_client k c a = a\<lparr>clients := AList.update k c (clients a)\<rparr>"

definition new_client :: "admission \<Rightarrow> time \<Rightarrow> login_client" where
  "new_client a now = \<lparr>client_bucket = \<lparr>tokens = of_nat (clientBurst a), updated = now\<rparr>, failures = 0,
     blockedUntil = zero_time, timeSeen = zero_time\<rparr>"

text \<open>The part of \<open>allow\<close> after the client's entry is found or made.\<close>

definition admit :: "rounding \<Rightarrow> addr \<Rightarrow> time \<Rightarrow> login_client \<Rightarrow> admission \<Rightarrow> (duration \<times> bool) \<times> admission" where
  "admit rnd k now c0 a =
     (let c = c0\<lparr>timeSeen := now\<rparr> in
      if now < blockedUntil c then ((ceilSecond (time_sub (blockedUntil c) now), False), put_client k c a)
      else (let g = refill rnd (globalRate a) (globalBurst a) now (global a);
                b = refill rnd (clientRate a) (clientBurst a) now (client_bucket c);
                c1 = c\<lparr>client_bucket := b\<rparr>; a1 = a\<lparr>global := g\<rparr>
            in if tokens g < 1 then ((tokenRetry rnd (globalRate a) g, False), put_client k c1 a1)
               else if tokens b < 1 then ((tokenRetry rnd (clientRate a) b, False), put_client k c1 a1)
               else ((0, True), put_client k (c1\<lparr>client_bucket := take_token rnd b\<rparr>)
                                  (a1\<lparr>global := take_token rnd g\<rparr>))))"

definition allow :: "rounding \<Rightarrow> addr \<Rightarrow> time \<Rightarrow> admission \<Rightarrow> (duration \<times> bool) \<times> admission" where
  "allow rnd address now a0 =
     (let k = unmap address; a = prune now a0 in
      case map_of (clients a) k of
        Some c \<Rightarrow> admit rnd k now c a
      | None \<Rightarrow>
          if length (clients a) \<ge> maxClients a then ((clientIdle a, False), a)
          else admit rnd k now (new_client a now) a)"

definition failed :: "addr \<Rightarrow> time \<Rightarrow> admission \<Rightarrow> admission" where
  "failed address now a =
     (case map_of (clients a) (unmap address) of
        None \<Rightarrow> a
      | Some c \<Rightarrow>
          (let n = (if failures c < 6 then failures c + 1 else failures c);
               d = second * 2 ^ (n - 1);
               delay = (if d > 30 * second then 30 * second else d)
           in put_client (unmap address) (c\<lparr>failures := n, blockedUntil := now + delay, timeSeen := now\<rparr>) a))"

definition succeeded :: "addr \<Rightarrow> time \<Rightarrow> admission \<Rightarrow> admission" where
  "succeeded address now a =
     (case map_of (clients a) (unmap address) of
        None \<Rightarrow> a
      | Some c \<Rightarrow> put_client (unmap address) (c\<lparr>failures := 0, blockedUntil := zero_time, timeSeen := now\<rparr>) a)"

section \<open>The service\<close>

record settings =
  IdleSeconds :: int
  AbsoluteSeconds :: int
  GlobalAttemptsPerMinute :: nat
  GlobalBurst :: nat
  ClientAttemptsPerMinute :: nat
  ClientBurst :: nat
  MaxClientEntries :: nat
  ClientIdleSeconds :: int
  FailedLoginRetentionSeconds :: int

definition new_admission :: "settings \<Rightarrow> time \<Rightarrow> admission" where
  "new_admission e now =
     \<lparr>global = \<lparr>tokens = of_nat (GlobalBurst e), updated = now\<rparr>, clients = [], globalRate = GlobalAttemptsPerMinute e,
      globalBurst = GlobalBurst e, clientRate = ClientAttemptsPerMinute e, clientBurst = ClientBurst e,
      maxClients = MaxClientEntries e, clientIdle = ClientIdleSeconds e * second\<rparr>"

datatype login_error = InvalidCredentials | Throttled duration | Malformed | Unavailable

fun login_code :: "login_error \<Rightarrow> string" where
  "login_code InvalidCredentials = ''invalid_credentials''"
| "login_code (Throttled _) = ''throttled''"
| "login_code Malformed = ''malformed''"
| "login_code Unavailable = ''unavailable''"

text \<open>
  What an attempt meets: the clock at its three readings, the context at its two checks, whether
  another attempt is deriving a key, the password check (theory Password; \<open>None\<close> is an error), the
  random bytes of the new session and the faults of the statements.
\<close>

record login_env =
  at_start :: time
  at_failure :: time
  at_session :: time
  cancelled_first :: bool
  cancelled_second :: bool
  busy :: bool
  verify :: "bytes \<Rightarrow> string \<Rightarrow> bool option"
  sha :: "bytes \<Rightarrow> bytes"
  random1 :: "bytes option"
  random2 :: "bytes option"
  db_faults :: faults
  float_round :: rounding

record login_service =
  effective :: settings
  dummyPHC :: string
  admission_of :: admission
  statistics_of :: statistics

definition ValidateAdminUsername :: "string \<Rightarrow> bool" where
  "ValidateAdminUsername u \<longleftrightarrow> utf8_valid u \<and> 1 \<le> rune_count u \<and> rune_count u \<le> 120"

text \<open>The column is declared \<open>COLLATE NOCASE\<close>: equality folds the 26 ASCII letters.\<close>

definition find_user :: "string \<Rightarrow> database \<Rightarrow> admin_user option" where
  "find_user username db = find (\<lambda>u. map to_lower (user_name u) = map to_lower username) (admin_users db)"

definition stored_phc :: "login_service \<Rightarrow> admin_user option \<Rightarrow> string" where
  "stored_phc s found = (case found of None \<Rightarrow> dummyPHC s | Some u \<Rightarrow> password_phc u)"

definition verified_of :: "admin_user option \<Rightarrow> verified_admin" where
  "verified_of found = (case found of
       None \<Rightarrow> \<lparr>va_ID = [], va_Username = [], va_AuthVersion = 0\<rparr>
     | Some u \<Rightarrow> \<lparr>va_ID = user_id u, va_Username = user_name u, va_AuthVersion = auth_version u\<rparr>)"

text \<open>The body of \<open>Login\<close>, up to the deferred statistics.\<close>

definition login_attempt ::
    "login_env \<Rightarrow> addr \<Rightarrow> string \<Rightarrow> bytes \<Rightarrow> login_service \<Rightarrow> database
     \<Rightarrow> (login_error + credentials) \<times> admission \<times> database" where
  "login_attempt env client username password s db =
     (if \<not> is_valid client \<or> is_unspecified client \<or> \<not> ValidateAdminUsername username \<or> \<not> ValidatePassword password
      then (Inl Malformed, admission_of s, db)
      else (case allow (float_round env) client (at_start env) (admission_of s) of
        ((retry, ok), a) \<Rightarrow>
          if \<not> ok then (Inl (Throttled retry), a, db)
          else if cancelled_first env then (Inl Unavailable, a, db)
          else if busy env then (Inl (Throttled second), a, db)
          else if fails (db_faults env) ''read user'' then (Inl Unavailable, a, db)
          else (let found = find_user username db; v = verified_of found in
            if cancelled_second env then (Inl Unavailable, a, db)
            else (case verify env password (stored_phc s found) of
              None \<Rightarrow> (Inl Unavailable, a, db)
            | Some match \<Rightarrow>
                if \<not> match \<or> va_ID v = [] then (Inl InvalidCredentials, failed client (at_failure env) a, db)
                else (case CreateAdminSession (db_faults env) (sha env) (random1 env) (random2 env) v
                         (IdleSeconds (effective s)) (AbsoluteSeconds (effective s)) (at_session env) db of
                  (Inl VersionConflict, db') \<Rightarrow> (Inl InvalidCredentials, failed client (at_failure env) a, db')
                | (Inl _, db') \<Rightarrow> (Inl Unavailable, a, db')
                | (Inr c, db') \<Rightarrow> (Inr c, succeeded client (at_session env) a, db'))))))"

definition Login ::
    "login_env \<Rightarrow> faults \<Rightarrow> time \<Rightarrow> addr \<Rightarrow> string \<Rightarrow> bytes \<Rightarrow> login_service \<Rightarrow> database
     \<Rightarrow> (login_error + credentials) \<times> login_service \<times> database" where
  "Login env f now client username password s db =
     (case login_attempt env client username password s db of
        (Inl e, a, db') \<Rightarrow>
          (case record_login f (login_code e) now (statistics_of s) db' of
             (st, db'') \<Rightarrow> (Inl e, s\<lparr>admission_of := a, statistics_of := st\<rparr>, db''))
      | (Inr c, a, db') \<Rightarrow> (Inr c, s\<lparr>admission_of := a\<rparr>, db'))"

section \<open>The admission invariant\<close>

text \<open>What the properties use of \<open>float64\<close> rounding: it is monotone and keeps the integers it can represent.\<close>

definition exact_limit :: nat where
  "exact_limit = 2 ^ 53"

definition float_like :: "rounding \<Rightarrow> bool" where
  "float_like rnd \<longleftrightarrow> mono rnd \<and> (\<forall>n\<le>exact_limit. rnd (of_nat n) = of_nat n)"

definition bucket_ok :: "nat \<Rightarrow> bucket \<Rightarrow> bool" where
  "bucket_ok burst b \<longleftrightarrow> 0 \<le> tokens b \<and> tokens b \<le> of_nat burst"

definition client_ok :: "nat \<Rightarrow> addr \<times> login_client \<Rightarrow> bool" where
  "client_ok burst p \<longleftrightarrow> unmap (fst p) = fst p \<and> failures (snd p) \<le> 6 \<and> bucket_ok burst (client_bucket (snd p))"

definition admission_ok :: "admission \<Rightarrow> bool" where
  "admission_ok a \<longleftrightarrow> distinct (map fst (clients a)) \<and> length (clients a) \<le> maxClients a
     \<and> bucket_ok (globalBurst a) (global a) \<and> (\<forall>p\<in>set (clients a). client_ok (clientBurst a) p)
     \<and> globalBurst a \<le> exact_limit \<and> clientBurst a \<le> exact_limit"

lemma float_like_nat: "float_like rnd \<Longrightarrow> n \<le> exact_limit \<Longrightarrow> rnd (of_nat n) = of_nat n"
  by (simp add: float_like_def)

lemma float_like_nonneg: "float_like rnd \<Longrightarrow> 0 \<le> x \<Longrightarrow> 0 \<le> rnd x"
  using float_like_nat [of rnd 0] unfolding float_like_def by (metis monoD of_nat_0 zero_le)

lemma float_like_le: "float_like rnd \<Longrightarrow> n \<le> exact_limit \<Longrightarrow> x \<le> of_nat n \<Longrightarrow> rnd x \<le> of_nat n"
  using float_like_nat [of rnd n] unfolding float_like_def by (metis monoD)

lemma minutes_nonneg: "float_like rnd \<Longrightarrow> 0 \<le> d \<Longrightarrow> 0 \<le> minutes rnd d"
proof -
  assume rnd: "float_like rnd" and "0 \<le> d"
  then have "0 \<le> d div minute" "0 \<le> d mod minute" by simp_all
  then have "(0::rat) \<le> of_int (d div minute)" "(0::rat) \<le> of_int (d mod minute) / 60000000000"
    by (simp_all only: of_int_0_le_iff divide_nonneg_pos zero_less_numeral)
  then show "0 \<le> minutes rnd d"
    unfolding minutes_def by (intro float_like_nonneg [OF rnd] add_nonneg_nonneg)
qed

lemma time_sub_nonneg: "u \<le> t \<Longrightarrow> 0 \<le> time_sub t u"
  by (simp add: time_sub_def max_int64_def)

lemma refill_ok:
  assumes "float_like rnd" "bucket_ok burst b"
  shows "bucket_ok burst (refill rnd rate burst now b)"
proof -
  have "0 \<le> rnd (tokens b + rnd (minutes rnd (time_sub now (updated b)) * of_nat rate))" if "updated b < now"
    using assms that
    by (intro float_like_nonneg [OF assms(1)] add_nonneg_nonneg mult_nonneg_nonneg minutes_nonneg time_sub_nonneg)
      (simp_all add: bucket_ok_def)
  with assms show ?thesis by (auto simp: refill_def bucket_ok_def Let_def)
qed

lemma take_token_ok:
  assumes "float_like rnd" "bucket_ok burst b" "burst \<le> exact_limit" "1 \<le> tokens b"
  shows "bucket_ok burst (take_token rnd b)"
  using assms float_like_nonneg [of rnd "tokens b - 1"] float_like_le [of rnd burst "tokens b - 1"]
  by (simp add: bucket_ok_def take_token_def)

lemma put_client_ok:
  assumes "admission_ok a" "client_ok (clientBurst a) (k, c)"
    and "k \<in> fst ` set (clients a) \<or> length (clients a) < maxClients a"
  shows "admission_ok (put_client k c a)"
proof -
  have keys: "map fst (AList.update k c (clients a)) =
      (if k \<in> set (map fst (clients a)) then map fst (clients a) else map fst (clients a) @ [k])"
    by (rule update_keys)
  have sub: "set (AList.update k c al) \<subseteq> insert (k, c) (set al)" for al
    by (induction al) auto
  have "length (AList.update k c (clients a)) = length (map fst (AList.update k c (clients a)))" by simp
  then have "length (AList.update k c (clients a)) \<le> maxClients a"
    unfolding keys using assms(1,3) by (auto simp: admission_ok_def)
  moreover have "distinct (map fst (AList.update k c (clients a)))"
    unfolding keys using assms(1) by (simp add: admission_ok_def)
  ultimately show ?thesis
    using assms(1,2) sub [of "clients a"] by (auto simp: admission_ok_def put_client_def)
qed

lemma put_client_simps [simp]:
  "globalBurst (put_client k c a) = globalBurst a" "clientBurst (put_client k c a) = clientBurst a"
  "maxClients (put_client k c a) = maxClients a" "globalRate (put_client k c a) = globalRate a"
  "clientRate (put_client k c a) = clientRate a" "clientIdle (put_client k c a) = clientIdle a"
  "global (put_client k c a) = global a"
  by (simp_all add: put_client_def)

lemma entry_ok:
  assumes "admission_ok a" "map_of (clients a) k = Some c"
  shows "client_ok (clientBurst a) (k, c)" "k \<in> fst ` set (clients a)"
  using assms by (auto simp: admission_ok_def dest!: map_of_SomeD intro: rev_image_eqI)

lemma prune_ok: "admission_ok a \<Longrightarrow> admission_ok (prune now a)"
  by (auto simp: admission_ok_def prune_def distinct_map_filter intro: le_trans [OF length_filter_le])

lemma global_ok: "admission_ok a \<Longrightarrow> bucket_ok (globalBurst a) g \<Longrightarrow> admission_ok (a\<lparr>global := g\<rparr>)"
  by (simp add: admission_ok_def)

lemma admit_ok:
  assumes "float_like rnd" "admission_ok a" "client_ok (clientBurst a) (k, c)"
    and "k \<in> fst ` set (clients a) \<or> length (clients a) < maxClients a"
  shows "admission_ok (snd (admit rnd k now c a))"
proof -
  have g: "bucket_ok (globalBurst a) (refill rnd (globalRate a) (globalBurst a) now (global a))"
    using assms(1,2) by (intro refill_ok) (simp_all add: admission_ok_def)
  have b: "bucket_ok (clientBurst a) (refill rnd (clientRate a) (clientBurst a) now (client_bucket c))"
    using assms(1,3) by (intro refill_ok) (simp_all add: client_ok_def)
  have bursts: "globalBurst a \<le> exact_limit" "clientBurst a \<le> exact_limit"
    using assms(2) by (simp_all add: admission_ok_def)
  note tg = take_token_ok [OF assms(1) g bursts(1)] and tb = take_token_ok [OF assms(1) b bursts(2)]
  show ?thesis
    using assms(2-4) g b tg tb by (auto simp: admit_def Let_def client_ok_def intro!: put_client_ok global_ok)
qed

lemma allow_ok:
  assumes "float_like rnd" "admission_ok a"
  shows "admission_ok (snd (allow rnd k now a))"
proof (cases "map_of (clients (prune now a)) (unmap k)")
  case None
  have "client_ok (clientBurst (prune now a)) (unmap k, new_client (prune now a) now)"
    by (simp add: client_ok_def new_client_def bucket_ok_def)
  with None assms show ?thesis by (auto simp: allow_def Let_def prune_ok intro!: admit_ok)
next
  case (Some c)
  note entry_ok [OF prune_ok [OF assms(2)] Some]
  with Some assms show ?thesis by (auto simp: allow_def Let_def prune_ok intro!: admit_ok)
qed

lemma failed_ok:
  assumes "admission_ok a"
  shows "admission_ok (failed k now a)"
proof (cases "map_of (clients a) (unmap k)")
  case None
  with assms show ?thesis by (simp add: failed_def)
next
  case (Some c)
  note e = entry_ok [OF assms Some]
  show ?thesis
    unfolding failed_def Let_def Some option.case
    by (rule put_client_ok [OF assms]) (use e in \<open>simp_all add: client_ok_def\<close>)
qed

lemma succeeded_ok:
  assumes "admission_ok a"
  shows "admission_ok (succeeded k now a)"
proof (cases "map_of (clients a) (unmap k)")
  case None
  with assms show ?thesis by (simp add: succeeded_def)
next
  case (Some c)
  note e = entry_ok [OF assms Some]
  show ?thesis
    unfolding succeeded_def Some option.case
    by (rule put_client_ok [OF assms]) (use e in \<open>simp_all add: client_ok_def\<close>)
qed

datatype admission_op = AllowOp addr time | FailedOp addr time | SucceededOp addr time

fun admission_step :: "rounding \<Rightarrow> admission_op \<Rightarrow> admission \<Rightarrow> admission" where
  "admission_step rnd (AllowOp k now) a = snd (allow rnd k now a)"
| "admission_step rnd (FailedOp k now) a = failed k now a"
| "admission_step rnd (SucceededOp k now) a = succeeded k now a"

lemma admission_step_ok: "float_like rnd \<Longrightarrow> admission_ok a \<Longrightarrow> admission_ok (admission_step rnd op a)"
  by (cases op) (simp_all add: allow_ok failed_ok succeeded_ok)

lemma fold_admission_ok:
  "float_like rnd \<Longrightarrow> admission_ok a \<Longrightarrow> admission_ok (fold (admission_step rnd) ops a)"
  by (induction ops arbitrary: a) (simp_all add: admission_step_ok)

text \<open>
  the admission state stays bounded whatever clients and clocks do: with any floating-point
  rounding that is monotone and exact on small integers, after any sequence of attempts, failures and
  successes, at any times, there is one entry per unmapped address, at most \<open>maxClients\<close> of them, every
  bucket holds between zero and its burst, and no failure counter exceeds six.
\<close>

theorem admission_bounded:
  assumes "float_like rnd" and "GlobalBurst e \<le> 20" and "ClientBurst e \<le> 10"
  shows "admission_ok (fold (admission_step rnd) ops (new_admission e now))"
  using assms by (intro fold_admission_ok)
    (simp_all add: admission_ok_def new_admission_def bucket_ok_def exact_limit_def)

definition sample_settings :: settings where
  "sample_settings = \<lparr>IdleSeconds = 1800, AbsoluteSeconds = 43200, GlobalAttemptsPerMinute = 30, GlobalBurst = 5,
     ClientAttemptsPerMinute = 5, ClientBurst = 3, MaxClientEntries = 1024, ClientIdleSeconds = 900,
     FailedLoginRetentionSeconds = 0\<rparr>"

lemma float_like_id: "float_like id"
  by (simp add: float_like_def mono_def)

lemma admission_bounded_witness:
  "admission_ok (fold (admission_step id) [AllowOp (IPv4 1) 5, FailedOp (IPv4 1) 6, AllowOp (IPv6 281470681743361 []) 7]
     (new_admission sample_settings 0))"
  by (rule admission_bounded [OF float_like_id]) (simp_all add: sample_settings_def)

section \<open>The rate limit\<close>

fun admitted :: "admission_op list \<Rightarrow> admission \<Rightarrow> nat" where
  "admitted [] a = 0"
| "admitted (op # ops) a =
     (case op of AllowOp k now \<Rightarrow> of_bool (snd (fst (allow id k now a))) | _ \<Rightarrow> 0)
       + admitted ops (admission_step id op a)"

text \<open>What a bucket may gain between two instants at a rate per minute.\<close>

definition gain :: "nat \<Rightarrow> time \<Rightarrow> time \<Rightarrow> rat" where
  "gain rate t u = of_nat rate * of_int (u - t) / 60000000000"

lemma gain_refl [simp]: "gain rate t t = 0"
  by (simp add: gain_def)

lemma gain_split: "gain rate t v = gain rate t u + gain rate u v"
  by (simp add: gain_def field_simps)

lemma gain_mono: "u \<le> v \<Longrightarrow> gain rate t u \<le> gain rate t v"
  by (simp add: gain_def divide_right_mono mult_left_mono)

lemma minutes_exact: "minutes id d = of_int d / 60000000000"
proof -
  have "(of_int d :: rat) = of_int (minute * (d div minute) + d mod minute)" by simp
  also have "\<dots> = 60000000000 * of_int (d div minute) + of_int (d mod minute)"
    by (simp only: of_int_add of_int_mult of_int_numeral)
  finally have "(of_int d :: rat) / 60000000000 = of_int (d div minute) + of_int (d mod minute) / 60000000000"
    by (simp add: add_divide_distrib)
  then show ?thesis by (simp add: minutes_def)
qed

lemma refill_gain:
  assumes "zero_time < updated b"
  shows "tokens (refill id rate burst now b) \<le> tokens b + gain rate (updated b) (updated (refill id rate burst now b))"
    and "updated b \<le> updated (refill id rate burst now b)"
    and "updated (refill id rate burst now b) \<le> max (updated b) now"
proof -
  have "minutes id (time_sub now (updated b)) * of_nat rate \<le> gain rate (updated b) now" if "updated b < now"
  proof -
    have "time_sub now (updated b) \<le> now - updated b" using that by (simp add: time_sub_def max_int64_def)
    then have "(of_int (time_sub now (updated b)) :: rat) \<le> of_int (now - updated b)" by (simp only: of_int_le_iff)
    then have "of_int (time_sub now (updated b)) * of_nat rate \<le> (of_int (now - updated b) * of_nat rate :: rat)"
      by (intro mult_right_mono) simp_all
    then show ?thesis by (simp add: minutes_exact gain_def divide_right_mono mult.commute)
  qed
  with assms show "tokens (refill id rate burst now b) \<le> tokens b + gain rate (updated b) (updated (refill id rate burst now b))"
    by (auto simp: refill_def Let_def is_zero_def)
  show "updated b \<le> updated (refill id rate burst now b)" "updated (refill id rate burst now b) \<le> max (updated b) now"
    using assms by (auto simp: refill_def Let_def is_zero_def)
qed

lemma admit_gain:
  assumes "zero_time < updated (global a)" "admit id k now c a = ((r, ok), a')"
  shows "of_bool ok + tokens (global a') \<le> tokens (global a) + gain (globalRate a) (updated (global a)) (updated (global a'))"
    and "updated (global a) \<le> updated (global a')" "updated (global a') \<le> max (updated (global a)) now"
    and "globalRate a' = globalRate a"
proof -
  let ?g = "refill id (globalRate a) (globalBurst a) now (global a)"
  note g = refill_gain [OF assms(1), of "globalRate a" "globalBurst a" now]
  have "(\<not> ok \<and> (global a' = global a \<or> global a' = ?g)) \<or> (ok \<and> global a' = take_token id ?g)"
    and "globalRate a' = globalRate a"
    using assms(2) by (auto simp: admit_def Let_def put_client_def split: if_splits)
  then show "of_bool ok + tokens (global a') \<le> tokens (global a) + gain (globalRate a) (updated (global a)) (updated (global a'))"
    "updated (global a) \<le> updated (global a')" "updated (global a') \<le> max (updated (global a)) now"
    "globalRate a' = globalRate a"
    using g by (auto simp: take_token_def)
qed

lemma prune_simps [simp]:
  "global (prune now a) = global a" "globalRate (prune now a) = globalRate a"
  "clientIdle (prune now a) = clientIdle a" "maxClients (prune now a) = maxClients a"
  by (simp_all add: prune_def)

lemma allow_gain:
  assumes "zero_time < updated (global a)" "allow id k now a = ((r, ok), a')"
  shows "of_bool ok + tokens (global a') \<le> tokens (global a) + gain (globalRate a) (updated (global a)) (updated (global a'))
    \<and> updated (global a) \<le> updated (global a') \<and> updated (global a') \<le> max (updated (global a)) now
    \<and> globalRate a' = globalRate a"
proof (cases "\<exists>c. admit id (unmap k) now c (prune now a) = ((r, ok), a')")
  case True
  then obtain c where "admit id (unmap k) now c (prune now a) = ((r, ok), a')" by blast
  from admit_gain [OF _ this] assms(1) show ?thesis by simp
next
  case False
  with assms(2) have "\<not> ok \<and> a' = prune now a"
    by (auto simp: allow_def Let_def split: option.splits if_splits)
  then show ?thesis by simp
qed

lemma other_step_global:
  "global (failed k now a) = global a" "globalRate (failed k now a) = globalRate a"
  "global (succeeded k now a) = global a" "globalRate (succeeded k now a) = globalRate a"
  by (simp_all add: failed_def succeeded_def Let_def split: option.splits)

fun allow_time :: "admission_op \<Rightarrow> time option" where
  "allow_time (AllowOp k now) = Some now"
| "allow_time _ = None"

lemma admitted_gain:
  assumes "zero_time < updated (global a)" "updated (global a) \<le> T"
    and "\<And>op t. op \<in> set ops \<Longrightarrow> allow_time op = Some t \<Longrightarrow> t \<le> T" "admission_ok a"
  shows "of_nat (admitted ops a) \<le> tokens (global a) + gain (globalRate a) (updated (global a)) T"
  using assms
proof (induction ops arbitrary: a)
  case Nil
  have "0 \<le> tokens (global a)" using Nil.prems(4) by (simp add: admission_ok_def bucket_ok_def)
  moreover have "0 \<le> gain (globalRate a) (updated (global a)) T"
    using gain_mono [OF Nil.prems(2), of "globalRate a" "updated (global a)"] by simp
  ultimately show ?case by simp
next
  case (Cons op ops)
  let ?a = "admission_step id op a"
  let ?n = "(case op of AllowOp k now \<Rightarrow> of_bool (snd (fst (allow id k now a))) | _ \<Rightarrow> 0) :: nat"
  have "of_nat ?n + tokens (global ?a) \<le> tokens (global a) + gain (globalRate a) (updated (global a)) (updated (global ?a))
      \<and> updated (global a) \<le> updated (global ?a) \<and> updated (global ?a) \<le> T \<and> globalRate ?a = globalRate a"
  proof (cases op)
    case (AllowOp k now)
    obtain r ok a' where al: "allow id k now a = ((r, ok), a')" by (metis surj_pair)
    have "now \<le> T" using Cons.prems(3) [of op now] AllowOp by simp
    with allow_gain [OF Cons.prems(1) al] Cons.prems(2) al AllowOp show ?thesis by auto
  qed (use Cons.prems(2) in \<open>simp_all add: other_step_global\<close>)
  moreover have "of_nat (admitted ops ?a) \<le> tokens (global ?a) + gain (globalRate ?a) (updated (global ?a)) T"
    if "updated (global a) \<le> updated (global ?a)" "updated (global ?a) \<le> T"
    using that Cons.prems admission_step_ok [OF float_like_id Cons.prems(4)] by (intro Cons.IH) auto
  ultimately show ?case
    using gain_split [of "globalRate a" "updated (global a)" T "updated (global ?a)"] by auto
qed



section \<open>Delays after failures\<close>

lemma ceilSecond_bounds: "0 < v \<Longrightarrow> v \<le> ceilSecond v \<and> ceilSecond v < v + second \<and> second \<le> ceilSecond v"
  by (auto simp: ceilSecond_def)

lemma map_of_filter_first: "map_of xs k = Some v \<Longrightarrow> P (k, v) \<Longrightarrow> map_of (filter P xs) k = Some v"
  by (induction xs) (auto split: if_splits)

definition lock_delay :: "nat \<Rightarrow> duration" where
  "lock_delay n = min (30 * second) (second * 2 ^ n)"

lemma lock_delay_code:
  "n \<le> 6 \<Longrightarrow> (let m = (if n < 6 then n + 1 else n); d = second * 2 ^ (m - 1) in if d > 30 * second then 30 * second else d)
    = lock_delay n"
proof -
  assume "n \<le> 6"
  then consider "n = 0" | "n = 1" | "n = 2" | "n = 3" | "n = 4" | "n = 5" | "n = 6" by linarith
  then show ?thesis by cases (simp_all add: lock_delay_def Let_def)
qed

lemma lock_delay_le: "0 < lock_delay n \<and> lock_delay n \<le> 30 * second"
  by (simp add: lock_delay_def)


definition sample_admission :: admission where
  "sample_admission = snd (allow id (IPv4 7) 0 (new_admission sample_settings 0))"


section \<open>Who gets in\<close>

lemma create_Inr_admin:
  "CreateAdminSession f sh r1 r2 v idle absolute now db = (Inr c, db') \<Longrightarrow>
   ad_ID (cr_Admin c) = va_ID v \<and> ad_AuthVersion (cr_Admin c) = va_AuthVersion v"
  by (auto simp: CreateAdminSession_def Let_def transact_Inr step_elims case_option_Inr split: prod.splits)

text \<open>
  nobody logs in without the password: if \<open>Login\<close> returns credentials, the client was admitted, the
  user exists, the password check accepted the password against the stored hash, and the credentials
  are for that user at its current authentication version; with the check of theory Password this means
  that the password derives the stored Argon2id digest.
\<close>

theorem login_needs_password:
  assumes "Login env f now client username password s db = (Inr c, s', db')"
    and "verify env = (\<lambda>pw phc. case Verify idkey pw phc of Inl _ \<Rightarrow> None | Inr b \<Rightarrow> Some b)"
  shows "\<exists>u p salt. snd (fst (allow (float_round env) client (at_start env) (admission_of s)))
    \<and> find_user username db = Some u \<and> user_id u \<noteq> []
    \<and> ParsePHC (password_phc u) = Some (p, salt, idkey password salt (Iterations p) (MemoryKiB p))
    \<and> ad_ID (cr_Admin c) = user_id u \<and> ad_AuthVersion (cr_Admin c) = auth_version u"
proof -
  from assms(1) obtain a' where "login_attempt env client username password s db = (Inr c, a', db')"
    by (auto simp: Login_def split: prod.splits sum.splits)
  then obtain u where u: "snd (fst (allow (float_round env) client (at_start env) (admission_of s)))"
    "find_user username db = Some u" "user_id u \<noteq> []" "verify env password (password_phc u) = Some True"
    "CreateAdminSession (db_faults env) (sha env) (random1 env) (random2 env) (verified_of (Some u))
       (IdleSeconds (effective s)) (AbsoluteSeconds (effective s)) (at_session env) db = (Inr c, db')"
    by (auto simp: login_attempt_def Let_def stored_phc_def verified_of_def
        split: if_splits prod.splits option.splits sum.splits session_error.splits)
  obtain p salt where "ParsePHC (password_phc u) = Some (p, salt, idkey password salt (Iterations p) (MemoryKiB p))"
    using u(4) unfolding assms(2) by (auto simp: Verify_def check_def split: sum.splits option.splits if_splits)
  with u create_Inr_admin [OF u(5)] show ?thesis by (auto simp: verified_of_def)
qed

text \<open>
  a failed login does not tell whether the user exists: an unknown name and a known name with a
  wrong password give the same error and leave the same admission state, for any admission state and
  environment, as long as the dummy hash rejects the password.
\<close>

theorem unknown_user_indistinguishable:
  assumes "find_user username db1 = None" and "find_user username db2 = Some u"
    and "verify env password (dummyPHC s) = Some False" and "verify env password (password_phc u) = Some False"
  shows "fst (login_attempt env client username password s db1) = fst (login_attempt env client username password s db2)
    \<and> fst (snd (login_attempt env client username password s db1)) = fst (snd (login_attempt env client username password s db2))
    \<and> snd (snd (login_attempt env client username password s db1)) = db1
    \<and> snd (snd (login_attempt env client username password s db2)) = db2"
  using assms by (auto simp: login_attempt_def Let_def stored_phc_def split: prod.splits)


definition login_env_of :: "(bytes \<Rightarrow> string \<Rightarrow> bool option) \<Rightarrow> login_env" where
  "login_env_of check_password = \<lparr>at_start = 10, at_failure = 20, at_session = 20, cancelled_first = False,
     cancelled_second = False, busy = False, verify = check_password, sha = sample_sha,
     random1 = Some (replicate 32 CHR ''a''), random2 = Some (replicate 32 CHR ''b''), db_faults = no_faults,
     float_round = id\<rparr>"

definition sample_phc :: string where
  "sample_phc = phc_text \<lparr>MemoryKiB = 19456, Iterations = 2\<rparr> (replicate 16 CHR ''s'')
     (sample_key ''correct horse'' (replicate 16 CHR ''s'') 2 19456)"

definition sample_service :: login_service where
  "sample_service = \<lparr>effective = sample_settings, dummyPHC = sample_phc,
     admission_of = new_admission sample_settings 0, statistics_of = newFailedLoginStatistics 0\<rparr>"

definition login_db :: database where
  "login_db = empty_database\<lparr>admin_users := [sample_user\<lparr>password_phc := sample_phc\<rparr>]\<rparr>"

definition argon_check :: "bytes \<Rightarrow> string \<Rightarrow> bool option" where
  "argon_check = (\<lambda>pw phc. case Verify sample_key pw phc of Inl _ \<Rightarrow> None | Inr b \<Rightarrow> Some b)"

lemma sample_password:
  "ValidatePassword ''correct horse''" "ValidateAdminUsername ''root''" "ValidatePassword ''battery staple''"
  "ValidateAdminUsername ''nobody''"
  by code_simp+

lemma sample_check: "argon_check ''correct horse'' sample_phc = Some True"
proof -
  have "ParsePHC sample_phc = Some (\<lparr>MemoryKiB = 19456, Iterations = 2\<rparr>, replicate 16 CHR ''s'',
      sample_key ''correct horse'' (replicate 16 CHR ''s'') 2 19456)"
    unfolding sample_phc_def by (rule ParsePHC_text)
      (simp_all add: valid_parameters_def MinMemoryKiB_def MaxMemoryKiB_def MinIterations_def MaxIterations_def
        SaltBytes_def HashBytes_def sample_key_def)
  then show ?thesis by (simp add: argon_check_def Verify_def sample_password)
qed

lemma sample_admitted:
  "\<exists>a. allow id (IPv4 7) 10 (new_admission sample_settings 0) = ((0, True), a)"
  by (simp add: allow_def new_admission_def sample_settings_def prune_def admit_def new_client_def
      Let_def zero_time_def refill_def is_zero_def put_client_def unmap_def minutes_def time_sub_def max_int64_def)

lemma sample_login:
  "\<exists>c s' db'. Login (login_env_of argon_check) no_faults 30 (IPv4 7) ''root'' ''correct horse'' sample_service login_db
     = (Inr c, s', db')"
proof -
  obtain a where a: "allow id (IPv4 7) 10 (new_admission sample_settings 0) = ((0, True), a)"
    using sample_admitted by blast
  have "find_user ''root'' login_db = Some (sample_user\<lparr>password_phc := sample_phc\<rparr>)"
    by (simp add: find_user_def login_db_def empty_database_def sample_user_def)
  moreover have "\<exists>c db'. CreateAdminSession no_faults sample_sha (Some (replicate 32 CHR ''a'')) (Some (replicate 32 CHR ''b''))
      \<lparr>va_ID = ''a'', va_Username = ''root'', va_AuthVersion = 1\<rparr> 1800 43200 20 login_db = (Inr c, db')"
    by (simp add: CreateAdminSession_def Let_def newAdminToken_def transact_def bind_step_def guard_def no_faults_def
        login_db_def empty_database_def sample_user_def insertAudit_def)
  ultimately show ?thesis
    using a sample_check sample_password
    by (auto simp: Login_def login_attempt_def login_env_of_def sample_service_def is_valid_def is_unspecified_def
        no_faults_def stored_phc_def verified_of_def Let_def sample_user_def sample_settings_def)
qed

lemma login_needs_password_witness:
  "\<exists>u p salt. find_user ''root'' login_db = Some u
     \<and> ParsePHC (password_phc u) = Some (p, salt, sample_key ''correct horse'' salt (Iterations p) (MemoryKiB p))"
proof -
  obtain c s' db' where "Login (login_env_of argon_check) no_faults 30 (IPv4 7) ''root'' ''correct horse'' sample_service login_db
     = (Inr c, s', db')" using sample_login by blast
  from login_needs_password [OF this, of sample_key] show ?thesis
    by (auto simp: login_env_of_def argon_check_def)
qed

lemma unknown_user_indistinguishable_witness:
  "fst (login_attempt (login_env_of (\<lambda>pw phc. Some False)) (IPv4 7) ''root'' ''battery staple'' sample_service empty_database)
   = fst (login_attempt (login_env_of (\<lambda>pw phc. Some False)) (IPv4 7) ''root'' ''battery staple'' sample_service login_db)"
  using unknown_user_indistinguishable [of "''root''" empty_database login_db
      "sample_user\<lparr>password_phc := sample_phc\<rparr>" "login_env_of (\<lambda>pw phc. Some False)" "''battery staple''" sample_service "IPv4 7"]
  by (simp add: find_user_def login_db_def empty_database_def sample_user_def login_env_of_def)

section \<open>Counting the failures\<close>

lemma create_frame: "frame login_stats (CreateAdminSession f sh r1 r2 v idle absolute now)"
  unfolding CreateAdminSession_def Let_def by (intro frame_intros) simp_all

lemma attempt_stats:
  "login_attempt env client username password s db = (r, a, db') \<Longrightarrow> login_stats db' = login_stats db"
  using frame_run [OF create_frame]
  by (auto simp: login_attempt_def Let_def split: if_splits prod.splits option.splits sum.splits session_error.splits)

lemma login_code_valid: "validLoginReason (login_code e)"
  by (cases e) (simp_all add: validLoginReason_def login_reasons_def)

text \<open>
  Every failed login is counted once, under its own reason, and a successful one is not counted:
  \<open>Login\<close> adds one to the counter (memory and table together) of the code it returns and to no other.
\<close>

theorem login_counted:
  assumes "Login env f now client username password s db = (r, s', db')"
    and "sound (statistics_of s, db)" and "clean f" and "tally reason (statistics_of s, db) < max_int64"
  shows "tally reason (statistics_of s', db') = tally reason (statistics_of s, db)
    + (case r of Inl e \<Rightarrow> if login_code e = reason then 1 else 0 | Inr _ \<Rightarrow> 0)"
proof -
  obtain r0 a db1 where at: "login_attempt env client username password s db = (r0, a, db1)" by (metis prod.exhaust)
  then have "login_stats db1 = login_stats db" by (rule attempt_stats)
  then have eq: "tally reason (statistics_of s, db1) = tally reason (statistics_of s, db)" "sound (statistics_of s, db1)"
    using assms(2) by (simp_all add: tally_def sound_def)
  show ?thesis
  proof (cases r0)
    case (Inl e)
    with record_tally(2) [OF eq(2) assms(3), of reason "login_code e" now] eq(1) assms(1,4) at show ?thesis
      by (auto simp: Login_def login_code_valid split: prod.splits)
  next
    case (Inr c)
    with assms(1) at eq(1) show ?thesis by (auto simp: Login_def)
  qed
qed

lemma login_counted_witness:
  "\<exists>s' db'. Login (login_env_of (\<lambda>pw phc. Some False)) no_faults 30 Invalid [] [] sample_service empty_database = (Inl Malformed, s', db')
     \<and> tally ''malformed'' (statistics_of s', db') = 1"
proof -
  obtain s' db' where l: "Login (login_env_of (\<lambda>pw phc. Some False)) no_faults 30 Invalid [] [] sample_service empty_database
      = (Inl Malformed, s', db')"
    by (cases "record_login no_faults ''malformed'' 30 (statistics_of sample_service) empty_database")
      (auto simp: Login_def login_attempt_def is_valid_def)
  have "sound (statistics_of sample_service, empty_database)"
    "tally ''malformed'' (statistics_of sample_service, empty_database) = 0"
    by (simp_all add: sound_def sample_service_def newFailedLoginStatistics_def empty_database_def good_rows_def tally_def count_of_def)
  with login_counted [OF l this(1), of "''malformed''"] l show ?thesis
    by (auto simp: clean_def no_faults_def max_int64_def)
qed

end
