(* ===== verification/JsonPrint.thy ===== *)
theory JsonPrint
  imports GoDecode
begin

text \<open>
  \<open>json.Marshal\<close> of structs, strings, integers and lists: compact text, HTML-escaped strings. A tree
  whose strings are valid UTF-8 and whose numbers are integer texts is read back as itself by the
  lexer and parser of theory Lexer.
\<close>

section \<open>Strings\<close>

definition hex_char :: "nat \<Rightarrow> char" where
  "hex_char n = (if n < 10 then char_of (48 + n) else char_of (87 + n))"

text \<open>The escape of a byte below 128; \<open>[c]\<close> when it is written as it is.\<close>

definition escape_ascii :: "char \<Rightarrow> bytes" where
  "escape_ascii c =
     (let b = byte c; bs = char_of (92::nat) in
      if b = 34 \<or> b = 92 then [bs, c]
      else if b = 8 then [bs, CHR ''b'']
      else if b = 12 then [bs, CHR ''f'']
      else if b = 10 then [bs, CHR ''n'']
      else if b = 13 then [bs, CHR ''r'']
      else if b = 9 then [bs, CHR ''t'']
      else if b < 32 \<or> b = 60 \<or> b = 62 \<or> b = 38
        then [bs, CHR ''u'', CHR ''0'', CHR ''0'', hex_char (b div 16), hex_char (b mod 16)]
      else [c])"

definition escape_rune :: "bytes \<Rightarrow> bytes" where
  "escape_rune r =
     (if r = map char_of [226, 128, 168 :: nat] then char_of (92::nat) # ''u2028''
      else if r = map char_of [226, 128, 169 :: nat] then char_of (92::nat) # ''u2029''
      else r)"

function quote_body :: "bytes \<Rightarrow> bytes" where
  "quote_body s =
     (case s of
        [] \<Rightarrow> []
      | c # s' \<Rightarrow>
          if byte c < 128 then escape_ascii c @ quote_body s'
          else (case rune_size s of
                  None \<Rightarrow> (char_of (92::nat) # ''ufffd'') @ quote_body s'
                | Some n \<Rightarrow> escape_rune (take n s) @ quote_body (drop n s)))"
  by pat_completeness auto
termination
  by (relation "measure length") (auto dest: rune_size_pos)

declare quote_body.simps [simp del]

definition quote :: "bytes \<Rightarrow> bytes" where
  "quote s = CHR 0x22 # quote_body s @ [CHR 0x22]"

section \<open>Trees\<close>

fun print_lit :: "lit \<Rightarrow> bytes" where
  "print_lit LNull = ''null''"
| "print_lit (LBool b) = (if b then ''true'' else ''false'')"
| "print_lit (LNum s) = s"

fun print_json :: "json \<Rightarrow> bytes"
  and print_elems :: "json list \<Rightarrow> bytes"
  and print_fields :: "(string \<times> json) list \<Rightarrow> bytes" where
  "print_json (JLit l) = print_lit l"
| "print_json (JStr s) = quote s"
| "print_json (JArr vs) = ''['' @ (case vs of [] \<Rightarrow> [] | v # vs' \<Rightarrow> print_json v @ print_elems vs') @ '']''"
| "print_json (JObj fs) =
     ''{'' @ (case fs of [] \<Rightarrow> [] | (k, v) # fs' \<Rightarrow> quote k @ '':'' @ print_json v @ print_fields fs') @ ''}''"
| "print_elems [] = []"
| "print_elems (v # vs) = '','' @ print_json v @ print_elems vs"
| "print_fields [] = []"
| "print_fields ((k, v) # fs) = '','' @ quote k @ '':'' @ print_json v @ print_fields fs"

abbreviation JInt :: "int \<Rightarrow> json" where
  "JInt i \<equiv> JLit (LNum (int_text i))"

abbreviation JBool :: "bool \<Rightarrow> json" where
  "JBool b \<equiv> JLit (LBool b)"

text \<open>The trees that come back unchanged.\<close>

fun printable :: "json \<Rightarrow> bool" where
  "printable (JLit l) \<longleftrightarrow> (case l of LNum s \<Rightarrow> \<exists>i. s = int_text i | _ \<Rightarrow> True)"
| "printable (JStr s) \<longleftrightarrow> utf8_valid s"
| "printable (JArr vs) \<longleftrightarrow> (\<forall>v\<in>set vs. printable v)"
| "printable (JObj fs) \<longleftrightarrow> (\<forall>f\<in>set fs. utf8_valid (fst f) \<and> printable (snd f))"

section \<open>Reading back a string\<close>

lemma hex_value_char [simp]: "n < 16 \<Longrightarrow> hex_value (hex_char n) = Some n"
  by (auto simp: hex_char_def hex_value_def is_digit_def in_range_def)

lemma byte_backslash [simp]: "byte (char_of (92::nat)) = 92"
  by simp

lemma scan_escape:
  "escape s = Some (bs, s') \<Longrightarrow> scan_string (char_of (92::nat) # s) = map_option (\<lambda>(t, r). (bs @ t, r)) (scan_string s')"
  by simp

lemma scan_plain:
  "byte c \<noteq> 34 \<Longrightarrow> byte c \<noteq> 92 \<Longrightarrow> 32 \<le> byte c \<Longrightarrow> scan_string (c # s) = map_option (\<lambda>(t, r). (c # t, r)) (scan_string s)"
  by simp

declare scan_string.simps(2) [simp del]

lemma byte_0 [simp]: "hex_value (CHR ''0'') = Some 0"
  by code_simp

lemma escape_unicode:
  "b < 32 \<or> b = 60 \<or> b = 62 \<or> b = 38 \<Longrightarrow>
   escape (CHR ''u'' # CHR ''0'' # CHR ''0'' # hex_char (b div 16) # hex_char (b mod 16) # s) = Some ([char_of b], s)"
proof -
  assume b: "b < 32 \<or> b = 60 \<or> b = 62 \<or> b = 38"
  then have "b div 16 < 16" by auto
  then have "hex4 (CHR ''0'' # CHR ''0'' # hex_char (b div 16) # hex_char (b mod 16) # s) = Some (b, s)"
    by simp
  with b show ?thesis by (auto simp: escape_def unicode_escape_def utf8_encode_def byte_def)
qed

lemma scan_ascii:
  assumes "byte c < 128"
  shows "scan_string (escape_ascii c @ s) = map_option (\<lambda>(t, r). (c # t, r)) (scan_string s)"
proof -
  have plain: ?thesis if "escape_ascii c = [c]" "byte c \<noteq> 34" "byte c \<noteq> 92" "32 \<le> byte c"
    using that by (simp add: scan_plain)
  have esc: ?thesis if "escape_ascii c = char_of (92::nat) # e" "escape (e @ s) = Some ([c], s)" for e
    using that by (simp add: scan_escape)
  consider "byte c \<in> {34, 92}" | "byte c \<in> {8, 12, 10, 13, 9}"
    | "byte c \<notin> {34, 92, 8, 12, 10, 13, 9}" "byte c < 32 \<or> byte c = 60 \<or> byte c = 62 \<or> byte c = 38"
    | "byte c \<notin> {34, 92, 8, 12, 10, 13, 9, 60, 62, 38}" "32 \<le> byte c" by force
  then show ?thesis
  proof cases
    case 1
    then show ?thesis by (intro esc [of "[c]"]) (auto simp: escape_ascii_def escape_def Let_def)
  next
    case 2
    have c: "c = char_of (byte c)" by simp
    from 2 consider "byte c = 8" | "byte c = 12" | "byte c = 10" | "byte c = 13" | "byte c = 9" by auto
    then show ?thesis
    proof cases
      case 1
      with c have "c = char_of (8::nat)" by simp
      then show ?thesis by (intro esc [of "''b''"]) (simp_all add: escape_ascii_def escape_def Let_def byte_def)
    next
      case 2
      with c have "c = char_of (12::nat)" by simp
      then show ?thesis by (intro esc [of "''f''"]) (simp_all add: escape_ascii_def escape_def Let_def byte_def)
    next
      case 3
      with c have "c = char_of (10::nat)" by simp
      then show ?thesis by (intro esc [of "''n''"]) (simp_all add: escape_ascii_def escape_def Let_def byte_def)
    next
      case 4
      with c have "c = char_of (13::nat)" by simp
      then show ?thesis by (intro esc [of "''r''"]) (simp_all add: escape_ascii_def escape_def Let_def byte_def)
    next
      case 5
      with c have "c = char_of (9::nat)" by simp
      then show ?thesis by (intro esc [of "''t''"]) (simp_all add: escape_ascii_def escape_def Let_def byte_def)
    qed
  next
    case 3
    then have "escape_ascii c = char_of (92::nat) # [CHR ''u'', CHR ''0'', CHR ''0'', hex_char (byte c div 16), hex_char (byte c mod 16)]"
      by (auto simp: escape_ascii_def Let_def)
    moreover have "escape ([CHR ''u'', CHR ''0'', CHR ''0'', hex_char (byte c div 16), hex_char (byte c mod 16)] @ s) = Some ([c], s)"
      using escape_unicode [OF 3(2), of s] by simp
    ultimately show ?thesis by (rule esc)
  next
    case 4
    then show ?thesis by (intro plain) (auto simp: escape_ascii_def Let_def)
  qed
qed


lemma scan_high: "\<forall>c\<in>set r. 128 \<le> byte c \<Longrightarrow> scan_string (r @ s) = map_option (\<lambda>(t, q). (r @ t, q)) (scan_string s)"
proof (induction r)
  case Nil
  then show ?case by (cases "scan_string s") auto
next
  case (Cons c r)
  then have "scan_string ((c # r) @ s) = map_option (\<lambda>(t, q). (c # t, q)) (scan_string (r @ s))"
    by (simp add: scan_plain)
  with Cons show ?case by (cases "scan_string s") auto
qed

lemma rune_high: "rune_size (c # s) = Some n \<Longrightarrow> 128 \<le> byte c \<Longrightarrow> \<forall>d\<in>set (take n (c # s)). 128 \<le> byte d"
  by (auto simp: rune_size_def Let_def second_byte_def in_range_def split: list.splits if_splits)

lemma scan_rune:
  assumes "\<forall>c\<in>set r. 128 \<le> byte c"
  shows "scan_string (escape_rune r @ s) = map_option (\<lambda>(t, q). (r @ t, q)) (scan_string s)"
proof -
  have "escape (''u2028'' @ s) = Some (map char_of [226, 128, 168 :: nat], s)"
    "escape (''u2029'' @ s) = Some (map char_of [226, 128, 169 :: nat], s)"
    by (simp_all add: escape_def unicode_escape_def utf8_encode_def byte_def hex_value_def is_digit_def in_range_def)
  then show ?thesis using scan_high [OF assms] by (auto simp: escape_rune_def scan_escape)
qed

lemma scan_quote_body:
  "utf8_valid s \<Longrightarrow> scan_string (quote_body s @ CHR 0x22 # r) = Some (s, r)"
proof (induction s rule: quote_body.induct)
  case (1 s)
  show ?case
  proof (cases s)
    case Nil
    then show ?thesis by (simp add: quote_body.simps [of "[]"] scan_string.simps byte_def)
  next
    case (Cons c s')
    obtain n where n: "rune_size s = Some n" "utf8_valid (drop n s)"
      using 1(4) Cons by (subst (asm) utf8_valid.simps) (auto split: option.splits)
    show ?thesis
    proof (cases "byte c < 128")
      case True
      then have "n = 1" using n(1) Cons by (simp add: rune_size_def Let_def)
      then have "utf8_valid s'" using n(2) Cons by simp
      with 1(1) [OF Cons True] have "scan_string (quote_body s' @ CHR 0x22 # r) = Some (s', r)" by simp
      moreover have "quote_body s = escape_ascii c @ quote_body s'"
        using True Cons by (subst quote_body.simps) simp
      ultimately show ?thesis using True Cons by (simp add: scan_ascii)
    next
      case False
      from 1(3) [OF Cons False n(1)] n(2)
      have ih: "scan_string (quote_body (drop n s) @ CHR 0x22 # r) = Some (drop n s, r)" by simp
      have "\<forall>d\<in>set (take n s). 128 \<le> byte d" using rune_high n(1) False Cons by auto
      moreover have "quote_body s = escape_rune (take n s) @ quote_body (drop n s)"
        using False Cons n(1) by (subst quote_body.simps) simp
      ultimately show ?thesis using ih by (simp add: scan_rune)
    qed
  qed
qed

lemma scan_quote: "utf8_valid s \<Longrightarrow> scan_string (tl (quote s) @ r) = Some (s, r)"
  by (simp add: quote_def scan_quote_body)

lemma lex_quote: "utf8_valid s \<Longrightarrow> lex (quote s @ r) = LString s # lex r"
  using scan_quote_body [of s r]
  by (simp add: quote_def is_blank_def byte_def)

section \<open>Reading back a tree\<close>

definition stops :: "bytes \<Rightarrow> bool" where
  "stops r \<longleftrightarrow> (case r of [] \<Rightarrow> True | c # _ \<Rightarrow> \<not> is_digit c \<and> c \<notin> {CHR ''.'', CHR ''e'', CHR ''E''})"

lemma nat_text_leading: "0 < n \<Longrightarrow> nat_text n = c # s \<Longrightarrow> c \<noteq> CHR ''0''"
proof (induction n arbitrary: s rule: nat_text.induct)
  case (1 n)
  show ?case
  proof (cases "n < 10")
    case True
    with 1(2,3) have "c = char_of (48 + n)" by (simp add: nat_text.simps [of n])
    then have "byte c = 48 + n" using True by simp
    then show ?thesis using 1(2) by (auto simp: byte_def)
  next
    case False
    obtain d t where d: "nat_text (n div 10) = d # t"
      by (cases "nat_text (n div 10)") (simp_all add: nat_text_nonempty)
    with 1(3) False have "c = d" by (simp add: nat_text.simps [of n])
    moreover have "0 < n div 10" using False by simp
    ultimately show ?thesis using 1(1) [OF False] d by blast
  qed
qed

lemma scan_digits_text:
  assumes "stops r" shows "scan_digits (nat_text n @ r) = Some (nat_text n, r)"
proof -
  have d: "list_all is_digit (nat_text n)" by (rule nat_text_digits)
  have "takeWhile is_digit r = []" "dropWhile is_digit r = r"
    using assms by (auto simp: stops_def split: list.splits)
  then have "takeWhile is_digit (nat_text n @ r) = nat_text n" "dropWhile is_digit (nat_text n @ r) = r"
    using d by (auto simp: takeWhile_append dropWhile_append list_all_iff)
  moreover obtain c s where "nat_text n = c # s" by (cases "nat_text n") (simp_all add: nat_text_nonempty)
  ultimately show ?thesis by (simp only: scan_digits_def) simp
qed

lemma char_zero: "char_of (48::nat) = CHR ''0''"
  by code_simp

lemma scan_integer_text:
  assumes "stops r" shows "scan_integer (nat_text n @ r) = Some (nat_text n, r)"
proof (cases "n = 0")
  case True
  then show ?thesis by (simp add: scan_integer_def nat_text.simps [of 0] char_zero)
next
  case False
  obtain c s where cs: "nat_text n = c # s" by (cases "nat_text n") (simp_all add: nat_text_nonempty)
  with False have "c \<noteq> CHR ''0''" using nat_text_leading by blast
  then show ?thesis using scan_digits_text [OF assms, of n] cs by (simp add: scan_integer_def)
qed

lemma scan_tail: "stops r \<Longrightarrow> scan_fraction r = Some ([], r) \<and> scan_exponent r = Some ([], r)"
  by (auto simp: stops_def scan_fraction_def scan_exponent_def split: list.splits)

lemma scan_number_text:
  assumes "stops r" shows "scan_number (int_text i @ r) = Some (int_text i, r)"
proof -
  have pos: "scan_number (nat_text n @ r) = Some (nat_text n, r)" for n
  proof -
    obtain c s where cs: "nat_text n = c # s" by (cases "nat_text n") (simp_all add: nat_text_nonempty)
    then have "is_digit c" by (rule nat_text_hd_digit)
    then have "c \<noteq> CHR ''-''" by (auto simp: is_digit_def in_range_def byte_def)
    with cs scan_integer_text [OF assms, of n] scan_tail [OF assms] show ?thesis
      by (simp add: scan_number_def Let_def)
  qed
  show ?thesis
  proof (cases "i < 0")
    case True
    with scan_integer_text [OF assms] scan_tail [OF assms] show ?thesis
      by (simp add: scan_number_def int_text_def Let_def)
  qed (simp add: int_text_def pos)
qed

lemma lex_int:
  assumes "stops r" shows "lex (int_text i @ r) = LLit (LNum (int_text i)) # lex r"
proof -
  obtain c s where cs: "int_text i = c # s" "is_digit c \<or> byte c = 45"
  proof (cases "i < 0")
    case True
    then show ?thesis using that [of "CHR ''-''"] by (simp add: int_text_def byte_def)
  next
    case False
    obtain c s where "nat_text (nat i) = c # s" by (cases "nat_text (nat i)") (simp_all add: nat_text_nonempty)
    with False nat_text_hd_digit [OF this] that show ?thesis by (simp add: int_text_def)
  qed
  have "\<not> is_blank c" "byte c \<notin> {123, 125, 91, 93, 58, 44, 34}"
    using cs(2) by (auto simp: is_blank_def is_digit_def in_range_def)
  with cs scan_number_text [OF assms, of i] show ?thesis by simp
qed

lemma lex_punct:
  "lex (CHR ''['' # s) = LArrOpen # lex s" "lex (CHR '']'' # s) = LArrClose # lex s"
  "lex (CHR ''{'' # s) = LObjOpen # lex s" "lex (CHR ''}'' # s) = LObjClose # lex s"
  "lex (CHR '':'' # s) = LColon # lex s" "lex (CHR '','' # s) = LComma # lex s"
  by (simp_all add: is_blank_def byte_def)

lemma lex_names:
  "lex (''null'' @ s) = LLit LNull # lex s" "lex (''true'' @ s) = LLit (LBool True) # lex s"
  "lex (''false'' @ s) = LLit (LBool False) # lex s"
  by (simp_all add: is_blank_def byte_def is_digit_def in_range_def has_prefix_def)

lemma stops_punct [simp]:
  "stops (CHR '']'' # s)" "stops (CHR ''}'' # s)" "stops (CHR '','' # s)" "stops []"
  by (simp_all add: stops_def is_digit_def in_range_def byte_def)

lemma stops_elems [simp]: "stops (print_elems vs @ CHR '']'' # r)"
  by (cases vs) simp_all

lemma stops_fields [simp]: "stops (print_fields fs @ CHR ''}'' # r)"
  by (cases fs) (auto split: prod.splits)

declare lex.simps(2) [simp del]

lemma lex_print:
  "printable v \<Longrightarrow> stops r \<Longrightarrow> lex (print_json v @ r) = lex_of v @ lex r"
  "\<forall>v\<in>set vs. printable v \<Longrightarrow> lex (print_elems vs @ CHR '']'' # r) = lex_elems vs @ LArrClose # lex r"
  "\<forall>f\<in>set fs. utf8_valid (fst f) \<and> printable (snd f) \<Longrightarrow>
     lex (print_fields fs @ CHR ''}'' # r) = lex_fields fs @ LObjClose # lex r"
proof (induction v and vs and fs arbitrary: r and r and r rule: print_json_print_elems_print_fields.induct)
  case (1 l)
  then show ?case
    by (cases l) (auto simp: lex_int lex_names [simplified])
next
  case (2 s)
  then show ?case by (simp add: lex_quote)
next
  case (3 vs)
  show ?case
  proof (cases vs)
    case Nil
    then show ?thesis by (simp add: lex_punct)
  next
    case (Cons v vs')
    with 3 show ?thesis by (simp add: lex_punct lex_elems_eq)
  qed
next
  case (4 fs)
  show ?case
  proof (cases fs)
    case Nil
    then show ?thesis by (simp add: lex_punct)
  next
    case (Cons f fs')
    obtain k v where f: "f = (k, v)" by (cases f)
    have p: "utf8_valid k" "printable v" "\<forall>f\<in>set fs'. utf8_valid (fst f) \<and> printable (snd f)"
      using 4(3) Cons f by auto
    have "print_json (JObj fs) @ r = CHR ''{'' # quote k @ CHR '':'' # print_json v @ print_fields fs' @ CHR ''}'' # r"
      using Cons f by simp
    also have "lex \<dots> = LObjOpen # LString k # LColon # lex_of v @ lex_fields fs' @ LObjClose # lex r"
      using 4(1) [OF Cons f [symmetric] p(2)] 4(2) [OF Cons f [symmetric] p(3)] p(1)
      by (simp only: lex_punct lex_quote stops_fields)
    also have "\<dots> = lex_of (JObj fs) @ lex r"
      using Cons f by (simp only: lex_of.simps list.case prod.case append.simps append_assoc)
    finally show ?thesis .
  qed
next
  case 5
  then show ?case by (simp add: lex_punct)
next
  case (6 v vs)
  then show ?case by (simp add: lex_punct)
next
  case 7
  then show ?case by (simp add: lex_punct)
next
  case (8 k v fs)
  then show ?case by (simp add: lex_punct lex_quote)
qed

lemma parse_print: "printable v \<Longrightarrow> parse_doc (lex (print_json v)) = Some v"
  using lex_print(1) [of v "[]"] by (simp add: parse_doc_iff)

lemma print_json_inject: "printable v \<Longrightarrow> printable w \<Longrightarrow> print_json v = print_json w \<longleftrightarrow> v = w"
  by (metis parse_print option.inject)

end
