(* ===== verification/PlanToken.thy ===== *)
theory PlanToken
  imports JsonPrint Base64 Frame "HOL-Library.List_Lexorder" "HOL-Library.Char_ord"
  "HOL-Library.Product_Lexorder"
begin

text \<open>
  Plan tokens, \<open>internal/storage/plan_token.go\<close>, and their execution, \<open>plan_transaction.go\<close>. The
  cryptographic functions are parameters: \<open>hkdf key salt info\<close> (\<open>None\<close> is an error), \<open>hmac key
  message\<close> and \<open>sha256\<close>. The key lock makes each operation of the store one step; \<open>snapshot\<close> and
  \<open>apply\<close> are the callbacks of the caller, database steps of the same transaction.
\<close>

section \<open>Data\<close>

datatype plan_error =
    InvalidPlan
  | PlanExpired
  | PlanAlreadyUsed
  | PlanConflict
  | KeyUnavailable
  | PlanFailed string

record observed =
  ob_Kind :: string
  ob_Name :: string
  ob_ID :: string
  ob_Version :: int

text \<open>A Go slice in a document: \<open>None\<close> is nil, which is written \<open>null\<close>.\<close>

record plan_binding =
  Revision :: int
  Digest :: string
  Observed :: "observed list option"

record plan_claims =
  pc_Version :: int
  Purpose :: string
  InstallationID :: string
  KeyVersion :: int
  Binding :: plan_binding
  Nonce :: string
  IssuedAt :: int
  ExpiresAt :: int

record crypto =
  hkdf :: "bytes \<Rightarrow> bytes \<Rightarrow> string \<Rightarrow> bytes option"
  hmac :: "bytes \<Rightarrow> bytes \<Rightarrow> bytes"
  sha256 :: "bytes \<Rightarrow> bytes"

record secret_store =
  installationID :: string
  activeKeyVersion :: int
  activeKey :: bytes
  unavailable :: bool

definition planPurpose :: string where "planPurpose = ''modelcairn/plan-token/v1''"
definition settingsPlanPurpose :: string where "settingsPlanPurpose = ''modelcairn/admin-settings-plan/v1''"
definition maxPlanTokenBytes :: nat where "maxPlanTokenBytes = 8388608"

definition validPlanPurpose :: "string \<Rightarrow> bool" where
  "validPlanPurpose purpose \<longleftrightarrow> purpose = planPurpose \<or> purpose = settingsPlanPurpose"

definition validKinds :: "string list" where
  "validKinds = [''Provider'', ''ProviderAccount'', ''ProviderConnection'', ''Credential'', ''Egress'', ''Model'',
     ''Destination'', ''Strategy'', ''Route'', ''AgentToken'']"

definition secretNamePattern :: "string \<Rightarrow> bool" where
  "secretNamePattern s \<longleftrightarrow>
     (case s of [] \<Rightarrow> False
      | c # r \<Rightarrow> is_lower c \<and> length r \<le> 62 \<and> list_all (\<lambda>d. is_lower d \<or> is_digit d \<or> d = CHR ''-'') r)"

section \<open>Documents\<close>

definition json_observed :: "observed \<Rightarrow> json" where
  "json_observed o' = JObj [(''kind'', JStr (ob_Kind o')), (''name'', JStr (ob_Name o')), (''id'', JStr (ob_ID o')),
     (''version'', JInt (ob_Version o'))]"

definition json_binding :: "plan_binding \<Rightarrow> json" where
  "json_binding b = JObj [(''revision'', JInt (Revision b)), (''digest'', JStr (Digest b)),
     (''observed'', case Observed b of None \<Rightarrow> JNull | Some os \<Rightarrow> JArr (map json_observed os))]"

definition json_claims :: "plan_claims \<Rightarrow> json" where
  "json_claims c = JObj [(''version'', JInt (pc_Version c)), (''purpose'', JStr (Purpose c)),
     (''installationId'', JStr (InstallationID c)), (''keyVersion'', JInt (KeyVersion c)),
     (''binding'', json_binding (Binding c)), (''nonce'', JStr (Nonce c)), (''issuedAt'', JInt (IssuedAt c)),
     (''expiresAt'', JInt (ExpiresAt c))]"

definition zero_observed :: observed where
  "zero_observed = \<lparr>ob_Kind = [], ob_Name = [], ob_ID = [], ob_Version = 0\<rparr>"

definition zero_binding :: plan_binding where
  "zero_binding = \<lparr>Revision = 0, Digest = [], Observed = None\<rparr>"

definition zero_claims :: plan_claims where
  "zero_claims = \<lparr>pc_Version = 0, Purpose = [], InstallationID = [], KeyVersion = 0, Binding = zero_binding,
     Nonce = [], IssuedAt = 0, ExpiresAt = 0\<rparr>"

definition dec_observed :: "observed dec" where
  "dec_observed = dec_struct False [''kind'', ''name'', ''id'', ''version'']
     (\<lambda>n r v. if n = ''kind'' then map_option (\<lambda>x. r\<lparr>ob_Kind := x\<rparr>) (dec_string (ob_Kind r) v)
              else if n = ''name'' then map_option (\<lambda>x. r\<lparr>ob_Name := x\<rparr>) (dec_string (ob_Name r) v)
              else if n = ''id'' then map_option (\<lambda>x. r\<lparr>ob_ID := x\<rparr>) (dec_string (ob_ID r) v)
              else map_option (\<lambda>x. r\<lparr>ob_Version := x\<rparr>) (dec_int (ob_Version r) v))"

definition dec_list :: "observed list option dec" where
  "dec_list old v =
     (if v = JNull then Some None
      else map_option (\<lambda>s. Some (elems s))
        (dec_slice zero_observed dec_observed (Slice (case old of None \<Rightarrow> [] | Some os \<Rightarrow> os) []) v))"

definition dec_binding :: "plan_binding dec" where
  "dec_binding = dec_struct False [''revision'', ''digest'', ''observed'']
     (\<lambda>n r v. if n = ''revision'' then map_option (\<lambda>x. r\<lparr>Revision := x\<rparr>) (dec_int (Revision r) v)
              else if n = ''digest'' then map_option (\<lambda>x. r\<lparr>Digest := x\<rparr>) (dec_string (Digest r) v)
              else map_option (\<lambda>x. r\<lparr>Observed := x\<rparr>) (dec_list (Observed r) v))"

definition dec_claim :: "string \<Rightarrow> plan_claims dec" where
  "dec_claim n r v =
     (if n = ''version'' then map_option (\<lambda>x. r\<lparr>pc_Version := x\<rparr>) (dec_int (pc_Version r) v)
      else if n = ''purpose'' then map_option (\<lambda>x. r\<lparr>Purpose := x\<rparr>) (dec_string (Purpose r) v)
      else if n = ''installationId'' then map_option (\<lambda>x. r\<lparr>InstallationID := x\<rparr>) (dec_string (InstallationID r) v)
      else if n = ''keyVersion'' then map_option (\<lambda>x. r\<lparr>KeyVersion := x\<rparr>) (dec_int (KeyVersion r) v)
      else if n = ''binding'' then map_option (\<lambda>x. r\<lparr>Binding := x\<rparr>) (dec_binding (Binding r) v)
      else if n = ''nonce'' then map_option (\<lambda>x. r\<lparr>Nonce := x\<rparr>) (dec_string (Nonce r) v)
      else if n = ''issuedAt'' then map_option (\<lambda>x. r\<lparr>IssuedAt := x\<rparr>) (dec_int (IssuedAt r) v)
      else map_option (\<lambda>x. r\<lparr>ExpiresAt := x\<rparr>) (dec_int (ExpiresAt r) v))"

definition dec_claims :: "plan_claims dec" where
  "dec_claims = dec_struct False [''version'', ''purpose'', ''installationId'', ''keyVersion'', ''binding'', ''nonce'',
     ''issuedAt'', ''expiresAt''] dec_claim"

text \<open>
  \<open>json.Unmarshal\<close> into zero claims. What a repeated member would leave in reused memory is not
  tracked: a document with one is refused in any case, because it is not its own canonical form.
\<close>

definition unmarshal_claims :: "bytes \<Rightarrow> plan_claims option" where
  "unmarshal_claims payload =
     (case parse_doc (lex payload) of None \<Rightarrow> None | Some v \<Rightarrow> dec_claims zero_claims v)"

definition marshal_claims :: "plan_claims \<Rightarrow> bytes" where
  "marshal_claims c = print_json (json_claims c)"

definition marshal_binding :: "plan_binding \<Rightarrow> bytes" where
  "marshal_binding b = print_json (json_binding b)"

section \<open>Bindings\<close>

text \<open>The loop over the sorted observations, with the previous one.\<close>

fun check_observed :: "observed option \<Rightarrow> observed list \<Rightarrow> bool" where
  "check_observed prev [] = True"
| "check_observed prev (item # rest) =
     (ob_Kind item \<in> set validKinds
      \<and> \<not> (\<not> secretNamePattern (ob_Name item) \<or> ob_Version item < 0
           \<or> (ob_ID item = []) \<noteq> (ob_Version item = 0) \<or> length (ob_ID item) > 128)
      \<and> (case prev of None \<Rightarrow> True | Some p \<Rightarrow> \<not> (ob_Kind item = ob_Kind p \<and> ob_Name item = ob_Name p))
      \<and> check_observed (Some item) rest)"

definition canonicalBinding :: "plan_binding \<Rightarrow> plan_binding option" where
  "canonicalBinding b =
     (case base64_decode (Digest b) of
        None \<Rightarrow> None
      | Some digest \<Rightarrow>
          if length digest \<noteq> 32 \<or> Revision b < 1 then None
          else (let os = sort_key (\<lambda>x. (ob_Kind x, ob_Name x)) (case Observed b of None \<Rightarrow> [] | Some xs \<Rightarrow> xs) in
                if check_observed None os then Some (b\<lparr>Observed := Some os\<rparr>) else None))"

section \<open>Issuing and verifying\<close>

definition planMACForPurpose :: "crypto \<Rightarrow> secret_store \<Rightarrow> string \<Rightarrow> bytes \<Rightarrow> bytes option" where
  "planMACForPurpose cr s purpose encoded =
     (if \<not> validPlanPurpose purpose then None
      else map_option (\<lambda>key. hmac cr key encoded) (hkdf cr (activeKey s) (installationID s) purpose))"

definition issuePlanTokenForPurposeLocked ::
    "crypto \<Rightarrow> secret_store \<Rightarrow> string \<Rightarrow> plan_binding \<Rightarrow> bytes option \<Rightarrow> time \<Rightarrow> plan_error + string" where
  "issuePlanTokenForPurposeLocked cr s purpose b random now =
     (if \<not> validPlanPurpose purpose then Inl InvalidPlan
      else (case canonicalBinding b of
        None \<Rightarrow> Inl InvalidPlan
      | Some b' \<Rightarrow>
          (case random of
             None \<Rightarrow> Inl (PlanFailed ''plan_randomness_unavailable'')
           | Some nonce \<Rightarrow>
               (let claims = \<lparr>pc_Version = 1, Purpose = purpose, InstallationID = installationID s,
                      KeyVersion = activeKeyVersion s, Binding = b', Nonce = base64_encode nonce,
                      IssuedAt = unix_seconds now, ExpiresAt = unix_seconds (now + 10 * minute)\<rparr>;
                    encoded = base64_encode (marshal_claims claims)
                in if length encoded + 44 > maxPlanTokenBytes then Inl InvalidPlan
                   else (case planMACForPurpose cr s purpose encoded of
                           None \<Rightarrow> Inl InvalidPlan
                         | Some mac \<Rightarrow> Inr (encoded @ ''.'' @ base64_encode mac))))))"

text \<open>\<open>strings.Cut\<close> at the first dot.\<close>

definition cut_dot :: "string \<Rightarrow> (string \<times> string) option" where
  "cut_dot s = (case dropWhile (\<lambda>c. c \<noteq> CHR ''.'') s of
     [] \<Rightarrow> None | _ # rest \<Rightarrow> Some (takeWhile (\<lambda>c. c \<noteq> CHR ''.'') s, rest))"

definition check_claims :: "secret_store \<Rightarrow> string \<Rightarrow> time \<Rightarrow> plan_claims \<Rightarrow> plan_error + plan_claims" where
  "check_claims s purpose now c =
     check (\<not> (pc_Version c \<noteq> 1 \<or> Purpose c \<noteq> purpose \<or> InstallationID c \<noteq> installationID s
                \<or> KeyVersion c \<noteq> activeKeyVersion s)) InvalidPlan
     (case base64_decode (Nonce c) of
        None \<Rightarrow> Inl InvalidPlan
      | Some nonce \<Rightarrow>
          check (length nonce = 32) InvalidPlan
          (check (\<not> (IssuedAt c > unix_seconds (now + 30 * second) \<or> IssuedAt c < 0 \<or> ExpiresAt c \<le> IssuedAt c
                      \<or> ExpiresAt c - IssuedAt c \<noteq> 600)) InvalidPlan
          (check (\<not> unix_seconds now \<ge> ExpiresAt c) PlanExpired (Inr c))))"

definition authenticatePlanTokenForPurposeLocked ::
    "crypto \<Rightarrow> secret_store \<Rightarrow> string \<Rightarrow> string \<Rightarrow> time \<Rightarrow> plan_error + plan_claims" where
  "authenticatePlanTokenForPurposeLocked cr s purpose token now =
     (if \<not> validPlanPurpose purpose then Inl InvalidPlan
      else if unavailable s then Inl KeyUnavailable
      else if length token > maxPlanTokenBytes then Inl InvalidPlan
      else (case cut_dot token of
        None \<Rightarrow> Inl InvalidPlan
      | Some (encoded, signature) \<Rightarrow>
          if length signature \<noteq> 43 then Inl InvalidPlan
          else (case planMACForPurpose cr s purpose encoded of
            None \<Rightarrow> Inl InvalidPlan
          | Some mac \<Rightarrow>
              if base64_decode signature \<noteq> Some mac then Inl InvalidPlan
              else (case base64_decode encoded of
                None \<Rightarrow> Inl InvalidPlan
              | Some payload \<Rightarrow>
                  (case unmarshal_claims payload of
                     None \<Rightarrow> Inl InvalidPlan
                   | Some c \<Rightarrow>
                       if marshal_claims c \<noteq> payload then Inl InvalidPlan else check_claims s purpose now c)))))"

text \<open>\<open>verifyPlanBinding\<close>: the error, and the claims when the code returns them beside it.\<close>

definition verifyPlanBinding :: "plan_claims \<Rightarrow> plan_binding \<Rightarrow> (plan_error \<times> plan_claims option) + plan_claims" where
  "verifyPlanBinding c b =
     (case (canonicalBinding b, canonicalBinding (Binding c)) of
        (Some want, Some got) \<Rightarrow>
          if Digest got \<noteq> Digest want then Inl (InvalidPlan, Some c)
          else if marshal_binding want \<noteq> marshal_binding got then Inl (PlanConflict, Some c)
          else Inr c
      | _ \<Rightarrow> Inl (InvalidPlan, None))"

definition verifyPlanTokenForPurposeLocked ::
    "crypto \<Rightarrow> secret_store \<Rightarrow> string \<Rightarrow> string \<Rightarrow> plan_binding \<Rightarrow> time
     \<Rightarrow> (plan_error \<times> plan_claims option) + plan_claims" where
  "verifyPlanTokenForPurposeLocked cr s purpose token b now =
     (case authenticatePlanTokenForPurposeLocked cr s purpose token now of
        Inl e \<Rightarrow> Inl (e, None)
      | Inr c \<Rightarrow> verifyPlanBinding c b)"

section \<open>Executing\<close>

definition nonce_key :: "crypto \<Rightarrow> plan_claims \<Rightarrow> bytes" where
  "nonce_key cr c = sha256 cr (case base64_decode (Nonce c) of None \<Rightarrow> [] | Some n \<Rightarrow> n)"

definition consumed :: "database \<Rightarrow> bytes \<Rightarrow> bool" where
  "consumed db h \<longleftrightarrow> (\<exists>p\<in>set (consumed_plan_tokens db). nonce_hash p = h)"

text \<open>After a version conflict: whether the plan has been used is reported first.\<close>

definition conflict_error ::
    "crypto \<Rightarrow> faults \<Rightarrow> plan_error \<Rightarrow> plan_claims \<Rightarrow> database \<Rightarrow> plan_error" where
  "conflict_error cr f err c db =
     (if fails f ''read consumed'' then PlanFailed ''read consumed''
      else if consumed db (nonce_key cr c) then PlanAlreadyUsed else err)"

definition snapshot_error ::
    "crypto \<Rightarrow> faults \<Rightarrow> secret_store \<Rightarrow> string \<Rightarrow> string \<Rightarrow> time \<Rightarrow> plan_error \<Rightarrow> database \<Rightarrow> plan_error" where
  "snapshot_error cr f s purpose token now err db =
     (if err \<noteq> PlanConflict then err
      else (case authenticatePlanTokenForPurposeLocked cr s purpose token now of
              Inl e \<Rightarrow> e
            | Inr c \<Rightarrow> conflict_error cr f err c db))"

definition consume_plan :: "crypto \<Rightarrow> faults \<Rightarrow> plan_claims \<Rightarrow> time \<Rightarrow> (plan_error, unit) step" where
  "consume_plan cr f c now =
     bind_step (guard (\<not> fails f ''consume'') (PlanFailed ''consume plan token'')) (\<lambda>_.
     bind_step (reads (\<lambda>db. consumed db (nonce_key cr c))) (\<lambda>used.
     bind_step (guard (\<not> used) PlanAlreadyUsed) (\<lambda>_.
     modify (\<lambda>db. db\<lparr>consumed_plan_tokens := consumed_plan_tokens db @
       [\<lparr>nonce_hash = nonce_key cr c, plan_expires = ExpiresAt c * second, plan_consumed = now\<rparr>]\<rparr>))))"

definition plan_body ::
    "crypto \<Rightarrow> faults \<Rightarrow> secret_store \<Rightarrow> string \<Rightarrow> string \<Rightarrow> time
     \<Rightarrow> (plan_error, plan_binding) step \<Rightarrow> (plan_error, unit) step \<Rightarrow> (plan_error, unit) step" where
  "plan_body cr f s purpose token now snapshot apply db =
     (case snapshot db of
        (Inl e, db') \<Rightarrow> (Inl (snapshot_error cr f s purpose token now e db'), db')
      | (Inr b, db') \<Rightarrow>
          (case verifyPlanTokenForPurposeLocked cr s purpose token b now of
             Inl (e, found) \<Rightarrow>
               (Inl (case found of
                       Some c \<Rightarrow> if e = PlanConflict \<and> Nonce c \<noteq> [] then conflict_error cr f e c db' else e
                     | None \<Rightarrow> e), db')
           | Inr c \<Rightarrow> bind_step (consume_plan cr f c now) (\<lambda>_. apply) db'))"

definition executePlanForPurpose ::
    "crypto \<Rightarrow> faults \<Rightarrow> string \<Rightarrow> string \<Rightarrow> time
     \<Rightarrow> (plan_error, plan_binding) step \<Rightarrow> (plan_error, unit) step
     \<Rightarrow> secret_store \<Rightarrow> database \<Rightarrow> (plan_error + unit) \<times> secret_store \<times> database" where
  "executePlanForPurpose cr f purpose token now snapshot apply s db =
     (if \<not> validPlanPurpose purpose then (Inl InvalidPlan, s, db)
      else if unavailable s then (Inl KeyUnavailable, s, db)
      else if fails f ''begin'' then (Inl (PlanFailed ''begin plan transaction''), s, db)
      else (case plan_body cr f s purpose token now snapshot apply db of
              (Inl e, _) \<Rightarrow> (Inl e, s, db)
            | (Inr _, db') \<Rightarrow>
                if commit_fails f
                then (Inl (PlanFailed ''commit plan transaction''), s\<lparr>unavailable := True\<rparr>,
                      if commit_durable f then db' else db)
                else (Inr (), s, db')))"

definition createPlanTokenForPurpose ::
    "crypto \<Rightarrow> faults \<Rightarrow> secret_store \<Rightarrow> string \<Rightarrow> bytes option \<Rightarrow> time
     \<Rightarrow> (plan_error, plan_binding) step \<Rightarrow> database \<Rightarrow> plan_error + string" where
  "createPlanTokenForPurpose cr f s purpose random now snapshot db =
     (if unavailable s then Inl KeyUnavailable
      else if fails f ''begin'' then Inl (PlanFailed ''begin'')
      else (case fst (snapshot db) of
              Inl e \<Rightarrow> Inl e
            | Inr b \<Rightarrow> issuePlanTokenForPurposeLocked cr s purpose b random now))"

definition CreateSettingsPlan ::
    "crypto \<Rightarrow> faults \<Rightarrow> secret_store \<Rightarrow> bytes option \<Rightarrow> time
     \<Rightarrow> (plan_error, plan_binding) step \<Rightarrow> database \<Rightarrow> plan_error + string \<times> time" where
  "CreateSettingsPlan cr f s random now snapshot db =
     and_then (createPlanTokenForPurpose cr f s settingsPlanPurpose random now snapshot db) (\<lambda>token.
     Inr (token, (unix_seconds now + 600) * second))"

section \<open>Documents read back\<close>

definition int64 :: "int \<Rightarrow> bool" where
  "int64 i \<longleftrightarrow> - max_int64 - 1 \<le> i \<and> i \<le> max_int64"

definition observed_ok :: "observed \<Rightarrow> bool" where
  "observed_ok x \<longleftrightarrow> utf8_valid (ob_Kind x) \<and> utf8_valid (ob_Name x) \<and> utf8_valid (ob_ID x) \<and> int64 (ob_Version x)"

definition binding_ok :: "plan_binding \<Rightarrow> bool" where
  "binding_ok b \<longleftrightarrow> int64 (Revision b) \<and> utf8_valid (Digest b)
     \<and> (\<forall>os. Observed b = Some os \<longrightarrow> (\<forall>x\<in>set os. observed_ok x))"

definition claims_ok :: "plan_claims \<Rightarrow> bool" where
  "claims_ok c \<longleftrightarrow> int64 (pc_Version c) \<and> int64 (KeyVersion c) \<and> int64 (IssuedAt c) \<and> int64 (ExpiresAt c)
     \<and> utf8_valid (Purpose c) \<and> utf8_valid (InstallationID c) \<and> utf8_valid (Nonce c) \<and> binding_ok (Binding c)"

lemma parse_int_text: "int64 i \<Longrightarrow> parse_int64 (int_text i) = Some i"
  by (simp add: int64_def parse_int64_int_text)

lemma names_utf8: "utf8_valid n" if "list_all (\<lambda>c. byte c < 128) n"
  using that by (rule utf8_valid_ascii)

lemma field_names_utf8:
  "utf8_valid ''kind''" "utf8_valid ''name''" "utf8_valid ''id''" "utf8_valid ''version''" "utf8_valid ''revision''"
  "utf8_valid ''digest''" "utf8_valid ''observed''" "utf8_valid ''purpose''" "utf8_valid ''installationId''"
  "utf8_valid ''keyVersion''" "utf8_valid ''binding''" "utf8_valid ''nonce''" "utf8_valid ''issuedAt''"
  "utf8_valid ''expiresAt''"
  by (simp_all add: utf8_valid_ascii byte_def)

lemma printable_observed: "observed_ok x \<Longrightarrow> printable (json_observed x)"
  by (auto simp: observed_ok_def json_observed_def field_names_utf8)

lemma printable_binding: "binding_ok b \<Longrightarrow> printable (json_binding b)"
  by (auto simp: binding_ok_def json_binding_def field_names_utf8 printable_observed split: option.splits)

lemma printable_claims: "claims_ok c \<Longrightarrow> printable (json_claims c)"
  by (auto simp: claims_ok_def json_claims_def field_names_utf8 printable_binding)

lemma dec_observed_json: "observed_ok x \<Longrightarrow> dec_observed old (json_observed x) = Some x"
  by (simp add: dec_observed_def json_observed_def dec_struct_def dec_string_def dec_int_def observed_ok_def parse_int_text)

lemma dec_elems_json:
  "\<forall>x\<in>set os. observed_ok x \<Longrightarrow> dec_elems zero_observed dec_observed olds (map json_observed os) = Some os"
  by (induction os arbitrary: olds) (simp_all add: dec_observed_json)

lemma dec_list_json:
  "\<forall>x\<in>set os. observed_ok x \<Longrightarrow> dec_list None (JArr (map json_observed os)) = Some (Some os)"
  by (cases os) (simp_all add: dec_list_def dec_slice_def Let_def dec_observed_json dec_elems_json)

lemma dec_binding_json: "binding_ok b \<Longrightarrow> dec_binding zero_binding (json_binding b) = Some b"
  by (cases "Observed b")
    (simp_all add: dec_binding_def json_binding_def dec_struct_def dec_string_def dec_int_def binding_ok_def parse_int_text
      zero_binding_def dec_list_json, simp_all add: dec_list_def)

lemma dec_claim_fields:
  "dec_claim ''version'' r v = map_option (\<lambda>x. r\<lparr>pc_Version := x\<rparr>) (dec_int (pc_Version r) v)"
  "dec_claim ''purpose'' r v = map_option (\<lambda>x. r\<lparr>Purpose := x\<rparr>) (dec_string (Purpose r) v)"
  "dec_claim ''installationId'' r v = map_option (\<lambda>x. r\<lparr>InstallationID := x\<rparr>) (dec_string (InstallationID r) v)"
  "dec_claim ''keyVersion'' r v = map_option (\<lambda>x. r\<lparr>KeyVersion := x\<rparr>) (dec_int (KeyVersion r) v)"
  "dec_claim ''binding'' r v = map_option (\<lambda>x. r\<lparr>Binding := x\<rparr>) (dec_binding (Binding r) v)"
  "dec_claim ''nonce'' r v = map_option (\<lambda>x. r\<lparr>Nonce := x\<rparr>) (dec_string (Nonce r) v)"
  "dec_claim ''issuedAt'' r v = map_option (\<lambda>x. r\<lparr>IssuedAt := x\<rparr>) (dec_int (IssuedAt r) v)"
  "dec_claim ''expiresAt'' r v = map_option (\<lambda>x. r\<lparr>ExpiresAt := x\<rparr>) (dec_int (ExpiresAt r) v)"
  by (simp_all add: dec_claim_def)

lemma dec_members_step:
  "k \<in> set names \<Longrightarrow> dec_members strict names f r ((k, v) # fs) =
     (case f k r v of None \<Rightarrow> None | Some r' \<Rightarrow> dec_members strict names f r' fs)"
  by simp

lemma dec_claims_json:
  assumes "claims_ok c" shows "dec_claims zero_claims (json_claims c) = Some c"
proof -
  have i: "dec_int old (JInt (pc_Version c)) = Some (pc_Version c)"
    "dec_int old (JInt (KeyVersion c)) = Some (KeyVersion c)"
    "dec_int old (JInt (IssuedAt c)) = Some (IssuedAt c)"
    "dec_int old (JInt (ExpiresAt c)) = Some (ExpiresAt c)"
    "dec_binding zero_binding (json_binding (Binding c)) = Some (Binding c)"
    "dec_string s (JStr t) = Some t" for old s t
    using assms by (simp_all add: claims_ok_def parse_int_text dec_binding_json dec_int_def dec_string_def)
  let ?names = "[''version'', ''purpose'', ''installationId'', ''keyVersion'', ''binding'', ''nonce'', ''issuedAt'', ''expiresAt'']"
  have n: "''version'' \<in> set ?names" "''purpose'' \<in> set ?names" "''installationId'' \<in> set ?names" "''keyVersion'' \<in> set ?names"
    "''binding'' \<in> set ?names" "''nonce'' \<in> set ?names" "''issuedAt'' \<in> set ?names" "''expiresAt'' \<in> set ?names"
    by simp_all
  show ?thesis
    unfolding json_claims_def dec_claims_def dec_struct_def json.case
    by (simp only: dec_members_step [OF n(1)] dec_members_step [OF n(2)] dec_members_step [OF n(3)] dec_members_step [OF n(4)]
        dec_members_step [OF n(5)] dec_members_step [OF n(6)] dec_members_step [OF n(7)] dec_members_step [OF n(8)]
        dec_claim_fields i zero_claims_def plan_claims.simps option.map option.case dec_members.simps(1)) simp
qed

lemma unmarshal_marshal: "claims_ok c \<Longrightarrow> unmarshal_claims (marshal_claims c) = Some c"
  by (simp add: unmarshal_claims_def marshal_claims_def parse_print printable_claims dec_claims_json)

lemma marshal_binding_inject:
  assumes "binding_ok a" "binding_ok b" "marshal_binding a = marshal_binding b"
  shows "a = b"
proof -
  have "json_binding a = json_binding b"
    using print_json_inject [OF printable_binding [OF assms(1)] printable_binding [OF assms(2)]] assms(3)
    unfolding marshal_binding_def by blast
  then show ?thesis using dec_binding_json [OF assms(1)] dec_binding_json [OF assms(2)] by (metis option.inject)
qed

section \<open>Canonical bindings\<close>

lemma insort_key_le: "\<forall>x\<in>set xs. f a \<le> f x \<Longrightarrow> insort_key f a xs = a # xs"
  by (cases xs) auto

lemma sort_key_sorted: "sorted (map f xs) \<Longrightarrow> sort_key f xs = xs"
  by (induction xs) (auto simp: insort_key_le)

lemma canonical_idem: "canonicalBinding b = Some b' \<Longrightarrow> canonicalBinding b' = Some b'"
proof -
  assume b: "canonicalBinding b = Some b'"
  let ?k = "\<lambda>x. (ob_Kind x, ob_Name x)"
  let ?os = "sort_key ?k (case Observed b of None \<Rightarrow> [] | Some xs \<Rightarrow> xs)"
  have b': "b' = b\<lparr>Observed := Some ?os\<rparr>" "check_observed None ?os"
    "\<exists>d. base64_decode (Digest b) = Some d \<and> length d = 32 \<and> \<not> Revision b < 1"
    using b by (auto simp: canonicalBinding_def Let_def split: option.splits if_splits)
  have "sort_key ?k ?os = ?os" by (rule sort_key_sorted) simp
  with b' show ?thesis by (auto simp: canonicalBinding_def Let_def)
qed

lemma check_observed_member:
  "check_observed prev os \<Longrightarrow> x \<in> set os \<Longrightarrow> ob_Kind x \<in> set validKinds \<and> secretNamePattern (ob_Name x)"
  by (induction os arbitrary: prev) auto

lemma kinds_utf8: "k \<in> set validKinds \<Longrightarrow> utf8_valid k"
  by (auto simp: validKinds_def intro!: utf8_valid_ascii) (simp_all add: byte_def)

lemma name_utf8: "secretNamePattern n \<Longrightarrow> utf8_valid n"
proof -
  assume n: "secretNamePattern n"
  have "byte d < 128" if "is_lower d \<or> is_digit d \<or> d = CHR ''-''" for d
    using that by (auto simp: is_lower_def is_digit_def in_range_def byte_def)
  with n show ?thesis
    by (intro utf8_valid_ascii) (auto simp: secretNamePattern_def list_all_iff split: list.splits)
qed

lemma b64_value_ascii: "b64_value c \<noteq> None \<Longrightarrow> byte c < 128"
  by (auto simp: b64_value_def is_upper_def is_lower_def is_digit_def in_range_def byte_def split: if_splits)

lemma digest_utf8: "base64_decode s = Some d \<Longrightarrow> utf8_valid s"
proof -
  assume "base64_decode s = Some d"
  then obtain ds where ds: "map b64_value (skip_breaks s) = map Some ds"
    by (auto simp: base64_decode_def all_some_map split: option.splits)
  have "b64_value c \<noteq> None" if "c \<in> set (skip_breaks s)" for c
  proof -
    have "b64_value c \<in> set (map b64_value (skip_breaks s))" using that by simp
    then show ?thesis unfolding ds by auto
  qed
  then have "byte c < 128" if "c \<in> set s" for c
    using that b64_value_ascii [of c] by (cases "c \<in> set (skip_breaks s)") (auto simp: skip_breaks_def)
  then show ?thesis by (intro utf8_valid_ascii) (simp add: list_all_iff)
qed

text \<open>What the snapshot must provide beyond the checks: identifiers in UTF-8 and 64-bit numbers.\<close>

definition plain_binding :: "plan_binding \<Rightarrow> bool" where
  "plain_binding b \<longleftrightarrow> int64 (Revision b)
     \<and> (\<forall>os. Observed b = Some os \<longrightarrow> (\<forall>x\<in>set os. utf8_valid (ob_ID x) \<and> int64 (ob_Version x)))"

lemma canonical_ok:
  assumes "canonicalBinding b = Some b'" "plain_binding b"
  shows "binding_ok b'"
proof -
  let ?os = "sort_key (\<lambda>x. (ob_Kind x, ob_Name x)) (case Observed b of None \<Rightarrow> [] | Some xs \<Rightarrow> xs)"
  have b': "b' = b\<lparr>Observed := Some ?os\<rparr>" "check_observed None ?os" "\<exists>d. base64_decode (Digest b) = Some d"
    using assms(1) by (auto simp: canonicalBinding_def Let_def split: option.splits if_splits)
  have "observed_ok x" if x: "x \<in> set ?os" for x
  proof -
    obtain os where "Observed b = Some os" "x \<in> set os" using x by (cases "Observed b") simp_all
    with assms(2) have "utf8_valid (ob_ID x) \<and> int64 (ob_Version x)" by (simp add: plain_binding_def)
    with check_observed_member [OF b'(2) x] kinds_utf8 name_utf8 show ?thesis by (simp add: observed_ok_def)
  qed
  then show ?thesis
    using b'(1,3) assms(2) digest_utf8 by (auto simp: binding_ok_def plain_binding_def)
qed

section \<open>An issued plan executes\<close>

lemma base64_no_dot: "CHR ''.'' \<notin> set (base64_encode b)"
proof
  assume "CHR ''.'' \<in> set (base64_encode b)"
  then obtain d where "d < 64" "b64_char d = CHR ''.''"
    using encode_bound [of b] by (auto simp: base64_encode_def)
  then have "b64_value (CHR ''.'') = Some d" by (metis b64_value_char)
  then show False by (simp add: b64_value_def is_upper_def is_lower_def is_digit_def in_range_def byte_def)
qed

lemma cut_dot_token: "CHR ''.'' \<notin> set e \<Longrightarrow> cut_dot (e @ ''.'' @ g) = Some (e, g)"
proof -
  assume "CHR ''.'' \<notin> set e"
  then have "takeWhile (\<lambda>c. c \<noteq> CHR ''.'') (e @ CHR ''.'' # g) = e"
    "dropWhile (\<lambda>c. c \<noteq> CHR ''.'') (e @ CHR ''.'' # g) = CHR ''.'' # g"
    by (induction e) auto
  then show ?thesis by (simp add: cut_dot_def)
qed

lemma base64_text_utf8: "utf8_valid (base64_encode b)"
  by (rule digest_utf8 [OF base64_decode_encode])

lemma purposes_utf8: "validPlanPurpose p \<Longrightarrow> utf8_valid p"
  by (auto simp: validPlanPurpose_def planPurpose_def settingsPlanPurpose_def intro!: utf8_valid_ascii)
     (simp_all add: byte_def)

definition store_ok :: "secret_store \<Rightarrow> bool" where
  "store_ok s \<longleftrightarrow> utf8_valid (installationID s) \<and> int64 (activeKeyVersion s) \<and> \<not> unavailable s"

definition hmac_ok :: "crypto \<Rightarrow> bool" where
  "hmac_ok cr \<longleftrightarrow> (\<forall>k m. length (hmac cr k m) = 32)"

lemma unix_plus: "unix_seconds (t + 10 * minute) = unix_seconds t + 600"
proof -
  have "t + 10 * minute = t + 600 * second" by simp
  then show ?thesis unfolding unix_seconds_def by simp
qed

lemma issued_authenticates:
  assumes "store_ok s" "hmac_ok cr" "plain_binding b" "length nonce = 32"
    and "issuePlanTokenForPurposeLocked cr s purpose b (Some nonce) t = Inr token"
    and "0 \<le> t" "t < 9000000000000000000" "unix_seconds t \<le> unix_seconds (now + 30 * second)"
    and "unix_seconds now < unix_seconds t + 600"
  obtains c b' where "authenticatePlanTokenForPurposeLocked cr s purpose token now = Inr c"
    "canonicalBinding b = Some b'" "Binding c = b'" "Nonce c = base64_encode nonce" "ExpiresAt c = unix_seconds t + 600"
proof -
  obtain b' mac where b': "canonicalBinding b = Some b'" and p: "validPlanPurpose purpose"
    and mac: "planMACForPurpose cr s purpose (base64_encode (marshal_claims
       \<lparr>pc_Version = 1, Purpose = purpose, InstallationID = installationID s, KeyVersion = activeKeyVersion s, Binding = b',
        Nonce = base64_encode nonce, IssuedAt = unix_seconds t, ExpiresAt = unix_seconds t + 600\<rparr>)) = Some mac"
    and len: "length (base64_encode (marshal_claims
       \<lparr>pc_Version = 1, Purpose = purpose, InstallationID = installationID s, KeyVersion = activeKeyVersion s, Binding = b',
        Nonce = base64_encode nonce, IssuedAt = unix_seconds t, ExpiresAt = unix_seconds t + 600\<rparr>)) + 44 \<le> maxPlanTokenBytes"
    and token: "token = base64_encode (marshal_claims
       \<lparr>pc_Version = 1, Purpose = purpose, InstallationID = installationID s, KeyVersion = activeKeyVersion s, Binding = b',
        Nonce = base64_encode nonce, IssuedAt = unix_seconds t, ExpiresAt = unix_seconds t + 600\<rparr>) @ ''.'' @ base64_encode mac"
    using assms(5) unfolding issuePlanTokenForPurposeLocked_def unix_plus
    by (auto simp: Let_def not_less split: option.splits if_splits)
  define c where "c = \<lparr>pc_Version = 1, Purpose = purpose, InstallationID = installationID s, KeyVersion = activeKeyVersion s,
      Binding = b', Nonce = base64_encode nonce, IssuedAt = unix_seconds t, ExpiresAt = unix_seconds t + 600\<rparr>"
  note mac = mac [folded c_def] and len = len [folded c_def] and token = token [folded c_def]
  have t: "0 \<le> unix_seconds t" "unix_seconds t \<le> 9000000000"
    using assms(6,7) by (simp_all add: unix_seconds_def pos_imp_zdiv_nonneg_iff)
  have "claims_ok c"
    using assms(1,3) t purposes_utf8 [OF p] base64_text_utf8 canonical_ok [OF b']
    by (simp add: claims_ok_def c_def store_ok_def int64_def max_int64_def)
  then have um: "unmarshal_claims (marshal_claims c) = Some c" by (rule unmarshal_marshal)
  have "length mac = 32"
    using mac p assms(2) by (auto simp: planMACForPurpose_def hmac_ok_def)
  then have sig: "length (base64_encode mac) = 43" by (simp add: length_base64_encode)
  have cut: "cut_dot token = Some (base64_encode (marshal_claims c), base64_encode mac)"
    unfolding token by (rule cut_dot_token) (rule base64_no_dot)
  have ck: "check_claims s purpose now c = Inr c"
    using assms(4,8,9) t by (simp add: check_claims_def c_def)
  have "authenticatePlanTokenForPurposeLocked cr s purpose token now = Inr c"
    using p assms(1) len sig cut mac um ck
    by (simp add: authenticatePlanTokenForPurposeLocked_def store_ok_def token)
  then show thesis using that b' by (simp add: c_def)
qed

text \<open>
  C36: a plan that was issued executes: a token issued for a binding, presented to the same store for
  the same purpose within ten minutes (and not more than 30 seconds before its issue), with the same
  observations in any order, is accepted; the nonce is recorded and the change applied in the same
  transaction, if the nonce was not used before.
\<close>

theorem issued_plan_executes:
  assumes "store_ok s" and "hmac_ok cr" and "plain_binding b" and "length nonce = 32"
    and "issuePlanTokenForPurposeLocked cr s purpose b (Some nonce) t = Inr token"
    and "0 \<le> t" and "t < 9000000000000000000" and "unix_seconds t \<le> unix_seconds (now + 30 * second)"
    and "unix_seconds now < unix_seconds t + 600"
    and "snapshot db = (Inr b2, db)" and "canonicalBinding b2 = canonicalBinding b"
    and "\<not> consumed db (sha256 cr nonce)"
    and "apply (db\<lparr>consumed_plan_tokens := consumed_plan_tokens db @
       [\<lparr>nonce_hash = sha256 cr nonce, plan_expires = (unix_seconds t + 600) * second, plan_consumed = now\<rparr>]\<rparr>) = (Inr (), db')"
  shows "executePlanForPurpose cr no_faults purpose token now snapshot apply s db = (Inr (), s, db')"
proof -
  obtain c b' where c: "authenticatePlanTokenForPurposeLocked cr s purpose token now = Inr c"
    "canonicalBinding b = Some b'" "Binding c = b'" "Nonce c = base64_encode nonce" "ExpiresAt c = unix_seconds t + 600"
    using issued_authenticates [OF assms(1-9)] by blast
  have "canonicalBinding (Binding c) = Some b'" using canonical_idem [OF c(2)] c(3) by simp
  then have v: "verifyPlanTokenForPurposeLocked cr s purpose token b2 now = Inr c"
    using c assms(11) by (simp add: verifyPlanTokenForPurposeLocked_def verifyPlanBinding_def)
  have n: "nonce_key cr c = sha256 cr nonce" by (simp add: nonce_key_def c(4))
  have p: "validPlanPurpose purpose"
    using c(1) by (auto simp: authenticatePlanTokenForPurposeLocked_def split: if_splits)
  have "plan_body cr no_faults s purpose token now snapshot apply db = (Inr (), db')"
    using assms(10,12,13) v n c(5)
    by (simp add: plan_body_def consume_plan_def bind_step_def no_faults_def)
  with p assms(1) show ?thesis by (simp add: executePlanForPurpose_def store_ok_def no_faults_def)
qed

section \<open>Only authentic, current plans execute, once\<close>

lemma execute_Inr:
  "executePlanForPurpose cr f purpose token now snapshot apply s db = (Inr u, s', db') \<longleftrightarrow>
     validPlanPurpose purpose \<and> \<not> unavailable s \<and> \<not> fails f ''begin'' \<and> \<not> commit_fails f \<and> s' = s
     \<and> plan_body cr f s purpose token now snapshot apply db = (Inr (), db')"
  by (auto simp: executePlanForPurpose_def split: prod.splits sum.splits)

lemma body_Inr:
  "plan_body cr f s purpose token now snapshot apply db = (Inr u, db') \<longleftrightarrow>
     (\<exists>b db1 c. snapshot db = (Inr b, db1) \<and> verifyPlanTokenForPurposeLocked cr s purpose token b now = Inr c
        \<and> \<not> fails f ''consume'' \<and> \<not> consumed db1 (nonce_key cr c)
        \<and> apply (db1\<lparr>consumed_plan_tokens := consumed_plan_tokens db1 @
             [\<lparr>nonce_hash = nonce_key cr c, plan_expires = ExpiresAt c * second, plan_consumed = now\<rparr>]\<rparr>) = (Inr u, db'))"
proof (cases "snapshot db")
  case (Pair r db1)
  show ?thesis
  proof (cases r)
    case (Inl e)
    with Pair show ?thesis by (simp add: plan_body_def)
  next
    case (Inr b)
    show ?thesis
    proof (cases "verifyPlanTokenForPurposeLocked cr s purpose token b now")
      case (Inl q)
      with Pair Inr show ?thesis by (cases q) (simp add: plan_body_def)
    next
      case (Inr c)
      with Pair \<open>r = Inr b\<close> show ?thesis
        by (cases "consumed db1 (nonce_key cr c)"; cases "fails f ''consume''")
          (simp_all add: plan_body_def consume_plan_def bind_step_def)
    qed
  qed
qed

lemma check_claims_Inr:
  "check_claims s purpose now c = Inr c' \<longleftrightarrow> c' = c \<and> pc_Version c = 1 \<and> Purpose c = purpose
     \<and> InstallationID c = installationID s \<and> KeyVersion c = activeKeyVersion s
     \<and> (\<exists>nonce. base64_decode (Nonce c) = Some nonce \<and> length nonce = 32)
     \<and> IssuedAt c \<le> unix_seconds (now + 30 * second) \<and> 0 \<le> IssuedAt c \<and> ExpiresAt c = IssuedAt c + 600
     \<and> unix_seconds now < ExpiresAt c"
  unfolding check_claims_def by (cases "base64_decode (Nonce c)") auto

lemma authenticate_Inr:
  assumes "authenticatePlanTokenForPurposeLocked cr s purpose token now = Inr c"
  shows "validPlanPurpose purpose \<and> \<not> unavailable s \<and> check_claims s purpose now c = Inr c
     \<and> (\<exists>encoded signature mac. cut_dot token = Some (encoded, signature)
          \<and> planMACForPurpose cr s purpose encoded = Some mac \<and> base64_decode signature = Some mac
          \<and> base64_decode encoded = Some (marshal_claims c) \<and> unmarshal_claims (marshal_claims c) = Some c)"
proof -
  from assms obtain encoded signature mac payload c' where
    "validPlanPurpose purpose" "\<not> unavailable s" "cut_dot token = Some (encoded, signature)"
    "planMACForPurpose cr s purpose encoded = Some mac" "base64_decode signature = Some mac"
    "base64_decode encoded = Some payload" "unmarshal_claims payload = Some c'" "marshal_claims c' = payload"
    "check_claims s purpose now c' = Inr c"
    unfolding authenticatePlanTokenForPurposeLocked_def sum_elims by blast
  moreover from this(9) have "c' = c" by (simp add: check_claims_Inr)
  ultimately show ?thesis by blast
qed

lemma verify_Inr:
  assumes "verifyPlanTokenForPurposeLocked cr s purpose token b now = Inr c"
  shows "authenticatePlanTokenForPurposeLocked cr s purpose token now = Inr c
     \<and> (\<exists>want got. canonicalBinding b = Some want \<and> canonicalBinding (Binding c) = Some got
          \<and> marshal_binding want = marshal_binding got)"
proof (cases "authenticatePlanTokenForPurposeLocked cr s purpose token now")
  case (Inl e)
  with assms show ?thesis by (simp add: verifyPlanTokenForPurposeLocked_def)
next
  case (Inr a)
  with assms have v: "verifyPlanBinding a b = Inr c" by (simp add: verifyPlanTokenForPurposeLocked_def)
  then obtain want got where "canonicalBinding b = Some want" "canonicalBinding (Binding a) = Some got"
    by (cases "canonicalBinding b"; cases "canonicalBinding (Binding a)") (auto simp: verifyPlanBinding_def)
  with v Inr show ?thesis by (simp add: verifyPlanBinding_def if_Inl_Inr)
qed

text \<open>
  C12: only authentic and current plans execute: if \<open>ExecutePlan\<close> succeeds, the token is two texts joined
  by a dot, the second of which encodes the MAC of the first under the key derived for exactly this
  purpose and installation, the first encodes claims for this purpose, installation and key version,
  the plan was issued at most 30 seconds in the future and expires, 600 seconds after its issue, later
  than now, the state read in the transaction is the one the plan was made for, and the change runs in
  that transaction on a nonce not used before.
\<close>

theorem executed_plan_authentic:
  assumes "executePlanForPurpose cr f purpose token now snapshot apply s db = (Inr u, s', db')"
  shows "\<exists>encoded signature key c b db1 want got.
     cut_dot token = Some (encoded, signature) \<and> hkdf cr (activeKey s) (installationID s) purpose = Some key
     \<and> base64_decode signature = Some (hmac cr key encoded) \<and> base64_decode encoded = Some (marshal_claims c)
     \<and> Purpose c = purpose \<and> InstallationID c = installationID s \<and> KeyVersion c = activeKeyVersion s
     \<and> IssuedAt c \<le> unix_seconds (now + 30 * second) \<and> ExpiresAt c = IssuedAt c + 600 \<and> unix_seconds now < ExpiresAt c
     \<and> snapshot db = (Inr b, db1) \<and> canonicalBinding b = Some want \<and> canonicalBinding (Binding c) = Some got
     \<and> marshal_binding want = marshal_binding got
     \<and> \<not> consumed db1 (nonce_key cr c)
     \<and> apply (db1\<lparr>consumed_plan_tokens := consumed_plan_tokens db1 @
          [\<lparr>nonce_hash = nonce_key cr c, plan_expires = ExpiresAt c * second, plan_consumed = now\<rparr>]\<rparr>) = (Inr (), db')"
proof -
  from assms obtain b db1 c where e: "snapshot db = (Inr b, db1)"
    "verifyPlanTokenForPurposeLocked cr s purpose token b now = Inr c" "\<not> consumed db1 (nonce_key cr c)"
    "apply (db1\<lparr>consumed_plan_tokens := consumed_plan_tokens db1 @
          [\<lparr>nonce_hash = nonce_key cr c, plan_expires = ExpiresAt c * second, plan_consumed = now\<rparr>]\<rparr>) = (Inr (), db')"
    by (auto simp: execute_Inr body_Inr)
  note v = verify_Inr [OF e(2)]
  then have a: "authenticatePlanTokenForPurposeLocked cr s purpose token now = Inr c" ..
  note au = authenticate_Inr [OF a]
  then obtain encoded signature mac where k0: "cut_dot token = Some (encoded, signature)"
    "planMACForPurpose cr s purpose encoded = Some mac" "base64_decode signature = Some mac"
    "base64_decode encoded = Some (marshal_claims c)" by blast
  then obtain key where k: "hkdf cr (activeKey s) (installationID s) purpose = Some key"
    "base64_decode signature = Some (hmac cr key encoded)"
    by (auto simp: planMACForPurpose_def split: if_splits)
  from au have "Purpose c = purpose" "InstallationID c = installationID s" "KeyVersion c = activeKeyVersion s"
    "IssuedAt c \<le> unix_seconds (now + 30 * second)" "ExpiresAt c = IssuedAt c + 600" "unix_seconds now < ExpiresAt c"
    by (simp_all add: check_claims_Inr)
  with e k0 k v show ?thesis by blast
qed

section \<open>A plan runs once\<close>

text \<open>A callback of the caller does not take a used nonce away.\<close>

definition keeps_consumed :: "(plan_error, 'a) step \<Rightarrow> bool" where
  "keeps_consumed m \<longleftrightarrow> (\<forall>db h. consumed db h \<longrightarrow> consumed (snd (m db)) h)"

text \<open>
  What happens to the store and the database between two executions: other executions, with any
  tokens, purposes, clocks and faults, and operations that do not touch the table of used nonces.
\<close>

inductive plan_step :: "crypto \<Rightarrow> secret_store \<times> database \<Rightarrow> secret_store \<times> database \<Rightarrow> bool" for cr where
  plan_execute: "keeps_consumed snapshot \<Longrightarrow> keeps_consumed apply \<Longrightarrow>
     plan_step cr (s, db) (snd (executePlanForPurpose cr f purpose token now snapshot apply s db))"
| plan_other: "consumed_plan_tokens db' = consumed_plan_tokens db \<Longrightarrow> plan_step cr (s, db) (s', db')"

inductive_cases plan_step_cases: "plan_step cr w w'"

lemma consumed_mono:
  "consumed db h \<Longrightarrow> consumed (db\<lparr>consumed_plan_tokens := consumed_plan_tokens db @ xs\<rparr>) h"
  by (auto simp: consumed_def)

lemma execute_cases:
  "executePlanForPurpose cr f purpose token now snapshot apply s db = (r, s', db') \<Longrightarrow>
   (\<exists>e. r = Inl e \<and> s' = s \<and> db' = db) \<or>
   (\<exists>db1. plan_body cr f s purpose token now snapshot apply db = (Inr (), db1) \<and> validPlanPurpose purpose \<and> \<not> unavailable s \<and>
      (r = Inr () \<and> s' = s \<and> db' = db1 \<or>
       r = Inl (PlanFailed ''commit plan transaction'') \<and> s' = s\<lparr>unavailable := True\<rparr> \<and> (db' = db \<or> db' = db1)))"
  by (cases "plan_body cr f s purpose token now snapshot apply db"; cases "fst (plan_body cr f s purpose token now snapshot apply db)")
     (auto simp: executePlanForPurpose_def split: if_splits)

lemma body_keeps:
  assumes "plan_body cr f s purpose token now snapshot apply db = (Inr (), db1)"
    and "keeps_consumed snapshot" "keeps_consumed apply" "consumed db h"
  shows "consumed db1 h"
proof -
  from assms(1) obtain b db0 c where "snapshot db = (Inr b, db0)"
    "apply (db0\<lparr>consumed_plan_tokens := consumed_plan_tokens db0 @
       [\<lparr>nonce_hash = nonce_key cr c, plan_expires = ExpiresAt c * second, plan_consumed = now\<rparr>]\<rparr>) = (Inr (), db1)"
    unfolding body_Inr by blast
  with assms(2-4) consumed_mono [of db0 h] show ?thesis unfolding keeps_consumed_def by (metis snd_conv)
qed

lemma plan_step_keeps: "plan_step cr w w' \<Longrightarrow> consumed (snd w) h \<Longrightarrow> consumed (snd w') h"
proof (erule plan_step_cases, goal_cases)
  case (1 snapshot app s db f purpose token now)
  obtain r s' db' where x: "executePlanForPurpose cr f purpose token now snapshot app s db = (r, s', db')"
    by (metis prod.exhaust)
  from execute_cases [OF x] body_keeps [OF _ 1(4,5), of cr f s purpose token now db _ h] 1 x show ?case by auto
next
  case (2 db' db s s')
  then show ?case by (simp add: consumed_def)
qed

lemma plan_steps_keep: "(plan_step cr)\<^sup>*\<^sup>* w w' \<Longrightarrow> consumed (snd w) h \<Longrightarrow> consumed (snd w') h"
  by (induction rule: rtranclp_induct) (auto intro: plan_step_keeps)

lemma token_claims_unique:
  assumes "authenticatePlanTokenForPurposeLocked cr s purpose token now = Inr c"
    and "authenticatePlanTokenForPurposeLocked cr' s' purpose' token now' = Inr c'"
  shows "c' = c"
  using authenticate_Inr [OF assms(1)] authenticate_Inr [OF assms(2)] by auto

lemma body_authenticates:
  "plan_body cr f s purpose token now snapshot apply db = (Inr u, db') \<Longrightarrow>
   \<exists>b db1 c. snapshot db = (Inr b, db1) \<and> authenticatePlanTokenForPurposeLocked cr s purpose token now = Inr c
     \<and> \<not> consumed db1 (nonce_key cr c)
     \<and> apply (db1\<lparr>consumed_plan_tokens := consumed_plan_tokens db1 @
          [\<lparr>nonce_hash = nonce_key cr c, plan_expires = ExpiresAt c * second, plan_consumed = now\<rparr>]\<rparr>) = (Inr u, db')"
  unfolding body_Inr using verify_Inr by blast

text \<open>
  C23: a plan is applied at most once: after a token was executed, executing it again fails and changes
  nothing, whatever happened to the store and the database in between (other plans, key rotations,
  restarts), with any purpose, clock, snapshot and change.
\<close>

theorem plan_runs_once:
  assumes "executePlanForPurpose cr f1 purpose1 token now1 snapshot1 apply1 s1 db1 = (Inr u, s1', db1')"
    and "keeps_consumed apply1" and "(plan_step cr)\<^sup>*\<^sup>* (s1', db1') (s2, db2)" and "keeps_consumed snapshot2"
  shows "\<exists>e. executePlanForPurpose cr f2 purpose2 token now2 snapshot2 apply2 s2 db2 = (Inl e, s2, db2)"
proof -
  from assms(1) have "plan_body cr f1 s1 purpose1 token now1 snapshot1 apply1 db1 = (Inr (), db1')"
    by (simp add: execute_Inr)
  from body_authenticates [OF this] obtain db0 c where
    c: "authenticatePlanTokenForPurposeLocked cr s1 purpose1 token now1 = Inr c"
    "apply1 (db0\<lparr>consumed_plan_tokens := consumed_plan_tokens db0 @
       [\<lparr>nonce_hash = nonce_key cr c, plan_expires = ExpiresAt c * second, plan_consumed = now1\<rparr>]\<rparr>) = (Inr (), db1')"
    by blast
  have "consumed (db0\<lparr>consumed_plan_tokens := consumed_plan_tokens db0 @
       [\<lparr>nonce_hash = nonce_key cr c, plan_expires = ExpiresAt c * second, plan_consumed = now1\<rparr>]\<rparr>) (nonce_key cr c)"
    by (simp add: consumed_def)
  then have "consumed db1' (nonce_key cr c)" using assms(2) c(2) unfolding keeps_consumed_def by (metis snd_conv)
  then have used: "consumed db2 (nonce_key cr c)" using plan_steps_keep [OF assms(3)] by simp
  have "plan_body cr f2 s2 purpose2 token now2 snapshot2 apply2 db2 \<noteq> (Inr (), db')" for db'
  proof
    assume "plan_body cr f2 s2 purpose2 token now2 snapshot2 apply2 db2 = (Inr (), db')"
    from body_authenticates [OF this] obtain b db3 c2 where "snapshot2 db2 = (Inr b, db3)"
      "authenticatePlanTokenForPurposeLocked cr s2 purpose2 token now2 = Inr c2" "\<not> consumed db3 (nonce_key cr c2)" by blast
    with token_claims_unique [OF c(1)] used assms(4) show False unfolding keeps_consumed_def by (metis snd_conv)
  qed
  moreover obtain r s3 db3 where "executePlanForPurpose cr f2 purpose2 token now2 snapshot2 apply2 s2 db2 = (r, s3, db3)"
    by (metis prod.exhaust)
  ultimately show ?thesis using execute_cases by blast
qed

text \<open>
  Executing a plan is atomic: it either fails and changes neither store nor database, or succeeds
  with the whole transaction, or fails in the commit; then the database has all or nothing of the
  change, and the store refuses every further plan until it is opened again.
\<close>

theorem plan_atomic:
  assumes "executePlanForPurpose cr f purpose token now snapshot apply s db = (r, s', db')"
  shows "(\<exists>e. r = Inl e \<and> s' = s \<and> db' = db) \<or>
    (\<exists>db1. plan_body cr f s purpose token now snapshot apply db = (Inr (), db1) \<and>
      (r = Inr () \<and> s' = s \<and> db' = db1 \<or>
       r = Inl (PlanFailed ''commit plan transaction'') \<and> (db' = db \<or> db' = db1)
         \<and> (\<forall>f2 token2 now2 snap2 app2. executePlanForPurpose cr f2 purpose token2 now2 snap2 app2 s' db'
               = (Inl KeyUnavailable, s', db'))))"
  using execute_cases [OF assms] by (elim disjE exE conjE) (simp_all add: executePlanForPurpose_def)

section \<open>An example\<close>

definition sample_crypto :: crypto where
  "sample_crypto = \<lparr>hkdf = (\<lambda>key salt info. Some info), hmac = (\<lambda>key msg. replicate 32 (if key = [] then CHR ''e'' else hd key)), sha256 = (\<lambda>b. b)\<rparr>"

definition sample_store :: secret_store where
  "sample_store = \<lparr>installationID = ''i1'', activeKeyVersion = 1, activeKey = replicate 32 CHR ''k'', unavailable = False\<rparr>"

definition sample_binding :: plan_binding where
  "sample_binding = \<lparr>Revision = 3, Digest = base64_encode (replicate 32 CHR ''d''),
     Observed = Some [\<lparr>ob_Kind = ''Route'', ob_Name = ''r'', ob_ID = ''7'', ob_Version = 2\<rparr>,
       \<lparr>ob_Kind = ''Egress'', ob_Name = ''direct'', ob_ID = [], ob_Version = 0\<rparr>]\<rparr>"

definition sample_nonce :: bytes where
  "sample_nonce = replicate 32 CHR ''n''"

definition sample_plan :: "plan_error + string" where
  "sample_plan = issuePlanTokenForPurposeLocked sample_crypto sample_store planPurpose sample_binding (Some sample_nonce) 0"

definition sample_canon :: plan_binding where
  "sample_canon = \<lparr>Revision = 3, Digest = base64_encode (replicate 32 CHR ''d''),
     Observed = Some [\<lparr>ob_Kind = ''Egress'', ob_Name = ''direct'', ob_ID = [], ob_Version = 0\<rparr>,
       \<lparr>ob_Kind = ''Route'', ob_Name = ''r'', ob_ID = ''7'', ob_Version = 2\<rparr>]\<rparr>"

definition sample_claims :: plan_claims where
  "sample_claims = \<lparr>pc_Version = 1, Purpose = planPurpose, InstallationID = ''i1'', KeyVersion = 1, Binding = sample_canon,
     Nonce = base64_encode sample_nonce, IssuedAt = 0, ExpiresAt = 600\<rparr>"

lemma sample_canonical: "canonicalBinding sample_binding = Some sample_canon"
  by code_simp

lemma sample_length: "length (marshal_claims sample_claims) \<le> 700"
proof -
  have "drop 700 (marshal_claims sample_claims) = []" by code_simp
  then show ?thesis by simp
qed

lemma sample_plan_ok: "is_ok sample_plan"
proof -
  have "length (base64_encode (marshal_claims sample_claims)) + 44 \<le> maxPlanTokenBytes"
    using sample_length by (simp add: length_base64_encode maxPlanTokenBytes_def)
  moreover have "validPlanPurpose planPurpose" by (simp add: validPlanPurpose_def)
  moreover have "\<lparr>pc_Version = 1, Purpose = planPurpose, InstallationID = installationID sample_store,
      KeyVersion = activeKeyVersion sample_store, Binding = sample_canon, Nonce = base64_encode sample_nonce,
      IssuedAt = unix_seconds 0, ExpiresAt = unix_seconds (0 + 10 * minute)\<rparr> = sample_claims"
    by (simp add: sample_claims_def sample_store_def unix_seconds_def)
  ultimately show ?thesis
    unfolding sample_plan_def issuePlanTokenForPurposeLocked_def sample_canonical option.case Let_def
    by (simp add: planMACForPurpose_def sample_crypto_def del: add_0)
qed

definition sample_apply :: "(plan_error, unit) step" where
  "sample_apply = modify (\<lambda>db. db\<lparr>login_stats := []\<rparr>)"

lemma sample_store_ok: "store_ok sample_store" "hmac_ok sample_crypto" "plain_binding sample_binding" "length sample_nonce = 32"
proof -
  have "utf8_valid ''i1''" "utf8_valid ''7''" "utf8_valid []" by (simp_all add: utf8_valid_ascii byte_def)
  then show "store_ok sample_store" "hmac_ok sample_crypto" "plain_binding sample_binding" "length sample_nonce = 32"
    by (simp_all add: store_ok_def sample_store_def int64_def max_int64_def hmac_ok_def sample_crypto_def plain_binding_def
        sample_binding_def sample_nonce_def)
qed

lemma issued_plan_executes_witness:
  "\<exists>token db'. sample_plan = Inr token \<and>
     executePlanForPurpose sample_crypto no_faults planPurpose token (60 * second) (returns sample_binding) sample_apply
       sample_store empty_database = (Inr (), sample_store, db')"
proof -
  obtain token where token: "sample_plan = Inr token" using sample_plan_ok by (auto simp: is_ok_iff)
  have "executePlanForPurpose sample_crypto no_faults planPurpose token (60 * second) (returns sample_binding) sample_apply
       sample_store empty_database = (Inr (), sample_store, snd (sample_apply (empty_database\<lparr>consumed_plan_tokens :=
         consumed_plan_tokens empty_database @ [\<lparr>nonce_hash = sha256 sample_crypto sample_nonce,
           plan_expires = (unix_seconds 0 + 600) * second, plan_consumed = 60 * second\<rparr>]\<rparr>)))"
    by (rule issued_plan_executes [OF sample_store_ok token [unfolded sample_plan_def]])
      (simp_all add: unix_seconds_def consumed_def empty_database_def sample_apply_def)
  with token show ?thesis by blast
qed


lemma sample_executed:
  "\<exists>token db'. sample_plan = Inr token \<and>
     executePlanForPurpose sample_crypto no_faults planPurpose token (60 * second) (returns sample_binding) sample_apply
       sample_store empty_database = (Inr (), sample_store, db')"
proof -
  obtain token where token: "sample_plan = Inr token" using sample_plan_ok by (auto simp: is_ok_iff)
  obtain c b' where c: "authenticatePlanTokenForPurposeLocked sample_crypto sample_store planPurpose token (60 * second) = Inr c"
    "canonicalBinding sample_binding = Some b'" "Binding c = b'"
    by (rule issued_authenticates [OF sample_store_ok token [unfolded sample_plan_def], of "60 * second"])
      (simp_all add: unix_seconds_def)
  have v: "verifyPlanTokenForPurposeLocked sample_crypto sample_store planPurpose token sample_binding (60 * second) = Inr c"
    using c canonical_idem [OF c(2)] by (simp add: verifyPlanTokenForPurposeLocked_def verifyPlanBinding_def)
  have a: "\<exists>db'. sample_apply db = (Inr (), db')" for db by (simp add: sample_apply_def)
  have "\<exists>db'. plan_body sample_crypto no_faults sample_store planPurpose token (60 * second) (returns sample_binding) sample_apply
      empty_database = (Inr (), db')"
    unfolding body_Inr using v a by (auto simp: no_faults_def consumed_def empty_database_def)
  then have "\<exists>db'. executePlanForPurpose sample_crypto no_faults planPurpose token (60 * second) (returns sample_binding)
      sample_apply sample_store empty_database = (Inr (), sample_store, db')"
    by (simp add: execute_Inr validPlanPurpose_def sample_store_def no_faults_def)
  with token show ?thesis by blast
qed

lemma executed_plan_authentic_witness:
  "\<exists>token encoded signature key. sample_plan = Inr token \<and> cut_dot token = Some (encoded, signature)
     \<and> hkdf sample_crypto (activeKey sample_store) (installationID sample_store) planPurpose = Some key
     \<and> base64_decode signature = Some (hmac sample_crypto key encoded)"
proof -
  obtain token db' where token: "sample_plan = Inr token"
    "executePlanForPurpose sample_crypto no_faults planPurpose token (60 * second) (returns sample_binding) sample_apply
       sample_store empty_database = (Inr (), sample_store, db')" using sample_executed by blast
  from executed_plan_authentic [OF token(2)] token(1) show ?thesis by blast
qed

lemma plan_runs_once_witness:
  "\<exists>token e db. sample_plan = Inr token \<and> executePlanForPurpose sample_crypto no_faults settingsPlanPurpose token 0
     (returns sample_binding) sample_apply sample_store db = (Inl e, sample_store, db)"
proof -
  obtain token db' where token: "sample_plan = Inr token"
    "executePlanForPurpose sample_crypto no_faults planPurpose token (60 * second) (returns sample_binding) sample_apply
       sample_store empty_database = (Inr (), sample_store, db')" using sample_executed by blast
  have k: "keeps_consumed sample_apply" by (simp add: keeps_consumed_def sample_apply_def consumed_def)
  have k2: "keeps_consumed (returns sample_binding)" by (simp add: keeps_consumed_def)
  from plan_runs_once [OF token(2) k rtranclp.rtrancl_refl k2] token(1) show ?thesis by blast
qed

lemma plan_atomic_witness:
  "\<exists>r s' db'. executePlanForPurpose sample_crypto no_faults planPurpose ''x'' 0 (returns sample_binding) sample_apply
      sample_store empty_database = (r, s', db') \<and> (\<exists>e. r = Inl e) \<and> db' = empty_database"
proof -
  obtain r s' db' where x: "executePlanForPurpose sample_crypto no_faults planPurpose ''x'' 0 (returns sample_binding) sample_apply
      sample_store empty_database = (r, s', db')" by (metis prod.exhaust)
  have "plan_body sample_crypto no_faults sample_store planPurpose ''x'' 0 (returns sample_binding) sample_apply empty_database
      \<noteq> (Inr (), db1)" for db1
    using body_authenticates authenticate_Inr by (fastforce simp: cut_dot_def)
  with plan_atomic [OF x] x show ?thesis by auto
qed

end
