(* ===== verification/AdminMutation.thy ===== *)
theory AdminMutation
  imports Session Frame
begin

text \<open>
  Authenticated administrative mutations, \<open>internal/storage/admin_mutation.go\<close>: one transaction that
  authenticates the session with its CSRF token, runs the caller's work and commits. The key lock of
  the store makes it one step; of the store only the flag \<open>unavailable\<close> matters here.
\<close>

datatype mutation_error =
    MutationSession session_error
  | MutationCode string
  | MutationUnavailable
  | MutationFailed string

definition map_error :: "('e \<Rightarrow> 'f) \<Rightarrow> ('e, 'a) step \<Rightarrow> ('f, 'a) step" where
  "map_error h m db = (case m db of (Inl e, db') \<Rightarrow> (Inl (h e), db') | (Inr a, db') \<Rightarrow> (Inr a, db'))"

lemma map_error_Inr: "map_error h m db = (Inr a, db') \<longleftrightarrow> m db = (Inr a, db')"
  by (auto simp: map_error_def split: prod.splits sum.splits)

lemma frame_map_error [frame_intros]: "frame g m \<Longrightarrow> frame g (map_error h m)"
  by (auto simp: frame_def map_error_def split: prod.splits sum.splits) (metis snd_conv)+

text \<open>
  The transaction of \<open>ExecuteAdminMutation\<close>, for any way to authorize it. A failed \<open>Rollback\<close> is
  reported beside the error and still leaves nothing behind: an open transaction that is not
  committed has no effect.
\<close>

definition mutate ::
    "faults \<Rightarrow> (mutation_error, actor) step \<Rightarrow> (actor \<Rightarrow> (mutation_error, 'a) step)
     \<Rightarrow> bool \<Rightarrow> database \<Rightarrow> (mutation_error + 'a) \<times> bool \<times> database" where
  "mutate f authorize work unavail db =
     (if unavail then (Inl MutationUnavailable, unavail, db)
      else if fails f ''begin'' then (Inl (MutationFailed ''begin admin mutation''), unavail, db)
      else (case bind_step authorize work db of
              (Inl e, _) \<Rightarrow> (Inl e, unavail, db)
            | (Inr a, db') \<Rightarrow>
                if commit_fails f
                then (Inl (MutationFailed ''commit admin mutation''), True, if commit_durable f then db' else db)
                else (Inr a, unavail, db')))"

record mutation_env =
  mu_sha :: "bytes \<Rightarrow> bytes"
  mu_faults :: faults
  mu_session :: string
  mu_csrf :: string
  mu_time :: time

definition authorize_session :: "mutation_env \<Rightarrow> (mutation_error, actor) step" where
  "authorize_session env =
     map_error MutationSession (AuthorizeAdminMutationTx (mu_faults env) (mu_sha env) (mu_session env) (mu_csrf env) (mu_time env))"

definition ExecuteAdminMutation ::
    "mutation_env \<Rightarrow> (actor \<Rightarrow> (mutation_error, 'a) step) \<Rightarrow> bool \<Rightarrow> database
     \<Rightarrow> (mutation_error + 'a) \<times> bool \<times> database" where
  "ExecuteAdminMutation env work = mutate (mu_faults env) (authorize_session env) work"

section \<open>The contract of an authorization\<close>

text \<open>
  An authorization that succeeds establishes \<open>ok\<close> about the state it started from and the actor it
  returns, and writes nothing but session activity.
\<close>

definition but_sessions :: "database \<Rightarrow> database" where
  "but_sessions db = db\<lparr>admin_sessions := []\<rparr>"

locale authorizer =
  fixes authorize :: "(mutation_error, actor) step"
    and ok :: "database \<Rightarrow> actor \<Rightarrow> bool"
  assumes authorized: "authorize db = (Inr a, db') \<Longrightarrow> ok db a"
    and only_sessions: "frame but_sessions authorize"
begin

lemma mutate_Inr:
  assumes "mutate f authorize work unavail db = (Inr a, unavail', db')"
  shows "\<exists>x db1. \<not> unavail \<and> unavail' = unavail \<and> ok db x \<and> but_sessions db1 = but_sessions db
    \<and> work x db1 = (Inr a, db')"
proof -
  from assms obtain x db1 where "\<not> unavail" "unavail' = unavail" "authorize db = (Inr x, db1)" "work x db1 = (Inr a, db')"
    by (auto simp: mutate_def step_elims split: if_splits prod.splits sum.splits)
  then show ?thesis using authorized only_sessions frame_run by metis
qed

lemma mutate_Inl:
  assumes "mutate f authorize work unavail db = (Inl e, unavail', db')"
  shows "db' = db \<and> unavail' = unavail \<or>
    unavail' \<and> \<not> unavail \<and> commit_fails f \<and> commit_durable f \<and> (\<exists>x db1 a. ok db x \<and> but_sessions db1 = but_sessions db \<and> work x db1 = (Inr a, db'))
    \<or> unavail' \<and> db' = db"
proof (cases "unavail \<or> fails f ''begin''")
  case True
  with assms show ?thesis by (auto simp: mutate_def split: if_splits)
next
  case False
  show ?thesis
  proof (cases "bind_step authorize work db")
    case (Pair r db1)
    show ?thesis
    proof (cases r)
      case (Inl e')
      with assms False Pair show ?thesis by (auto simp: mutate_def)
    next
      case (Inr a)
      then obtain x db0 where "authorize db = (Inr x, db0)" "work x db0 = (Inr a, db1)"
        using Pair by (auto simp: step_elims)
      then have "ok db x" "but_sessions db0 = but_sessions db" "work x db0 = (Inr a, db1)"
        using authorized only_sessions frame_run by metis+
      with assms False Pair Inr show ?thesis by (auto simp: mutate_def split: if_splits)
    qed
  qed
qed

lemma mutate_invariant:
  assumes "mutate f authorize work unavail db = (r, unavail', db')" and "P db"
    and "\<And>d d'. but_sessions d = but_sessions d' \<Longrightarrow> P d \<Longrightarrow> P d'"
    and "\<And>x d a d'. P d \<Longrightarrow> work x d = (Inr a, d') \<Longrightarrow> P d'"
  shows "P db'"
proof (cases r)
  case (Inl e)
  with mutate_Inl [of f work unavail db e unavail' db'] assms show ?thesis by metis
next
  case (Inr a)
  with mutate_Inr [of f work unavail db a unavail' db'] assms show ?thesis by metis
qed

lemma mutate_unauthorized:
  assumes "\<And>x. \<not> ok db x"
  shows "\<exists>e. mutate f authorize work unavail db = (Inl e, unavail, db)"
proof -
  have "\<exists>e db1. authorize db = (Inl e, db1)"
    using authorized assms by (cases "authorize db"; cases "fst (authorize db)") auto
  then show ?thesis by (auto simp: mutate_def bind_step_def)
qed

end

section \<open>Sessions provide it\<close>

text \<open>The session of a token in a state: stored, live, with a CSRF token that is valid for it.\<close>

definition admin_may :: "mutation_env \<Rightarrow> database \<Rightarrow> actor \<Rightarrow> bool" where
  "admin_may env db a \<longleftrightarrow>
     (\<exists>h row. decodeAdminToken (mu_sha env) (mu_session env) = Inr h \<and> live_session db h (mu_time env) row
        \<and> csrf_ok (mu_sha env) row (mu_csrf env) (mu_time env)
        \<and> a = \<lparr>actor_Type = ''admin'', actor_ID = ad_ID (row_admin row)\<rparr>)"

lemma authorize_Inr:
  "AuthorizeAdminMutationTx f sh token csrf now db = (Inr a, db') \<longleftrightarrow>
     (\<exists>cx. useAdminSessionTx f sh token csrf True now db = (Inr cx, db')
        \<and> a = \<lparr>actor_Type = ''admin'', actor_ID = ad_ID (cx_Admin cx)\<rparr>)"
  by (auto simp: AuthorizeAdminMutationTx_def step_elims)

lemma readLive_frame [frame_intros]: "frame g (readLiveSession f h now)"
  by (simp add: frame_def readLiveSession_def split: option.split)

lemma update_session_frame [frame_intros]:
  "(\<And>db f. g (admin_sessions_update f db) = g db) \<Longrightarrow> frame g (update_session f site h k)"
  by (auto simp: frame_def update_session_def bind_step_def guard_def split: prod.split)

lemma authorize_frame: "frame but_sessions (authorize_session env)"
  unfolding authorize_session_def AuthorizeAdminMutationTx_def useAdminSessionTx_def
  by (intro frame_intros) (simp_all add: but_sessions_def)

lemma authorize_may:
  "authorize_session env db = (Inr a, db') \<Longrightarrow> admin_may env db a"
  unfolding authorize_session_def map_error_Inr authorize_Inr use_Inr admin_may_def by auto

interpretation session_authorizer: authorizer "authorize_session env" "admin_may env" for env
  by unfold_locales (erule authorize_may, rule authorize_frame)

text \<open>
  C3: a mutation runs only for a live administrator session with its CSRF token and is atomic: if
  \<open>ExecuteAdminMutation\<close> succeeds, the session of the state before it was live, its user current and the
  CSRF token valid, and the work ran as that administrator in a state that differs from it at most in
  session activity; if it fails, the database is unchanged, unless the failure is that of the commit,
  after which the store refuses every mutation.
\<close>

theorem mutation_authorized_and_atomic:
  assumes "ExecuteAdminMutation env work unavail db = (r, unavail', db')"
  shows "(case r of
      Inr a \<Rightarrow> \<not> unavail \<and> unavail' = unavail \<and> (\<exists>x db1. admin_may env db x
        \<and> db1\<lparr>admin_sessions := []\<rparr> = db\<lparr>admin_sessions := []\<rparr> \<and> work x db1 = (Inr a, db'))
    | Inl e \<Rightarrow> db' = db \<or> unavail' \<and> commit_fails (mu_faults env) \<and> (\<forall>env' work' db2.
        ExecuteAdminMutation env' work' unavail' db2 = (Inl MutationUnavailable, unavail', db2)))"
proof (cases r)
  case (Inr a)
  with session_authorizer.mutate_Inr assms show ?thesis
    by (fastforce simp: ExecuteAdminMutation_def but_sessions_def)
next
  case (Inl e)
  have "db' = db \<or> unavail' \<and> commit_fails (mu_faults env)"
    using session_authorizer.mutate_Inl [of "mu_faults env" env work unavail db e unavail' db'] assms Inl
    by (auto simp: ExecuteAdminMutation_def)
  with Inl show ?thesis by (auto simp: ExecuteAdminMutation_def mutate_def)
qed

definition sample_mutation :: mutation_env where
  "sample_mutation = \<lparr>mu_sha = sample_sha, mu_faults = no_faults, mu_session = sample_token, mu_csrf = sample_token, mu_time = 100\<rparr>"

definition refused_work :: "actor \<Rightarrow> (mutation_error, unit) step" where
  "refused_work a = raises (MutationCode ''invalid_input'')"

theorem mutation_authorized_and_atomic_witness:
  "snd (snd (ExecuteAdminMutation sample_mutation refused_work False sample_db)) = sample_db"
proof (cases "ExecuteAdminMutation sample_mutation refused_work False sample_db")
  case (fields r u db')
  have "\<not> commit_fails (mu_faults sample_mutation)"
    by (simp add: sample_mutation_def no_faults_def)
  with mutation_authorized_and_atomic [OF fields] show ?thesis
    by (auto simp: fields refused_work_def split: sum.splits)
qed

end
