(* ===== verification/AgentToken.thy ===== *)
theory AgentToken
  imports AdminMutation Base64
begin

text \<open>
  Bearer tokens of agents, \<open>internal/storage/agent_token.go\<close>, and the scan of a resource row they
  start from (\<open>repository.go\<close>). A bearer is stored as its SHA-256 verifier, which is a parameter; the
  32 random bytes of a new bearer are an argument, \<open>None\<close> when the source of randomness fails.
\<close>

section \<open>Reading resources\<close>

abbreviation not_found :: mutation_error where "not_found \<equiv> MutationCode ''not_found''"
abbreviation already_exists :: mutation_error where "already_exists \<equiv> MutationCode ''already_exists''"

record stored_resource =
  rs_ID :: string
  rs_Kind :: string
  rs_Name :: string
  rs_DisplayName :: "string option"
  rs_Description :: "string option"
  rs_ResourceVersion :: int
  rs_Spec :: string
  rs_CreatedAt :: time
  rs_UpdatedAt :: time

definition scanResource :: "resource option \<Rightarrow> mutation_error + stored_resource" where
  "scanResource row =
     (case row of
        None \<Rightarrow> Inl not_found
      | Some r \<Rightarrow>
          (case res_created r of
             None \<Rightarrow> Inl (MutationFailed ''parse created_at'')
           | Some created \<Rightarrow>
               (case res_updated r of
                  None \<Rightarrow> Inl (MutationFailed ''parse updated_at'')
                | Some updated \<Rightarrow>
                    Inr \<lparr>rs_ID = res_id r, rs_Kind = res_kind r, rs_Name = res_name r, rs_DisplayName = res_display r,
                         rs_Description = res_description r, rs_ResourceVersion = res_version r,
                         rs_Spec = res_spec r, rs_CreatedAt = created, rs_UpdatedAt = updated\<rparr>)))"

definition named :: "string \<Rightarrow> string \<Rightarrow> resource \<Rightarrow> bool" where
  "named kind name r \<longleftrightarrow> res_kind r = kind \<and> res_name r = name"

definition GetResourceTx :: "faults \<Rightarrow> string \<Rightarrow> string \<Rightarrow> (mutation_error, stored_resource) step" where
  "GetResourceTx f kind name =
     bind_step (guard (\<not> fails f ''scan resource'') (MutationFailed ''scan resource'')) (\<lambda>_.
     bind_step (reads (\<lambda>db. scanResource (find (named kind name) (resources db)))) lift)"

section \<open>The row of a token\<close>

record agent_row =
  rw_verifier :: "bytes option"
  rw_prefix :: "string option"
  rw_issuedAt :: "time option"
  rw_expiresAt :: "time option"
  rw_revokedAt :: "time option"

definition parse_optional :: "stamp option \<Rightarrow> mutation_error + time option" where
  "parse_optional v = (case v of None \<Rightarrow> Inr None | Some None \<Rightarrow> Inl (MutationFailed ''parse time'') | Some (Some t) \<Rightarrow> Inr (Some t))"

definition scanAgentTokenRow :: "agent_token option \<Rightarrow> mutation_error + agent_row" where
  "scanAgentTokenRow row =
     (case row of
        None \<Rightarrow> Inl not_found
      | Some r \<Rightarrow>
          and_then (parse_optional (issued_at r)) (\<lambda>issued.
          and_then (parse_optional (expires_at r)) (\<lambda>expires.
          and_then (parse_optional (revoked_at r)) (\<lambda>revoked.
          Inr \<lparr>rw_verifier = verifier r, rw_prefix = token_prefix r, rw_issuedAt = issued, rw_expiresAt = expires,
               rw_revokedAt = revoked\<rparr>))))"

definition readAgentTokenRow :: "faults \<Rightarrow> string \<Rightarrow> (mutation_error, agent_row) step" where
  "readAgentTokenRow f resource_id =
     bind_step (guard (\<not> fails f ''read agent token'') (MutationFailed ''read agent token'')) (\<lambda>_.
     bind_step (reads (\<lambda>db. scanAgentTokenRow (find (\<lambda>a. at_resource a = resource_id) (agent_tokens db)))) lift)"

record agent_status =
  as_State :: string
  as_Prefix :: "string option"
  as_IssuedAt :: "time option"
  as_ExpiresAt :: "time option"
  as_RevokedAt :: "time option"

text \<open>\<open>expiresAt != nil && !now.Before(*expiresAt)\<close>\<close>

definition row_expired :: "agent_row \<Rightarrow> time \<Rightarrow> bool" where
  "row_expired row now \<longleftrightarrow> (case rw_expiresAt row of None \<Rightarrow> False | Some t \<Rightarrow> \<not> now < t)"

definition statusFromAgentRowAt :: "agent_row \<Rightarrow> time \<Rightarrow> agent_status" where
  "statusFromAgentRowAt row now =
     (let state = ''unissued'';
          state = (if rw_issuedAt row \<noteq> None then ''active'' else state);
          state = (if row_expired row now then ''expired'' else state);
          state = (if rw_revokedAt row \<noteq> None then ''revoked'' else state)
      in \<lparr>as_State = state, as_Prefix = rw_prefix row, as_IssuedAt = rw_issuedAt row, as_ExpiresAt = rw_expiresAt row,
          as_RevokedAt = rw_revokedAt row\<rparr>)"

section \<open>Bearers\<close>

definition agentTokenPrefix :: string where "agentTokenPrefix = ''mc_at_v1_''"

definition generateAgentToken :: "(bytes \<Rightarrow> bytes) \<Rightarrow> bytes option \<Rightarrow> mutation_error + string \<times> bytes \<times> string" where
  "generateAgentToken sha random =
     (case random of
        None \<Rightarrow> Inl (MutationFailed ''generate agent token'')
      | Some raw \<Rightarrow>
          (let encoded = base64_encode raw; bearer = agentTokenPrefix @ encoded
           in Inr (bearer, sha bearer, agentTokenPrefix @ take 8 encoded)))"

definition parseAgentToken :: "(bytes \<Rightarrow> bytes) \<Rightarrow> string \<Rightarrow> bytes option" where
  "parseAgentToken sha token =
     (if length token \<noteq> length agentTokenPrefix + 43 \<or> \<not> has_prefix token agentTokenPrefix then None
      else (case base64_decode (drop (length agentTokenPrefix) token) of
              None \<Rightarrow> None
            | Some raw \<Rightarrow> if length raw \<noteq> 32 then None else Some (sha token)))"

section \<open>Issuing, rotating, revoking\<close>

record issued_token =
  it_Token :: string
  it_Status :: agent_status

text \<open>
  \<open>UPDATE agent_tokens SET verifier_sha256=?,token_prefix=?,issued_at=? WHERE ...\<close>: the verifier is
  unique in its table, so a collision with another row is an error of the statement.
\<close>

definition set_verifier ::
    "faults \<Rightarrow> string \<Rightarrow> (agent_token \<Rightarrow> bool) \<Rightarrow> bytes \<Rightarrow> string \<Rightarrow> time \<Rightarrow> (mutation_error, unit) step" where
  "set_verifier f site matches v shown now db =
     (if fails f site \<or> (\<exists>a\<in>set (agent_tokens db). matches a)
           \<and> (\<exists>a\<in>set (agent_tokens db). \<not> matches a \<and> verifier a = Some v)
      then (Inl (MutationFailed site), db)
      else (case update_where matches
              (\<lambda>a. a\<lparr>verifier := Some v, token_prefix := Some shown, issued_at := Some (Some now)\<rparr>)
              (agent_tokens db) of
              (rows, n) \<Rightarrow> if n \<noteq> 1 then (Inl already_exists, db) else (Inr (), db\<lparr>agent_tokens := rows\<rparr>)))"

definition put_bearer ::
    "faults \<Rightarrow> (bytes \<Rightarrow> bytes) \<Rightarrow> string \<Rightarrow> string \<Rightarrow> (agent_token \<Rightarrow> bool) \<Rightarrow> stored_resource \<Rightarrow> agent_row
     \<Rightarrow> bytes option \<Rightarrow> time \<Rightarrow> actor \<Rightarrow> (mutation_error, issued_token) step" where
  "put_bearer f sha site action matches res row random now actor =
     bind_step (lift (generateAgentToken sha random)) (\<lambda>(bearer, v, shown).
     bind_step (set_verifier f site matches v shown now) (\<lambda>_.
     bind_step (insertAudit f (MutationFailed ''audit'') now actor action ''AgentToken'' (rs_ID res) ''success''
                  (rs_ResourceVersion res)) (\<lambda>_.
     returns \<lparr>it_Token = bearer,
       it_Status = statusFromAgentRowAt \<lparr>rw_verifier = None, rw_prefix = Some shown, rw_issuedAt = Some now,
                     rw_expiresAt = rw_expiresAt row, rw_revokedAt = None\<rparr> now\<rparr>)))"

definition issue_work ::
    "faults \<Rightarrow> (bytes \<Rightarrow> bytes) \<Rightarrow> string \<Rightarrow> bytes option \<Rightarrow> time \<Rightarrow> actor \<Rightarrow> (mutation_error, issued_token) step" where
  "issue_work f sha name random now actor =
     bind_step (GetResourceTx f ''AgentToken'' name) (\<lambda>res.
     bind_step (readAgentTokenRow f (rs_ID res)) (\<lambda>row.
     bind_step (guard (\<not> (rw_verifier row \<noteq> None \<or> rw_issuedAt row \<noteq> None \<or> rw_revokedAt row \<noteq> None \<or> row_expired row now))
                  already_exists) (\<lambda>_.
     put_bearer f sha ''issue agent token'' ''agent_token.issue''
       (\<lambda>a. at_resource a = rs_ID res \<and> verifier a = None \<and> issued_at a = None \<and> revoked_at a = None)
       res row random now actor)))"

definition IssueSession ::
    "mutation_env \<Rightarrow> bytes option \<Rightarrow> time \<Rightarrow> string \<Rightarrow> bool \<Rightarrow> database \<Rightarrow> (mutation_error + issued_token) \<times> bool \<times> database" where
  "IssueSession env random now name = ExecuteAdminMutation env (issue_work (mu_faults env) (mu_sha env) name random now)"

definition rotate_work ::
    "faults \<Rightarrow> (bytes \<Rightarrow> bytes) \<Rightarrow> string \<Rightarrow> bytes option \<Rightarrow> time \<Rightarrow> actor \<Rightarrow> (mutation_error, issued_token) step" where
  "rotate_work f sha name random now actor =
     bind_step (GetResourceTx f ''AgentToken'' name) (\<lambda>res.
     bind_step (readAgentTokenRow f (rs_ID res)) (\<lambda>row.
     bind_step (guard (\<not> (rw_verifier row = None \<or> rw_issuedAt row = None \<or> rw_revokedAt row \<noteq> None \<or> row_expired row now))
                  already_exists) (\<lambda>_.
     put_bearer f sha ''rotate agent token'' ''agent_token.rotate''
       (\<lambda>a. at_resource a = rs_ID res \<and> verifier a = rw_verifier row \<and> issued_at a \<noteq> None \<and> revoked_at a = None)
       res row random now actor)))"

definition RotateSession ::
    "mutation_env \<Rightarrow> bytes option \<Rightarrow> time \<Rightarrow> string \<Rightarrow> bool \<Rightarrow> database \<Rightarrow> (mutation_error + issued_token) \<times> bool \<times> database" where
  "RotateSession env random now name = ExecuteAdminMutation env (rotate_work (mu_faults env) (mu_sha env) name random now)"

definition revoke_row :: "faults \<Rightarrow> stored_resource \<Rightarrow> agent_row \<Rightarrow> time \<Rightarrow> actor \<Rightarrow> (mutation_error, unit) step" where
  "revoke_row f res row now actor =
     (if rw_revokedAt row \<noteq> None then returns ()
      else
        bind_step (guard (\<not> fails f ''revoke agent token'') (MutationFailed ''revoke agent token'')) (\<lambda>_.
        bind_step (\<lambda>db. case update_where (\<lambda>a. at_resource a = rs_ID res \<and> revoked_at a = None)
                              (\<lambda>a. a\<lparr>revoked_at := Some (Some now)\<rparr>) (agent_tokens db) of
                     (rows, n) \<Rightarrow> if n \<noteq> 1 then (Inl not_found, db) else (Inr (), db\<lparr>agent_tokens := rows\<rparr>)) (\<lambda>_.
        insertAudit f (MutationFailed ''audit'') now actor ''agent_token.revoke'' ''AgentToken'' (rs_ID res) ''success''
          (rs_ResourceVersion res))))"

definition revoke_work :: "faults \<Rightarrow> string \<Rightarrow> time \<Rightarrow> actor \<Rightarrow> (mutation_error, unit) step" where
  "revoke_work f name now actor =
     bind_step (GetResourceTx f ''AgentToken'' name) (\<lambda>res.
     bind_step (readAgentTokenRow f (rs_ID res)) (\<lambda>row. revoke_row f res row now actor))"

definition RevokeSession ::
    "mutation_env \<Rightarrow> time \<Rightarrow> string \<Rightarrow> bool \<Rightarrow> database \<Rightarrow> (mutation_error + unit) \<times> bool \<times> database" where
  "RevokeSession env now name = ExecuteAdminMutation env (revoke_work (mu_faults env) name now)"

section \<open>Authentication\<close>

datatype agent_error = AgentTokenInvalid | AgentRouteForbidden | AgentCode string | AgentFailed string

record agent_identity =
  ai_ResourceID :: string
  ai_Name :: string

definition routeAllowed :: "string list \<Rightarrow> string \<Rightarrow> bool" where
  "routeAllowed ids route_id \<longleftrightarrow> list_ex (\<lambda>allowed. allowed = route_id) ids"

text \<open>The row the join of \<open>agent_tokens\<close> and \<open>resources\<close> on a verifier yields.\<close>

definition bearer_row :: "database \<Rightarrow> bytes \<Rightarrow> (agent_token \<times> resource) option" where
  "bearer_row db v =
     (case find (\<lambda>a. verifier a = Some v) (agent_tokens db) of
        None \<Rightarrow> None
      | Some a \<Rightarrow> map_option (Pair a) (find (\<lambda>r. res_id r = at_resource a \<and> res_kind r = ''AgentToken'') (resources db)))"

definition authenticateBearer ::
    "faults \<Rightarrow> (bytes \<Rightarrow> bytes) \<Rightarrow> time \<Rightarrow> string \<Rightarrow> database \<Rightarrow> agent_error + agent_identity \<times> string list" where
  "authenticateBearer f sha now bearer db =
     (case parseAgentToken sha bearer of
        None \<Rightarrow> Inl AgentTokenInvalid
      | Some v \<Rightarrow>
          if fails f ''authenticate agent token'' then Inl (AgentFailed ''authenticate agent token'')
          else (case bearer_row db v of
            None \<Rightarrow> Inl AgentTokenInvalid
          | Some (a, r) \<Rightarrow>
              if revoked_at a \<noteq> None then Inl AgentTokenInvalid
              else if (case expires_at a of
                         None \<Rightarrow> False | Some None \<Rightarrow> True | Some (Some t) \<Rightarrow> \<not> now < t) then Inl AgentTokenInvalid
              else (case allowed_routes a of
                      None \<Rightarrow> Inl (AgentFailed ''decode agent routes'')
                    | Some ids \<Rightarrow> Inr (\<lparr>ai_ResourceID = res_id r, ai_Name = res_name r\<rparr>, ids))))"

definition Authenticate ::
    "faults \<Rightarrow> (bytes \<Rightarrow> bytes) \<Rightarrow> time \<Rightarrow> string \<Rightarrow> string \<Rightarrow> database \<Rightarrow> agent_error + agent_identity" where
  "Authenticate f sha now bearer route_id db =
     (if route_id = [] then Inl (AgentCode ''invalid_resource'')
      else and_then (authenticateBearer f sha now bearer db) (\<lambda>(identity, allowed).
        if routeAllowed allowed route_id then Inr identity else Inl AgentRouteForbidden))"

definition AuthenticateAlias ::
    "faults \<Rightarrow> (bytes \<Rightarrow> bytes) \<Rightarrow> time \<Rightarrow> string \<Rightarrow> string \<Rightarrow> database \<Rightarrow> agent_error + agent_identity \<times> string" where
  "AuthenticateAlias f sha now bearer wanted db =
     and_then (authenticateBearer f sha now bearer db) (\<lambda>(identity, allowed).
       if fails f ''resolve agent route alias'' then Inl (AgentFailed ''resolve agent route alias'')
       else (case find (\<lambda>r. model_alias r = wanted) (routes db) of
               None \<Rightarrow> Inl (AgentCode ''not_found'')
             | Some r \<Rightarrow>
                 if \<not> routeAllowed allowed (route_resource r) then Inl AgentRouteForbidden
                 else Inr (identity, route_resource r)))"

definition token_status :: "faults \<Rightarrow> time \<Rightarrow> string \<Rightarrow> (mutation_error, agent_status) step" where
  "token_status f now name =
     bind_step (GetResourceTx f ''AgentToken'' name) (\<lambda>res.
     bind_step (readAgentTokenRow f (rs_ID res)) (\<lambda>row. returns (statusFromAgentRowAt row now)))"

section \<open>What the schema guarantees\<close>

text \<open>The primary keys and unique columns of \<open>resources\<close> and \<open>agent_tokens\<close>.\<close>

definition token_keys :: "database \<Rightarrow> bool" where
  "token_keys db \<longleftrightarrow>
     distinct (map res_id (resources db)) \<and> distinct (map (\<lambda>r. (res_kind r, res_name r)) (resources db))
     \<and> distinct (map at_resource (agent_tokens db))
     \<and> distinct (map verifier (filter (\<lambda>a. verifier a \<noteq> None) (agent_tokens db)))"

lemma find_some: "find p xs = Some x \<Longrightarrow> x \<in> set xs \<and> p x"
  by (auto simp: find_Some_iff)

lemma find_unique: "x \<in> set xs \<Longrightarrow> p x \<Longrightarrow> (\<And>y. y \<in> set xs \<Longrightarrow> p y \<Longrightarrow> y = x) \<Longrightarrow> find p xs = Some x"
  by (metis find_None_iff find_some not_None_eq)

lemma distinct_map_eq: "distinct (map k xs) \<Longrightarrow> x \<in> set xs \<Longrightarrow> y \<in> set xs \<Longrightarrow> k x = k y \<Longrightarrow> x = y"
  by (metis distinct_map inj_onD)

lemma verifier_unique:
  assumes "token_keys db" "a \<in> set (agent_tokens db)" "b \<in> set (agent_tokens db)"
    "verifier a = Some v" "verifier b = Some v"
  shows "a = b"
  by (rule distinct_map_eq [of verifier "filter (\<lambda>a. verifier a \<noteq> None) (agent_tokens db)"])
     (use assms in \<open>auto simp: token_keys_def\<close>)

lemma bearer_row_iff:
  assumes "token_keys db"
  shows "bearer_row db v = Some (a, r) \<longleftrightarrow> a \<in> set (agent_tokens db) \<and> verifier a = Some v
    \<and> r \<in> set (resources db) \<and> res_id r = at_resource a \<and> res_kind r = ''AgentToken''"
    (is "_ \<longleftrightarrow> ?R")
proof
  assume "bearer_row db v = Some (a, r)"
  then show ?R by (auto simp: bearer_row_def split: option.splits dest!: find_some)
next
  assume R: ?R
  have "find (\<lambda>a. verifier a = Some v) (agent_tokens db) = Some a"
    by (rule find_unique) (use R verifier_unique [OF assms] in blast)+
  moreover have "find (\<lambda>r. res_id r = at_resource a \<and> res_kind r = ''AgentToken'') (resources db) = Some r"
    by (rule find_unique) (use R assms distinct_map_eq [of res_id "resources db"] in \<open>auto simp: token_keys_def\<close>)
  ultimately show "bearer_row db v = Some (a, r)" by (simp add: bearer_row_def)
qed

text \<open>\<open>expires_at\<close> does not end the row at \<open>now\<close>.\<close>

definition unexpired :: "agent_token \<Rightarrow> time \<Rightarrow> bool" where
  "unexpired a now \<longleftrightarrow> expires_at a = None \<or> (\<exists>t. expires_at a = Some (Some t) \<and> now < t)"

lemma bearer_accepted_iff:
  "authenticateBearer f sha now bearer db = Inr (i, ids) \<longleftrightarrow>
     \<not> fails f ''authenticate agent token'' \<and> (\<exists>v a r. parseAgentToken sha bearer = Some v
       \<and> bearer_row db v = Some (a, r) \<and> revoked_at a = None \<and> unexpired a now \<and> allowed_routes a = Some ids
       \<and> i = \<lparr>ai_ResourceID = res_id r, ai_Name = res_name r\<rparr>)"
  by (auto simp: authenticateBearer_def unexpired_def split: option.splits)

lemma parse_bearer:
  "length raw = 32 \<Longrightarrow> parseAgentToken sha (agentTokenPrefix @ base64_encode raw) = Some (sha (agentTokenPrefix @ base64_encode raw))"
  by (simp add: parseAgentToken_def has_prefix_iff base64_decode_encode length_base64_encode)

lemma parse_sha: "parseAgentToken sha bearer = Some v \<Longrightarrow> v = sha bearer"
  by (auto simp: parseAgentToken_def split: if_splits option.splits)

section \<open>The effect of a new bearer\<close>

definition stamped :: "bytes \<Rightarrow> string \<Rightarrow> time \<Rightarrow> agent_token \<Rightarrow> agent_token" where
  "stamped v shown now a = a\<lparr>verifier := Some v, token_prefix := Some shown, issued_at := Some (Some now)\<rparr>"

lemma stamped_simps [simp]:
  "at_resource (stamped v s now a) = at_resource a" "verifier (stamped v s now a) = Some v"
  "revoked_at (stamped v s now a) = revoked_at a" "expires_at (stamped v s now a) = expires_at a"
  "allowed_routes (stamped v s now a) = allowed_routes a" "unexpired (stamped v s now a) t = unexpired a t"
  by (simp_all add: stamped_def unexpired_def)

text \<open>The row \<open>a\<close> of \<open>db\<close>, not revoked, gets the verifier \<open>v\<close>, which no other row has.\<close>

definition reborn :: "bytes \<Rightarrow> agent_token \<Rightarrow> database \<Rightarrow> database \<Rightarrow> bool" where
  "reborn v a db db' \<longleftrightarrow>
     a \<in> set (agent_tokens db) \<and> revoked_at a = None \<and> resources db' = resources db \<and> routes db' = routes db
     \<and> (\<forall>b\<in>set (agent_tokens db). b \<noteq> a \<longrightarrow> verifier b \<noteq> Some v)
     \<and> (\<exists>shown now. agent_tokens db' = map (\<lambda>b. if b = a then stamped v shown now a else b) (agent_tokens db))"

definition given :: "(bytes \<Rightarrow> bytes) \<Rightarrow> string \<Rightarrow> bytes option \<Rightarrow> issued_token \<Rightarrow> database \<Rightarrow> database \<Rightarrow> bool" where
  "given sha name random t db db' \<longleftrightarrow>
     (\<exists>a r. reborn (sha (it_Token t)) a db db' \<and> r \<in> set (resources db) \<and> res_kind r = ''AgentToken'' \<and> res_name r = name
        \<and> at_resource a = res_id r \<and> (\<exists>raw. random = Some raw \<and> it_Token t = agentTokenPrefix @ base64_encode raw))"

lemma set_verifier_Inr:
  "set_verifier f site m v shown now db = (Inr u, db') \<longleftrightarrow>
     \<not> fails f site \<and> length (filter m (agent_tokens db)) = 1
     \<and> \<not> (\<exists>a\<in>set (agent_tokens db). \<not> m a \<and> verifier a = Some v)
     \<and> db' = db\<lparr>agent_tokens := map (\<lambda>a. if m a then stamped v shown now a else a) (agent_tokens db)\<rparr>"
proof -
  have "\<exists>a\<in>set (agent_tokens db). m a" if "length (filter m (agent_tokens db)) = 1"
    using that by (metis filter_empty_conv list.size(3) zero_neq_one)
  then show ?thesis by (auto simp: set_verifier_def update_where_def stamped_def)
qed

lemma audit_frame_Inr:
  "insertAudit f err now a act kind res out v db = (Inr u, db') \<Longrightarrow>
   agent_tokens db' = agent_tokens db \<and> resources db' = resources db \<and> routes db' = routes db"
  by (auto simp: insertAudit_def step_elims)

lemma put_bearer_Inr:
  assumes "put_bearer f sha site act m res row random now actor db = (Inr t, db')"
    and "a \<in> set (agent_tokens db)" "m a" "revoked_at a = None"
    and "\<And>b. b \<in> set (agent_tokens db) \<Longrightarrow> m b \<Longrightarrow> b = a"
  shows "reborn (sha (it_Token t)) a db db' \<and> (\<exists>raw. random = Some raw \<and> it_Token t = agentTokenPrefix @ base64_encode raw)"
proof -
  obtain raw where raw: "random = Some raw" using assms(1)
    by (cases random) (auto simp: put_bearer_def generateAgentToken_def step_elims)
  from assms(1) obtain db1 where t: "it_Token t = agentTokenPrefix @ base64_encode raw"
    and set: "set_verifier f site m (sha (it_Token t)) (agentTokenPrefix @ take 8 (base64_encode raw)) now db = (Inr (), db1)"
    and audit: "agent_tokens db' = agent_tokens db1" "resources db' = resources db1" "routes db' = routes db1"
    by (auto simp: put_bearer_def generateAgentToken_def raw Let_def step_elims dest!: audit_frame_Inr)
  have "map (\<lambda>b. if m b then stamped v s now b else b) (agent_tokens db) =
      map (\<lambda>b. if b = a then stamped v s now a else b) (agent_tokens db)" for v s now
    by (rule map_cong [OF refl]) (metis assms(3,5))
  with set have rows: "agent_tokens db1 = map (\<lambda>b. if b = a then stamped (sha (it_Token t))
      (agentTokenPrefix @ take 8 (base64_encode raw)) now a else b) (agent_tokens db)"
    and other: "resources db1 = resources db" "routes db1 = routes db"
      "\<forall>b\<in>set (agent_tokens db). \<not> m b \<longrightarrow> verifier b \<noteq> Some (sha (it_Token t))"
    by (auto simp: set_verifier_Inr)
  have "\<forall>b\<in>set (agent_tokens db). b \<noteq> a \<longrightarrow> verifier b \<noteq> Some (sha (it_Token t))"
    using other(3) assms(5) by blast
  then show ?thesis unfolding reborn_def using rows other audit assms(2,4) raw t by auto
qed

lemma get_Inr:
  "GetResourceTx f kind name db = (Inr res, db') \<Longrightarrow>
   db' = db \<and> (\<exists>r\<in>set (resources db). res_kind r = kind \<and> res_name r = name \<and> rs_ID res = res_id r)"
  by (auto simp: GetResourceTx_def scanResource_def step_elims named_def split: option.splits dest!: find_some)

lemma read_row_Inr:
  "readAgentTokenRow f i db = (Inr row, db') \<Longrightarrow>
   db' = db \<and> (\<exists>a\<in>set (agent_tokens db). at_resource a = i \<and> rw_verifier row = verifier a
     \<and> (rw_revokedAt row = None \<longleftrightarrow> revoked_at a = None) \<and> (rw_issuedAt row = None \<longleftrightarrow> issued_at a = None))"
  by (auto simp: readAgentTokenRow_def scanAgentTokenRow_def parse_optional_def step_elims and_then_Inr
      split: option.splits dest!: find_some)

lemma row_unique:
  "token_keys db \<Longrightarrow> a \<in> set (agent_tokens db) \<Longrightarrow> b \<in> set (agent_tokens db) \<Longrightarrow> at_resource a = at_resource b \<Longrightarrow> a = b"
  using distinct_map_eq [of at_resource "agent_tokens db"] by (simp add: token_keys_def)

lemma issue_Inr:
  assumes "token_keys db" and "issue_work f sha name random now actor db = (Inr t, db')"
  shows "given sha name random t db db'"
proof -
  from assms(2) obtain res row d1 d2 where get: "GetResourceTx f ''AgentToken'' name db = (Inr res, d1)"
    and read: "readAgentTokenRow f (rs_ID res) d1 = (Inr row, d2)"
    and unissued: "rw_verifier row = None" "rw_issuedAt row = None" "rw_revokedAt row = None"
    and put: "put_bearer f sha ''issue agent token'' ''agent_token.issue''
       (\<lambda>a. at_resource a = rs_ID res \<and> verifier a = None \<and> issued_at a = None \<and> revoked_at a = None)
       res row random now actor d2 = (Inr t, db')"
    unfolding issue_work_def step_elims by blast
  have d: "d1 = db" "d2 = db" using get_Inr [OF get] read_row_Inr [OF read] by auto
  obtain r where r: "r \<in> set (resources db)" "res_kind r = ''AgentToken''" "res_name r = name" "rs_ID res = res_id r"
    using get_Inr [OF get] by blast
  obtain a where a: "a \<in> set (agent_tokens db)" "at_resource a = rs_ID res" "verifier a = None" "issued_at a = None" "revoked_at a = None"
    using read_row_Inr [OF read] unissued by (auto simp: d)
  have "reborn (sha (it_Token t)) a db db' \<and> (\<exists>raw. random = Some raw \<and> it_Token t = agentTokenPrefix @ base64_encode raw)"
    by (rule put_bearer_Inr [OF put [unfolded d] a(1)])
      (use a in simp, use a in simp, use row_unique [OF assms(1) _ a(1)] a(2) in metis)
  with a r show ?thesis unfolding given_def by metis
qed

lemma rotate_Inr:
  assumes "token_keys db" and "rotate_work f sha name random now actor db = (Inr t, db')"
  shows "given sha name random t db db'"
proof -
  from assms(2) obtain res row d1 d2 where get: "GetResourceTx f ''AgentToken'' name db = (Inr res, d1)"
    and read: "readAgentTokenRow f (rs_ID res) d1 = (Inr row, d2)"
    and issued: "rw_issuedAt row \<noteq> None" "rw_revokedAt row = None"
    and put: "put_bearer f sha ''rotate agent token'' ''agent_token.rotate''
       (\<lambda>a. at_resource a = rs_ID res \<and> verifier a = rw_verifier row \<and> issued_at a \<noteq> None \<and> revoked_at a = None)
       res row random now actor d2 = (Inr t, db')"
    unfolding rotate_work_def step_elims by blast
  have d: "d1 = db" "d2 = db" using get_Inr [OF get] read_row_Inr [OF read] by auto
  obtain r where r: "r \<in> set (resources db)" "res_kind r = ''AgentToken''" "res_name r = name" "rs_ID res = res_id r"
    using get_Inr [OF get] by blast
  obtain a where a: "a \<in> set (agent_tokens db)" "at_resource a = rs_ID res" "verifier a = rw_verifier row"
      "issued_at a \<noteq> None" "revoked_at a = None"
    using read_row_Inr [OF read] issued by (auto simp: d)
  have "reborn (sha (it_Token t)) a db db' \<and> (\<exists>raw. random = Some raw \<and> it_Token t = agentTokenPrefix @ base64_encode raw)"
    by (rule put_bearer_Inr [OF put [unfolded d] a(1)])
      (use a in simp, use a in simp, use row_unique [OF assms(1) _ a(1)] a(2) in metis)
  with a r show ?thesis unfolding given_def by metis
qed

lemma reborn_keys:
  assumes "token_keys db" "reborn v a db db'"
  shows "token_keys db'"
proof -
  obtain shown now where rows: "agent_tokens db' = map (\<lambda>b. if b = a then stamped v shown now a else b) (agent_tokens db)"
    using assms(2) unfolding reborn_def by blast
  have ids: "map at_resource (agent_tokens db') = map at_resource (agent_tokens db)"
    by (simp add: rows)
  have "inj_on verifier {b \<in> set (agent_tokens db'). verifier b \<noteq> None}"
  proof (rule inj_onI, clarsimp)
    fix x y u assume xy: "x \<in> set (agent_tokens db')" "y \<in> set (agent_tokens db')" "verifier x = Some u" "verifier y = Some u"
    then show "x = y"
      using assms(2) verifier_unique [OF assms(1), of x y u] by (auto simp: rows reborn_def split: if_splits)
  qed
  moreover have "distinct (agent_tokens db')"
    using assms(1) ids by (metis distinct_map token_keys_def)
  ultimately show ?thesis
    using assms ids by (simp add: token_keys_def reborn_def distinct_map)
qed

text \<open>After it the row is found under \<open>v\<close> and no longer under its old verifier; nothing else changes.\<close>

lemma reborn_row:
  assumes "token_keys db" "reborn v a db db'"
    and "r \<in> set (resources db)" "res_id r = at_resource a" "res_kind r = ''AgentToken''"
  shows "\<exists>shown now. bearer_row db' v = Some (stamped v shown now a, r)"
    and "w \<noteq> v \<Longrightarrow> bearer_row db' w = (if verifier a = Some w then None else bearer_row db w)"
proof -
  obtain shown now where rows: "agent_tokens db' = map (\<lambda>b. if b = a then stamped v shown now a else b) (agent_tokens db)"
    using assms(2) unfolding reborn_def by blast
  have res: "resources db' = resources db" and a: "a \<in> set (agent_tokens db)"
    using assms(2) by (simp_all add: reborn_def)
  have "bearer_row db' v = Some (stamped v shown now a, r)"
    using assms a res rows by (auto simp: bearer_row_iff [OF reborn_keys [OF assms(1,2)]])
  then show "\<exists>shown now. bearer_row db' v = Some (stamped v shown now a, r)" by blast
  show "bearer_row db' w = (if verifier a = Some w then None else bearer_row db w)" if "w \<noteq> v"
  proof (cases "verifier a = Some w")
    case True
    have "\<not> (\<exists>b\<in>set (agent_tokens db'). verifier b = Some w)"
      using verifier_unique [OF assms(1) _ a _ True] that by (auto simp: rows)
    with True show ?thesis by (auto simp: bearer_row_def split: option.split dest!: find_some)
  next
    case False
    have "find (\<lambda>b. verifier b = Some w) (map (\<lambda>b. if b = a then stamped v shown now a else b) xs) =
        find (\<lambda>b. verifier b = Some w) xs" for xs
      using False that by (induction xs) auto
    with False show ?thesis by (simp add: bearer_row_def rows res split: option.split)
  qed
qed

lemma authorized_same:
  "but_sessions db1 = but_sessions db \<Longrightarrow>
   agent_tokens db1 = agent_tokens db \<and> resources db1 = resources db \<and> routes db1 = routes db"
  by (cases db, cases db1) (simp add: but_sessions_def)

lemma issue_reborn:
  assumes "token_keys db" and "IssueSession env random now name u db = (Inr t, u', db')"
  shows "given (mu_sha env) name random t db db'"
proof -
  obtain x db1 where "but_sessions db1 = but_sessions db"
    and work: "issue_work (mu_faults env) (mu_sha env) name random now x db1 = (Inr t, db')"
    using session_authorizer.mutate_Inr [OF assms(2) [unfolded IssueSession_def ExecuteAdminMutation_def]] by blast
  then have "agent_tokens db1 = agent_tokens db" "resources db1 = resources db" "routes db1 = routes db"
    using authorized_same by blast+
  with issue_Inr [OF _ work] assms(1) show ?thesis by (simp add: token_keys_def given_def reborn_def)
qed

lemma rotate_reborn:
  assumes "token_keys db" and "RotateSession env random now name u db = (Inr t, u', db')"
  shows "given (mu_sha env) name random t db db'"
proof -
  obtain x db1 where "but_sessions db1 = but_sessions db"
    and work: "rotate_work (mu_faults env) (mu_sha env) name random now x db1 = (Inr t, db')"
    using session_authorizer.mutate_Inr [OF assms(2) [unfolded RotateSession_def ExecuteAdminMutation_def]] by blast
  then have "agent_tokens db1 = agent_tokens db" "resources db1 = resources db" "routes db1 = routes db"
    using authorized_same by blast+
  with rotate_Inr [OF _ work] assms(1) show ?thesis by (simp add: token_keys_def given_def reborn_def)
qed

lemma given_new:
  assumes "token_keys db" "given sha name (Some raw) t db db'" "length raw = 32" "\<not> fails f ''authenticate agent token''"
  shows "\<exists>a\<in>set (agent_tokens db). \<exists>r\<in>set (resources db). res_kind r = ''AgentToken'' \<and> res_name r = name
    \<and> at_resource a = res_id r \<and> revoked_at a = None
    \<and> (\<forall>now i ids. authenticateBearer f sha now (it_Token t) db' = Inr (i, ids) \<longleftrightarrow>
          i = \<lparr>ai_ResourceID = res_id r, ai_Name = name\<rparr> \<and> allowed_routes a = Some ids \<and> unexpired a now)"
proof -
  obtain a r where ar: "reborn (sha (it_Token t)) a db db'" "r \<in> set (resources db)" "res_kind r = ''AgentToken''"
      "res_name r = name" "at_resource a = res_id r" "it_Token t = agentTokenPrefix @ base64_encode raw"
    using assms(2) by (auto simp: given_def)
  have "parseAgentToken sha (it_Token t) = Some (sha (it_Token t))"
    using parse_bearer [OF assms(3)] ar(6) by simp
  moreover obtain shown now0 where "bearer_row db' (sha (it_Token t)) = Some (stamped (sha (it_Token t)) shown now0 a, r)"
    using reborn_row(1) [OF assms(1) ar(1,2) ar(5) [symmetric] ar(3)] by blast
  moreover have "a \<in> set (agent_tokens db)" "revoked_at a = None" using ar(1) by (auto simp: reborn_def)
  ultimately show ?thesis using ar assms(4) by (fastforce simp: bearer_accepted_iff)
qed

lemma given_old:
  assumes "token_keys db" "given sha name random t db db'"
    and "authenticateBearer f sha now old db = Inr (i, ids)" "sha old \<noteq> sha (it_Token t)"
  shows "authenticateBearer f sha now old db' = (if ai_Name i = name then Inl AgentTokenInvalid else Inr (i, ids))"
proof -
  obtain a r where ar: "reborn (sha (it_Token t)) a db db'" "r \<in> set (resources db)" "res_kind r = ''AgentToken''"
      "res_name r = name" "at_resource a = res_id r"
    using assms(2) by (auto simp: given_def)
  obtain b q where b: "\<not> fails f ''authenticate agent token''" "parseAgentToken sha old = Some (sha old)"
      "bearer_row db (sha old) = Some (b, q)" "i = \<lparr>ai_ResourceID = res_id q, ai_Name = res_name q\<rparr>"
    using assms(3) parse_sha unfolding bearer_accepted_iff by metis
  have bq: "b \<in> set (agent_tokens db)" "verifier b = Some (sha old)" "q \<in> set (resources db)" "res_id q = at_resource b"
      "res_kind q = ''AgentToken''"
    using b(3) bearer_row_iff [OF assms(1)] by auto
  have a: "a \<in> set (agent_tokens db)" using ar(1) by (simp add: reborn_def)
  have same: "ai_Name i = name \<longleftrightarrow> b = a"
  proof
    assume "ai_Name i = name"
    then have "(res_kind q, res_name q) = (res_kind r, res_name r)" using b(4) ar(3,4) bq(5) by simp
    moreover have "distinct (map (\<lambda>r. (res_kind r, res_name r)) (resources db))"
      using assms(1) by (simp add: token_keys_def)
    ultimately have "q = r" using distinct_map_eq bq(3) ar(2) by fastforce
    then have "at_resource b = at_resource a" using bq(4) ar(5) by simp
    with row_unique [OF assms(1) bq(1) a] show "b = a" by blast
  next
    assume "b = a"
    then have "q = r" using distinct_map_eq [of res_id "resources db" q r] assms(1) bq(3,4) ar(2,5)
      by (simp add: token_keys_def)
    with b(4) ar show "ai_Name i = name" by simp
  qed
  have "verifier a = Some (sha old) \<longleftrightarrow> b = a"
    using verifier_unique [OF assms(1) bq(1) a bq(2)] bq(2) by auto
  with reborn_row(2) [OF assms(1) ar(1,2) ar(5) [symmetric] ar(3) assms(4)] b same assms(3)
  show ?thesis by (simp add: authenticateBearer_def)
qed

text \<open>
  a bearer that was issued is accepted: after \<open>IssueSession\<close> for the agent \<open>name\<close> the returned
  bearer authenticates as that agent, with the routes stored for it, at exactly the times before its
  expiry; any other agent's bearer is accepted as it was before.
\<close>

theorem issued_bearer_works:
  assumes "token_keys db" and "IssueSession env (Some raw) now name u db = (Inr t, u', db')" and "length raw = 32"
    and "\<not> fails f ''authenticate agent token''"
  shows "\<exists>a\<in>set (agent_tokens db). \<exists>r\<in>set (resources db). res_kind r = ''AgentToken'' \<and> res_name r = name
    \<and> at_resource a = res_id r \<and> revoked_at a = None
    \<and> (\<forall>now i ids. authenticateBearer f (mu_sha env) now (it_Token t) db' = Inr (i, ids) \<longleftrightarrow>
          i = \<lparr>ai_ResourceID = res_id r, ai_Name = name\<rparr> \<and> allowed_routes a = Some ids \<and> unexpired a now)"
  using given_new [OF assms(1) issue_reborn [OF assms(1,2)] assms(3,4)] .

text \<open>
  rotation replaces a bearer: when \<open>RotateSession\<close> has returned a new bearer for the agent
  \<open>name\<close>, a bearer that was accepted before is refused if it was this agent's, and otherwise is
  accepted with the same identity and routes. A collision of SHA-256 between the two is excluded.
\<close>

theorem rotation_replaces_bearer:
  assumes "token_keys db" and "RotateSession env random now name u db = (Inr t, u', db')"
    and "authenticateBearer f (mu_sha env) now' old db = Inr (i, ids)" and "mu_sha env old \<noteq> mu_sha env (it_Token t)"
  shows "authenticateBearer f (mu_sha env) now' old db' =
    (if ai_Name i = name then Inl AgentTokenInvalid else Inr (i, ids))"
  using given_old [OF assms(1) rotate_reborn [OF assms(1,2)] assms(3,4)] .

section \<open>Revocation\<close>

text \<open>No row of the agent \<open>i\<close> is usable.\<close>

definition agent_dead :: "string \<Rightarrow> database \<Rightarrow> bool" where
  "agent_dead i db \<longleftrightarrow> (\<forall>a\<in>set (agent_tokens db). at_resource a = i \<longrightarrow> revoked_at a \<noteq> None)"

lemma dead_sessions: "but_sessions d = but_sessions d' \<Longrightarrow> agent_dead i d \<Longrightarrow> agent_dead i d'"
  using authorized_same [of d d'] by (simp add: agent_dead_def)

lemma put_bearer_dead:
  "put_bearer f sha site act m res row random now actor db = (Inr t, db') \<Longrightarrow> agent_dead i db \<Longrightarrow> agent_dead i db'"
  by (auto simp: put_bearer_def step_elims set_verifier_Inr agent_dead_def dest!: audit_frame_Inr)

lemma issue_dead:
  assumes "agent_dead i db" "issue_work f sha name random now actor db = (Inr t, db')" shows "agent_dead i db'"
proof -
  from assms(2) obtain res row m d1 d2 where "GetResourceTx f ''AgentToken'' name db = (Inr res, d1)"
    "readAgentTokenRow f (rs_ID res) d1 = (Inr row, d2)"
    and put: "put_bearer f sha ''issue agent token'' ''agent_token.issue'' m res row random now actor d2 = (Inr t, db')"
    unfolding issue_work_def step_elims by blast
  then have "d2 = db" by (auto dest!: get_Inr read_row_Inr)
  with put_bearer_dead [OF put] assms(1) show ?thesis by simp
qed

lemma rotate_dead:
  assumes "agent_dead i db" "rotate_work f sha name random now actor db = (Inr t, db')" shows "agent_dead i db'"
proof -
  from assms(2) obtain res row m d1 d2 where "GetResourceTx f ''AgentToken'' name db = (Inr res, d1)"
    "readAgentTokenRow f (rs_ID res) d1 = (Inr row, d2)"
    and put: "put_bearer f sha ''rotate agent token'' ''agent_token.rotate'' m res row random now actor d2 = (Inr t, db')"
    unfolding rotate_work_def step_elims by blast
  then have "d2 = db" by (auto dest!: get_Inr read_row_Inr)
  with put_bearer_dead [OF put] assms(1) show ?thesis by simp
qed

lemma revoke_rows:
  assumes "revoke_work f name now actor db = (Inr t, db')"
  shows "\<exists>r\<in>set (resources db). res_kind r = ''AgentToken'' \<and> res_name r = name \<and>
    (db' = db \<and> (\<exists>a\<in>set (agent_tokens db). at_resource a = res_id r \<and> revoked_at a \<noteq> None)
     \<or> agent_tokens db' = map (\<lambda>a. if at_resource a = res_id r \<and> revoked_at a = None
                            then a\<lparr>revoked_at := Some (Some now)\<rparr> else a) (agent_tokens db))"
proof -
  from assms obtain res row d1 d2 where get: "GetResourceTx f ''AgentToken'' name db = (Inr res, d1)"
    and read: "readAgentTokenRow f (rs_ID res) d1 = (Inr row, d2)"
    and tail: "revoke_row f res row now actor d2 = (Inr t, db')"
    unfolding revoke_work_def step_elims by blast
  have d: "d1 = db" "d2 = db" using get_Inr [OF get] read_row_Inr [OF read] by auto
  have rest: "rw_revokedAt row \<noteq> None \<and> db' = db \<or>
      agent_tokens db' = map (\<lambda>a. if at_resource a = rs_ID res \<and> revoked_at a = None
                            then a\<lparr>revoked_at := Some (Some now)\<rparr> else a) (agent_tokens db)"
    using tail unfolding d revoke_row_def
    by (auto simp: step_elims update_where_def split: if_splits dest!: audit_frame_Inr)
  obtain r where r: "r \<in> set (resources db)" "res_kind r = ''AgentToken''" "res_name r = name" "rs_ID res = res_id r"
    using get_Inr [OF get] by blast
  with rest read_row_Inr [OF read] show ?thesis by (auto simp: d)
qed

lemma revoke_dead: "agent_dead i db \<Longrightarrow> revoke_work f name now actor db = (Inr t, db') \<Longrightarrow> agent_dead i db'"
  by (drule revoke_rows) (auto simp: agent_dead_def)

lemma revoke_kills:
  assumes "token_keys db" "revoke_work f name now actor db = (Inr t, db')"
    and "r \<in> set (resources db)" "res_kind r = ''AgentToken''" "res_name r = name"
  shows "agent_dead (res_id r) db'"
proof -
  obtain q where q: "q \<in> set (resources db)" "res_kind q = ''AgentToken''" "res_name q = name"
    and rest: "db' = db \<and> (\<exists>a\<in>set (agent_tokens db). at_resource a = res_id q \<and> revoked_at a \<noteq> None)
     \<or> agent_tokens db' = map (\<lambda>a. if at_resource a = res_id q \<and> revoked_at a = None
                            then a\<lparr>revoked_at := Some (Some now)\<rparr> else a) (agent_tokens db)"
    using revoke_rows [OF assms(2)] by blast
  have "(\<lambda>r. (res_kind r, res_name r)) q = (\<lambda>r. (res_kind r, res_name r)) r" using q assms by simp
  then have "q = r"
    using assms(1) unfolding token_keys_def by (metis distinct_map_eq q(1) assms(3))
  with rest show ?thesis
    using row_unique [OF assms(1)] by (fastforce simp: agent_dead_def)
qed

text \<open>
  The history of an agent \<open>i\<close>: the operations on bearers, whatever they return, and any other change
  of the installation that does not bring a row of \<open>i\<close> back.
\<close>

inductive agent_steps :: "string \<Rightarrow> database \<Rightarrow> database \<Rightarrow> bool" for i where
  start: "agent_steps i db db"
| issue: "agent_steps i db d1 \<Longrightarrow> IssueSession env random now name u d1 = (x, u', d2) \<Longrightarrow> agent_steps i db d2"
| rotate: "agent_steps i db d1 \<Longrightarrow> RotateSession env random now name u d1 = (x, u', d2) \<Longrightarrow> agent_steps i db d2"
| revoke: "agent_steps i db d1 \<Longrightarrow> RevokeSession env now name u d1 = (y, u', d2) \<Longrightarrow> agent_steps i db d2"
| other: "agent_steps i db d1 \<Longrightarrow> (agent_dead i d1 \<Longrightarrow> agent_dead i d2) \<Longrightarrow> agent_steps i db d2"

lemma mutation_keeps:
  assumes "ExecuteAdminMutation env work u db = (r, u', db')" "agent_dead i db"
    and "\<And>x d a d'. agent_dead i d \<Longrightarrow> work x d = (Inr a, d') \<Longrightarrow> agent_dead i d'"
  shows "agent_dead i db'"
  by (rule session_authorizer.mutate_invariant [where P = "agent_dead i", OF assms(1) [unfolded ExecuteAdminMutation_def]])
     (use assms(2,3) dead_sessions in blast)+

lemma agent_steps_dead: "agent_steps i db db' \<Longrightarrow> agent_dead i db \<Longrightarrow> agent_dead i db'"
proof (induction rule: agent_steps.induct)
  case (issue db d1 env random now name u x u' d2)
  then show ?case
    by (intro mutation_keeps [OF issue.hyps(2) [unfolded IssueSession_def] issue.IH]) (simp, rule issue_dead)
next
  case (rotate db d1 env random now name u x u' d2)
  then show ?case
    by (intro mutation_keeps [OF rotate.hyps(2) [unfolded RotateSession_def] rotate.IH]) (simp, rule rotate_dead)
next
  case (revoke db d1 env now name u y u' d2)
  then show ?case
    by (intro mutation_keeps [OF revoke.hyps(2) [unfolded RevokeSession_def] revoke.IH]) (simp, rule revoke_dead)
qed auto

lemma dead_refused:
  assumes "agent_dead i db" "authenticateBearer f sha now bearer db = Inr (ident, ids)"
  shows "ai_ResourceID ident \<noteq> i"
proof -
  obtain v a r where row: "bearer_row db v = Some (a, r)" "revoked_at a = None" "ident = \<lparr>ai_ResourceID = res_id r, ai_Name = res_name r\<rparr>"
    using assms(2) unfolding bearer_accepted_iff by blast
  then have "a \<in> set (agent_tokens db)" "res_id r = at_resource a"
    by (auto simp: bearer_row_def split: option.splits dest!: find_some)
  with assms(1) row show ?thesis by (auto simp: agent_dead_def)
qed

text \<open>
  C19: revocation is final: once \<open>RevokeSession\<close> succeeded for an agent, no bearer whatever is ever
  accepted as that agent again, after any further sequence of issuing, rotating and revoking, and of
  other changes that do not clear a revocation.
\<close>

theorem revoked_agent_stays_out:
  assumes "token_keys db" and "RevokeSession env now name u db = (Inr (), u', db1)"
    and "r \<in> set (resources db)" and "res_kind r = ''AgentToken''" and "res_name r = name"
    and "agent_steps (res_id r) db1 db2"
  shows "\<not> (\<exists>f sha t bearer ident ids. authenticateBearer f sha t bearer db2 = Inr (ident, ids) \<and> ai_ResourceID ident = res_id r)"
proof -
  obtain x d where "but_sessions d = but_sessions db" and work: "revoke_work (mu_faults env) name now x d = (Inr (), db1)"
    using session_authorizer.mutate_Inr [OF assms(2) [unfolded RevokeSession_def ExecuteAdminMutation_def]] by blast
  then have "agent_tokens d = agent_tokens db" "resources d = resources db" using authorized_same by blast+
  then have "agent_dead (res_id r) db1" using revoke_kills [OF _ work] assms(1,3-5) by (simp add: token_keys_def)
  then show ?thesis using agent_steps_dead [OF assms(6)] dead_refused by blast
qed

section \<open>A run\<close>

definition agent_sha :: "bytes \<Rightarrow> bytes" where
  "agent_sha s = (if length s = 43 then replicate 32 CHR ''h'' else s)"

definition agent_env :: mutation_env where
  "agent_env = sample_mutation\<lparr>mu_sha := agent_sha\<rparr>"

definition agent_db :: database where
  "agent_db = sample_db\<lparr>admin_sessions := [sample_session\<lparr>csrf_hash := replicate 32 CHR ''h''\<rparr>],
     resources := [\<lparr>res_id = ''r1'', res_kind = ''AgentToken'', res_name = ''agent'', res_display = None,
        res_description = None, res_version = 1, res_spec = ''{}'', res_created = Some 1, res_updated = Some 1\<rparr>],
     agent_tokens := [\<lparr>at_resource = ''r1'', verifier = None, token_prefix = None, issued_at = None,
        expires_at = Some (Some 1000), revoked_at = None, allowed_routes = Some [''route1'']\<rparr>]\<rparr>"

definition bearer_of :: "char \<Rightarrow> string" where
  "bearer_of c = agentTokenPrefix @ base64_encode (replicate 32 c)"

lemma bearer_of: "agent_sha (bearer_of c) = bearer_of c" "bearer_of c = bearer_of d \<longleftrightarrow> c = d"
  by (simp_all add: agent_sha_def bearer_of_def agentTokenPrefix_def length_base64_encode)

lemma sample_decode: "decodeAdminToken agent_sha sample_token = Inr (replicate 32 CHR ''h'')"
  by (simp add: decodeAdminToken_def sample_token_def length_base64_encode adminTokenBytes_def agent_sha_def)

lemma sample_authorized:
  assumes "admin_users db = [sample_user]"
    and "admin_sessions db = [sample_session\<lparr>csrf_hash := replicate 32 CHR ''h'', last_seen := Some t\<rparr>]" and "t \<in> {5..100}"
  shows "authorize_session agent_env db =
    (Inr \<lparr>actor_Type = ''admin'', actor_ID = ''a''\<rparr>,
     db\<lparr>admin_sessions := [sample_session\<lparr>csrf_hash := replicate 32 CHR ''h'', last_seen := Some 100\<rparr>]\<rparr>)"
  using assms
  by (simp add: authorize_session_def map_error_def AuthorizeAdminMutationTx_def useAdminSessionTx_def bind_step_def
      agent_env_def sample_mutation_def sample_decode readLiveSession_def no_faults_def sample_session_def sample_user_def
      check_row_def sha256_size_def guard_def validCSRF_def update_session_def update_where_def activity_def)

lemma agent_mutation:
  assumes "admin_users db = [sample_user]"
    and "admin_sessions db = [sample_session\<lparr>csrf_hash := replicate 32 CHR ''h'', last_seen := Some t\<rparr>]" and "t \<in> {5..100}"
    and "work \<lparr>actor_Type = ''admin'', actor_ID = ''a''\<rparr>
      (db\<lparr>admin_sessions := [sample_session\<lparr>csrf_hash := replicate 32 CHR ''h'', last_seen := Some 100\<rparr>]\<rparr>) = (Inr a, db')"
  shows "ExecuteAdminMutation agent_env work False db = (Inr a, False, db')"
  using sample_authorized [OF assms(1-3)] assms(4)
  by (simp add: ExecuteAdminMutation_def mutate_def bind_step_def agent_env_def sample_mutation_def no_faults_def)

definition agent_row_with :: "string \<Rightarrow> time \<Rightarrow> agent_token" where
  "agent_row_with bearer now = stamped bearer (take 17 bearer) now (hd (agent_tokens agent_db))"

definition agent_state :: "agent_token \<Rightarrow> time \<Rightarrow> database \<Rightarrow> bool" where
  "agent_state row t db \<longleftrightarrow> resources db = resources agent_db \<and> agent_tokens db = [row] \<and> admin_users db = [sample_user]
     \<and> admin_sessions db = [sample_session\<lparr>csrf_hash := replicate 32 CHR ''h'', last_seen := Some t\<rparr>]"

lemma agent_state_start: "agent_state (hd (agent_tokens agent_db)) 6 agent_db"
  by (simp add: agent_state_def agent_db_def sample_db_def sample_session_def)

lemmas agent_work_defs = bind_step_def GetResourceTx_def readAgentTokenRow_def no_faults_def guard_def agent_db_def
  scanResource_def named_def scanAgentTokenRow_def parse_optional_def row_expired_def put_bearer_def generateAgentToken_def
  Let_def set_verifier_def update_where_def insertAudit_def agent_row_with_def stamped_def agent_state_def

lemma issue_run:
  "\<exists>t db'. IssueSession agent_env (Some (replicate 32 CHR ''a'')) 100 ''agent'' False agent_db = (Inr t, False, db')
     \<and> it_Token t = bearer_of CHR ''a'' \<and> agent_state (agent_row_with (bearer_of CHR ''a'') 100) 100 db'"
proof -
  let ?db = "agent_db\<lparr>admin_sessions := [sample_session\<lparr>csrf_hash := replicate 32 CHR ''h'', last_seen := Some 100\<rparr>]\<rparr>"
  have "\<exists>t db'. issue_work no_faults agent_sha ''agent'' (Some (replicate 32 CHR ''a'')) 100 \<lparr>actor_Type = ''admin'', actor_ID = ''a''\<rparr> ?db
      = (Inr t, db') \<and> it_Token t = bearer_of CHR ''a'' \<and> agent_state (agent_row_with (bearer_of CHR ''a'') 100) 100 db'"
    using bearer_of [of "CHR ''a''"]
    by (simp add: issue_work_def agent_work_defs bearer_of_def sample_db_def agentTokenPrefix_def)
  then obtain t db' where work: "issue_work no_faults agent_sha ''agent'' (Some (replicate 32 CHR ''a'')) 100
      \<lparr>actor_Type = ''admin'', actor_ID = ''a''\<rparr> ?db = (Inr t, db')"
    and rest: "it_Token t = bearer_of CHR ''a''" "agent_state (agent_row_with (bearer_of CHR ''a'') 100) 100 db'" by blast
  have "IssueSession agent_env (Some (replicate 32 CHR ''a'')) 100 ''agent'' False agent_db = (Inr t, False, db')"
    unfolding IssueSession_def
    by (rule agent_mutation [where t = 6]) (use agent_state_start work in \<open>simp_all add: agent_state_def agent_env_def sample_mutation_def\<close>)
  with rest show ?thesis by blast
qed

lemma rotate_run:
  assumes "agent_state (agent_row_with (bearer_of CHR ''a'') 100) 100 db"
  shows "\<exists>t db'. RotateSession agent_env (Some (replicate 32 CHR ''b'')) 101 ''agent'' False db = (Inr t, False, db')
     \<and> it_Token t = bearer_of CHR ''b''"
proof -
  let ?db = "db\<lparr>admin_sessions := [sample_session\<lparr>csrf_hash := replicate 32 CHR ''h'', last_seen := Some 100\<rparr>]\<rparr>"
  have "\<exists>t db'. rotate_work no_faults agent_sha ''agent'' (Some (replicate 32 CHR ''b'')) 101 \<lparr>actor_Type = ''admin'', actor_ID = ''a''\<rparr> ?db
      = (Inr t, db') \<and> it_Token t = bearer_of CHR ''b''"
    using assms bearer_of [of "CHR ''b''"]
    by (simp add: rotate_work_def agent_work_defs bearer_of_def sample_db_def)
  then obtain t db' where work: "rotate_work no_faults agent_sha ''agent'' (Some (replicate 32 CHR ''b'')) 101
      \<lparr>actor_Type = ''admin'', actor_ID = ''a''\<rparr> ?db = (Inr t, db')"
    and rest: "it_Token t = bearer_of CHR ''b''" by blast
  have "RotateSession agent_env (Some (replicate 32 CHR ''b'')) 101 ''agent'' False db = (Inr t, False, db')"
    unfolding RotateSession_def
    by (rule agent_mutation [where t = 100]) (use assms work in \<open>simp_all add: agent_state_def agent_env_def sample_mutation_def\<close>)
  with rest show ?thesis by blast
qed

lemma agent_keys: "agent_state row t db \<Longrightarrow> token_keys db"
  by (simp add: agent_state_def token_keys_def agent_db_def)

theorem issued_bearer_works_witness:
  "\<exists>t db'. IssueSession agent_env (Some (replicate 32 CHR ''a'')) 100 ''agent'' False agent_db = (Inr t, False, db')
     \<and> (\<exists>i. authenticateBearer no_faults agent_sha 500 (it_Token t) db' = Inr (i, [''route1'']) \<and> ai_Name i = ''agent'')"
proof -
  obtain t db' where run: "IssueSession agent_env (Some (replicate 32 CHR ''a'')) 100 ''agent'' False agent_db = (Inr t, False, db')"
    using issue_run by blast
  show ?thesis
    using issued_bearer_works [OF agent_keys [OF agent_state_start] run, of no_faults] run
    by (auto simp: no_faults_def agent_env_def agent_db_def unexpired_def)
qed

theorem rotation_replaces_bearer_witness:
  "\<exists>t db t' db'. IssueSession agent_env (Some (replicate 32 CHR ''a'')) 100 ''agent'' False agent_db = (Inr t, False, db)
     \<and> RotateSession agent_env (Some (replicate 32 CHR ''b'')) 101 ''agent'' False db = (Inr t', False, db')
     \<and> authenticateBearer no_faults agent_sha 102 (it_Token t) db' = Inl AgentTokenInvalid"
proof -
  obtain t db where run: "IssueSession agent_env (Some (replicate 32 CHR ''a'')) 100 ''agent'' False agent_db = (Inr t, False, db)"
    and t: "it_Token t = bearer_of CHR ''a''" and st: "agent_state (agent_row_with (bearer_of CHR ''a'') 100) 100 db"
    using issue_run by blast
  obtain t' db' where run': "RotateSession agent_env (Some (replicate 32 CHR ''b'')) 101 ''agent'' False db = (Inr t', False, db')"
    and t': "it_Token t' = bearer_of CHR ''b''" using rotate_run [OF st] by blast
  have sha: "mu_sha agent_env = agent_sha" by (simp add: agent_env_def)
  have "authenticateBearer no_faults agent_sha 102 (it_Token t) db = Inr (\<lparr>ai_ResourceID = ''r1'', ai_Name = ''agent''\<rparr>, [''route1''])"
    using st parse_bearer [of "replicate 32 CHR ''a''" agent_sha, folded bearer_of_def]
    by (simp add: bearer_accepted_iff t bearer_of bearer_row_def agent_state_def agent_row_with_def agent_db_def unexpired_def no_faults_def)
  from rotation_replaces_bearer [OF agent_keys [OF st] run' this [folded sha]] run run' show ?thesis
    by (auto simp: t t' sha bearer_of)
qed

theorem revoked_agent_stays_out_witness:
  "\<exists>u db'. RevokeSession agent_env 100 ''agent'' False agent_db = (Inr (), u, db')
     \<and> \<not> (\<exists>f sha t bearer ident ids. authenticateBearer f sha t bearer db' = Inr (ident, ids) \<and> ai_ResourceID ident = ''r1'')"
proof -
  let ?db = "agent_db\<lparr>admin_sessions := [sample_session\<lparr>csrf_hash := replicate 32 CHR ''h'', last_seen := Some 100\<rparr>]\<rparr>"
  obtain db' where work: "revoke_work no_faults ''agent'' 100 \<lparr>actor_Type = ''admin'', actor_ID = ''a''\<rparr> ?db = (Inr (), db')"
    by (simp add: revoke_work_def revoke_row_def agent_work_defs)
  have run: "RevokeSession agent_env 100 ''agent'' False agent_db = (Inr (), False, db')"
    unfolding RevokeSession_def
    by (rule agent_mutation [where t = 6]) (use agent_state_start work in \<open>simp_all add: agent_state_def agent_env_def sample_mutation_def\<close>)
  from revoked_agent_stays_out [OF agent_keys [OF agent_state_start] run _ _ _ agent_steps.start, of "hd (resources agent_db)"] run
  show ?thesis by (auto simp: agent_db_def)
qed

end
