(* ===== verification/Graph.thy ===== *)
theory Graph
  imports AgentToken GoDecode
begin

text \<open>
  The configuration graph of \<open>internal/storage/repository.go\<close>: the specs of the resource kinds as
  \<open>decodeSpec\<close> reads them, and the statements on the typed tables with the constraints and triggers
  of \<open>migrations/0001_initial.sql\<close>. An error of a statement is the one \<open>mapConstraint\<close> makes of it. Where an
  upsert finds its row, the row is updated; the insert's other constraints are not consulted then.
\<close>

section \<open>Specs\<close>

type_synonym reference = string

definition dec_reference :: "reference dec" where
  "dec_reference = dec_struct False [''name''] (\<lambda>n r v. dec_string r v)"

record provider_account_spec =
  sa_ProviderRef :: reference

record provider_connection_spec =
  sc_ProviderRef :: reference
  sc_BaseURL :: string
  sc_AllowPrivate :: bool
  sc_Enabled :: bool

record credential_spec =
  sk_ProviderAccountRef :: reference
  sk_EgressRef :: reference
  sk_SecretRef :: reference
  sk_Enabled :: bool

record egress_spec =
  sg_Type :: string
  sg_Enabled :: bool

record model_spec =
  sm_ConnectionRef :: reference
  sm_ProviderModelID :: string
  sm_Capabilities :: "string slice"
  sm_Enabled :: bool

record destination_spec =
  sd_ModelRef :: reference
  sd_CredentialRef :: reference
  sd_Weight :: int
  sd_Enabled :: bool

record strategy_spec =
  ss_Destinations :: "reference slice"

record route_spec =
  sr_ModelAlias :: string
  sr_StrategyRef :: reference
  sr_Enabled :: bool

record agent_token_spec =
  st_AllowedRoutes :: "reference slice"
  st_ExpiresAt :: "string option"
  st_Enabled :: bool

definition dec_account_spec :: "provider_account_spec dec" where
  "dec_account_spec = dec_struct False [''providerRef'']
     (\<lambda>n r v. map_option (\<lambda>x. r\<lparr>sa_ProviderRef := x\<rparr>) (dec_reference (sa_ProviderRef r) v))"

definition dec_connection_spec :: "provider_connection_spec dec" where
  "dec_connection_spec = dec_struct False [''providerRef'', ''baseUrl'', ''allowPrivateNetwork'', ''enabled'']
     (\<lambda>n r v. if n = ''providerRef'' then map_option (\<lambda>x. r\<lparr>sc_ProviderRef := x\<rparr>) (dec_reference (sc_ProviderRef r) v)
              else if n = ''baseUrl'' then map_option (\<lambda>x. r\<lparr>sc_BaseURL := x\<rparr>) (dec_string (sc_BaseURL r) v)
              else if n = ''allowPrivateNetwork'' then map_option (\<lambda>x. r\<lparr>sc_AllowPrivate := x\<rparr>) (dec_bool (sc_AllowPrivate r) v)
              else map_option (\<lambda>x. r\<lparr>sc_Enabled := x\<rparr>) (dec_bool (sc_Enabled r) v))"

definition dec_credential_spec :: "credential_spec dec" where
  "dec_credential_spec = dec_struct False [''providerAccountRef'', ''egressRef'', ''secretRef'', ''enabled'']
     (\<lambda>n r v. if n = ''providerAccountRef'' then map_option (\<lambda>x. r\<lparr>sk_ProviderAccountRef := x\<rparr>) (dec_reference (sk_ProviderAccountRef r) v)
              else if n = ''egressRef'' then map_option (\<lambda>x. r\<lparr>sk_EgressRef := x\<rparr>) (dec_reference (sk_EgressRef r) v)
              else if n = ''secretRef'' then map_option (\<lambda>x. r\<lparr>sk_SecretRef := x\<rparr>) (dec_reference (sk_SecretRef r) v)
              else map_option (\<lambda>x. r\<lparr>sk_Enabled := x\<rparr>) (dec_bool (sk_Enabled r) v))"

definition dec_egress_spec :: "egress_spec dec" where
  "dec_egress_spec = dec_struct False [''type'', ''enabled'']
     (\<lambda>n r v. if n = ''type'' then map_option (\<lambda>x. r\<lparr>sg_Type := x\<rparr>) (dec_string (sg_Type r) v)
              else map_option (\<lambda>x. r\<lparr>sg_Enabled := x\<rparr>) (dec_bool (sg_Enabled r) v))"

definition dec_model_spec :: "model_spec dec" where
  "dec_model_spec = dec_struct False [''connectionRef'', ''providerModelId'', ''capabilities'', ''enabled'']
     (\<lambda>n r v. if n = ''connectionRef'' then map_option (\<lambda>x. r\<lparr>sm_ConnectionRef := x\<rparr>) (dec_reference (sm_ConnectionRef r) v)
              else if n = ''providerModelId'' then map_option (\<lambda>x. r\<lparr>sm_ProviderModelID := x\<rparr>) (dec_string (sm_ProviderModelID r) v)
              else if n = ''capabilities'' then map_option (\<lambda>x. r\<lparr>sm_Capabilities := x\<rparr>) (dec_slice [] dec_string (sm_Capabilities r) v)
              else map_option (\<lambda>x. r\<lparr>sm_Enabled := x\<rparr>) (dec_bool (sm_Enabled r) v))"

definition dec_destination_spec :: "destination_spec dec" where
  "dec_destination_spec = dec_struct False [''modelRef'', ''credentialRef'', ''weight'', ''enabled'']
     (\<lambda>n r v. if n = ''modelRef'' then map_option (\<lambda>x. r\<lparr>sd_ModelRef := x\<rparr>) (dec_reference (sd_ModelRef r) v)
              else if n = ''credentialRef'' then map_option (\<lambda>x. r\<lparr>sd_CredentialRef := x\<rparr>) (dec_reference (sd_CredentialRef r) v)
              else if n = ''weight'' then map_option (\<lambda>x. r\<lparr>sd_Weight := x\<rparr>) (dec_int (sd_Weight r) v)
              else map_option (\<lambda>x. r\<lparr>sd_Enabled := x\<rparr>) (dec_bool (sd_Enabled r) v))"

definition dec_strategy_spec :: "strategy_spec dec" where
  "dec_strategy_spec = dec_struct False [''destinations'']
     (\<lambda>n r v. map_option (\<lambda>x. r\<lparr>ss_Destinations := x\<rparr>) (dec_slice [] dec_reference (ss_Destinations r) v))"

definition dec_route_spec :: "route_spec dec" where
  "dec_route_spec = dec_struct False [''modelAlias'', ''strategyRef'', ''enabled'']
     (\<lambda>n r v. if n = ''modelAlias'' then map_option (\<lambda>x. r\<lparr>sr_ModelAlias := x\<rparr>) (dec_string (sr_ModelAlias r) v)
              else if n = ''strategyRef'' then map_option (\<lambda>x. r\<lparr>sr_StrategyRef := x\<rparr>) (dec_reference (sr_StrategyRef r) v)
              else map_option (\<lambda>x. r\<lparr>sr_Enabled := x\<rparr>) (dec_bool (sr_Enabled r) v))"

definition dec_agent_spec :: "agent_token_spec dec" where
  "dec_agent_spec = dec_struct False [''allowedRouteRefs'', ''expiresAt'', ''enabled'']
     (\<lambda>n r v. if n = ''allowedRouteRefs'' then map_option (\<lambda>x. r\<lparr>st_AllowedRoutes := x\<rparr>) (dec_slice [] dec_reference (st_AllowedRoutes r) v)
              else if n = ''expiresAt'' then map_option (\<lambda>x. r\<lparr>st_ExpiresAt := x\<rparr>) (dec_ptr [] dec_string (st_ExpiresAt r) v)
              else map_option (\<lambda>x. r\<lparr>st_Enabled := x\<rparr>) (dec_bool (st_Enabled r) v))"

abbreviation invalid_resource :: mutation_error where "invalid_resource \<equiv> MutationCode ''invalid_resource''"
abbreviation reference_missing :: mutation_error where "reference_missing \<equiv> MutationCode ''reference_not_found''"
abbreviation resource_in_use :: mutation_error where "resource_in_use \<equiv> MutationCode ''resource_in_use''"
abbreviation version_conflict :: mutation_error where "version_conflict \<equiv> MutationCode ''version_conflict''"

definition decodeSpec :: "'a dec \<Rightarrow> 'a \<Rightarrow> string \<Rightarrow> mutation_error + 'a" where
  "decodeSpec dec zero raw =
     (case parse_doc (lex raw) of
        None \<Rightarrow> Inl invalid_resource
      | Some v \<Rightarrow> (case dec zero v of None \<Rightarrow> Inl invalid_resource | Some s \<Rightarrow> Inr s))"

section \<open>Statements on the typed tables\<close>

type_synonym statement = "database \<Rightarrow> mutation_error + database"

definition has :: "('r \<Rightarrow> string) \<Rightarrow> 'r list \<Rightarrow> string \<Rightarrow> bool" where
  "has key rows rid \<longleftrightarrow> (\<exists>r\<in>set rows. key r = rid)"

definition row_of :: "('r \<Rightarrow> string) \<Rightarrow> 'r list \<Rightarrow> string \<Rightarrow> 'r option" where
  "row_of key rows rid = find (\<lambda>r. key r = rid) rows"

text \<open>\<open>UPDATE ... WHERE resource_id=?\<close>, and a foreign key that has to hold after a statement.\<close>

definition set_row :: "('r \<Rightarrow> string) \<Rightarrow> string \<Rightarrow> ('r \<Rightarrow> 'r) \<Rightarrow> 'r list \<Rightarrow> 'r list" where
  "set_row key rid f rows = map (\<lambda>r. if key r = rid then f r else r) rows"

definition fk :: "bool \<Rightarrow> mutation_error + 'a \<Rightarrow> mutation_error + 'a" where
  "fk b k = check b reference_missing k"

definition account_used :: "database \<Rightarrow> string \<Rightarrow> bool" where
  "account_used db rid \<longleftrightarrow> (\<exists>c\<in>set (credential_rows db). cd_account c = rid
     \<and> (\<exists>d\<in>set (destination_rows db). dn_credential d = cd_resource c))"

definition connection_used :: "database \<Rightarrow> string \<Rightarrow> bool" where
  "connection_used db rid \<longleftrightarrow> (\<exists>m\<in>set (model_rows db). md_connection m = rid
     \<and> (\<exists>d\<in>set (destination_rows db). dn_model d = md_resource m))"

definition put_account :: "string \<Rightarrow> string \<Rightarrow> statement" where
  "put_account rid provider db =
     (case row_of pa_resource (provider_accounts db) rid of
        None \<Rightarrow>
          fk (has res_id (resources db) provider)
            (Inr (db\<lparr>provider_accounts := provider_accounts db @ [\<lparr>pa_resource = rid, pa_provider = provider\<rparr>]\<rparr>))
      | Some a \<Rightarrow>
          if pa_provider a = provider then Inr db
          else check (\<not> account_used db rid) resource_in_use
            (fk (has res_id (resources db) provider)
              (Inr (db\<lparr>provider_accounts := set_row pa_resource rid (\<lambda>a. a\<lparr>pa_provider := provider\<rparr>) (provider_accounts db)\<rparr>))))"

definition put_connection :: "string \<Rightarrow> string \<Rightarrow> string \<Rightarrow> bool \<Rightarrow> bool \<Rightarrow> statement" where
  "put_connection rid provider url priv enabled db =
     (case row_of pn_resource (provider_connections db) rid of
        None \<Rightarrow>
          fk (has res_id (resources db) provider)
            (Inr (db\<lparr>provider_connections := provider_connections db @
               [\<lparr>pn_resource = rid, pn_provider = provider, pn_base_url = url, pn_private = priv, pn_enabled = enabled\<rparr>]\<rparr>))
      | Some c \<Rightarrow>
          let db1 = db\<lparr>provider_connections := set_row pn_resource rid
                (\<lambda>c. c\<lparr>pn_base_url := url, pn_private := priv, pn_enabled := enabled\<rparr>) (provider_connections db)\<rparr>
          in if pn_provider c = provider then Inr db1
             else check (\<not> connection_used db rid) resource_in_use
               (fk (has res_id (resources db) provider)
                 (Inr (db1\<lparr>provider_connections := set_row pn_resource rid (\<lambda>c. c\<lparr>pn_provider := provider\<rparr>)
                        (provider_connections db1)\<rparr>))))"

definition put_egress :: "string \<Rightarrow> string \<Rightarrow> bool \<Rightarrow> statement" where
  "put_egress rid kind enabled db =
     check (kind = ''direct'') (MutationFailed ''check egress_type'')
       (Inr (db\<lparr>egresses :=
          (if has eg_resource (egresses db) rid
           then set_row eg_resource rid (\<lambda>e. e\<lparr>eg_type := kind, eg_enabled := enabled\<rparr>) (egresses db)
           else egresses db @ [\<lparr>eg_resource = rid, eg_type = kind, eg_enabled = enabled\<rparr>])\<rparr>))"

definition put_credential :: "string \<Rightarrow> string \<Rightarrow> string \<Rightarrow> string \<Rightarrow> string \<Rightarrow> statement" where
  "put_credential rid account egress secret status db =
     (let refs = (\<lambda>k. fk (has eg_resource (egresses db) egress \<and> has se_id (secret_rows db) secret) k)
      in case row_of cd_resource (credential_rows db) rid of
        None \<Rightarrow>
          refs (fk (has pa_resource (provider_accounts db) account)
            (Inr (db\<lparr>credential_rows := credential_rows db @
               [\<lparr>cd_resource = rid, cd_account = account, cd_egress = egress, cd_secret = secret, cd_status = status,
                 cd_blocked = None\<rparr>]\<rparr>)))
      | Some c \<Rightarrow>
          refs (let db1 = db\<lparr>credential_rows := set_row cd_resource rid
                      (\<lambda>c. c\<lparr>cd_egress := egress, cd_secret := secret, cd_status := status, cd_blocked := None\<rparr>) (credential_rows db)\<rparr>
            in if cd_account c = account then Inr db1
               else check (\<not> (\<exists>d\<in>set (destination_rows db). dn_credential d = rid)) resource_in_use
                 (fk (has pa_resource (provider_accounts db) account)
                   (Inr (db1\<lparr>credential_rows := set_row cd_resource rid (\<lambda>c. c\<lparr>cd_account := account\<rparr>)
                          (credential_rows db1)\<rparr>)))))"

definition model_taken :: "database \<Rightarrow> string \<Rightarrow> string \<Rightarrow> string \<Rightarrow> bool" where
  "model_taken db rid connection model \<longleftrightarrow>
     (\<exists>m\<in>set (model_rows db). md_resource m \<noteq> rid \<and> md_connection m = connection \<and> md_model m = model)"

definition put_model :: "string \<Rightarrow> string \<Rightarrow> string \<Rightarrow> string list \<Rightarrow> bool \<Rightarrow> statement" where
  "put_model rid connection model capabilities enabled db =
     (case row_of md_resource (model_rows db) rid of
        None \<Rightarrow>
          check (\<not> model_taken db rid connection model) already_exists
            (fk (has pn_resource (provider_connections db) connection)
              (Inr (db\<lparr>model_rows := model_rows db @
                 [\<lparr>md_resource = rid, md_connection = connection, md_model = model, md_capabilities = Some capabilities,
                   md_enabled = enabled\<rparr>]\<rparr>)))
      | Some m \<Rightarrow>
          check (\<not> model_taken db rid (md_connection m) model) already_exists
            (let db1 = db\<lparr>model_rows := set_row md_resource rid
                  (\<lambda>m. m\<lparr>md_model := model, md_capabilities := Some capabilities, md_enabled := enabled\<rparr>) (model_rows db)\<rparr>
             in if md_connection m = connection then Inr db1
                else check (\<not> (\<exists>d\<in>set (destination_rows db). dn_model d = rid)) resource_in_use
                  (check (\<not> model_taken db1 rid connection model) already_exists
                    (fk (has pn_resource (provider_connections db) connection)
                      (Inr (db1\<lparr>model_rows := set_row md_resource rid (\<lambda>m. m\<lparr>md_connection := connection\<rparr>) (model_rows db1)\<rparr>))))))"

text \<open>The trigger \<open>destinations_provider_match\<close>; a provider that is not found compares to \<open>NULL\<close>.\<close>

definition provider_of_credential :: "database \<Rightarrow> string \<Rightarrow> string option" where
  "provider_of_credential db c =
     (case row_of cd_resource (credential_rows db) c of
        None \<Rightarrow> None
      | Some row \<Rightarrow> map_option pa_provider (row_of pa_resource (provider_accounts db) (cd_account row)))"

definition provider_of_model :: "database \<Rightarrow> string \<Rightarrow> string option" where
  "provider_of_model db m =
     (case row_of md_resource (model_rows db) m of
        None \<Rightarrow> None
      | Some row \<Rightarrow> map_option pn_provider (row_of pn_resource (provider_connections db) (md_connection row)))"

definition provider_match :: "database \<Rightarrow> string \<Rightarrow> string \<Rightarrow> bool" where
  "provider_match db model credential \<longleftrightarrow>
     (case (provider_of_credential db credential, provider_of_model db model) of
        (Some p, Some q) \<Rightarrow> p = q | _ \<Rightarrow> True)"

definition put_destination :: "string \<Rightarrow> string \<Rightarrow> string \<Rightarrow> int \<Rightarrow> bool \<Rightarrow> statement" where
  "put_destination rid model credential weight enabled db =
     check (provider_match db model credential) (MutationCode ''provider_mismatch'')
     (check (1 \<le> weight \<and> weight \<le> 1000) (MutationFailed ''check weight'')
     (check (\<not> (\<exists>d\<in>set (destination_rows db). dn_resource d \<noteq> rid \<and> dn_model d = model \<and> dn_credential d = credential)) already_exists
     (fk (has md_resource (model_rows db) model \<and> has cd_resource (credential_rows db) credential)
       (Inr (db\<lparr>destination_rows :=
          (if has dn_resource (destination_rows db) rid
           then set_row dn_resource rid (\<lambda>d. d\<lparr>dn_model := model, dn_credential := credential, dn_weight := weight,
                   dn_enabled := enabled\<rparr>) (destination_rows db)
           else destination_rows db @ [\<lparr>dn_resource = rid, dn_model = model, dn_credential = credential,
                   dn_weight = weight, dn_enabled = enabled\<rparr>])\<rparr>)))))"

definition put_route :: "string \<Rightarrow> string \<Rightarrow> string \<Rightarrow> string \<Rightarrow> bool \<Rightarrow> statement" where
  "put_route rid wanted strategy version enabled db =
     check (\<not> (\<exists>r\<in>set (routes db). route_resource r \<noteq> rid \<and> model_alias r = wanted)) already_exists
     (fk (has res_id (resources db) strategy \<and> has sv_id (strategy_versions db) version)
       (Inr (db\<lparr>routes :=
          (if has route_resource (routes db) rid
           then set_row route_resource rid (\<lambda>r. r\<lparr>model_alias := wanted, route_strategy := strategy,
                   route_active := Some version, route_enabled := enabled\<rparr>) (routes db)
           else routes db @ [\<lparr>route_resource = rid, model_alias = wanted, route_strategy = strategy,
                   route_active = Some version, route_enabled = enabled\<rparr>])\<rparr>)))"

definition put_agent :: "string \<Rightarrow> stamp option \<Rightarrow> stamp option \<Rightarrow> string list \<Rightarrow> statement" where
  "put_agent rid ends gone allowed db =
     Inr (db\<lparr>agent_tokens :=
       (if has at_resource (agent_tokens db) rid
        then set_row at_resource rid (\<lambda>a. a\<lparr>expires_at := ends,
                revoked_at := (if gone \<noteq> None then gone else revoked_at a), allowed_routes := Some allowed\<rparr>) (agent_tokens db)
        else agent_tokens db @ [\<lparr>at_resource = rid, verifier = None, token_prefix = None, issued_at = None,
                expires_at = ends, revoked_at = gone, allowed_routes = Some allowed\<rparr>])\<rparr>)"

section \<open>Publishing a strategy\<close>

definition next_version :: "database \<Rightarrow> string \<Rightarrow> int" where
  "next_version db strategy =
     fold max (map sv_number (filter (\<lambda>v. sv_strategy v = strategy) (strategy_versions db))) 0 + 1"

definition move_routes :: "string \<Rightarrow> string \<Rightarrow> database \<Rightarrow> database" where
  "move_routes strategy version db =
     db\<lparr>routes := map (\<lambda>r. if route_strategy r = strategy then r\<lparr>route_active := Some version\<rparr> else r) (routes db)\<rparr>"

text \<open>\<open>checksum\<close> is the hexadecimal SHA-256 of the definition, \<open>uuid\<close> the id for a new version.\<close>

definition publishStrategyTx ::
    "faults \<Rightarrow> (string \<Rightarrow> string) \<Rightarrow> string option \<Rightarrow> time \<Rightarrow> string \<Rightarrow> string \<Rightarrow> (mutation_error, string) step" where
  "publishStrategyTx f checksum uuid now strategy definition_json =
     bind_step (guard (\<not> fails f ''read version'') (MutationFailed ''read version'')) (\<lambda>_.
     bind_step (reads (\<lambda>db. find (\<lambda>v. sv_strategy v = strategy \<and> sv_checksum v = checksum definition_json) (strategy_versions db))) (\<lambda>found.
     bind_step (case found of
         Some v \<Rightarrow> returns (sv_id v)
       | None \<Rightarrow>
           (case uuid of
              None \<Rightarrow> raises (MutationFailed ''uuid'')
            | Some vid \<Rightarrow>
                bind_step (reads (\<lambda>db. next_version db strategy)) (\<lambda>number.
                bind_step (reads (\<lambda>db. fails f ''insert version'' \<or> has sv_id (strategy_versions db) vid
                                    \<or> \<not> has res_id (resources db) strategy)) (\<lambda>refused.
                bind_step (guard (\<not> refused) (MutationFailed ''insert version'')) (\<lambda>_.
                bind_step (modify (\<lambda>db. db\<lparr>strategy_versions := strategy_versions db @
                    [\<lparr>sv_id = vid, sv_strategy = strategy, sv_number = number, sv_definition = definition_json,
                      sv_checksum = checksum definition_json, sv_published = now\<rparr>]\<rparr>)) (\<lambda>_.
                returns vid)))))) (\<lambda>vid.
     bind_step (guard (\<not> fails f ''move routes'') (MutationFailed ''move routes'')) (\<lambda>_.
     bind_step (modify (move_routes strategy vid)) (\<lambda>_.
     returns vid)))))"

end
