(* ===== verification/Repository.thy ===== *)
theory Repository
  imports Graph PlanToken
begin

text \<open>
  The repository of configuration resources, \<open>internal/storage/repository.go\<close>, and its batch,
  \<open>config_batch.go\<close>: creating, updating and deleting resources with optimistic versions, the typed
  rows behind them, the audit trail of successes and failures and the configuration revision.

  \<open>repo_env\<close> is what an operation takes from outside: the faults of its transaction and of the
  transaction that records a failure, the times read from the clock, fresh ids, \<open>time.Parse\<close> on a
  text, and SHA-256 in hexadecimal.
\<close>

record repo_env =
  re_faults :: faults
  re_failure :: faults
  re_now :: time
  re_audit :: time
  re_bump :: time
  re_uuid :: "string option"
  re_version_uuid :: "string option"
  re_parse :: "string \<Rightarrow> stamp"
  re_checksum :: "string \<Rightarrow> string"

record put_resource =
  pr_Kind :: string
  pr_Name :: string
  pr_DisplayName :: "string option"
  pr_Description :: "string option"
  pr_Spec :: string
  pr_ExpectedVersion :: int

section \<open>Checks\<close>

definition validateActor :: "actor \<Rightarrow> mutation_error + unit" where
  "validateActor a =
     (if actor_Type a \<noteq> ''admin'' \<and> actor_Type a \<noteq> ''cli'' \<and> actor_Type a \<noteq> ''system''
      then Inl (MutationCode ''invalid_actor'') else Inr ())"

definition validatePut :: "put_resource \<Rightarrow> mutation_error + unit" where
  "validatePut input =
     (if pr_Kind input \<notin> set validKinds \<or> pr_Name input = [] \<or> pr_ExpectedVersion input < 0 then Inl invalid_resource
      else (case parse_doc (lex (pr_Spec input)) of Some (JObj ms) \<Rightarrow> Inr () | _ \<Rightarrow> Inl invalid_resource))"

definition actionFor :: "int \<Rightarrow> string" where
  "actionFor expected = (if expected \<le> 0 then ''resource.create'' else ''resource.update'')"

definition resolve :: "faults \<Rightarrow> string \<Rightarrow> reference \<Rightarrow> (mutation_error, string) step" where
  "resolve f kind name =
     bind_step (guard (name \<noteq> []) reference_missing) (\<lambda>_.
     bind_step (guard (\<not> fails f ''resolve'') (MutationFailed ''resolve'')) (\<lambda>_.
     bind_step (reads (\<lambda>db. find (named kind name) (resources db))) (\<lambda>found.
     case found of None \<Rightarrow> raises reference_missing | Some r \<Rightarrow> returns (res_id r))))"

fun resolve_all :: "faults \<Rightarrow> string \<Rightarrow> reference list \<Rightarrow> (mutation_error, string list) step" where
  "resolve_all f kind [] = returns []"
| "resolve_all f kind (r # rs) =
     bind_step (resolve f kind r) (\<lambda>rid. bind_step (resolve_all f kind rs) (\<lambda>ids. returns (rid # ids)))"

definition run_write :: "faults \<Rightarrow> statement \<Rightarrow> (mutation_error, unit) step" where
  "run_write f w =
     bind_step (guard (\<not> fails f ''write typed row'') (MutationFailed ''write typed row'')) (\<lambda>_ db.
       case w db of Inl e \<Rightarrow> (Inl e, db) | Inr db' \<Rightarrow> (Inr (), db'))"

section \<open>The typed row of a resource\<close>

definition upsert_credential :: "faults \<Rightarrow> string \<Rightarrow> credential_spec \<Rightarrow> (mutation_error, unit) step" where
  "upsert_credential f rid s =
     bind_step (resolve f ''ProviderAccount'' (sk_ProviderAccountRef s)) (\<lambda>account.
     bind_step (resolve f ''Egress'' (sk_EgressRef s)) (\<lambda>egress.
     bind_step (guard (\<not> fails f ''read secret'') (MutationFailed ''read secret'')) (\<lambda>_.
     bind_step (reads (\<lambda>db. find (\<lambda>r. se_name r = sk_SecretRef s) (secret_rows db))) (\<lambda>found.
     case found of
       None \<Rightarrow> raises reference_missing
     | Some secret \<Rightarrow>
         run_write f (put_credential rid account egress (se_id secret) (if sk_Enabled s then ''active'' else ''disabled''))))))"

text \<open>The version a route is bound to: the highest of its strategy, or a first one published from the draft.\<close>

definition newest_version :: "database \<Rightarrow> string \<Rightarrow> strategy_version option" where
  "newest_version db strategy =
     (case sort_key sv_number (filter (\<lambda>v. sv_strategy v = strategy) (strategy_versions db)) of
        [] \<Rightarrow> None | vs \<Rightarrow> Some (last vs))"

definition route_version :: "repo_env \<Rightarrow> string \<Rightarrow> (mutation_error, string) step" where
  "route_version env strategy =
     bind_step (guard (\<not> fails (re_faults env) ''read newest version'') (MutationFailed ''read newest version'')) (\<lambda>_.
     bind_step (reads (\<lambda>db. newest_version db strategy)) (\<lambda>newest.
     case newest of
       Some v \<Rightarrow> returns (sv_id v)
     | None \<Rightarrow>
         bind_step (reads (\<lambda>db. find (\<lambda>r. res_id r = strategy) (resources db))) (\<lambda>draft.
         case draft of
           None \<Rightarrow> raises (MutationFailed ''read draft'')
         | Some d \<Rightarrow>
             publishStrategyTx (re_faults env) (re_checksum env) (re_version_uuid env) (re_now env) strategy (res_spec d))))"

definition upsert_route :: "repo_env \<Rightarrow> string \<Rightarrow> route_spec \<Rightarrow> (mutation_error, unit) step" where
  "upsert_route env rid s =
     bind_step (resolve (re_faults env) ''Strategy'' (sr_StrategyRef s)) (\<lambda>strategy.
     bind_step (route_version env strategy) (\<lambda>version.
     run_write (re_faults env) (put_route rid (sr_ModelAlias s) strategy version (sr_Enabled s))))"

definition upsert_agent :: "repo_env \<Rightarrow> string \<Rightarrow> agent_token_spec \<Rightarrow> (mutation_error, unit) step" where
  "upsert_agent env rid s =
     bind_step (resolve_all (re_faults env) ''Route'' (elems (st_AllowedRoutes s))) (\<lambda>ids.
     bind_step (guard (\<not> fails (re_faults env) ''read revocation'') (MutationFailed ''read revocation'')) (\<lambda>_.
     bind_step (reads (\<lambda>db. case row_of at_resource (agent_tokens db) rid of None \<Rightarrow> None | Some a \<Rightarrow> revoked_at a)) (\<lambda>existing.
     bind_step (guard (\<not> (st_Enabled s \<and> existing \<noteq> None)) invalid_resource) (\<lambda>_.
     run_write (re_faults env) (put_agent rid (map_option (re_parse env) (st_ExpiresAt s))
       (if \<not> st_Enabled s \<and> existing = None then Some (Some (re_now env)) else None) ids)))))"

definition upsertTyped :: "repo_env \<Rightarrow> string \<Rightarrow> string \<Rightarrow> string \<Rightarrow> (mutation_error, unit) step" where
  "upsertTyped env rid kind raw =
     (let f = re_faults env in
      if kind = ''Provider'' then returns ()
      else if kind = ''ProviderAccount'' then
        bind_step (lift (decodeSpec dec_account_spec \<lparr>sa_ProviderRef = []\<rparr> raw)) (\<lambda>s.
        bind_step (resolve f ''Provider'' (sa_ProviderRef s)) (\<lambda>provider. run_write f (put_account rid provider)))
      else if kind = ''ProviderConnection'' then
        bind_step (lift (decodeSpec dec_connection_spec
          \<lparr>sc_ProviderRef = [], sc_BaseURL = [], sc_AllowPrivate = False, sc_Enabled = False\<rparr> raw)) (\<lambda>s.
        bind_step (resolve f ''Provider'' (sc_ProviderRef s)) (\<lambda>provider.
        run_write f (put_connection rid provider (sc_BaseURL s) (sc_AllowPrivate s) (sc_Enabled s))))
      else if kind = ''Egress'' then
        bind_step (lift (decodeSpec dec_egress_spec \<lparr>sg_Type = [], sg_Enabled = False\<rparr> raw)) (\<lambda>s.
        run_write f (put_egress rid (sg_Type s) (sg_Enabled s)))
      else if kind = ''Credential'' then
        bind_step (lift (decodeSpec dec_credential_spec
          \<lparr>sk_ProviderAccountRef = [], sk_EgressRef = [], sk_SecretRef = [], sk_Enabled = False\<rparr> raw)) (\<lambda>s.
        upsert_credential f rid s)
      else if kind = ''Model'' then
        bind_step (lift (decodeSpec dec_model_spec
          \<lparr>sm_ConnectionRef = [], sm_ProviderModelID = [], sm_Capabilities = nil_slice, sm_Enabled = False\<rparr> raw)) (\<lambda>s.
        bind_step (resolve f ''ProviderConnection'' (sm_ConnectionRef s)) (\<lambda>connection.
        run_write f (put_model rid connection (sm_ProviderModelID s) (elems (sm_Capabilities s)) (sm_Enabled s))))
      else if kind = ''Destination'' then
        bind_step (lift (decodeSpec dec_destination_spec
          \<lparr>sd_ModelRef = [], sd_CredentialRef = [], sd_Weight = 0, sd_Enabled = False\<rparr> raw)) (\<lambda>s.
        bind_step (resolve f ''Model'' (sd_ModelRef s)) (\<lambda>model.
        bind_step (resolve f ''Credential'' (sd_CredentialRef s)) (\<lambda>credential.
        run_write f (put_destination rid model credential (sd_Weight s) (sd_Enabled s)))))
      else if kind = ''Strategy'' then
        bind_step (lift (decodeSpec dec_strategy_spec \<lparr>ss_Destinations = nil_slice\<rparr> raw)) (\<lambda>s.
        bind_step (resolve_all f ''Destination'' (elems (ss_Destinations s))) (\<lambda>_. returns ()))
      else if kind = ''Route'' then
        bind_step (lift (decodeSpec dec_route_spec \<lparr>sr_ModelAlias = [], sr_StrategyRef = [], sr_Enabled = False\<rparr> raw))
          (upsert_route env rid)
      else if kind = ''AgentToken'' then
        bind_step (lift (decodeSpec dec_agent_spec \<lparr>st_AllowedRoutes = nil_slice, st_ExpiresAt = None, st_Enabled = False\<rparr> raw))
          (upsert_agent env rid)
      else raises invalid_resource)"

section \<open>Creating and updating\<close>

text \<open>\<open>INSERT INTO resources\<close> with version 1; the id, and kind and name, are unique.\<close>

definition insert_resource :: "repo_env \<Rightarrow> put_resource \<Rightarrow> (mutation_error, stored_resource) step" where
  "insert_resource env input =
     (case re_uuid env of
        None \<Rightarrow> raises (MutationFailed ''generate resource id'')
      | Some rid \<Rightarrow>
          bind_step (guard (\<not> fails (re_faults env) ''insert resource'') (MutationFailed ''insert resource envelope'')) (\<lambda>_.
          bind_step (reads (\<lambda>db. has res_id (resources db) rid
                             \<or> find (named (pr_Kind input) (pr_Name input)) (resources db) \<noteq> None)) (\<lambda>taken.
          bind_step (guard (\<not> taken) already_exists) (\<lambda>_.
          bind_step (modify (\<lambda>db. db\<lparr>resources := resources db @
              [\<lparr>res_id = rid, res_kind = pr_Kind input, res_name = pr_Name input, res_display = pr_DisplayName input,
                res_description = pr_Description input, res_version = 1, res_spec = pr_Spec input,
                res_created = Some (re_now env), res_updated = Some (re_now env)\<rparr>]\<rparr>)) (\<lambda>_.
          returns \<lparr>rs_ID = rid, rs_Kind = pr_Kind input, rs_Name = pr_Name input, rs_DisplayName = pr_DisplayName input,
            rs_Description = pr_Description input, rs_ResourceVersion = 1, rs_Spec = pr_Spec input,
            rs_CreatedAt = re_now env, rs_UpdatedAt = re_now env\<rparr>)))))"

text \<open>\<open>UPDATE resources ... WHERE id=? AND resource_version=?\<close>, one row affected.\<close>

definition write_envelope :: "repo_env \<Rightarrow> 'e \<Rightarrow> put_resource \<Rightarrow> resource \<Rightarrow> ('e, unit) step" where
  "write_envelope env conflict input r db =
     (case update_where (\<lambda>q. res_id q = res_id r \<and> res_version q = res_version r)
         (\<lambda>q. q\<lparr>res_display := pr_DisplayName input, res_description := pr_Description input,
                res_version := res_version q + 1, res_spec := pr_Spec input, res_updated := Some (re_now env)\<rparr>)
         (resources db) of
       (rows, n) \<Rightarrow> if n \<noteq> 1 then (Inl conflict, db) else (Inr (), db\<lparr>resources := rows\<rparr>))"

text \<open>
  \<open>UPDATE resources ... WHERE rid=? AND resource_version=?\<close> after the version was read. \<open>missing\<close> is
  the error for a resource that is not there, \<open>h\<close> what the caller makes of an error together with
  the id read so far.
\<close>

definition update_resource ::
    "repo_env \<Rightarrow> mutation_error \<Rightarrow> (mutation_error \<Rightarrow> string \<Rightarrow> 'e) \<Rightarrow> put_resource
     \<Rightarrow> (string \<Rightarrow> ('e, unit) step) \<Rightarrow> ('e, stored_resource) step" where
  "update_resource env missing h input typed =
     bind_step (guard (\<not> fails (re_faults env) ''read resource version'') (h (MutationFailed ''read resource version'') [])) (\<lambda>_.
     bind_step (reads (\<lambda>db. find (named (pr_Kind input) (pr_Name input)) (resources db))) (\<lambda>found.
     case found of
       None \<Rightarrow> raises (h missing [])
     | Some r \<Rightarrow>
         bind_step (guard (res_version r = pr_ExpectedVersion input) (h version_conflict (res_id r))) (\<lambda>_.
         bind_step (guard (\<not> fails (re_faults env) ''update resource'') (h (MutationFailed ''update resource envelope'') [])) (\<lambda>_.
         bind_step (write_envelope env (h version_conflict (res_id r)) input r) (\<lambda>_.
         bind_step (typed (res_id r)) (\<lambda>_.
         case res_created r of
           None \<Rightarrow> raises (h (MutationFailed ''parse created_at'') [])
         | Some created \<Rightarrow>
             returns \<lparr>rs_ID = res_id r, rs_Kind = pr_Kind input, rs_Name = pr_Name input, rs_DisplayName = pr_DisplayName input,
               rs_Description = pr_Description input, rs_ResourceVersion = res_version r + 1, rs_Spec = pr_Spec input,
               rs_CreatedAt = created, rs_UpdatedAt = re_now env\<rparr>))))))"

text \<open>\<open>putTx\<close>: an error carries the id of the resource it returned beside it.\<close>

definition putTx :: "repo_env \<Rightarrow> put_resource \<Rightarrow> (mutation_error \<times> string, stored_resource) step" where
  "putTx env input =
     (if pr_ExpectedVersion input = 0 then
        map_error (\<lambda>e. (e, [])) (
          bind_step (insert_resource env input) (\<lambda>item.
          bind_step (upsertTyped env (rs_ID item) (pr_Kind input) (pr_Spec input)) (\<lambda>_. returns item)))
      else
        update_resource env not_found Pair input
          (\<lambda>rid. map_error (\<lambda>e. (e, rid)) (upsertTyped env rid (pr_Kind input) (pr_Spec input))))"

definition bumpConfigRevisionTx :: "faults \<Rightarrow> time \<Rightarrow> (mutation_error, unit) step" where
  "bumpConfigRevisionTx f now =
     bind_step (guard (\<not> fails f ''bump revision'') (MutationFailed ''bump revision'')) (\<lambda>_.
     bind_step (reads installation) (\<lambda>row.
     case row of
       None \<Rightarrow> raises (MutationFailed ''installation_state_missing'')
     | Some i \<Rightarrow> modify (\<lambda>db. db\<lparr>installation := Some (i\<lparr>in_revision := in_revision i + 1, in_updated := Some now\<rparr>)\<rparr>)))"

datatype repo_error = RepoError mutation_error | MutationAuditError mutation_error

definition error_code :: "mutation_error \<Rightarrow> string" where
  "error_code e = (case e of MutationCode c \<Rightarrow> c | _ \<Rightarrow> ''operation_failed'')"

definition failure_event :: "repo_env \<Rightarrow> actor \<Rightarrow> string \<Rightarrow> string \<Rightarrow> string \<Rightarrow> mutation_error \<Rightarrow> audit_event" where
  "failure_event env actor action kind rid e =
     \<lparr>au_actor_type = actor_Type actor, au_actor_id = actor_ID actor, au_action = action, au_kind = kind,
      au_resource = rid, au_result = ''failure'', au_version = 0, au_code = error_code e, au_occurred = re_audit env\<rparr>"

text \<open>\<open>fail\<close>: the failure is recorded in a transaction of its own.\<close>

definition fail_audit ::
    "repo_env \<Rightarrow> actor \<Rightarrow> string \<Rightarrow> string \<Rightarrow> string \<Rightarrow> mutation_error \<Rightarrow> database \<Rightarrow> repo_error \<times> database" where
  "fail_audit env actor action kind rid e db =
     (let f = re_failure env; db' = db\<lparr>audit_events := audit_events db @ [failure_event env actor action kind rid e]\<rparr> in
      if fails f ''begin'' \<or> fails f ''audit'' then (MutationAuditError e, db)
      else if commit_fails f then (MutationAuditError e, if commit_durable f then db' else db)
      else (RepoError e, db'))"

text \<open>
  A mutation in its own transaction: rolled back and recorded when it fails; a commit error is
  returned as it is, its outcome being unknown.
\<close>

definition in_transaction ::
    "repo_env \<Rightarrow> actor \<Rightarrow> string \<Rightarrow> string \<Rightarrow> (mutation_error \<times> string, 'a) step \<Rightarrow> database
     \<Rightarrow> (repo_error + 'a) \<times> database" where
  "in_transaction env actor action kind body db =
     (if fails (re_faults env) ''begin'' then (Inl (RepoError (MutationFailed ''begin'')), db)
      else (case body db of
              (Inl (e, rid), _) \<Rightarrow> (case fail_audit env actor action kind rid e db of (x, db') \<Rightarrow> (Inl x, db'))
            | (Inr a, db') \<Rightarrow>
                if commit_fails (re_faults env)
                then (Inl (RepoError (MutationFailed ''commit'')), if commit_durable (re_faults env) then db' else db)
                else (Inr a, db')))"

definition Put :: "repo_env \<Rightarrow> put_resource \<Rightarrow> actor \<Rightarrow> database \<Rightarrow> (repo_error + stored_resource) \<times> database" where
  "Put env input actor db =
     (let action = actionFor (pr_ExpectedVersion input); kind = pr_Kind input in
      case validateActor actor of
        Inl e \<Rightarrow> (Inl (RepoError e), db)
      | Inr _ \<Rightarrow>
          (case validatePut input of
             Inl e \<Rightarrow> (case fail_audit env actor action kind [] e db of (x, db') \<Rightarrow> (Inl x, db'))
           | Inr _ \<Rightarrow>
               in_transaction env actor action kind
                 (bind_step (putTx env input) (\<lambda>item.
                  map_error (\<lambda>e. (e, rs_ID item)) (
                    bind_step (insertAudit (re_faults env) (MutationFailed ''audit'') (re_audit env) actor action kind (rs_ID item)
                      ''success'' (rs_ResourceVersion item)) (\<lambda>_.
                    bind_step (bumpConfigRevisionTx (re_faults env) (re_bump env)) (\<lambda>_. returns item))))) db))"

section \<open>Deleting\<close>

text \<open>
  The references SQL finds in a stored spec: members called exactly \<open>destinations\<close> and \<open>name\<close>, the
  first of each name.
\<close>

definition json_member :: "string \<Rightarrow> json \<Rightarrow> json option" where
  "json_member k v = (case v of JObj ms \<Rightarrow> map_of ms k | _ \<Rightarrow> None)"

definition spec_names_destination :: "string \<Rightarrow> string \<Rightarrow> bool" where
  "spec_names_destination spec name \<longleftrightarrow>
     (case parse_doc (lex spec) of
        None \<Rightarrow> False
      | Some v \<Rightarrow>
          (case json_member ''destinations'' v of
             Some (JArr ds) \<Rightarrow> list_ex (\<lambda>d. json_member ''name'' d = Some (JStr name)) ds
           | _ \<Rightarrow> False))"

definition logical_reference :: "database \<Rightarrow> string \<Rightarrow> string \<Rightarrow> string \<Rightarrow> bool" where
  "logical_reference db kind name rid \<longleftrightarrow>
     (if kind = ''Destination''
      then (\<exists>r\<in>set (resources db). res_kind r = ''Strategy'' \<and> spec_names_destination (res_spec r) name)
      else if kind = ''Route''
      then (\<exists>a\<in>set (agent_tokens db). \<exists>ids. allowed_routes a = Some ids \<and> rid \<in> set ids)
      else False)"

definition ensureNoLogicalReferences :: "faults \<Rightarrow> string \<Rightarrow> string \<Rightarrow> string \<Rightarrow> (mutation_error, unit) step" where
  "ensureNoLogicalReferences f kind name rid =
     bind_step (guard (\<not> (kind \<in> {''Destination'', ''Route''} \<and> fails f ''read references'')) (MutationFailed ''read references'')) (\<lambda>_.
     bind_step (reads (\<lambda>db. logical_reference db kind name rid)) (\<lambda>used. guard (\<not> used) resource_in_use))"

text \<open>The foreign keys with \<open>ON DELETE RESTRICT\<close> that hold a resource, or its typed row that goes with it.\<close>

definition restricted :: "database \<Rightarrow> string \<Rightarrow> bool" where
  "restricted db rid \<longleftrightarrow>
     has pa_provider (provider_accounts db) rid \<or> has pn_provider (provider_connections db) rid
     \<or> has sv_strategy (strategy_versions db) rid \<or> has route_strategy (routes db) rid
     \<or> has cd_account (credential_rows db) rid \<or> has cd_egress (credential_rows db) rid
     \<or> has md_connection (model_rows db) rid \<or> has dn_model (destination_rows db) rid \<or> has dn_credential (destination_rows db) rid"

definition without :: "('r \<Rightarrow> string) \<Rightarrow> string \<Rightarrow> 'r list \<Rightarrow> 'r list" where
  "without key rid rows = filter (\<lambda>r. key r \<noteq> rid) rows"

text \<open>The row and what \<open>ON DELETE CASCADE\<close> and \<open>SET NULL\<close> do.\<close>

definition remove_resource :: "string \<Rightarrow> database \<Rightarrow> database" where
  "remove_resource rid db =
     db\<lparr>resources := without res_id rid (resources db),
        provider_accounts := without pa_resource rid (provider_accounts db),
        provider_connections := without pn_resource rid (provider_connections db),
        egresses := without eg_resource rid (egresses db),
        credential_rows := without cd_resource rid (credential_rows db),
        model_rows := without md_resource rid (model_rows db),
        destination_rows := without dn_resource rid (destination_rows db),
        routes := without route_resource rid (routes db),
        agent_tokens := without at_resource rid (agent_tokens db),
        requests := map (\<lambda>q. q\<lparr>rq_agent := (if rq_agent q = Some rid then None else rq_agent q),
                              rq_route := (if rq_route q = Some rid then None else rq_route q)\<rparr>) (requests db),
        attempts := map (\<lambda>a. a\<lparr>ar_destination := (if ar_destination a = Some rid then None else ar_destination a)\<rparr>)
                      (attempts db)\<rparr>"

definition strategy_versions_used :: "database \<Rightarrow> string \<Rightarrow> bool" where
  "strategy_versions_used db rid \<longleftrightarrow>
     (\<exists>v\<in>set (strategy_versions db). sv_strategy v = rid \<and> (\<exists>r\<in>set (routes db). route_active r = Some (sv_id v)))"

text \<open>\<open>in_use\<close> is what the caller makes of a foreign key that forbids the deletion.\<close>

definition delete_rows :: "faults \<Rightarrow> mutation_error \<Rightarrow> string \<Rightarrow> string \<Rightarrow> int \<Rightarrow> (mutation_error, unit) step" where
  "delete_rows f in_use kind rid version =
     bind_step (if kind = ''Strategy'' then
         bind_step (guard (\<not> fails f ''delete versions'') (MutationFailed ''delete versions'')) (\<lambda>_.
         bind_step (reads (\<lambda>db. strategy_versions_used db rid)) (\<lambda>used.
         bind_step (guard (\<not> used) in_use) (\<lambda>_.
         modify (\<lambda>db. db\<lparr>strategy_versions := without sv_strategy rid (strategy_versions db)\<rparr>))))
       else returns ()) (\<lambda>_.
     bind_step (guard (\<not> fails f ''delete resource'') (MutationFailed ''delete resource'')) (\<lambda>_.
     bind_step (reads (\<lambda>db. restricted db rid)) (\<lambda>used.
     bind_step (guard (\<not> used) in_use) (\<lambda>_.
     bind_step (reads (\<lambda>db. length (filter (\<lambda>r. res_id r = rid \<and> res_version r = version) (resources db)))) (\<lambda>n.
     bind_step (guard (n = 1) version_conflict) (\<lambda>_.
     modify (remove_resource rid)))))))"

definition deleteTx :: "repo_env \<Rightarrow> actor \<Rightarrow> string \<Rightarrow> string \<Rightarrow> int \<Rightarrow> (mutation_error \<times> string, unit) step" where
  "deleteTx env actor kind name expected =
     (let f = re_faults env in
      bind_step (guard (\<not> fails f ''read resource version'') (MutationFailed ''read resource version'', [])) (\<lambda>_.
      bind_step (reads (\<lambda>db. find (named kind name) (resources db))) (\<lambda>found.
      case found of
        None \<Rightarrow> raises (not_found, [])
      | Some r \<Rightarrow>
          map_error (\<lambda>e. (e, res_id r)) (
            bind_step (guard (res_version r = expected) version_conflict) (\<lambda>_.
            bind_step (ensureNoLogicalReferences f kind name (res_id r)) (\<lambda>_.
            bind_step (delete_rows f resource_in_use kind (res_id r) (res_version r)) (\<lambda>_.
            bind_step (insertAudit f (MutationFailed ''audit'') (re_audit env) actor ''resource.delete'' kind (res_id r) ''success''
                         (res_version r)) (\<lambda>_.
            bumpConfigRevisionTx f (re_bump env)))))))))"

definition Delete ::
    "repo_env \<Rightarrow> string \<Rightarrow> string \<Rightarrow> int \<Rightarrow> bool \<Rightarrow> actor \<Rightarrow> database \<Rightarrow> (repo_error + unit) \<times> database" where
  "Delete env kind name expected allow actor db =
     (case validateActor actor of
        Inl e \<Rightarrow> (Inl (RepoError e), db)
      | Inr _ \<Rightarrow>
          if kind \<notin> set validKinds \<or> name = [] \<or> expected < 1
          then (case fail_audit env actor ''resource.delete'' kind [] invalid_resource db of (x, db') \<Rightarrow> (Inl x, db'))
          else if \<not> allow
          then (case fail_audit env actor ''resource.delete'' kind [] (MutationCode ''delete_not_allowed'') db of (x, db') \<Rightarrow> (Inl x, db'))
          else in_transaction env actor ''resource.delete'' kind (deleteTx env actor kind name expected) db)"

section \<open>Batches\<close>

record config_mutation =
  cm_Action :: string
  cm_Put :: put_resource
  cm_Kind :: string
  cm_Name :: string
  cm_ExpectedVersion :: int

definition kindRank :: "string \<Rightarrow> int" where
  "kindRank k =
     (if k = ''Provider'' then 1 else if k = ''Egress'' then 2
      else if k = ''ProviderAccount'' \<or> k = ''ProviderConnection'' then 3
      else if k = ''Credential'' \<or> k = ''Model'' then 4
      else if k = ''Destination'' then 5 else if k = ''Strategy'' then 6
      else if k = ''Route'' then 7 else if k = ''AgentToken'' then 8 else 50)"

definition mutationRank :: "config_mutation \<Rightarrow> int" where
  "mutationRank m = (if cm_Action m = ''delete'' then 100 - kindRank (cm_Kind m) else kindRank (pr_Kind (cm_Put m)))"

definition putEnvelopeTx :: "repo_env \<Rightarrow> put_resource \<Rightarrow> (mutation_error, stored_resource) step" where
  "putEnvelopeTx env input =
     (if pr_ExpectedVersion input = 0 then insert_resource env input
      else update_resource env version_conflict (\<lambda>e rid. e) input (\<lambda>rid. returns ()))"

definition apply_put :: "repo_env \<Rightarrow> actor \<Rightarrow> config_mutation \<Rightarrow> (mutation_error, unit) step" where
  "apply_put env actor m =
     (let input = cm_Put m in
      bind_step (guard (\<not> (pr_Kind input \<noteq> cm_Kind m \<or> pr_Name input \<noteq> cm_Name m
           \<or> cm_Action m = ''create'' \<and> pr_ExpectedVersion input \<noteq> 0
           \<or> cm_Action m = ''update'' \<and> pr_ExpectedVersion input < 1)) invalid_resource) (\<lambda>_.
      bind_step (lift (validatePut input)) (\<lambda>_.
      bind_step (putEnvelopeTx env input) (\<lambda>item.
      bind_step (upsertTyped env (rs_ID item) (rs_Kind item) (rs_Spec item)) (\<lambda>_.
      insertAudit (re_faults env) (MutationFailed ''audit'') (re_audit env) actor (actionFor (pr_ExpectedVersion input)) (rs_Kind item)
        (rs_ID item) ''success'' (rs_ResourceVersion item))))))"

definition apply_delete :: "repo_env \<Rightarrow> actor \<Rightarrow> config_mutation \<Rightarrow> (mutation_error, unit) step" where
  "apply_delete env actor m =
     (let f = re_faults env in
      bind_step (guard (\<not> (cm_Kind m \<notin> set validKinds \<or> cm_Name m = [] \<or> cm_ExpectedVersion m < 1)) invalid_resource) (\<lambda>_.
      bind_step (guard (\<not> fails f ''read resource version'') (MutationFailed ''read resource version'')) (\<lambda>_.
      bind_step (reads (\<lambda>db. find (named (cm_Kind m) (cm_Name m)) (resources db))) (\<lambda>found.
      case found of
        None \<Rightarrow> raises version_conflict
      | Some r \<Rightarrow>
          bind_step (guard (res_version r = cm_ExpectedVersion m) version_conflict) (\<lambda>_.
          bind_step (delete_rows f reference_missing (cm_Kind m) (res_id r) (res_version r)) (\<lambda>_.
          insertAudit f (MutationFailed ''audit'') (re_audit env) actor ''resource.delete'' (cm_Kind m) (res_id r) ''success''
            (res_version r)))))))"

definition apply_mutation :: "repo_env \<Rightarrow> actor \<Rightarrow> config_mutation \<Rightarrow> (mutation_error, unit) step" where
  "apply_mutation env actor m =
     (if cm_Action m = ''noop'' then returns ()
      else if cm_Action m = ''create'' \<or> cm_Action m = ''update'' then apply_put env actor m
      else if cm_Action m = ''delete'' then apply_delete env actor m
      else raises invalid_resource)"

text \<open>\<open>envs k\<close> is what the \<open>k\<close>-th mutation takes from outside.\<close>

fun apply_all :: "(nat \<Rightarrow> repo_env) \<Rightarrow> actor \<Rightarrow> nat \<Rightarrow> config_mutation list \<Rightarrow> (mutation_error, unit) step" where
  "apply_all envs actor k [] = returns ()"
| "apply_all envs actor k (m # ms) =
     bind_step (apply_mutation (envs k) actor m) (\<lambda>_. apply_all envs actor (Suc k) ms)"

definition ApplyConfigTx :: "(nat \<Rightarrow> repo_env) \<Rightarrow> actor \<Rightarrow> config_mutation list \<Rightarrow> (mutation_error, unit) step" where
  "ApplyConfigTx envs actor mutations =
     bind_step (lift (validateActor actor)) (\<lambda>_.
     if mutations = [] then returns ()
     else bind_step (apply_all envs actor 0 (sort_key mutationRank mutations)) (\<lambda>_.
          bumpConfigRevisionTx (re_faults (envs 0)) (re_bump (envs 0))))"

section \<open>Publishing and reading\<close>

definition PublishStrategyTx ::
    "repo_env \<Rightarrow> string \<Rightarrow> int \<Rightarrow> actor \<Rightarrow> (mutation_error, stored_resource) step" where
  "PublishStrategyTx env name expected actor =
     (let f = re_faults env in
      bind_step (lift (validateActor actor)) (\<lambda>_.
      bind_step (GetResourceTx f ''Strategy'' name) (\<lambda>item.
      bind_step (guard (\<not> (expected < 1 \<or> rs_ResourceVersion item \<noteq> expected)) version_conflict) (\<lambda>_.
      bind_step (publishStrategyTx f (re_checksum env) (re_version_uuid env) (re_now env) (rs_ID item) (rs_Spec item)) (\<lambda>_.
      bind_step (insertAudit f (MutationFailed ''audit'') (re_audit env) actor ''strategy.publish'' ''Strategy'' (rs_ID item) ''success''
                   (rs_ResourceVersion item)) (\<lambda>_.
      bind_step (bumpConfigRevisionTx f (re_bump env)) (\<lambda>_. returns item)))))))"

definition AuditResourceNoopTx :: "faults \<Rightarrow> time \<Rightarrow> stored_resource \<Rightarrow> actor \<Rightarrow> (mutation_error, unit) step" where
  "AuditResourceNoopTx f now item actor =
     bind_step (lift (validateActor actor)) (\<lambda>_.
     insertAudit f (MutationFailed ''audit'') now actor ''resource.update_noop'' (rs_Kind item) (rs_ID item) ''success''
       (rs_ResourceVersion item))"

definition ConfigRevisionTx :: "faults \<Rightarrow> (mutation_error, int) step" where
  "ConfigRevisionTx f =
     bind_step (guard (\<not> fails f ''read revision'') (MutationFailed ''read configuration revision'')) (\<lambda>_.
     bind_step (reads installation) (\<lambda>row.
     case row of
       None \<Rightarrow> raises (MutationFailed ''read configuration revision'')
     | Some i \<Rightarrow> returns (in_revision i)))"

definition SecretNamesTx :: "faults \<Rightarrow> (mutation_error, string set) step" where
  "SecretNamesTx f =
     bind_step (guard (\<not> fails f ''list secret names'') (MutationFailed ''list secret names in plan'')) (\<lambda>_.
     reads (\<lambda>db. se_name ` set (secret_rows db)))"

fun scan_all :: "resource list \<Rightarrow> mutation_error + stored_resource list" where
  "scan_all [] = Inr []"
| "scan_all (r # rs) = and_then (scanResource (Some r)) (\<lambda>x. and_then (scan_all rs) (\<lambda>xs. Inr (x # xs)))"

text \<open>\<open>List\<close> and \<open>ListResourcesTx\<close>: all resources by kind and name. Text compares bytewise in SQLite.\<close>

definition ListResources :: "faults \<Rightarrow> database \<Rightarrow> mutation_error + stored_resource list" where
  "ListResources f db =
     (if fails f ''list resources'' then Inl (MutationFailed ''list resources'')
      else scan_all (sort_key (\<lambda>r. (res_kind r, res_name r)) (resources db)))"

definition ListPage :: "faults \<Rightarrow> string \<Rightarrow> string \<Rightarrow> int \<Rightarrow> database \<Rightarrow> mutation_error + stored_resource list \<times> string" where
  "ListPage f kind afterID limit db =
     (if kind \<notin> set validKinds \<or> length afterID > 64 \<or> limit < 1 \<or> limit > 200 then Inl invalid_resource
      else if fails f ''list resource page'' then Inl (MutationFailed ''list resource page'')
      else and_then (scan_all (take (Suc (nat limit)) (sort_key res_id
                       (filter (\<lambda>r. res_kind r = kind \<and> afterID < res_id r) (resources db))))) (\<lambda>items.
        if length items > nat limit then Inr (take (nat limit) items, rs_ID (items ! (nat limit - 1)))
        else Inr (items, [])))"

end
