(* ===== verification/GraphInv.thy ===== *)
theory GraphInv
  imports Repository
begin

text \<open>
  The integrity of the configuration graph: keys are unique, references are not dangling, a
  destination joins a model and a credential of one provider, and a route is bound to a version of
  its own strategy. Every statement, and every operation composed of them, preserves it.
\<close>

section \<open>Tables as maps\<close>

lemma row_of_Some: "row_of key rows i = Some r \<Longrightarrow> r \<in> set rows \<and> key r = i"
  unfolding row_of_def by (rule find_some)

lemma row_of_in: "distinct (map key rows) \<Longrightarrow> r \<in> set rows \<Longrightarrow> row_of key rows (key r) = Some r"
  unfolding row_of_def by (rule find_key_unique)

lemma has_row_of: "has key rows i \<longleftrightarrow> row_of key rows i \<noteq> None"
  by (auto simp: has_def row_of_def find_None_iff)

lemma row_of_append:
  "row_of key (rows @ [r]) i = (case row_of key rows i of None \<Rightarrow> if key r = i then Some r else None | Some q \<Rightarrow> Some q)"
  by (induction rows) (auto simp: row_of_def)

lemma row_of_set_row:
  "(\<And>r. key (f r) = key r) \<Longrightarrow>
   row_of key (set_row key i f rows) j = (if j = i then map_option f (row_of key rows j) else row_of key rows j)"
  by (induction rows) (auto simp: row_of_def set_row_def)

lemma row_of_without: "row_of key (without key i rows) j = (if j = i then None else row_of key rows j)"
  by (induction rows) (auto simp: row_of_def without_def)

lemma map_set_row: "(\<And>r. k (f r) = k r) \<Longrightarrow> map k (set_row key i f rows) = map k rows"
  by (simp add: set_row_def)

lemma has_simps:
  "has k (rows @ [r]) j \<longleftrightarrow> has k rows j \<or> k r = j"
  "(\<And>r. k (f r) = k r) \<Longrightarrow> has k (set_row key i f rows) j = has k rows j"
  "has key (without key i rows) j \<longleftrightarrow> j \<noteq> i \<and> has key rows j"
  by (auto simp: has_def set_row_def without_def)

lemma set_set_row: "r \<in> set (set_row key i f rows) \<longleftrightarrow> (\<exists>q\<in>set rows. r = (if key q = i then f q else q))"
  by (induction rows) (auto simp: set_row_def)

lemma set_without: "set (without key i rows) = {r \<in> set rows. key r \<noteq> i}"
  by (auto simp: without_def)

lemma distinct_without: "distinct (map key rows) \<Longrightarrow> distinct (map k rows) \<Longrightarrow> distinct (map k (without key i rows))"
  by (simp add: without_def distinct_map_filter)

lemmas table_simps = row_of_append row_of_set_row row_of_without has_simps set_set_row set_without map_set_row distinct_without

section \<open>The invariant\<close>

definition keys_ok :: "database \<Rightarrow> bool" where
  "keys_ok db \<longleftrightarrow>
     distinct (map res_id (resources db)) \<and> distinct (map (\<lambda>r. (res_kind r, res_name r)) (resources db))
     \<and> distinct (map pa_resource (provider_accounts db)) \<and> distinct (map pn_resource (provider_connections db))
     \<and> distinct (map eg_resource (egresses db)) \<and> distinct (map cd_resource (credential_rows db))
     \<and> distinct (map md_resource (model_rows db)) \<and> distinct (map dn_resource (destination_rows db))
     \<and> distinct (map route_resource (routes db)) \<and> distinct (map model_alias (routes db))
     \<and> distinct (map at_resource (agent_tokens db)) \<and> distinct (map sv_id (strategy_versions db))"

definition refs_ok :: "database \<Rightarrow> bool" where
  "refs_ok db \<longleftrightarrow>
     (\<forall>a\<in>set (provider_accounts db). has res_id (resources db) (pa_provider a))
     \<and> (\<forall>c\<in>set (provider_connections db). has res_id (resources db) (pn_provider c))
     \<and> (\<forall>c\<in>set (credential_rows db). has pa_resource (provider_accounts db) (cd_account c)
           \<and> has eg_resource (egresses db) (cd_egress c) \<and> has se_id (secret_rows db) (cd_secret c))
     \<and> (\<forall>m\<in>set (model_rows db). has pn_resource (provider_connections db) (md_connection m))
     \<and> (\<forall>d\<in>set (destination_rows db). has md_resource (model_rows db) (dn_model d)
           \<and> has cd_resource (credential_rows db) (dn_credential d))
     \<and> (\<forall>v\<in>set (strategy_versions db). has res_id (resources db) (sv_strategy v))
     \<and> (\<forall>r\<in>set (routes db). has res_id (resources db) (route_strategy r))"

definition providers_ok :: "database \<Rightarrow> bool" where
  "providers_ok db \<longleftrightarrow>
     (\<forall>d\<in>set (destination_rows db). \<exists>p. provider_of_credential db (dn_credential d) = Some p
        \<and> provider_of_model db (dn_model d) = Some p)"

definition versions_ok :: "database \<Rightarrow> bool" where
  "versions_ok db \<longleftrightarrow>
     (\<forall>r\<in>set (routes db). \<exists>v\<in>set (strategy_versions db). route_active r = Some (sv_id v) \<and> sv_strategy v = route_strategy r)"

definition graph_ok :: "database \<Rightarrow> bool" where
  "graph_ok db \<longleftrightarrow> keys_ok db \<and> refs_ok db \<and> providers_ok db \<and> versions_ok db"

lemma graph_okD: "graph_ok db \<Longrightarrow> keys_ok db \<and> refs_ok db \<and> providers_ok db \<and> versions_ok db"
  by (simp add: graph_ok_def)

lemma provider_cong:
  "model_rows db' = model_rows db \<Longrightarrow> provider_connections db' = provider_connections db \<Longrightarrow>
   provider_of_model db' m = provider_of_model db m"
  "credential_rows db' = credential_rows db \<Longrightarrow> provider_accounts db' = provider_accounts db \<Longrightarrow>
   provider_of_credential db' c = provider_of_credential db c"
  by (simp_all add: provider_of_model_def provider_of_credential_def split: option.split)

lemma providers_ok_cong:
  assumes "providers_ok db" "destination_rows db' = destination_rows db"
    and "\<And>d. d \<in> set (destination_rows db) \<Longrightarrow> provider_of_credential db' (dn_credential d) = provider_of_credential db (dn_credential d)"
    and "\<And>d. d \<in> set (destination_rows db) \<Longrightarrow> provider_of_model db' (dn_model d) = provider_of_model db (dn_model d)"
  shows "providers_ok db'"
  using assms by (simp add: providers_ok_def)

section \<open>Statements\<close>

lemma fk_Inr: "fk b k = Inr x \<longleftrightarrow> b \<and> k = Inr x"
  by (simp add: fk_def)

lemma put_account_ok:
  assumes "graph_ok db" "put_account i p db = Inr db'"
  shows "graph_ok db'"
proof (cases "row_of pa_resource (provider_accounts db) i")
  case None
  with assms(2) have p: "has res_id (resources db) p"
    and db': "db' = db\<lparr>provider_accounts := provider_accounts db @ [\<lparr>pa_resource = i, pa_provider = p\<rparr>]\<rparr>"
    by (simp_all add: put_account_def fk_Inr)
  have new: "pa_resource a \<noteq> i" if "a \<in> set (provider_accounts db)" for a
    using None that has_row_of [of pa_resource "provider_accounts db" i] by (auto simp: has_def)
  have "keys_ok db'" using assms(1) new by (force simp: graph_ok_def keys_ok_def db')
  moreover have "refs_ok db'" using assms(1) p by (auto simp: graph_ok_def refs_ok_def db' has_simps)
  moreover have "providers_ok db'"
    using assms(1) by (fastforce simp: graph_ok_def providers_ok_def db' provider_of_credential_def provider_of_model_def
        row_of_append split: option.splits)
  moreover have "versions_ok db'" using assms(1) by (simp add: graph_ok_def versions_ok_def db')
  ultimately show ?thesis by (simp add: graph_ok_def)
next
  case (Some a)
  show ?thesis
  proof (cases "pa_provider a = p")
    case True
    with assms Some show ?thesis by (simp add: put_account_def)
  next
    case False
    with assms(2) Some have p: "has res_id (resources db) p" and unused: "\<not> account_used db i"
      and db': "db' = db\<lparr>provider_accounts := set_row pa_resource i (\<lambda>a. a\<lparr>pa_provider := p\<rparr>) (provider_accounts db)\<rparr>"
      by (simp_all add: put_account_def fk_Inr)
    have "keys_ok db'" using assms(1) by (simp add: graph_ok_def keys_ok_def db' map_set_row)
    moreover have "refs_ok db'" using assms(1) p by (auto simp: graph_ok_def refs_ok_def db' table_simps)
    moreover have "providers_ok db'"
    proof -
      have "provider_of_credential db' (dn_credential d) = provider_of_credential db (dn_credential d)"
        if "d \<in> set (destination_rows db)" for d
        using unused that by (fastforce simp: provider_of_credential_def db' row_of_set_row account_used_def
            split: option.splits dest!: row_of_Some)
      with assms(1) show ?thesis
        by (auto simp: graph_ok_def db' intro!: providers_ok_cong [of db] provider_cong(1))
    qed
    moreover have "versions_ok db'" using assms(1) by (simp add: graph_ok_def versions_ok_def db')
    ultimately show ?thesis by (simp add: graph_ok_def)
  qed
qed

lemma new_key: "row_of key rows i = None \<Longrightarrow> r \<in> set rows \<Longrightarrow> key r \<noteq> i"
  using has_row_of [of key rows i] by (auto simp: has_def)

lemma put_connection_ok:
  assumes "graph_ok db" "put_connection i p url priv on db = Inr db'"
  shows "graph_ok db'"
proof (cases "row_of pn_resource (provider_connections db) i")
  case None
  with assms(2) have p: "has res_id (resources db) p"
    and db': "db' = db\<lparr>provider_connections := provider_connections db @
               [\<lparr>pn_resource = i, pn_provider = p, pn_base_url = url, pn_private = priv, pn_enabled = on\<rparr>]\<rparr>"
    by (simp_all add: put_connection_def fk_Inr)
  have "keys_ok db'" using assms(1) new_key [OF None] by (force simp: graph_ok_def keys_ok_def db')
  moreover have "refs_ok db'" using assms(1) p by (auto simp: graph_ok_def refs_ok_def db' has_simps)
  moreover have "providers_ok db'"
    using assms(1) by (fastforce simp: graph_ok_def providers_ok_def db' provider_of_credential_def provider_of_model_def
        row_of_append split: option.splits)
  moreover have "versions_ok db'" using assms(1) by (simp add: graph_ok_def versions_ok_def db')
  ultimately show ?thesis by (simp add: graph_ok_def)
next
  case (Some c)
  define db1 where "db1 = db\<lparr>provider_connections := set_row pn_resource i
      (\<lambda>c. c\<lparr>pn_base_url := url, pn_private := priv, pn_enabled := on\<rparr>) (provider_connections db)\<rparr>"
  have pm: "provider_of_model db1 m = provider_of_model db m" for m
    by (auto simp: db1_def provider_of_model_def row_of_set_row option.map_comp split: option.split)
       (simp_all add: comp_def)
  have "keys_ok db1" using assms(1) by (simp add: graph_ok_def keys_ok_def db1_def map_set_row)
  moreover have "refs_ok db1" using assms(1) by (auto simp: graph_ok_def refs_ok_def db1_def table_simps)
  moreover have "providers_ok db1" using assms(1) pm
    by (auto simp: graph_ok_def db1_def intro!: providers_ok_cong [of db] provider_cong(2))
  moreover have "versions_ok db1" using assms(1) by (simp add: graph_ok_def versions_ok_def db1_def)
  ultimately have ok1: "graph_ok db1" by (simp add: graph_ok_def)
  show ?thesis
  proof (cases "pn_provider c = p")
    case True
    with assms Some ok1 show ?thesis by (simp add: put_connection_def db1_def Let_def)
  next
    case False
    with assms(2) Some have p: "has res_id (resources db1) p" and unused: "\<not> connection_used db1 i"
      and db': "db' = db1\<lparr>provider_connections := set_row pn_resource i (\<lambda>c. c\<lparr>pn_provider := p\<rparr>) (provider_connections db1)\<rparr>"
      by (simp_all add: put_connection_def fk_Inr db1_def Let_def connection_used_def)
    have "keys_ok db'" using ok1 by (simp add: graph_ok_def keys_ok_def db' map_set_row)
    moreover have "refs_ok db'" using ok1 p by (auto simp: graph_ok_def refs_ok_def db' table_simps)
    moreover have "providers_ok db'"
    proof -
      have "provider_of_model db' (dn_model d) = provider_of_model db1 (dn_model d)"
        if "d \<in> set (destination_rows db1)" for d
        using unused that by (fastforce simp: provider_of_model_def db' row_of_set_row connection_used_def
            split: option.splits dest!: row_of_Some)
      with ok1 show ?thesis
        by (auto simp: graph_ok_def db' intro!: providers_ok_cong [of db1] provider_cong(2))
    qed
    moreover have "versions_ok db'" using ok1 by (simp add: graph_ok_def versions_ok_def db')
    ultimately show ?thesis by (simp add: graph_ok_def)
  qed
qed

lemma put_egress_ok:
  assumes "graph_ok db" "put_egress i kind on db = Inr db'"
  shows "graph_ok db'"
proof -
  obtain rows where db': "db' = db\<lparr>egresses := rows\<rparr>" and keys: "distinct (map eg_resource rows)"
    and more: "\<And>e. has eg_resource (egresses db) e \<Longrightarrow> has eg_resource rows e"
  proof (cases "has eg_resource (egresses db) i")
    case True
    with assms show ?thesis
      by (intro that [of "set_row eg_resource i (\<lambda>e. e\<lparr>eg_type := kind, eg_enabled := on\<rparr>) (egresses db)"])
         (auto simp: put_egress_def graph_ok_def keys_ok_def table_simps)
  next
    case False
    with assms show ?thesis
      by (intro that [of "egresses db @ [\<lparr>eg_resource = i, eg_type = kind, eg_enabled = on\<rparr>]"])
         (auto simp: put_egress_def graph_ok_def keys_ok_def has_simps, auto simp: has_def)
  qed
  have "keys_ok db'" using assms(1) keys by (simp add: graph_ok_def keys_ok_def db')
  moreover have "refs_ok db'" using assms(1) more by (simp add: graph_ok_def refs_ok_def db')
  moreover have "providers_ok db'" using assms(1)
    by (auto simp: graph_ok_def db' intro!: providers_ok_cong [of db] provider_cong)
  moreover have "versions_ok db'" using assms(1) by (simp add: graph_ok_def versions_ok_def db')
  ultimately show ?thesis by (simp add: graph_ok_def)
qed

lemma put_credential_ok:
  assumes "graph_ok db" "put_credential i account egress secret status db = Inr db'"
  shows "graph_ok db'"
proof (cases "row_of cd_resource (credential_rows db) i")
  case None
  with assms(2) have refs: "has eg_resource (egresses db) egress" "has se_id (secret_rows db) secret"
      "has pa_resource (provider_accounts db) account"
    and db': "db' = db\<lparr>credential_rows := credential_rows db @ [\<lparr>cd_resource = i, cd_account = account, cd_egress = egress,
               cd_secret = secret, cd_status = status, cd_blocked = None\<rparr>]\<rparr>"
    by (simp_all add: put_credential_def fk_Inr Let_def)
  have "keys_ok db'" using assms(1) new_key [OF None] by (force simp: graph_ok_def keys_ok_def db')
  moreover have "refs_ok db'" using assms(1) refs by (auto simp: graph_ok_def refs_ok_def db' has_simps)
  moreover have "providers_ok db'"
    using assms(1) by (fastforce simp: graph_ok_def providers_ok_def db' provider_of_credential_def provider_of_model_def
        row_of_append split: option.splits)
  moreover have "versions_ok db'" using assms(1) by (simp add: graph_ok_def versions_ok_def db')
  ultimately show ?thesis by (simp add: graph_ok_def)
next
  case (Some c)
  define db1 where "db1 = db\<lparr>credential_rows := set_row cd_resource i
      (\<lambda>c. c\<lparr>cd_egress := egress, cd_secret := secret, cd_status := status, cd_blocked := None\<rparr>) (credential_rows db)\<rparr>"
  have refs: "has eg_resource (egresses db) egress" "has se_id (secret_rows db) secret"
    using assms(2) Some by (simp_all add: put_credential_def fk_Inr Let_def)
  have pc: "provider_of_credential db1 x = provider_of_credential db x" for x
    by (auto simp: db1_def provider_of_credential_def row_of_set_row split: option.split)
  have "keys_ok db1" using assms(1) by (simp add: graph_ok_def keys_ok_def db1_def map_set_row)
  moreover have "refs_ok db1" using assms(1) refs by (auto simp: graph_ok_def refs_ok_def db1_def table_simps)
  moreover have "providers_ok db1" using assms(1) pc
    by (auto simp: graph_ok_def db1_def intro!: providers_ok_cong [of db] provider_cong(1))
  moreover have "versions_ok db1" using assms(1) by (simp add: graph_ok_def versions_ok_def db1_def)
  ultimately have ok1: "graph_ok db1" by (simp add: graph_ok_def)
  show ?thesis
  proof (cases "cd_account c = account")
    case True
    with assms Some ok1 refs show ?thesis by (simp add: put_credential_def db1_def Let_def fk_Inr)
  next
    case False
    with assms(2) Some refs have a: "has pa_resource (provider_accounts db1) account"
      and unused: "\<forall>d\<in>set (destination_rows db1). dn_credential d \<noteq> i"
      and db': "db' = db1\<lparr>credential_rows := set_row cd_resource i (\<lambda>c. c\<lparr>cd_account := account\<rparr>) (credential_rows db1)\<rparr>"
      by (simp_all add: put_credential_def fk_Inr db1_def Let_def)
    have "keys_ok db'" using ok1 by (simp add: graph_ok_def keys_ok_def db' map_set_row)
    moreover have "refs_ok db'" using ok1 a by (auto simp: graph_ok_def refs_ok_def db' table_simps)
    moreover have "providers_ok db'"
      using ok1 unused by (auto simp: graph_ok_def db' provider_of_credential_def [of "db1\<lparr>credential_rows := x\<rparr>" for x]
          provider_of_credential_def [of db1] row_of_set_row intro!: providers_ok_cong [of db1] provider_cong(1) split: option.split)
    moreover have "versions_ok db'" using ok1 by (simp add: graph_ok_def versions_ok_def db')
    ultimately show ?thesis by (simp add: graph_ok_def)
  qed
qed

lemma put_model_ok:
  assumes "graph_ok db" "put_model i connection model caps on db = Inr db'"
  shows "graph_ok db'"
proof (cases "row_of md_resource (model_rows db) i")
  case None
  with assms(2) have ref: "has pn_resource (provider_connections db) connection"
    and db': "db' = db\<lparr>model_rows := model_rows db @ [\<lparr>md_resource = i, md_connection = connection, md_model = model,
               md_capabilities = Some caps, md_enabled = on\<rparr>]\<rparr>"
    by (simp_all add: put_model_def fk_Inr)
  have "keys_ok db'" using assms(1) new_key [OF None] by (force simp: graph_ok_def keys_ok_def db')
  moreover have "refs_ok db'" using assms(1) ref by (auto simp: graph_ok_def refs_ok_def db' has_simps)
  moreover have "providers_ok db'"
    using assms(1) by (fastforce simp: graph_ok_def providers_ok_def db' provider_of_credential_def provider_of_model_def
        row_of_append split: option.splits)
  moreover have "versions_ok db'" using assms(1) by (simp add: graph_ok_def versions_ok_def db')
  ultimately show ?thesis by (simp add: graph_ok_def)
next
  case (Some m)
  define db1 where "db1 = db\<lparr>model_rows := set_row md_resource i
      (\<lambda>m. m\<lparr>md_model := model, md_capabilities := Some caps, md_enabled := on\<rparr>) (model_rows db)\<rparr>"
  have pm: "provider_of_model db1 x = provider_of_model db x" for x
    by (auto simp: db1_def provider_of_model_def row_of_set_row split: option.split)
  have "keys_ok db1" using assms(1) by (simp add: graph_ok_def keys_ok_def db1_def map_set_row)
  moreover have "refs_ok db1" using assms(1) by (auto simp: graph_ok_def refs_ok_def db1_def table_simps)
  moreover have "providers_ok db1" using assms(1) pm
    by (auto simp: graph_ok_def db1_def intro!: providers_ok_cong [of db] provider_cong(2))
  moreover have "versions_ok db1" using assms(1) by (simp add: graph_ok_def versions_ok_def db1_def)
  ultimately have ok1: "graph_ok db1" by (simp add: graph_ok_def)
  show ?thesis
  proof (cases "md_connection m = connection")
    case True
    with assms Some ok1 show ?thesis by (simp add: put_model_def db1_def Let_def)
  next
    case False
    with assms(2) Some have ref: "has pn_resource (provider_connections db1) connection"
      and unused: "\<forall>d\<in>set (destination_rows db1). dn_model d \<noteq> i"
      and db': "db' = db1\<lparr>model_rows := set_row md_resource i (\<lambda>m. m\<lparr>md_connection := connection\<rparr>) (model_rows db1)\<rparr>"
      by (simp_all add: put_model_def fk_Inr db1_def Let_def)
    have "keys_ok db'" using ok1 by (simp add: graph_ok_def keys_ok_def db' map_set_row)
    moreover have "refs_ok db'" using ok1 ref by (auto simp: graph_ok_def refs_ok_def db' table_simps)
    moreover have "providers_ok db'"
      using ok1 unused by (auto simp: graph_ok_def db' provider_of_model_def [of "db1\<lparr>model_rows := x\<rparr>" for x]
          provider_of_model_def [of db1] row_of_set_row intro!: providers_ok_cong [of db1] provider_cong(2) split: option.split)
    moreover have "versions_ok db'" using ok1 by (simp add: graph_ok_def versions_ok_def db')
    ultimately show ?thesis by (simp add: graph_ok_def)
  qed
qed

lemma provider_defined:
  assumes "refs_ok db"
  shows "has cd_resource (credential_rows db) c \<Longrightarrow> provider_of_credential db c \<noteq> None"
    and "has md_resource (model_rows db) m \<Longrightarrow> provider_of_model db m \<noteq> None"
  using assms by (auto simp: provider_of_credential_def provider_of_model_def has_row_of refs_ok_def
      split: option.split dest!: row_of_Some)

lemma put_destination_ok:
  assumes "graph_ok db" "put_destination i model credential weight on db = Inr db'"
  shows "graph_ok db'"
proof -
  define d where "d = \<lparr>dn_resource = i, dn_model = model, dn_credential = credential, dn_weight = weight, dn_enabled = on\<rparr>"
  from assms(2) have ref: "has md_resource (model_rows db) model" "has cd_resource (credential_rows db) credential"
    and same: "provider_match db model credential"
    by (auto simp: put_destination_def fk_Inr)
  obtain rows where db': "db' = db\<lparr>destination_rows := rows\<rparr>" and keys: "distinct (map dn_resource rows)"
    and rows: "\<And>x. x \<in> set rows \<Longrightarrow> x = d \<or> x \<in> set (destination_rows db)"
  proof (cases "has dn_resource (destination_rows db) i")
    case True
    with assms show ?thesis
      by (intro that [of "set_row dn_resource i (\<lambda>x. x\<lparr>dn_model := model, dn_credential := credential, dn_weight := weight,
              dn_enabled := on\<rparr>) (destination_rows db)"])
         (auto simp: put_destination_def fk_Inr graph_ok_def keys_ok_def table_simps d_def)
  next
    case False
    with assms show ?thesis
      by (intro that [of "destination_rows db @ [d]"])
         (auto simp: put_destination_def fk_Inr graph_ok_def keys_ok_def d_def has_def)
  qed
  have both: "provider_of_credential db' c = provider_of_credential db c" "provider_of_model db' m = provider_of_model db m" for c m
    by (auto simp: db' intro: provider_cong)
  have "\<exists>p. provider_of_credential db credential = Some p \<and> provider_of_model db model = Some p"
    using provider_defined [of db] assms(1) ref same by (fastforce simp: graph_ok_def provider_match_def split: option.splits)
  then have "providers_ok db'"
    using assms(1) rows by (auto simp: graph_ok_def providers_ok_def both) (force simp: db' d_def)+
  moreover have "keys_ok db'" using assms(1) keys by (simp add: graph_ok_def keys_ok_def db')
  moreover have "refs_ok db'" using assms(1) ref rows by (fastforce simp: graph_ok_def refs_ok_def db' d_def)
  moreover have "versions_ok db'" using assms(1) by (simp add: graph_ok_def versions_ok_def db')
  ultimately show ?thesis by (simp add: graph_ok_def)
qed

lemma put_route_ok:
  assumes "graph_ok db" "put_route i wanted strategy version on db = Inr db'"
    and "\<exists>v\<in>set (strategy_versions db). sv_id v = version \<and> sv_strategy v = strategy"
  shows "graph_ok db'"
proof -
  define r where "r = \<lparr>route_resource = i, model_alias = wanted, route_strategy = strategy, route_active = Some version, route_enabled = on\<rparr>"
  from assms(2) have ref: "has res_id (resources db) strategy"
    and fresh: "\<And>q. q \<in> set (routes db) \<Longrightarrow> route_resource q \<noteq> i \<Longrightarrow> model_alias q \<noteq> wanted"
    by (auto simp: put_route_def fk_Inr)
  have k: "distinct (map route_resource (routes db))" "distinct (map model_alias (routes db))"
    using assms(1) by (auto simp: graph_ok_def keys_ok_def)
  obtain rows where db': "db' = db\<lparr>routes := rows\<rparr>"
    and keys: "distinct (map route_resource rows)" "distinct (map model_alias rows)"
    and rows: "\<And>x. x \<in> set rows \<Longrightarrow> x = r \<or> x \<in> set (routes db)"
  proof (cases "has route_resource (routes db) i")
    case True
    let ?rows = "set_row route_resource i (\<lambda>q. q\<lparr>model_alias := wanted, route_strategy := strategy,
                   route_active := Some version, route_enabled := on\<rparr>) (routes db)"
    have "inj_on model_alias (set ?rows)"
    proof (rule inj_onI)
      fix x y assume "x \<in> set ?rows" "y \<in> set ?rows" "model_alias x = model_alias y"
      then obtain a b where ab: "a \<in> set (routes db)" "b \<in> set (routes db)"
        "x = (if route_resource a = i then r else a)" "y = (if route_resource b = i then r else b)"
        by (auto simp: set_set_row r_def)
      with \<open>model_alias x = model_alias y\<close> fresh [OF ab(1)] fresh [OF ab(2)] distinct_map_eq [OF k(2) ab(1,2)]
      show "x = y" by (auto simp: r_def split: if_splits)
    qed
    moreover have "distinct (map route_resource ?rows)" using k(1) by (simp add: map_set_row)
    then have "distinct ?rows" by (simp add: distinct_map)
    ultimately have "distinct (map model_alias ?rows)" by (simp add: distinct_map)
    with assms True k show ?thesis
      by (intro that [of ?rows]) (auto simp: put_route_def fk_Inr table_simps r_def)
  next
    case False
    with assms k fresh show ?thesis
      by (intro that [of "routes db @ [r]"]) (force simp: put_route_def fk_Inr r_def has_def)+
  qed
  have "keys_ok db'" using assms(1) keys by (simp add: graph_ok_def keys_ok_def db')
  moreover have "refs_ok db'" using assms(1) ref rows by (fastforce simp: graph_ok_def refs_ok_def db' r_def)
  moreover have "providers_ok db'" using assms(1)
    by (auto simp: graph_ok_def db' intro!: providers_ok_cong [of db] provider_cong)
  moreover have "versions_ok db'" using assms(1,3) rows by (fastforce simp: graph_ok_def versions_ok_def db' r_def)
  ultimately show ?thesis by (simp add: graph_ok_def)
qed

lemma put_agent_ok:
  assumes "graph_ok db" "put_agent i ends gone ids db = Inr db'"
  shows "graph_ok db'"
proof -
  obtain rows where db': "db' = db\<lparr>agent_tokens := rows\<rparr>" and keys: "distinct (map at_resource rows)"
  proof (cases "has at_resource (agent_tokens db) i")
    case True
    with assms show ?thesis
      by (intro that [of "set_row at_resource i (\<lambda>a. a\<lparr>expires_at := ends,
                revoked_at := (if gone \<noteq> None then gone else revoked_at a), allowed_routes := Some ids\<rparr>) (agent_tokens db)"])
         (auto simp: put_agent_def graph_ok_def keys_ok_def table_simps)
  next
    case False
    with assms show ?thesis
      by (intro that [of "agent_tokens db @ [\<lparr>at_resource = i, verifier = None, token_prefix = None, issued_at = None,
                expires_at = ends, revoked_at = gone, allowed_routes = Some ids\<rparr>]"])
         (auto simp: put_agent_def graph_ok_def keys_ok_def has_def)
  qed
  have "keys_ok db'" using assms(1) keys by (simp add: graph_ok_def keys_ok_def db')
  moreover have "refs_ok db'" using assms(1) by (simp add: graph_ok_def refs_ok_def db')
  moreover have "providers_ok db'" using assms(1)
    by (auto simp: graph_ok_def db' intro!: providers_ok_cong [of db] provider_cong)
  moreover have "versions_ok db'" using assms(1) by (simp add: graph_ok_def versions_ok_def db')
  ultimately show ?thesis by (simp add: graph_ok_def)
qed

text \<open>Tables outside the graph: the audit trail, sessions, the revision.\<close>

lemma graph_ok_cong:
  assumes "graph_ok db" "resources db' = resources db" "provider_accounts db' = provider_accounts db"
    "provider_connections db' = provider_connections db" "egresses db' = egresses db" "credential_rows db' = credential_rows db"
    "model_rows db' = model_rows db" "destination_rows db' = destination_rows db" "routes db' = routes db"
    "agent_tokens db' = agent_tokens db" "strategy_versions db' = strategy_versions db" "secret_rows db' = secret_rows db"
  shows "graph_ok db'"
  using assms provider_cong [of db' db]
  by (simp add: graph_ok_def keys_ok_def refs_ok_def versions_ok_def providers_ok_def)

section \<open>Steps\<close>

text \<open>A step that succeeds keeps the graph sound.\<close>

definition keeps_graph :: "('e, 'a) step \<Rightarrow> bool" where
  "keeps_graph m \<longleftrightarrow> (\<forall>db a db'. graph_ok db \<longrightarrow> m db = (Inr a, db') \<longrightarrow> graph_ok db')"

named_theorems keeps_intros \<open>steps that keep the graph sound\<close>

lemma keepsI: "(\<And>db a db'. graph_ok db \<Longrightarrow> m db = (Inr a, db') \<Longrightarrow> graph_ok db') \<Longrightarrow> keeps_graph m"
  by (auto simp: keeps_graph_def)

lemma keeps_basic [keeps_intros]:
  "keeps_graph (returns a)" "keeps_graph (raises e)" "keeps_graph (lift r)" "keeps_graph (reads h)" "keeps_graph (guard b e)"
  by (auto simp: keeps_graph_def guard_Inr)

lemma keeps_bind [keeps_intros]:
  "keeps_graph m \<Longrightarrow> (\<And>a. keeps_graph (k a)) \<Longrightarrow> keeps_graph (bind_step m k)"
  unfolding keeps_graph_def bind_step_Inr by blast

lemma keeps_map_error [keeps_intros]: "keeps_graph m \<Longrightarrow> keeps_graph (map_error h m)"
  by (simp add: keeps_graph_def map_error_Inr)

lemma keeps_cases [keeps_intros]:
  "(b \<Longrightarrow> keeps_graph m) \<Longrightarrow> (\<not> b \<Longrightarrow> keeps_graph m') \<Longrightarrow> keeps_graph (if b then m else m')"
  "keeps_graph m \<Longrightarrow> (\<And>x. keeps_graph (k x)) \<Longrightarrow> keeps_graph (case opt of None \<Rightarrow> m | Some x \<Rightarrow> k x)"
  "(\<And>x y. keeps_graph (j x y)) \<Longrightarrow> keeps_graph (case p of (x, y) \<Rightarrow> j x y)"
  by (auto split: option.split prod.split)

lemma keeps_modify: "(\<And>db. graph_ok db \<Longrightarrow> graph_ok (f db)) \<Longrightarrow> keeps_graph (modify f)"
  by (auto simp: keeps_graph_def)

lemma keeps_audit [keeps_intros]: "keeps_graph (insertAudit f e now a act kind res out v)"
  unfolding insertAudit_def by (intro keeps_intros keeps_modify) (auto elim: graph_ok_cong)

lemma keeps_bump [keeps_intros]: "keeps_graph (bumpConfigRevisionTx f now)"
  unfolding bumpConfigRevisionTx_def by (intro keeps_intros keeps_modify) (auto elim: graph_ok_cong)

lemma keeps_run [keeps_intros]:
  "(\<And>db db'. graph_ok db \<Longrightarrow> w db = Inr db' \<Longrightarrow> graph_ok db') \<Longrightarrow> keeps_graph (run_write f w)"
  by (auto simp: keeps_graph_def run_write_def step_elims split: sum.splits)

lemma keeps_resolve [keeps_intros]: "keeps_graph (resolve f kind name)"
  unfolding resolve_def by (intro keeps_intros)

lemma keeps_resolve_all [keeps_intros]: "keeps_graph (resolve_all f kind names)"
  by (induction names) (auto simp only: resolve_all.simps intro!: keeps_intros)

lemma keeps_get [keeps_intros]: "keeps_graph (GetResourceTx f kind name)"
  unfolding GetResourceTx_def by (intro keeps_intros)

section \<open>Publishing\<close>

lemma move_routes_ok:
  assumes "graph_ok db" "\<exists>v\<in>set (strategy_versions db). sv_id v = version \<and> sv_strategy v = strategy"
  shows "graph_ok (move_routes strategy version db)"
proof -
  let ?db = "move_routes strategy version db"
  have "keys_ok ?db" using assms(1)
    by (simp add: graph_ok_def keys_ok_def move_routes_def comp_def if_distrib cong: if_cong)
  moreover have "refs_ok ?db" using assms(1) by (auto simp: graph_ok_def refs_ok_def move_routes_def)
  moreover have "providers_ok ?db" using assms(1)
    by (auto simp: graph_ok_def move_routes_def intro!: providers_ok_cong [of db] provider_cong)
  moreover have "versions_ok ?db" using assms by (fastforce simp: graph_ok_def versions_ok_def move_routes_def)
  ultimately show ?thesis by (simp add: graph_ok_def)
qed

lemma add_version_ok:
  assumes "graph_ok db" "has res_id (resources db) (sv_strategy v)" "\<not> has sv_id (strategy_versions db) (sv_id v)"
  shows "graph_ok (db\<lparr>strategy_versions := strategy_versions db @ [v]\<rparr>)"
proof -
  let ?db = "db\<lparr>strategy_versions := strategy_versions db @ [v]\<rparr>"
  have "keys_ok ?db" using assms(1,3) by (auto simp: graph_ok_def keys_ok_def has_def)
  moreover have "refs_ok ?db" using assms(1,2) by (auto simp: graph_ok_def refs_ok_def)
  moreover have "providers_ok ?db" using assms(1)
    by (auto simp: graph_ok_def intro!: providers_ok_cong [of db] provider_cong)
  moreover have "versions_ok ?db" using assms(1) by (fastforce simp: graph_ok_def versions_ok_def)
  ultimately show ?thesis by (simp add: graph_ok_def)
qed

lemma publish_Inr:
  assumes "publishStrategyTx f h uuid now strategy json db = (Inr vid, db')"
  shows "\<exists>db1. db' = move_routes strategy vid db1
    \<and> (\<exists>v\<in>set (strategy_versions db1). sv_id v = vid \<and> sv_strategy v = strategy \<and> sv_checksum v = h json)
    \<and> (db1 = db \<or> (\<exists>v. db1 = db\<lparr>strategy_versions := strategy_versions db @ [v]\<rparr> \<and> sv_strategy v = strategy
          \<and> sv_definition v = json \<and> sv_number v = next_version db strategy \<and> uuid = Some (sv_id v)
          \<and> \<not> has sv_id (strategy_versions db) (sv_id v) \<and> has res_id (resources db) strategy
          \<and> find (\<lambda>v. sv_strategy v = strategy \<and> sv_checksum v = h json) (strategy_versions db) = None))"
  using assms unfolding publishStrategyTx_def
  by (cases "find (\<lambda>v. sv_strategy v = strategy \<and> sv_checksum v = h json) (strategy_versions db)"; cases uuid)
     (fastforce simp: step_elims dest: find_some)+

lemma publish_ok:
  assumes "graph_ok db" "publishStrategyTx f h uuid now strategy json db = (Inr vid, db')"
  shows "graph_ok db' \<and> (\<exists>v\<in>set (strategy_versions db'). sv_id v = vid \<and> sv_strategy v = strategy)"
proof -
  obtain db1 where db': "db' = move_routes strategy vid db1"
    and v: "\<exists>v\<in>set (strategy_versions db1). sv_id v = vid \<and> sv_strategy v = strategy"
    and db1: "db1 = db \<or> (\<exists>v. db1 = db\<lparr>strategy_versions := strategy_versions db @ [v]\<rparr> \<and> sv_strategy v = strategy
          \<and> \<not> has sv_id (strategy_versions db) (sv_id v) \<and> has res_id (resources db) strategy)"
    using publish_Inr [OF assms(2)] by blast
  have "graph_ok db1" using db1 assms(1) add_version_ok by blast
  with v show ?thesis using move_routes_ok by (auto simp: db' move_routes_def)
qed

section \<open>The typed rows\<close>

lemma newest_version_Some:
  "newest_version db strategy = Some v \<Longrightarrow> v \<in> set (strategy_versions db) \<and> sv_strategy v = strategy
     \<and> (\<forall>u\<in>set (strategy_versions db). sv_strategy u = strategy \<longrightarrow> sv_number u \<le> sv_number v)"
proof -
  let ?vs = "sort_key sv_number (filter (\<lambda>v. sv_strategy v = strategy) (strategy_versions db))"
  assume v: "newest_version db strategy = Some v"
  then have last: "?vs \<noteq> []" "v = last ?vs" by (auto simp: newest_version_def split: list.splits)
  have "last ?vs \<in> set ?vs" using last(1) by (rule last_in_set)
  then have "v \<in> set ?vs" using last(2) by (simp only:)
  moreover have "sv_number u \<le> sv_number v" if "u \<in> set ?vs" for u
  proof -
    obtain us where us: "?vs = us @ [v]" using last by (metis append_butlast_last_id)
    have "sorted (map sv_number (us @ [v]))" unfolding us [symmetric] by simp
    then show ?thesis using that unfolding us by (auto simp: sorted_append)
  qed
  ultimately show ?thesis by simp
qed

lemma route_version_ok:
  assumes "graph_ok db" "route_version env strategy db = (Inr vid, db')"
  shows "graph_ok db' \<and> (\<exists>v\<in>set (strategy_versions db'). sv_id v = vid \<and> sv_strategy v = strategy)"
proof (cases "newest_version db strategy")
  case (Some v)
  with assms newest_version_Some [OF Some] show ?thesis
    by (auto simp: route_version_def step_elims)
next
  case None
  with assms publish_ok show ?thesis
    by (fastforce simp: route_version_def step_elims split: option.splits)
qed

lemma upsert_route_keeps [keeps_intros]: "keeps_graph (upsert_route env i s)"
proof (rule keepsI)
  fix db a db' assume ok: "graph_ok db" and run: "upsert_route env i s db = (Inr a, db')"
  then obtain strategy d1 version d2 where res: "resolve (re_faults env) ''Strategy'' (sr_StrategyRef s) db = (Inr strategy, d1)"
    and version: "route_version env strategy d1 = (Inr version, d2)"
    and put: "run_write (re_faults env) (put_route i (sr_ModelAlias s) strategy version (sr_Enabled s)) d2 = (Inr a, db')"
    unfolding upsert_route_def bind_step_Inr by blast
  have "graph_ok d1" using keeps_resolve ok res by (auto simp: keeps_graph_def)
  then have d2: "graph_ok d2" "\<exists>v\<in>set (strategy_versions d2). sv_id v = version \<and> sv_strategy v = strategy"
    using route_version_ok [OF _ version] by auto
  have "put_route i (sr_ModelAlias s) strategy version (sr_Enabled s) d2 = Inr db'"
    using put by (auto simp: run_write_def step_elims split: sum.splits)
  from put_route_ok [OF d2(1) this d2(2)] show "graph_ok db'" .
qed

lemma upsert_keeps [keeps_intros]: "keeps_graph (upsertTyped env i kind raw)"
  unfolding upsertTyped_def Let_def upsert_credential_def upsert_agent_def
  by (intro keeps_intros)
     (erule (1) put_account_ok put_connection_ok put_egress_ok put_credential_ok put_model_ok put_destination_ok put_agent_ok)+

section \<open>Resources\<close>

lemma insert_keeps [keeps_intros]: "keeps_graph (insert_resource env input)"
proof (rule keepsI)
  fix db a db' assume ok: "graph_ok db" and run: "insert_resource env input db = (Inr a, db')"
  obtain i where i: "re_uuid env = Some i" using run by (cases "re_uuid env") (auto simp: insert_resource_def)
  from run obtain r where db': "db' = db\<lparr>resources := resources db @ [r]\<rparr>" and r: "res_id r = i" "res_kind r = pr_Kind input" "res_name r = pr_Name input"
    and new: "\<not> has res_id (resources db) i" "find (named (pr_Kind input) (pr_Name input)) (resources db) = None"
    by (auto simp: insert_resource_def i step_elims)
  have "keys_ok db'" using ok new r by (auto simp: graph_ok_def keys_ok_def db' has_def find_None_iff named_def)
  moreover have "refs_ok db'" using ok by (auto simp: graph_ok_def refs_ok_def db' has_simps)
  moreover have "providers_ok db'" using ok
    by (auto simp: graph_ok_def db' intro!: providers_ok_cong [of db] provider_cong)
  moreover have "versions_ok db'" using ok by (simp add: graph_ok_def versions_ok_def db')
  ultimately show "graph_ok db'" by (simp add: graph_ok_def)
qed

lemma set_resources_ok:
  assumes "graph_ok db" "map res_id rows = map res_id (resources db)"
    "map (\<lambda>r. (res_kind r, res_name r)) rows = map (\<lambda>r. (res_kind r, res_name r)) (resources db)"
  shows "graph_ok (db\<lparr>resources := rows\<rparr>)"
proof -
  have "has res_id qs i \<longleftrightarrow> i \<in> set (map res_id qs)" for qs :: "resource list" and i by (auto simp: has_def)
  then have same: "has res_id rows i = has res_id (resources db) i" for i by (simp only: assms(2))
  have "keys_ok (db\<lparr>resources := rows\<rparr>)" using assms by (simp add: graph_ok_def keys_ok_def)
  moreover have "refs_ok (db\<lparr>resources := rows\<rparr>)" using assms(1) same by (simp add: graph_ok_def refs_ok_def)
  moreover have "providers_ok (db\<lparr>resources := rows\<rparr>)" using assms(1)
    by (auto simp: graph_ok_def intro!: providers_ok_cong [of db] provider_cong)
  moreover have "versions_ok (db\<lparr>resources := rows\<rparr>)" using assms(1) by (simp add: graph_ok_def versions_ok_def)
  ultimately show ?thesis by (simp add: graph_ok_def)
qed

lemma envelope_keeps [keeps_intros]: "keeps_graph (write_envelope env e input r)"
proof (rule keepsI)
  fix db a db' assume ok: "graph_ok db" and run: "write_envelope env e input r db = (Inr a, db')"
  then have db': "db' = db\<lparr>resources := map (\<lambda>q. if res_id q = res_id r \<and> res_version q = res_version r
      then q\<lparr>res_display := pr_DisplayName input, res_description := pr_Description input,
             res_version := res_version q + 1, res_spec := pr_Spec input, res_updated := Some (re_now env)\<rparr> else q) (resources db)\<rparr>"
    by (simp add: write_envelope_def update_where_def split: if_splits)
  show "graph_ok db'" unfolding db' by (rule set_resources_ok [OF ok]) simp_all
qed

lemma update_keeps [keeps_intros]:
  "(\<And>i. keeps_graph (typed i)) \<Longrightarrow> keeps_graph (update_resource env e h input typed)"
  unfolding update_resource_def by (intro keeps_intros)

lemma put_keeps [keeps_intros]: "keeps_graph (putTx env input)"
  unfolding putTx_def by (intro keeps_intros)

section \<open>Deletion\<close>

lemma delete_versions_ok:
  assumes "graph_ok db" "\<not> strategy_versions_used db i"
  shows "graph_ok (db\<lparr>strategy_versions := without sv_strategy i (strategy_versions db)\<rparr>)"
proof -
  let ?db = "db\<lparr>strategy_versions := without sv_strategy i (strategy_versions db)\<rparr>"
  have "keys_ok ?db" using assms(1) by (simp add: graph_ok_def keys_ok_def without_def distinct_map_filter)
  moreover have "refs_ok ?db" using assms(1) by (auto simp: graph_ok_def refs_ok_def set_without)
  moreover have "providers_ok ?db" using assms(1)
    by (auto simp: graph_ok_def intro!: providers_ok_cong [of db] provider_cong)
  moreover have "versions_ok ?db"
    using assms by (fastforce simp: graph_ok_def versions_ok_def set_without strategy_versions_used_def)
  ultimately show ?thesis by (simp add: graph_ok_def)
qed

lemma removed_providers:
  assumes "\<not> restricted db i"
  shows "c \<noteq> i \<Longrightarrow> provider_of_credential (remove_resource i db) c = provider_of_credential db c"
    and "m \<noteq> i \<Longrightarrow> provider_of_model (remove_resource i db) m = provider_of_model db m"
proof -
  have "cd_account r \<noteq> i" if "row_of cd_resource (credential_rows db) c = Some r" for r
    using assms row_of_Some [OF that] by (auto simp: restricted_def has_def)
  then show "c \<noteq> i \<Longrightarrow> provider_of_credential (remove_resource i db) c = provider_of_credential db c"
    by (simp add: provider_of_credential_def remove_resource_def row_of_without split: option.split)
  have "md_connection r \<noteq> i" if "row_of md_resource (model_rows db) m = Some r" for r
    using assms row_of_Some [OF that] by (auto simp: restricted_def has_def)
  then show "m \<noteq> i \<Longrightarrow> provider_of_model (remove_resource i db) m = provider_of_model db m"
    by (simp add: provider_of_model_def remove_resource_def row_of_without split: option.split)
qed

lemma remove_resource_ok:
  assumes "graph_ok db" "\<not> restricted db i"
  shows "graph_ok (remove_resource i db)"
proof -
  let ?db = "remove_resource i db"
  note free = assms(2) [unfolded restricted_def]
  have "keys_ok ?db" using assms(1)
    by (simp add: graph_ok_def keys_ok_def remove_resource_def without_def distinct_map_filter)
  moreover have "refs_ok ?db" using assms(1) free
    by (simp add: graph_ok_def refs_ok_def remove_resource_def set_without has_simps) (auto simp: has_def)
  moreover have "providers_ok ?db"
    unfolding providers_ok_def
  proof
    fix d assume "d \<in> set (destination_rows ?db)"
    then have d: "d \<in> set (destination_rows db)" by (simp add: remove_resource_def set_without)
    then obtain p where p: "provider_of_credential db (dn_credential d) = Some p" "provider_of_model db (dn_model d) = Some p"
      using assms(1) by (auto simp: graph_ok_def providers_ok_def)
    have ne: "dn_credential d \<noteq> i" "dn_model d \<noteq> i" using free d by (auto simp: has_def)
    have "provider_of_credential ?db (dn_credential d) = Some p" "provider_of_model ?db (dn_model d) = Some p"
      using p removed_providers [OF assms(2)] ne by simp_all
    then show "\<exists>p. provider_of_credential ?db (dn_credential d) = Some p \<and> provider_of_model ?db (dn_model d) = Some p"
      by blast
  qed
  moreover have "versions_ok ?db" using assms(1) by (simp add: graph_ok_def versions_ok_def remove_resource_def set_without)
  ultimately show ?thesis by (simp add: graph_ok_def)
qed

lemma delete_rows_keeps [keeps_intros]: "keeps_graph (delete_rows f e kind i v)"
proof (rule keepsI)
  fix db a db' assume ok: "graph_ok db" and run: "delete_rows f e kind i v db = (Inr a, db')"
  then obtain db1 where "db1 = db \<or> db1 = db\<lparr>strategy_versions := without sv_strategy i (strategy_versions db)\<rparr> \<and> \<not> strategy_versions_used db i"
    and rest: "\<not> restricted db1 i" "db' = remove_resource i db1"
    by (auto simp: delete_rows_def step_elims split: if_splits)
  then have "graph_ok db1" using ok delete_versions_ok by blast
  with rest show "graph_ok db'" using remove_resource_ok by blast
qed

lemma delete_keeps [keeps_intros]: "keeps_graph (deleteTx env actor kind name expected)"
  unfolding deleteTx_def Let_def ensureNoLogicalReferences_def by (intro keeps_intros)

lemma apply_keeps [keeps_intros]: "keeps_graph (apply_mutation env actor m)"
  unfolding apply_mutation_def apply_put_def apply_delete_def putEnvelopeTx_def Let_def by (intro keeps_intros)

lemma apply_all_keeps [keeps_intros]: "keeps_graph (apply_all envs actor k ms)"
  by (induction ms arbitrary: k) (auto simp only: apply_all.simps intro!: keeps_intros)

lemma batch_keeps: "keeps_graph (ApplyConfigTx envs actor ms)"
  unfolding ApplyConfigTx_def by (intro keeps_intros)

lemma publish_step_keeps [keeps_intros]: "keeps_graph (publishStrategyTx f h uuid now strategy json)"
  using publish_ok by (auto simp: keeps_graph_def)

lemma publish_keeps: "keeps_graph (PublishStrategyTx env name expected actor)"
  unfolding PublishStrategyTx_def Let_def by (intro keeps_intros)

section \<open>Operations\<close>

lemma fail_audit_ok: "graph_ok db \<Longrightarrow> graph_ok (snd (fail_audit env actor action kind i e db))"
  by (auto simp: fail_audit_def Let_def elim: graph_ok_cong)

lemma in_transaction_ok:
  assumes "keeps_graph body" "graph_ok db"
  shows "graph_ok (snd (in_transaction env actor action kind body db))"
  using assms fail_audit_ok [OF assms(2)] unfolding in_transaction_def keeps_graph_def
  by (auto split: prod.splits sum.splits if_splits) (metis snd_conv)

lemma Put_ok: "graph_ok db \<Longrightarrow> graph_ok (snd (Put env input actor db))"
  unfolding Put_def Let_def using fail_audit_ok
  by (auto split: sum.split prod.split intro!: in_transaction_ok keeps_intros) (metis snd_conv)

lemma Delete_ok: "graph_ok db \<Longrightarrow> graph_ok (snd (Delete env kind name expected allow actor db))"
  unfolding Delete_def using fail_audit_ok
  by (auto split: sum.split prod.split intro!: in_transaction_ok keeps_intros) (metis snd_conv)+

text \<open>
  How the configuration of an installation changes: the two operations of the repository, whatever
  they return, and the batch and the publication inside an administrative mutation.
\<close>

inductive config_steps :: "database \<Rightarrow> database \<Rightarrow> bool" where
  start: "config_steps db db"
| put: "config_steps db d1 \<Longrightarrow> Put env input actor d1 = (x, d2) \<Longrightarrow> config_steps db d2"
| delete: "config_steps db d1 \<Longrightarrow> Delete env kind name expected allow actor d1 = (y, d2) \<Longrightarrow> config_steps db d2"
| batch: "config_steps db d1 \<Longrightarrow> ExecuteAdminMutation menv (\<lambda>a. ApplyConfigTx envs a ms) u d1 = (y', u', d2) \<Longrightarrow> config_steps db d2"
| publish: "config_steps db d1 \<Longrightarrow> ExecuteAdminMutation menv (\<lambda>a. PublishStrategyTx env name expected a) u d1 = (z, u', d2) \<Longrightarrow> config_steps db d2"

lemma mutation_ok:
  assumes "ExecuteAdminMutation menv work u d1 = (r, u', d2)" "graph_ok d1" "\<And>a. keeps_graph (work a)"
  shows "graph_ok d2"
proof (rule session_authorizer.mutate_invariant [of "mu_faults menv" menv work u d1 r u' d2 graph_ok])
  show "mutate (mu_faults menv) (authorize_session menv) work u d1 = (r, u', d2)"
    using assms(1) by (simp add: ExecuteAdminMutation_def)
  show "graph_ok d'" if "but_sessions d = but_sessions d'" "graph_ok d" for d d'
  proof -
    have "resources d' = resources (but_sessions d')" "resources d = resources (but_sessions d)" by (simp_all add: but_sessions_def)
    have "graph_ok (but_sessions d)" using that(2) by (rule graph_ok_cong) (simp_all add: but_sessions_def)
    with that(1) have "graph_ok (but_sessions d')" by simp
    then show ?thesis by (rule graph_ok_cong) (simp_all add: but_sessions_def)
  qed
  show "graph_ok d'" if "graph_ok d" "work x d = (Inr a, d')" for x d a d'
    using that assms(3) unfolding keeps_graph_def by blast
qed (use assms in simp)


definition sample_repo :: repo_env where
  "sample_repo = \<lparr>re_faults = no_faults, re_failure = no_faults, re_now = 5, re_audit = 6, re_bump = 7, re_uuid = Some ''p'',
     re_version_uuid = Some ''v'', re_parse = (\<lambda>s. None), re_checksum = (\<lambda>s. s)\<rparr>"

definition sample_put :: put_resource where
  "sample_put = \<lparr>pr_Kind = ''Provider'', pr_Name = ''acme'', pr_DisplayName = None, pr_Description = None, pr_Spec = ''{}'',
     pr_ExpectedVersion = 0\<rparr>"

definition cli :: actor where
  "cli = \<lparr>actor_Type = ''cli'', actor_ID = ''root''\<rparr>"

lemma empty_ok: "graph_ok empty_database"
  by (simp add: graph_ok_def keys_ok_def refs_ok_def providers_ok_def versions_ok_def empty_database_def)


end
