(* ===== verification/Versions.thy ===== *)
theory Versions
  imports GraphInv
begin

text \<open>
  What the operations of the repository promise: optimistic versions, the audit trail and the
  configuration revision of every change, the order of a batch, and the version a route is bound to.
\<close>

section \<open>Frames\<close>

text \<open>The typed rows are written beside the envelopes, the audit trail and the revision.\<close>

definition core :: "database \<Rightarrow> resource list \<times> audit_event list \<times> installation_row option" where
  "core db = (resources db, audit_events db, installation db)"

lemma frame_run_write [frame_intros]:
  "(\<And>db db'. w db = Inr db' \<Longrightarrow> g db' = g db) \<Longrightarrow> frame g (run_write f w)"
  unfolding run_write_def by (intro frame_intros) (auto simp: frame_def split: sum.split)

lemma core_statements:
  "put_account i p db = Inr db' \<Longrightarrow> core db' = core db"
  "put_connection i p url priv on db = Inr db' \<Longrightarrow> core db' = core db"
  "put_egress i k on db = Inr db' \<Longrightarrow> core db' = core db"
  "put_credential i a e s st db = Inr db' \<Longrightarrow> core db' = core db"
  "put_model i c m caps on db = Inr db' \<Longrightarrow> core db' = core db"
  "put_destination i m c w on db = Inr db' \<Longrightarrow> core db' = core db"
  "put_route i al st v on db = Inr db' \<Longrightarrow> core db' = core db"
  "put_agent i ends gone ids db = Inr db' \<Longrightarrow> core db' = core db"
  unfolding put_account_def put_connection_def put_egress_def put_credential_def put_model_def put_destination_def
    put_route_def put_agent_def fk_def Let_def core_def
  by (auto split: option.splits if_splits)

lemma frame_resolve [frame_intros]: "frame g (resolve f kind name)"
  unfolding resolve_def by (intro frame_intros)

lemma frame_resolve_all [frame_intros]: "frame g (resolve_all f kind names)"
proof (induction names)
  case (Cons n names)
  then show ?case unfolding resolve_all.simps by (intro frame_intros)
next
  case Nil
  show ?case unfolding resolve_all.simps by (rule frame_basic)
qed

lemma frame_publish [frame_intros]: "frame core (publishStrategyTx f h uuid now strategy json)"
  unfolding publishStrategyTx_def by (intro frame_intros) (simp_all add: core_def move_routes_def)

lemma frame_route_version [frame_intros]: "frame core (route_version env strategy)"
  unfolding route_version_def by (intro frame_intros)

lemma frame_upsert [frame_intros]: "frame core (upsertTyped env i kind raw)"
  unfolding upsertTyped_def upsert_credential_def upsert_route_def upsert_agent_def Let_def
  by (intro frame_intros) (erule core_statements)+

lemma upsert_core:
  assumes "upsertTyped env i kind raw db = (r, db')"
  shows "resources db' = resources db \<and> audit_events db' = audit_events db \<and> installation db' = installation db"
  using frame_run [OF frame_upsert assms] by (simp add: core_def)

section \<open>What a write did\<close>

text \<open>The row of the write: version 1 for a new resource, one more than before for an old one.\<close>

definition written :: "put_resource \<Rightarrow> stored_resource \<Rightarrow> time \<Rightarrow> database \<Rightarrow> database \<Rightarrow> bool" where
  "written input item now db db' \<longleftrightarrow>
     rs_Kind item = pr_Kind input \<and> rs_Name item = pr_Name input \<and> rs_Spec item = pr_Spec input
     \<and> rs_ResourceVersion item = pr_ExpectedVersion input + 1
     \<and> (if pr_ExpectedVersion input = 0
        then find (named (pr_Kind input) (pr_Name input)) (resources db) = None
        else (\<exists>old. find (named (pr_Kind input) (pr_Name input)) (resources db) = Some old \<and> res_id old = rs_ID item
                \<and> res_version old = pr_ExpectedVersion input))
     \<and> (\<exists>row. find (named (pr_Kind input) (pr_Name input)) (resources db') = Some row \<and> res_id row = rs_ID item
          \<and> res_version row = pr_ExpectedVersion input + 1 \<and> res_spec row = pr_Spec input
          \<and> res_display row = pr_DisplayName input \<and> res_description row = pr_Description input
          \<and> res_updated row = Some now)
     \<and> (\<forall>kind name. (kind, name) \<noteq> (pr_Kind input, pr_Name input) \<longrightarrow>
          find (named kind name) (resources db') = find (named kind name) (resources db))"

lemma insert_Inr:
  assumes "insert_resource env input db = (Inr item, db')"
  shows "\<exists>rid. re_uuid env = Some rid \<and> find (named (pr_Kind input) (pr_Name input)) (resources db) = None
    \<and> db' = db\<lparr>resources := resources db @ [\<lparr>res_id = rid, res_kind = pr_Kind input, res_name = pr_Name input,
          res_display = pr_DisplayName input, res_description = pr_Description input, res_version = 1,
          res_spec = pr_Spec input, res_created = Some (re_now env), res_updated = Some (re_now env)\<rparr>]\<rparr>
    \<and> item = \<lparr>rs_ID = rid, rs_Kind = pr_Kind input, rs_Name = pr_Name input, rs_DisplayName = pr_DisplayName input,
          rs_Description = pr_Description input, rs_ResourceVersion = 1, rs_Spec = pr_Spec input,
          rs_CreatedAt = re_now env, rs_UpdatedAt = re_now env\<rparr>"
  using assms unfolding insert_resource_def by (auto simp: step_elims split: option.splits)

lemma find_append: "find p (xs @ ys) = (case find p xs of None \<Rightarrow> find p ys | Some x \<Rightarrow> Some x)"
  by (induction xs) auto

lemma written_insert:
  assumes "insert_resource env input db = (Inr item, d1)" "pr_ExpectedVersion input = 0" "resources d2 = resources d1"
  shows "written input item (re_now env) db d2"
  using insert_Inr [OF assms(1)] assms(2,3)
  by (auto simp: written_def find_append named_def split: option.split)

lemma envelope_Inr:
  assumes "write_envelope env e input r db = (Inr u, db')"
  shows "db' = db\<lparr>resources := map (\<lambda>q. if res_id q = res_id r \<and> res_version q = res_version r
      then q\<lparr>res_display := pr_DisplayName input, res_description := pr_Description input,
             res_version := res_version q + 1, res_spec := pr_Spec input, res_updated := Some (re_now env)\<rparr> else q) (resources db)\<rparr>"
  using assms by (auto simp: write_envelope_def update_where_def split: if_splits)

lemma update_Inr:
  assumes "update_resource env missing h input typed db = (Inr item, db')"
  shows "\<exists>r d1 created. find (named (pr_Kind input) (pr_Name input)) (resources db) = Some r \<and> res_version r = pr_ExpectedVersion input
    \<and> write_envelope env (h version_conflict (res_id r)) input r db = (Inr (), d1) \<and> typed (res_id r) d1 = (Inr (), db')
    \<and> item = \<lparr>rs_ID = res_id r, rs_Kind = pr_Kind input, rs_Name = pr_Name input, rs_DisplayName = pr_DisplayName input,
               rs_Description = pr_Description input, rs_ResourceVersion = res_version r + 1, rs_Spec = pr_Spec input,
               rs_CreatedAt = created, rs_UpdatedAt = re_now env\<rparr>"
  using assms unfolding update_resource_def by (auto simp: step_elims split: option.splits)

lemma find_map_kept:
  "(\<And>x. p (f x) = p x) \<Longrightarrow> find p (map f xs) = map_option f (find p xs)"
  by (induction xs) auto

lemma written_update:
  assumes "update_resource env missing h input typed db = (Inr item, d2)" "pr_ExpectedVersion input \<noteq> 0"
    and "distinct (map res_id (resources db))"
    and "\<And>rid d1 d2. typed rid d1 = (Inr (), d2) \<Longrightarrow> resources d2 = resources d1"
  shows "written input item (re_now env) db d2"
proof -
  from update_Inr [OF assms(1)] obtain r :: resource and d1 created where r: "find (named (pr_Kind input) (pr_Name input)) (resources db) = Some r"
    "res_version r = pr_ExpectedVersion input" "write_envelope env (h version_conflict (res_id r)) input r db = (Inr (), d1)"
    "typed (res_id r) d1 = (Inr (), d2)"
    and item: "item = \<lparr>rs_ID = res_id r, rs_Kind = pr_Kind input, rs_Name = pr_Name input, rs_DisplayName = pr_DisplayName input,
               rs_Description = pr_Description input, rs_ResourceVersion = res_version r + 1, rs_Spec = pr_Spec input,
               rs_CreatedAt = created, rs_UpdatedAt = re_now env\<rparr>" by blast
  define f where "f = (\<lambda>q :: resource. if res_id q = res_id r \<and> res_version q = res_version r
      then q\<lparr>res_display := pr_DisplayName input, res_description := pr_Description input,
             res_version := res_version q + 1, res_spec := pr_Spec input, res_updated := Some (re_now env)\<rparr> else q)"
  have rows: "resources d2 = map f (resources db)"
    using assms(4) [OF r(4)] envelope_Inr [OF r(3)] by (simp add: f_def)
  have named: "named k n (f q) = named k n q" for k n q by (simp add: f_def named_def)
  have found: "find (named k n) (map f (resources db)) = map_option f (find (named k n) (resources db))" for k n
    by (rule find_map_kept) (rule named)
  have other: "map_option f (find (named k n) (resources db)) = find (named k n) (resources db)"
    if "(k, n) \<noteq> (pr_Kind input, pr_Name input)" for k n
  proof (cases "find (named k n) (resources db)")
    case (Some q)
    have "res_id q \<noteq> res_id r"
    proof
      assume "res_id q = res_id r"
      with assms(3) find_some [OF Some] find_some [OF r(1)] have "q = r" by (metis distinct_map_eq)
      with find_some [OF Some] find_some [OF r(1)] that show False by (simp add: named_def)
    qed
    with Some show ?thesis by (simp add: f_def)
  qed simp
  show ?thesis
    using r assms(2) other unfolding written_def rows found by (auto simp: item f_def)
qed

lemma written_put:
  assumes "putTx env input db = (Inr item, d1)" "resources d2 = resources d1" "distinct (map res_id (resources db))"
  shows "written input item (re_now env) db d2 \<and> audit_events d1 = audit_events db \<and> installation d1 = installation db"
proof (cases "pr_ExpectedVersion input = 0")
  case True
  with assms(1) obtain d0 u where ins: "insert_resource env input db = (Inr item, d0)"
    and typed: "upsertTyped env (rs_ID item) (pr_Kind input) (pr_Spec input) d0 = (Inr u, d1)"
    unfolding putTx_def by (auto simp: map_error_Inr step_elims)
  have "audit_events d0 = audit_events db \<and> installation d0 = installation db"
    using insert_Inr [OF ins] by auto
  with upsert_core [OF typed] written_insert [OF ins True] assms(2) show ?thesis by simp
next
  case False
  let ?typed = "\<lambda>rid. map_error (\<lambda>e. (e, rid)) (upsertTyped env rid (pr_Kind input) (pr_Spec input))"
  have upd: "update_resource env not_found Pair input ?typed db = (Inr item, d1)"
    using assms(1) False by (simp add: putTx_def)
  have typed: "resources e2 = resources e1 \<and> audit_events e2 = audit_events e1 \<and> installation e2 = installation e1"
    if "?typed rid e1 = (Inr (), e2)" for rid e1 e2
    using that upsert_core by (simp add: map_error_Inr)
  have "written input item (re_now env) db d1"
    using written_update [OF upd False assms(3)] typed by blast
  moreover from update_Inr [OF upd] obtain r :: resource and e1 where
    "write_envelope env (version_conflict, res_id r) input r db = (Inr (), e1)" "?typed (res_id r) e1 = (Inr (), d1)" by blast
  moreover have "audit_events e1 = audit_events db \<and> installation e1 = installation db"
    using envelope_Inr [OF calculation(2)] by simp
  ultimately show ?thesis using typed [of "res_id r" e1 d1] assms(2) by (simp add: written_def)
qed

definition success_event :: "repo_env \<Rightarrow> actor \<Rightarrow> string \<Rightarrow> stored_resource \<Rightarrow> audit_event" where
  "success_event env actor action item =
     \<lparr>au_actor_type = actor_Type actor, au_actor_id = actor_ID actor, au_action = action, au_kind = rs_Kind item,
      au_resource = rs_ID item, au_result = ''success'', au_version = rs_ResourceVersion item, au_code = [],
      au_occurred = re_audit env\<rparr>"

definition put_body :: "repo_env \<Rightarrow> put_resource \<Rightarrow> actor \<Rightarrow> (mutation_error \<times> string, stored_resource) step" where
  "put_body env input actor =
     bind_step (putTx env input) (\<lambda>item.
     map_error (\<lambda>e. (e, rs_ID item)) (
       bind_step (insertAudit (re_faults env) (MutationFailed ''audit'') (re_audit env) actor (actionFor (pr_ExpectedVersion input))
         (pr_Kind input) (rs_ID item) ''success'' (rs_ResourceVersion item)) (\<lambda>_.
       bind_step (bumpConfigRevisionTx (re_faults env) (re_bump env)) (\<lambda>_. returns item))))"

lemma bump_Inr:
  "bumpConfigRevisionTx f now db = (Inr u, db') \<longleftrightarrow> \<not> fails f ''bump revision'' \<and>
     (\<exists>i. installation db = Some i \<and> db' = db\<lparr>installation := Some (i\<lparr>in_revision := in_revision i + 1, in_updated := Some now\<rparr>)\<rparr>)"
  unfolding bumpConfigRevisionTx_def by (auto simp: step_elims split: option.splits)

lemma audit_Inr:
  "insertAudit f e now actor action kind rid outcome version db = (Inr u, db') \<longleftrightarrow> \<not> fails f ''audit'' \<and>
     db' = db\<lparr>audit_events := audit_events db @
       [\<lparr>au_actor_type = actor_Type actor, au_actor_id = actor_ID actor, au_action = action, au_kind = kind,
         au_resource = rid, au_result = outcome, au_version = version, au_code = [], au_occurred = now\<rparr>]\<rparr>"
  unfolding insertAudit_def by (auto simp: step_elims)

lemma put_body_Inr:
  assumes "put_body env input actor db = (Inr item, db')" "distinct (map res_id (resources db))"
  shows "written input item (re_now env) db db'
    \<and> audit_events db' = audit_events db @ [success_event env actor (actionFor (pr_ExpectedVersion input)) item]
    \<and> (\<exists>i. installation db = Some i \<and> installation db' = Some (i\<lparr>in_revision := in_revision i + 1, in_updated := Some (re_bump env)\<rparr>))"
proof -
  from assms(1) obtain d1 where put: "putTx env input db = (Inr item, d1)"
    and rest: "resources db' = resources d1"
      "audit_events db' = audit_events d1 @ [success_event env actor (actionFor (pr_ExpectedVersion input)) (item\<lparr>rs_Kind := pr_Kind input\<rparr>)]"
      "\<exists>i. installation d1 = Some i \<and> installation db' = Some (i\<lparr>in_revision := in_revision i + 1, in_updated := Some (re_bump env)\<rparr>)"
    unfolding put_body_def by (auto simp: step_elims map_error_Inr bump_Inr audit_Inr success_event_def)
  from written_put [OF put rest(1) assms(2)] rest show ?thesis
    by (simp add: written_def success_event_def)
qed

lemma fail_audit_cases:
  assumes "fail_audit env actor action kind i e db = (x, db')" "\<not> commit_fails (re_failure env)"
  shows "x = RepoError e \<and> db' = db\<lparr>audit_events := audit_events db @ [failure_event env actor action kind i e]\<rparr>
    \<or> x = MutationAuditError e \<and> db' = db"
  using assms by (auto simp: fail_audit_def Let_def split: if_splits)

section \<open>Writes of one resource\<close>

lemma Put_body:
  "Put env input actor db =
     (case validateActor actor of
        Inl e \<Rightarrow> (Inl (RepoError e), db)
      | Inr _ \<Rightarrow>
          (case validatePut input of
             Inl e \<Rightarrow> (case fail_audit env actor (actionFor (pr_ExpectedVersion input)) (pr_Kind input) [] e db of (x, db') \<Rightarrow> (Inl x, db'))
           | Inr _ \<Rightarrow> in_transaction env actor (actionFor (pr_ExpectedVersion input)) (pr_Kind input) (put_body env input actor) db))"
  unfolding Put_def put_body_def Let_def by (rule refl)

lemma transaction_Inr:
  "in_transaction env actor action kind body db = (Inr a, db') \<Longrightarrow> body db = (Inr a, db')"
  by (auto simp: in_transaction_def split: prod.splits sum.splits if_splits)

lemma put_done_body: "Put env input actor db = (Inr item, db') \<Longrightarrow> put_body env input actor db = (Inr item, db')"
  by (auto simp: Put_body split: prod.splits sum.splits dest!: transaction_Inr)

lemma del_done_body:
  "Delete env kind name expected allow actor db = (Inr u, db') \<Longrightarrow> deleteTx env actor kind name expected db = (Inr u, db')"
  by (auto simp: Delete_def split: prod.splits sum.splits if_splits dest!: transaction_Inr)

lemma in_transaction_cases:
  assumes "in_transaction env actor action kind body db = (r, db')"
    and "\<not> commit_fails (re_faults env)" "\<not> commit_fails (re_failure env)"
  shows "case r of
      Inr a \<Rightarrow> body db = (Inr a, db')
    | Inl (RepoError e) \<Rightarrow> db' = db \<and> fails (re_faults env) ''begin''
        \<or> (\<exists>rid. db' = db\<lparr>audit_events := audit_events db @ [failure_event env actor action kind rid e]\<rparr>)
    | Inl (MutationAuditError e) \<Rightarrow> db' = db"
proof (cases "body db")
  case (Pair x d)
  show ?thesis
  proof (cases "fails (re_faults env) ''begin'' \<or> (\<exists>a. x = Inr a)")
    case True
    with assms Pair show ?thesis by (auto simp: in_transaction_def split: if_splits)
  next
    case False
    then obtain e rid where "x = Inl (e, rid)" by (metis obj_sumE old.prod.exhaust)
    with False assms Pair obtain y where "fail_audit env actor action kind rid e db = (y, db')" "r = Inl y"
      by (auto simp: in_transaction_def split: prod.splits)
    with fail_audit_cases [OF _ assms(3)] show ?thesis by fastforce
  qed
qed


definition sample_installation :: database where
  "sample_installation = empty_database\<lparr>installation := Some \<lparr>in_id = ''i'', in_key_version = 1, in_revision = 4, in_key_check = None,
     in_created = None, in_updated = None\<rparr>\<rparr>"

lemma sample_put_valid: "validatePut sample_put = Inr ()"
  by code_simp

lemma sample_put_done: "is_ok (fst (Put sample_repo sample_put cli sample_installation))"
  by code_simp


text \<open>
  C11: no update is lost: when a write of a resource has succeeded, a second write of the same resource
  that was made for the same version fails, and so does a deletion for that version, whoever issues it
  and however its own transaction ends.
\<close>

theorem stale_write_refused:
  assumes "Put env input actor db = (Inr item, db1)" "distinct (map res_id (resources db))"
    and "pr_Kind input2 = pr_Kind input" "pr_Name input2 = pr_Name input" "pr_ExpectedVersion input2 = pr_ExpectedVersion input"
  shows "(\<exists>e. fst (Put env2 input2 actor2 db1) = Inl e)
    \<and> (\<exists>e. fst (Delete env3 (pr_Kind input) (pr_Name input) (pr_ExpectedVersion input) allow actor3 db1) = Inl e)"
proof -
  obtain row where row: "find (named (pr_Kind input) (pr_Name input)) (resources db1) = Some row"
    "res_version row = pr_ExpectedVersion input + 1"
    using put_done_body [OF assms(1)] put_body_Inr [OF _ assms(2)] unfolding written_def by blast
  have "put_body env2 input2 actor2 db1 \<noteq> (Inr x, d)" for x d
  proof
    assume "put_body env2 input2 actor2 db1 = (Inr x, d)"
    then obtain d1 where "putTx env2 input2 db1 = (Inr x, d1)" unfolding put_body_def by (auto simp: step_elims map_error_Inr)
    then show False
      using row assms(3-5) insert_Inr update_Inr unfolding putTx_def
      by (fastforce simp: map_error_Inr step_elims split: if_splits)
  qed
  moreover have "deleteTx env3 actor3 (pr_Kind input) (pr_Name input) (pr_ExpectedVersion input) db1 \<noteq> (Inr x, d)" for x d
    using row unfolding deleteTx_def Let_def by (auto simp: step_elims map_error_Inr)
  ultimately show ?thesis
    using put_done_body del_done_body by (metis obj_sumE prod.collapse)
qed

theorem stale_write_refused_witness:
  "\<not> is_ok (fst (Put sample_repo sample_put cli (snd (Put sample_repo sample_put cli sample_installation))))"
proof -
  obtain item where "fst (Put sample_repo sample_put cli sample_installation) = Inr item"
    using sample_put_done by (auto simp: is_ok_iff)
  then have "Put sample_repo sample_put cli sample_installation = (Inr item, snd (Put sample_repo sample_put cli sample_installation))"
    by (metis prod.collapse)
  from stale_write_refused [OF this _ refl refl refl, of sample_repo cli]
  show ?thesis by (auto simp: sample_installation_def empty_database_def is_ok_iff)
qed

section \<open>Batches\<close>

text \<open>What an audited mutation is called.\<close>

definition mutation_label :: "config_mutation \<Rightarrow> string \<times> string" where
  "mutation_label m =
     (if cm_Action m = ''delete'' then (''resource.delete'', cm_Kind m)
      else (actionFor (pr_ExpectedVersion (cm_Put m)), pr_Kind (cm_Put m)))"

definition event_label :: "audit_event \<Rightarrow> string \<times> string" where
  "event_label e = (au_action e, au_kind e)"

lemma insert_core: "insert_resource env input db = (Inr item, db') \<Longrightarrow> audit_events db' = audit_events db \<and> installation db' = installation db"
  using insert_Inr by fastforce

lemma update_core:
  assumes "update_resource env missing h input (\<lambda>rid. returns ()) db = (Inr item, db')"
  shows "audit_events db' = audit_events db \<and> installation db' = installation db \<and> rs_Kind item = pr_Kind input"
proof -
  from update_Inr [OF assms] obtain r :: resource and d1 created where "write_envelope env (h version_conflict (res_id r)) input r db = (Inr (), d1)"
    "db' = d1" "rs_Kind item = pr_Kind input" by auto
  with envelope_Inr show ?thesis by fastforce
qed

lemma apply_put_Inr:
  assumes "apply_put env actor m db = (Inr u, db')" "cm_Action m \<noteq> ''delete''"
  shows "pr_Kind (cm_Put m) \<in> set validKinds \<and> installation db' = installation db
    \<and> (\<exists>e. audit_events db' = audit_events db @ [e] \<and> event_label e = mutation_label m)"
proof -
  from assms(1) obtain item d1 d2 where valid: "validatePut (cm_Put m) = Inr ()" and put: "putEnvelopeTx env (cm_Put m) db = (Inr item, d1)"
    and typed: "upsertTyped env (rs_ID item) (rs_Kind item) (rs_Spec item) d1 = (Inr (), d2)"
    and audit: "insertAudit (re_faults env) (MutationFailed ''audit'') (re_audit env) actor (actionFor (pr_ExpectedVersion (cm_Put m)))
      (rs_Kind item) (rs_ID item) ''success'' (rs_ResourceVersion item) d2 = (Inr u, db')"
    unfolding apply_put_def Let_def by (auto simp: step_elims)
  have "audit_events d1 = audit_events db \<and> installation d1 = installation db \<and> rs_Kind item = pr_Kind (cm_Put m)"
  proof (cases "pr_ExpectedVersion (cm_Put m) = 0")
    case True
    with put have "insert_resource env (cm_Put m) db = (Inr item, d1)" by (simp add: putEnvelopeTx_def)
    with insert_core insert_Inr show ?thesis by fastforce
  next
    case False
    with put have "update_resource env version_conflict (\<lambda>e rid. e) (cm_Put m) (\<lambda>rid. returns ()) db = (Inr item, d1)"
      unfolding putEnvelopeTx_def by (simp only: if_False)
    from update_core [OF this] show ?thesis .
  qed
  with upsert_core [OF typed] audit valid assms(2) show ?thesis
    by (auto simp: audit_Inr validatePut_def event_label_def mutation_label_def split: if_splits)
qed

lemma frame_delete_rows: "frame (\<lambda>db. (audit_events db, installation db)) (delete_rows f e kind rid v)"
  unfolding delete_rows_def by (intro frame_intros) (simp_all add: remove_resource_def)

lemma apply_delete_Inr:
  assumes "apply_delete env actor m db = (Inr u, db')" "cm_Action m = ''delete''"
  shows "cm_Kind m \<in> set validKinds \<and> installation db' = installation db
    \<and> (\<exists>e. audit_events db' = audit_events db @ [e] \<and> event_label e = mutation_label m)"
proof -
  from assms(1) obtain r :: resource and d1 where kind: "cm_Kind m \<in> set validKinds"
    and rows: "delete_rows (re_faults env) reference_missing (cm_Kind m) (res_id r) (res_version r) db = (Inr (), d1)"
    and audit: "insertAudit (re_faults env) (MutationFailed ''audit'') (re_audit env) actor ''resource.delete'' (cm_Kind m)
      (res_id r) ''success'' (res_version r) d1 = (Inr u, db')"
    unfolding apply_delete_def Let_def by (auto simp: step_elims split: option.splits)
  from frame_run [OF frame_delete_rows rows] audit kind assms(2) show ?thesis
    by (auto simp: audit_Inr event_label_def mutation_label_def)
qed

text \<open>The rank of a mutation that was applied: its kind's for a write, beyond those of all writes for a deletion.\<close>

definition applied :: "config_mutation \<Rightarrow> bool" where
  "applied m \<longleftrightarrow> cm_Action m = ''noop'' \<or> cm_Action m \<in> {''create'', ''update''} \<and> pr_Kind (cm_Put m) \<in> set validKinds
     \<or> cm_Action m = ''delete'' \<and> cm_Kind m \<in> set validKinds"

lemma apply_all_Inr:
  "apply_all envs actor k ms db = (Inr u, db') \<Longrightarrow> list_all applied ms \<and> installation db' = installation db
    \<and> (\<exists>es. audit_events db' = audit_events db @ es
          \<and> map event_label es = map mutation_label (filter (\<lambda>m. cm_Action m \<noteq> ''noop'') ms))"
proof (induction ms arbitrary: k db)
  case (Cons m ms)
  then obtain u1 d1 where m: "apply_mutation (envs k) actor m db = (Inr u1, d1)" and rest: "apply_all envs actor (Suc k) ms d1 = (Inr u, db')"
    by (auto simp: step_elims)
  have one: "applied m \<and> installation d1 = installation db
    \<and> (\<exists>es. audit_events d1 = audit_events db @ es \<and> map event_label es = (if cm_Action m = ''noop'' then [] else [mutation_label m]))"
  proof (cases "cm_Action m = ''delete''")
    case True
    with m apply_delete_Inr [of "envs k" actor m db u1 d1] show ?thesis
      by (fastforce simp: apply_mutation_def applied_def)
  next
    case False
    with m apply_put_Inr [of "envs k" actor m db u1 d1] show ?thesis
      by (fastforce simp: apply_mutation_def applied_def split: if_splits)
  qed
  with Cons.IH [OF rest] show ?case by auto
qed simp

lemma kindRank_bounds: "k \<in> set validKinds \<Longrightarrow> 1 \<le> kindRank k \<and> kindRank k \<le> 8"
  by (auto simp: validKinds_def kindRank_def)

lemma sort_key_split:
  assumes "\<And>x y. x \<in> set xs \<Longrightarrow> y \<in> set xs \<Longrightarrow> p x \<Longrightarrow> \<not> p y \<Longrightarrow> f x < f y"
  shows "sort_key f xs = sort_key f (filter p xs) @ sort_key f (filter (\<lambda>x. \<not> p x) xs)"
proof (rule properties_for_sort_key)
  show "mset (sort_key f (filter p xs) @ sort_key f (filter (\<lambda>x. \<not> p x) xs)) = mset xs" by simp
  show "sorted (map f (sort_key f (filter p xs) @ sort_key f (filter (\<lambda>x. \<not> p x) xs)))"
    using assms by (fastforce simp: sorted_append less_imp_le)
  show "filter (\<lambda>x. f k = f x) (sort_key f (filter p xs) @ sort_key f (filter (\<lambda>x. \<not> p x) xs)) = filter (\<lambda>x. f k = f x) xs"
    if "k \<in> set (sort_key f (filter p xs) @ sort_key f (filter (\<lambda>x. \<not> p x) xs))" for k
  proof (cases "p k")
    case True
    with that assms have "x \<in> set xs \<Longrightarrow> f k = f x \<Longrightarrow> p x" for x by (metis (no_types, lifting) Un_iff filter_is_subset less_irrefl set_append set_sort subsetD)
    then have "filter (\<lambda>x. p x \<and> f x = f k) xs = filter (\<lambda>x. f x = f k) xs" "filter (\<lambda>x. \<not> p x \<and> f x = f k) xs = []"
      by (auto simp: filter_empty_conv intro!: filter_cong)
    then show ?thesis by (simp add: sort_key_stable eq_commute [of "f k"])
  next
    case False
    with that assms have "x \<in> set xs \<Longrightarrow> f k = f x \<Longrightarrow> \<not> p x" for x by (metis (no_types, lifting) Un_iff filter_is_subset less_irrefl set_append set_sort subsetD)
    then have "filter (\<lambda>x. \<not> p x \<and> f x = f k) xs = filter (\<lambda>x. f x = f k) xs" "filter (\<lambda>x. p x \<and> f x = f k) xs = []"
      by (auto simp: filter_empty_conv intro!: filter_cong)
    then show ?thesis by (simp add: sort_key_stable eq_commute [of "f k"])
  qed
qed

lemma sort_key_mono:
  assumes "\<And>x y. x \<in> set xs \<Longrightarrow> y \<in> set xs \<Longrightarrow> f x \<le> f y \<longleftrightarrow> g x \<le> g y"
  shows "sort_key f xs = sort_key g xs"
proof (rule properties_for_sort_key)
  have "f x = f y \<longleftrightarrow> g x = g y" if "x \<in> set xs" "y \<in> set xs" for x y
    using assms that by (metis order_antisym order_refl)
  then have same: "filter (\<lambda>x. f k = f x) ys = filter (\<lambda>x. g x = g k) ys" if "k \<in> set xs" "set ys \<subseteq> set xs" for k ys
    using that by (intro filter_cong) auto
  show "filter (\<lambda>x. f k = f x) (sort_key g xs) = filter (\<lambda>x. f k = f x) xs" if "k \<in> set (sort_key g xs)" for k
    using that by (simp add: same sort_key_stable)
  show "sorted (map f (sort_key g xs))"
    using sorted_sort_key [of g xs] assms by (auto simp: sorted_wrt_map intro: sorted_wrt_mono_rel [rotated])
qed simp

lemma applied_order:
  assumes "list_all applied ms"
  shows "filter (\<lambda>m. cm_Action m \<noteq> ''noop'') (sort_key mutationRank ms)
    = sort_key (\<lambda>m. kindRank (pr_Kind (cm_Put m))) (filter (\<lambda>m. cm_Action m \<in> {''create'', ''update''}) ms)
      @ sort_key (\<lambda>m. - kindRank (cm_Kind m)) (filter (\<lambda>m. cm_Action m = ''delete'') ms)"
proof -
  let ?w = "\<lambda>m. cm_Action m \<in> {''create'', ''update''}"
  let ?xs = "filter (\<lambda>m. cm_Action m \<noteq> ''noop'') ms"
  have xs: "applied m \<and> cm_Action m \<noteq> ''noop''" if "m \<in> set ?xs" for m
    using that assms by (simp add: list_all_iff)
  have "sort_key mutationRank ?xs = sort_key mutationRank (filter ?w ?xs) @ sort_key mutationRank (filter (\<lambda>m. \<not> ?w m) ?xs)"
  proof (rule sort_key_split)
    fix x y assume "x \<in> set ?xs" "y \<in> set ?xs" "?w x" "\<not> ?w y"
    with xs [of x] xs [of y] have "pr_Kind (cm_Put x) \<in> set validKinds" "cm_Kind y \<in> set validKinds" "cm_Action x \<noteq> ''delete''" "cm_Action y = ''delete''"
      by (auto simp: applied_def)
    with kindRank_bounds [of "pr_Kind (cm_Put x)"] kindRank_bounds [of "cm_Kind y"] show "mutationRank x < mutationRank y"
      by (simp add: mutationRank_def)
  qed
  moreover have "filter ?w ?xs = filter ?w ms"
    by (auto intro: filter_cong)
  moreover have "filter (\<lambda>m. \<not> ?w m) ?xs = filter (\<lambda>m. cm_Action m = ''delete'') ms"
    using assms by (auto simp: list_all_iff applied_def intro!: filter_cong)
  moreover have "sort_key mutationRank (filter ?w ms) = sort_key (\<lambda>m. kindRank (pr_Kind (cm_Put m))) (filter ?w ms)"
    by (rule sort_key_mono) (auto simp: mutationRank_def)
  moreover have "sort_key mutationRank (filter (\<lambda>m. cm_Action m = ''delete'') ms)
      = sort_key (\<lambda>m. - kindRank (cm_Kind m)) (filter (\<lambda>m. cm_Action m = ''delete'') ms)"
    by (rule sort_key_mono) (auto simp: mutationRank_def)
  ultimately show ?thesis by (simp add: filter_sort)
qed


definition sample_batch :: "config_mutation list" where
  "sample_batch = [\<lparr>cm_Action = ''create'', cm_Put = sample_put, cm_Kind = ''Provider'', cm_Name = ''acme'', cm_ExpectedVersion = 0\<rparr>]"


section \<open>The version of a route\<close>


definition sample_versions :: database where
  "sample_versions = empty_database\<lparr>
     strategy_versions := [
       \<lparr>sv_id = ''v1'', sv_strategy = ''s'', sv_number = 1, sv_definition = ''{}'', sv_checksum = ''{}'', sv_published = 1\<rparr>,
       \<lparr>sv_id = ''v2'', sv_strategy = ''s'', sv_number = 2, sv_definition = ''[]'', sv_checksum = ''[]'', sv_published = 2\<rparr>],
     routes := [\<lparr>route_resource = ''r'', model_alias = ''m'', route_strategy = ''s'', route_active = Some ''v2'', route_enabled = True\<rparr>]\<rparr>"


end
