(* ===== verification/Timestamp.thy ===== *)
theory Timestamp
  imports GoText "HOL-Library.List_Lexorder" "HOL-Library.Char_ord"
begin

text \<open>
  The text of a time in a column of the database: \<open>t.UTC().Format(time.RFC3339Nano)\<close>, for times from
  year 1 to year 9999, and the order of these texts, which is the order SQLite compares them in. Whole
  seconds agree with the order of time; inside one second the texts drop trailing zeros of the fraction
  and the order does not always agree.
\<close>

section \<open>Digits of fixed width\<close>

definition digit :: "nat \<Rightarrow> char" where
  "digit n = char_of (48 + n mod 10)"

fun pad :: "nat \<Rightarrow> nat \<Rightarrow> string" where
  "pad 0 n = []"
| "pad (Suc w) n = pad w (n div 10) @ [digit n]"

lemma length_pad [simp]: "length (pad w n) = w"
  by (induction w arbitrary: n) auto

lemma lex_append:
  "length a = length b \<Longrightarrow> (a @ x < b @ y) \<longleftrightarrow> a < b \<or> a = b \<and> (x :: string) < y"
  by (induction a b rule: list_induct2) auto

lemma byte_char_less: "n < 256 \<Longrightarrow> m < 256 \<Longrightarrow> char_of n < (char_of m :: char) \<longleftrightarrow> n < (m :: nat)"
  by (simp add: less_char_def)

lemma digit_less: "m < 10 \<Longrightarrow> n < 10 \<Longrightarrow> digit m < digit n \<longleftrightarrow> m < n"
  by (simp add: digit_def byte_char_less)

lemma digit_mod: "digit (n mod 10) = digit n"
  by (simp add: digit_def)

lemma pad_less: "m < 10 ^ w \<Longrightarrow> n < 10 ^ w \<Longrightarrow> m < n \<Longrightarrow> pad w m < pad w n"
proof (induction w arbitrary: m n)
  case (Suc w)
  show ?case
  proof (cases "m div 10 < n div 10")
    case True
    have "m div 10 < 10 ^ w" "n div 10 < 10 ^ w" using Suc.prems by (simp_all add: less_mult_imp_div_less mult.commute)
    with Suc.IH True show ?thesis by (simp add: lex_append)
  next
    case False
    with Suc.prems(3) have "m div 10 = n div 10" by (simp add: div_le_mono le_antisym)
    moreover have "m mod 10 < n mod 10" using calculation Suc.prems(3) by (metis div_mult_mod_eq add_less_cancel_left)
    ultimately have "m div 10 = n div 10" "m mod 10 < n mod 10" by simp_all
    with digit_less [of "m mod 10" "n mod 10"] show ?thesis by (simp add: lex_append digit_mod)
  qed
qed simp

section \<open>The calendar\<close>

text \<open>Days since the first of January of year 1; Go's \<open>absDate\<close>.\<close>

definition year_day :: "nat \<Rightarrow> nat \<times> nat" where
  "year_day d =
     (let a = d div 146097; d1 = d mod 146097;
          b0 = d1 div 36524; b = b0 - b0 div 4; d2 = d1 - 36524 * b;
          c = d2 div 1461; d3 = d2 mod 1461;
          e0 = d3 div 365; e = e0 - e0 div 4; d4 = d3 - 365 * e
      in (400 * a + 100 * b + 4 * c + e + 1, d4))"

definition is_leap :: "nat \<Rightarrow> bool" where
  "is_leap y \<longleftrightarrow> y mod 4 = 0 \<and> (y mod 100 \<noteq> 0 \<or> y mod 400 = 0)"

definition month_starts :: "bool \<Rightarrow> nat list" where
  "month_starts leap = (let l = (if leap then 1 else 0) in
     [0, 31, 59 + l, 90 + l, 120 + l, 151 + l, 181 + l, 212 + l, 243 + l, 273 + l, 304 + l, 334 + l])"

definition month_day :: "bool \<Rightarrow> nat \<Rightarrow> nat \<times> nat" where
  "month_day leap yd = (let begun = filter (\<lambda>s. s \<le> yd) (month_starts leap) in (length begun, yd - last begun + 1))"

definition date_text :: "nat \<Rightarrow> string" where
  "date_text d =
     (let (y, yd) = year_day d; (m, dm) = month_day (is_leap y) yd
      in pad 4 y @ ''-'' @ pad 2 m @ ''-'' @ pad 2 dm)"

definition clock_text :: "nat \<Rightarrow> string" where
  "clock_text s = pad 2 (s div 3600) @ '':'' @ pad 2 (s div 60 mod 60) @ '':'' @ pad 2 (s mod 60)"

definition days_before :: "nat \<Rightarrow> nat" where
  "days_before y = 365 * y + y div 4 - y div 100 + y div 400"

lemma div_of: "r < k \<Longrightarrow> (k * q + r) div k = (q :: nat)"
  by simp

lemma quarter:
  assumes "d \<le> 4 * k" "0 < k"
  shows "d div k - d div k div 4 \<le> 3 \<and> k * (d div k - d div k div 4) \<le> d
    \<and> (d - k * (d div k - d div k div 4) < k
        \<or> d div k - d div k div 4 = 3 \<and> d - k * (d div k - d div k div 4) = k \<and> d = (4 * k :: nat))"
proof (cases "d = 4 * k")
  case True
  with assms(2) show ?thesis by simp
next
  case False
  with assms have "d div k < 4" by (simp add: less_mult_imp_div_less)
  then have "d div k - d div k div 4 = d div k" "d div k \<le> 3" by simp_all
  moreover have "k * (d div k) \<le> d" by simp
  moreover have "d - k * (d div k) < k" using assms(2) by (simp add: minus_mult_div_eq_mod)
  ultimately show ?thesis by simp
qed

lemma year_day_inverse:
  assumes "year_day d = (y, yd)"
  shows "d = days_before (y - 1) + yd \<and> 1 \<le> y \<and> yd < (if is_leap y then 366 else 365)"
proof -
  define a d1 where "a = d div 146097" and "d1 = d mod 146097"
  define b where "b = d1 div 36524 - d1 div 36524 div 4"
  define d2 where "d2 = d1 - 36524 * b"
  define c d3 where "c = d2 div 1461" and "d3 = d2 mod 1461"
  define e where "e = d3 div 365 - d3 div 365 div 4"
  have y: "y = 400 * a + 100 * b + 4 * c + e + 1" and yd: "yd = d3 - 365 * e"
    using assms by (simp_all add: year_day_def Let_def a_def d1_def b_def d2_def c_def d3_def e_def)
  have d: "d = 146097 * a + d1" "d1 < 146097" by (simp_all add: a_def d1_def)
  have b: "b \<le> 3" "36524 * b \<le> d1" "d2 < 36524 \<or> b = 3 \<and> d2 \<le> 36524"
    using d(2) quarter [of d1 36524] unfolding b_def d2_def by auto
  have "d2 < 1461 * 25" using b by auto
  then have c24: "c \<le> 24" unfolding c_def using less_mult_imp_div_less [of d2 25 1461] by (simp add: mult.commute)
  have d2: "d2 = 1461 * c + d3" "d3 < 1461" by (simp_all add: c_def d3_def)
  have "b = 3 \<or> c < 24 \<or> d3 < 1460"
  proof (cases "c = 24")
    case True
    with b(3) d2 show ?thesis by auto
  qed (use c24 in simp)
  note c = d2 c24 this
  have e: "e \<le> 3" "365 * e \<le> d3" "d3 - 365 * e < 365 \<or> e = 3 \<and> d3 = 1460"
    using c(2) quarter [of d3 365] unfolding e_def by auto
  have "(y - 1) div 4 = 100 * a + 25 * b + c" "(y - 1) div 100 = 4 * a + b" "(y - 1) div 400 = a"
    using div_of [of e 4 "100 * a + 25 * b + c"] div_of [of "4 * c + e" 100 "4 * a + b"] div_of [of "100 * b + 4 * c + e" 400 a]
      y b(1) c(3) e(1) by (simp_all add: algebra_simps)
  then have "days_before (y - 1) = 365 * (y - 1) + (100 * a + 25 * b + c) - (4 * a + b) + a"
    by (simp add: days_before_def)
  also have "\<dots> = 146097 * a + 36524 * b + 1461 * c + 365 * e"
    using y by simp
  finally have "d = days_before (y - 1) + yd"
    using yd d b(2) d2(1) e(2) unfolding d2_def by simp
  moreover have "is_leap y" if "yd = 365"
  proof -
    have "e = 3" "d3 = 1460" using e yd that by auto
    with c(4) have y: "y = 4 * (100 * a + 25 * b + c + 1)" "b = 3 \<or> c < 24" using y by auto
    show ?thesis
    proof (cases "c < 24")
      case True
      have "y = 100 * (4 * a + b) + (4 * c + 4)" "4 * c + 4 < 100" using y True by simp_all
      then have "y mod 100 = 4 * c + 4" by (metis mod_less mod_mult_self4)
      with y(1) show ?thesis by (simp add: is_leap_def)
    next
      case False
      with y(2) c24 have "b = 3" "c = 24" by auto
      with y(1) have "y = 400 * (a + 1)" by simp
      then show ?thesis by (simp add: is_leap_def)
    qed
  qed
  moreover have "yd \<le> 365" using e yd by auto
  ultimately show ?thesis using y by (auto simp: le_less)
qed

lemma gap: "C \<le> (A :: nat) \<Longrightarrow> 365 * Suc z + (A + 1) - (C + 1) + (B + 1) = 365 * z + A - C + B + 366"
  by simp

lemma month_gaps:
  "\<forall>b\<in>set (month_starts leap). 334 \<le> b \<or> (\<exists>s\<in>set (month_starts leap). b < s \<and> s \<le> b + 31)"
proof (cases leap)
  case True
  have "\<forall>b\<in>set (month_starts True). 334 \<le> b \<or> (\<exists>s\<in>set (month_starts True). b < s \<and> s \<le> b + 31)" by code_simp
  with True show ?thesis by simp
next
  case False
  have "\<forall>b\<in>set (month_starts False). 334 \<le> b \<or> (\<exists>s\<in>set (month_starts False). b < s \<and> s \<le> b + 31)" by code_simp
  with False show ?thesis by simp
qed

lemma le_last: "sorted xs \<Longrightarrow> x \<in> set xs \<Longrightarrow> x \<le> last (xs :: nat list)"
  by (induction xs) auto

lemma days_before_mono: "y < z \<Longrightarrow> days_before y + (if is_leap (y + 1) then 366 else 365) \<le> days_before z"
proof (induction z)
  case (Suc z)
  have step: "days_before (Suc z) = days_before z + (if is_leap (z + 1) then 366 else 365)"
  proof -
    have 4: "Suc z div 4 = z div 4 + (if Suc z mod 4 = 0 then 1 else 0)"
      "Suc z div 100 = z div 100 + (if Suc z mod 100 = 0 then 1 else 0)"
      "Suc z div 400 = z div 400 + (if Suc z mod 400 = 0 then 1 else 0)"
      by (simp_all add: div_Suc)
    have le: "z div 100 \<le> z div 4" by (simp add: div_le_mono2)
    show ?thesis
    proof (cases "Suc z mod 400 = 0")
      case True
      then have "Suc z mod 100 = 0" "Suc z mod 4 = 0" by presburger+
      then have "days_before (Suc z) = 365 * Suc z + (z div 4 + 1) - (z div 100 + 1) + (z div 400 + 1)"
        using 4 True by (simp only: days_before_def Suc_eq_plus1 if_True simp_thms)
      moreover have "is_leap (z + 1)"
        using True \<open>Suc z mod 4 = 0\<close> by (simp add: is_leap_def)
      ultimately show ?thesis using gap [OF le, of z "z div 400"] by (simp only: days_before_def if_True)
    next
      case False
      show ?thesis
      proof (cases "Suc z mod 100 = 0")
        case True
        then have "Suc z mod 4 = 0" by presburger
        with True False 4 le show ?thesis by (simp add: days_before_def is_leap_def ac_simps)
      next
        case False
        with \<open>Suc z mod 400 \<noteq> 0\<close> 4 le show ?thesis by (simp add: days_before_def is_leap_def ac_simps)
      qed
    qed
  qed
  show ?case
  proof (cases "y = z")
    case True
    with step show ?thesis by simp
  next
    case False
    with Suc step show ?thesis by simp
  qed
qed simp

lemma year_day_mono:
  assumes "d < d'" "year_day d = (y, yd)" "year_day d' = (y', yd')"
  shows "y < y' \<or> y = y' \<and> yd < yd'"
proof -
  note i = year_day_inverse [OF assms(2)] year_day_inverse [OF assms(3)]
  have "\<not> y' < y"
  proof
    assume "y' < y"
    with i have "y' - 1 < y - 1" "y' - 1 + 1 = y'" by auto
    from days_before_mono [OF this(1)] this(2) i assms(1) show False by (auto split: if_splits)
  qed
  with i assms(1) show ?thesis by auto
qed

lemma month_bounds:
  assumes "yd < 366" "month_day leap yd = (m, dm)"
  shows "1 \<le> m \<and> m \<le> 12 \<and> last (filter (\<lambda>s. s \<le> yd) (month_starts leap)) \<le> yd \<and> dm \<le> 366"
proof -
  have "filter (\<lambda>s. s \<le> yd) (month_starts leap) \<noteq> []" by (simp add: month_starts_def Let_def)
  moreover from this have "last (filter (\<lambda>s. s \<le> yd) (month_starts leap)) \<in> set (filter (\<lambda>s. s \<le> yd) (month_starts leap))"
    by (rule last_in_set)
  moreover have "length (filter (\<lambda>s. s \<le> yd) (month_starts leap)) \<le> 12"
    using length_filter_le [of _ "month_starts leap"] by (simp add: month_starts_def Let_def)
  ultimately show ?thesis using assms by (auto simp: month_day_def Let_def Suc_le_eq)
qed

lemma filter_le_prefix:
  "sorted xs \<Longrightarrow> filter (\<lambda>s. s \<le> (a :: nat)) xs = take (length (filter (\<lambda>s. s \<le> a) xs)) xs"
proof (induction xs)
  case (Cons x xs)
  show ?case
  proof (cases "x \<le> a")
    case False
    with Cons.prems have "filter (\<lambda>s. s \<le> a) xs = []" by (auto simp: filter_empty_conv)
    with False show ?thesis by simp
  qed (use Cons in simp)
qed simp

lemma month_mono:
  assumes "a < b" "b < 366" "month_day leap a = (m, dm)" "month_day leap b = (m', dm')"
  shows "m < m' \<or> m = m' \<and> dm < dm'"
proof -
  let ?f = "\<lambda>x. filter (\<lambda>s. s \<le> x) (month_starts leap)"
  have sorted: "sorted (month_starts leap)" by (simp add: month_starts_def Let_def)
  have sub: "?f a = filter (\<lambda>s. s \<le> a) (?f b)" using assms(1) by (auto intro: filter_cong)
  then have "length (?f a) \<le> length (?f b)" by (metis length_filter_le)
  moreover have "?f a = ?f b" if "length (?f a) = length (?f b)"
    using that filter_le_prefix [OF sorted, of a] filter_le_prefix [OF sorted, of b] by simp
  moreover have "a < 366" using assms by simp
  ultimately show ?thesis
    using assms month_bounds [OF \<open>a < 366\<close> assms(3)]
    by (cases "length (?f a) = length (?f b)") (auto simp: month_day_def Let_def)
qed

lemma day_bound:
  assumes "yd < (if leap then 366 else 365)" "month_day leap yd = (m, dm)"
  shows "dm < 100"
proof (rule ccontr)
  assume "\<not> dm < 100"
  define b where "b = last (filter (\<lambda>s. s \<le> yd) (month_starts leap))"
  have far: "b + 99 \<le> yd" using \<open>\<not> dm < 100\<close> assms(2) by (auto simp: month_day_def Let_def b_def)
  have "filter (\<lambda>s. s \<le> yd) (month_starts leap) \<noteq> []" by (simp add: month_starts_def Let_def)
  from last_in_set [OF this] have "b \<in> set (month_starts leap)" by (simp add: b_def)
  then have "334 \<le> b \<or> (\<exists>s\<in>set (month_starts leap). b < s \<and> s \<le> b + 31)"
    using month_gaps by blast
  moreover have "b \<le> s \<Longrightarrow> False" if "s \<in> set (month_starts leap)" "b < s" "s \<le> b + 31" for s
  proof -
    have "s \<in> set (filter (\<lambda>s. s \<le> yd) (month_starts leap))" using that far by simp
    moreover have "sorted (filter (\<lambda>s. s \<le> yd) (month_starts leap))"
      by (rule sorted_filter [of "\<lambda>x. x", simplified]) (simp add: month_starts_def Let_def)
    ultimately have "s \<le> b" unfolding b_def by (rule le_last [rotated])
    with that show False by simp
  qed
  ultimately show False using far assms(1) by (auto split: if_splits)
qed

lemma date_mono:
  assumes "d < d'" "d' < 3652059"
  shows "date_text d < date_text d' \<and> length (date_text d) = 10 \<and> length (date_text d') = 10"
proof -
  obtain y yd y' yd' where y: "year_day d = (y, yd)" "year_day d' = (y', yd')" by (metis surj_pair)
  obtain m dm m' dm' where m: "month_day (is_leap y) yd = (m, dm)" "month_day (is_leap y') yd' = (m', dm')" by (metis surj_pair)
  note i = year_day_inverse [OF y(1)] year_day_inverse [OF y(2)]
  have "y' < 10 ^ 4"
  proof (rule ccontr)
    assume "\<not> y' < 10 ^ 4"
    then have "9999 = y' - 1 \<or> 9999 < y' - 1" by simp linarith
    moreover have "days_before 9999 = 3652059" by (simp add: days_before_def)
    ultimately have "3652059 \<le> days_before (y' - 1)"
      using days_before_mono [of 9999 "y' - 1"] by auto
    with i assms(2) show False by simp
  qed
  moreover have "y < y' \<or> y = y' \<and> yd < yd'" using year_day_mono [OF assms(1) y] .
  ultimately have years: "y < 10 ^ 4" "y' < 10 ^ 4" by auto
  have yd: "yd < 366" "yd' < 366" using i by (auto split: if_splits)
  have days: "dm < 10 ^ 2" "dm' < 10 ^ 2" using day_bound m i by (fastforce simp: power2_eq_square)+
  have months: "m < 10 ^ 2" "m' < 10 ^ 2" using month_bounds [OF yd(1) m(1)] month_bounds [OF yd(2) m(2)] by simp_all
  have "pad 4 y < pad 4 y' \<or> y = y' \<and> (pad 2 m < pad 2 m' \<or> m = m' \<and> pad 2 dm < pad 2 dm')"
    using \<open>y < y' \<or> _\<close>
  proof
    assume "y < y'"
    with pad_less years show ?thesis by simp
  next
    assume "y = y' \<and> yd < yd'"
    with month_mono [of yd yd' "is_leap y" m dm m' dm'] yd m have "m < m' \<or> m = m' \<and> dm < dm'" by simp
    with pad_less months days \<open>y = y' \<and> _\<close> show ?thesis by blast
  qed
  then show ?thesis by (auto simp: date_text_def y m lex_append simp del: pad.simps append.simps)
qed

lemma clock_mono:
  assumes "s < s'" "s' < 86400"
  shows "clock_text s < clock_text s'"
proof -
  have parts: "s div 3600 < s' div 3600 \<or> s div 3600 = s' div 3600 \<and>
      (s div 60 mod 60 < s' div 60 mod 60 \<or> s div 60 mod 60 = s' div 60 mod 60 \<and> s mod 60 < s' mod 60)"
  proof -
    have "s div 60 \<le> s' div 60" "s div 60 div 60 \<le> s' div 60 div 60" using assms by (simp_all add: div_le_mono)
    moreover have "s div 60 = s' div 60 \<Longrightarrow> s mod 60 < s' mod 60" using assms(1) by (metis div_mult_mod_eq add_less_cancel_left)
    moreover have "s div 60 < s' div 60 \<Longrightarrow> s div 60 div 60 = s' div 60 div 60 \<Longrightarrow> s div 60 mod 60 < s' div 60 mod 60"
      by (metis div_mult_mod_eq add_less_cancel_left)
    moreover have "s div 60 div 60 = s div 3600" "s' div 60 div 60 = s' div 3600" by (simp_all add: div_mult2_eq [symmetric])
    ultimately show ?thesis by (metis le_neq_implies_less)
  qed
  have "s div 3600 < 10 ^ 2" "s' div 3600 < 10 ^ 2" using assms by (simp_all add: less_mult_imp_div_less)
  moreover have "x mod 60 < 10 ^ 2" for x :: nat using mod_less_divisor [of 60 x] by simp
  ultimately show ?thesis
    using parts pad_less unfolding clock_text_def by (metis (no_types, lifting) lex_append length_pad)
qed

lemma length_clock [simp]: "length (clock_text s) = 8"
  by (simp add: clock_text_def del: pad.simps)

section \<open>RFC 3339 with nanoseconds\<close>

definition fraction_text :: "nat \<Rightarrow> string" where
  "fraction_text n = (if n = 0 then [] else CHR ''.'' # rev (dropWhile (\<lambda>c. c = CHR ''0'') (rev (pad 9 n))))"

definition seconds_text :: "int \<Rightarrow> string" where
  "seconds_text s = date_text (nat (s div 86400 + 719162)) @ ''T'' @ clock_text (nat (s mod 86400))"

definition rfc3339_nano :: "time \<Rightarrow> string" where
  "rfc3339_nano t = seconds_text (t div second) @ fraction_text (nat (t mod second)) @ ''Z''"

text \<open>From the first second of year 1 to the last of year 9999.\<close>

definition in_calendar :: "time \<Rightarrow> bool" where
  "in_calendar t \<longleftrightarrow> - 62135596800 \<le> t div second \<and> t div second < 253402300800"

lemma seconds_mono:
  assumes "-62135596800 \<le> s" "s < s'" "s' < 253402300800"
  shows "seconds_text s < seconds_text s' \<and> length (seconds_text s) = length (seconds_text s')"
proof -
  define d d' where "d = nat (s div 86400 + 719162)" and "d' = nat (s' div 86400 + 719162)"
  have low: "-719162 \<le> s div 86400" using zdiv_mono1 [OF assms(1), of 86400] by simp
  have mono: "s div 86400 \<le> s' div 86400" using assms(2) by (simp add: zdiv_mono1)
  have high: "s' div 86400 < 2932897"
    using zdiv_mono1 [of s' 253402300799 86400] assms(3) by simp
  have "d' < 3652059" using high by (simp add: d'_def)
  show ?thesis
  proof (cases "d < d'")
    case True
    with date_mono [OF True \<open>d' < 3652059\<close>] show ?thesis
      by (simp add: seconds_text_def d_def d'_def lex_append)
  next
    case False
    with mono low have same: "s div 86400 = s' div 86400" by (auto simp: d_def d'_def)
    with assms(2) have "s mod 86400 < s' mod 86400" by (metis add_less_cancel_left div_mult_mod_eq)
    then have "nat (s mod 86400) < nat (s' mod 86400)" "nat (s' mod 86400) < 86400"
      by (simp_all add: nat_less_iff zless_nat_conj)
    from clock_mono [OF this] show ?thesis using same by (simp add: seconds_text_def lex_append)
  qed
qed

lemma text_order_seconds:
  "in_calendar t \<Longrightarrow> in_calendar u \<Longrightarrow> t div second < u div second \<Longrightarrow> rfc3339_nano t < rfc3339_nano u"
  using seconds_mono [of "t div second" "u div second"] by (auto simp: rfc3339_nano_def in_calendar_def lex_append)

text \<open>
  the texts of two times compare like the times whenever their whole seconds differ, so for times
  from year 1 to year 9999; in the same second a time on the whole second has the greater text, although
  it is the earlier time.
\<close>

theorem timestamp_text_order:
  assumes "in_calendar t" "in_calendar u"
  shows "(t div second < u div second \<longrightarrow> rfc3339_nano t < rfc3339_nano u)
    \<and> (t div second = u div second \<and> t mod second = 0 \<and> u mod second \<noteq> 0 \<longrightarrow> t < u \<and> rfc3339_nano u < rfc3339_nano t)"
proof (intro conjI impI)
  assume "t div second < u div second"
  with text_order_seconds assms show "rfc3339_nano t < rfc3339_nano u" by blast
next
  assume s: "t div second = u div second \<and> t mod second = 0 \<and> u mod second \<noteq> 0"
  have nonneg: "0 \<le> u mod second" by simp
  with s have "0 < u mod second" by (metis order_le_less)
  then have "nat (u mod second) \<noteq> 0" by (metis nat_eq_iff2 less_irrefl zero_less_nat_eq)
  then have "fraction_text (nat (u mod second)) @ ''Z'' < fraction_text (nat (t mod second)) @ ''Z''"
    using s by (simp add: fraction_text_def less_char_def)
  with s show "rfc3339_nano u < rfc3339_nano t"
    by (simp add: rfc3339_nano_def lex_append)
  have "t = second * (t div second) + t mod second" "u = second * (u div second) + u mod second" by simp_all
  with s nonneg show "t < u" by linarith
qed

text \<open>A quarter to midnight before the year 2000, and half a second later.\<close>

theorem timestamp_text_order_witness:
  "rfc3339_nano (946683900 * second + 500000000) < rfc3339_nano (946683900 * second)
     \<and> rfc3339_nano (946683900 * second + 500000000) < rfc3339_nano (946683901 * second)"
  using timestamp_text_order [of "946683900 * second" "946683900 * second + 500000000"]
    timestamp_text_order [of "946683900 * second + 500000000" "946683901 * second"]
  by (simp add: in_calendar_def)

end
