(* ===== verification/Operational.thy ===== *)
theory Operational
  imports AgentToken Timestamp "HOL-Library.Product_Lexorder"
begin

text \<open>
  The operational record of \<open>internal/storage/operational.go\<close>: the start and the completion of every
  request, its attempts, and the cool-down of a destination whose provider answered 429. Times are
  compared as the texts they are stored as (theory Timestamp).
\<close>

section \<open>Records\<close>

record request_start =
  bg_ID :: string
  bg_AgentTokenID :: string
  bg_RouteID :: string
  bg_RequestedAlias :: string
  bg_StartedAt :: time

record attempt_completion =
  ac_Sequence :: int
  ac_DestinationID :: string
  ac_Outcome :: string
  ac_ErrorClass :: string
  ac_ProviderRequestID :: string
  ac_FallbackReason :: string
  ac_RetryAfter :: string
  ac_ProviderStatus :: int
  ac_Retryable :: bool
  ac_StartedAt :: time
  ac_CompletedAt :: time

record request_completion =
  rc_Outcome :: string
  rc_HTTPStatus :: int
  rc_InputTokens :: "int option"
  rc_OutputTokens :: "int option"
  rc_TTFT :: "duration option"
  rc_CompletedAt :: time
  rc_Attempts :: "attempt_completion list"

abbreviation invalid_operation :: mutation_error where "invalid_operation \<equiv> MutationCode ''invalid_resource''"

definition validRequestOutcome :: "string \<Rightarrow> bool" where
  "validRequestOutcome v \<longleftrightarrow> v \<in> {''success'', ''error'', ''partial'', ''cancelled'', ''indeterminate''}"

section \<open>Retry-After\<close>

text \<open>The encodings of \<open>unicode.IsSpace\<close>, and \<open>strings.TrimSpace\<close>.\<close>

definition space_runes :: "nat list" where
  "space_runes = [9, 10, 11, 12, 13, 32, 133, 160, 5760, 8192, 8193, 8194, 8195, 8196, 8197, 8198, 8199, 8200,
     8201, 8202, 8232, 8233, 8239, 8287, 12288]"

definition strip_one :: "bytes list \<Rightarrow> bytes \<Rightarrow> bytes" where
  "strip_one ws s = (case find (\<lambda>w. has_prefix s w) ws of None \<Rightarrow> s | Some w \<Rightarrow> drop (length w) s)"

fun strip_all :: "nat \<Rightarrow> bytes list \<Rightarrow> bytes \<Rightarrow> bytes" where
  "strip_all 0 ws s = s"
| "strip_all (Suc n) ws s = strip_all n ws (strip_one ws s)"

definition trim_space :: "bytes \<Rightarrow> bytes" where
  "trim_space s =
     (let ws = map utf8_encode space_runes; l = strip_all (length s) ws s
      in rev (strip_all (length l) (map rev ws) (rev l)))"

lemma strip_all_none: "list_all (\<lambda>w. \<not> has_prefix s w) ws \<Longrightarrow> strip_all n ws s = s"
proof (induction n)
  case (Suc n)
  then have "find (\<lambda>w. has_prefix s w) ws = None" by (auto simp: find_None_iff list_all_iff)
  with Suc show ?case by (simp add: strip_one_def)
qed simp

lemma space_ends:
  "list_all (\<lambda>r. utf8_encode r \<noteq> [] \<and> byte (hd (utf8_encode r)) \<notin> {33..126} \<and> byte (last (utf8_encode r)) \<notin> {33..126}) space_runes"
  by (simp add: space_runes_def utf8_encode_def)

text \<open>Text without spaces and without bytes beyond ASCII is its own trimming.\<close>

lemma trim_space_graphic:
  assumes "list_all (\<lambda>c. byte c \<in> {33..126}) s"
  shows "trim_space s = s"
proof -
  have "\<not> has_prefix s w" if "w \<noteq> []" "byte (hd w) \<notin> {33..126}" for w
    using assms that by (cases w; cases s) (auto simp: has_prefix_iff)
  then have l: "strip_all n (map utf8_encode space_runes) s = s" for n
    using space_ends by (intro strip_all_none) (auto simp: list_all_iff)
  have "\<not> has_prefix (rev s) (rev w)" if "w \<noteq> []" "byte (last w) \<notin> {33..126}" for w
    using assms that by (cases w rule: rev_cases; cases s rule: rev_cases) (auto simp: has_prefix_iff)
  then have "strip_all n (map rev (map utf8_encode space_runes)) (rev s) = rev s" for n
    using space_ends by (intro strip_all_none) (auto simp: list_all_iff)
  with l show ?thesis by (simp add: trim_space_def)
qed

definition retry_maximum :: duration where
  "retry_maximum = 24 * 60 * minute"

text \<open>\<open>http_time\<close> is \<open>http.ParseTime\<close>.\<close>

definition retryReset :: "(string \<Rightarrow> time option) \<Rightarrow> string \<Rightarrow> time \<Rightarrow> time \<times> string" where
  "retryReset http_time value observed =
     (let v = trim_space value;
          inferred = (observed + 30 * second, ''inference'');
          dated = (case http_time v of
              Some parsed \<Rightarrow>
                if observed < parsed
                then (if observed + retry_maximum < parsed then observed + retry_maximum else parsed, ''header'')
                else inferred
            | None \<Rightarrow> inferred)
      in case parse_int64 v of
           Some secs \<Rightarrow>
             if 0 \<le> secs
             then (let delay = (if secs \<le> retry_maximum div second then secs * second else retry_maximum);
                       delay1 = (if delay < second then second else delay);
                       delay2 = (if retry_maximum < delay1 then retry_maximum else delay1)
                   in (observed + delay2, ''header''))
             else dated
         | None \<Rightarrow> dated)"

section \<open>Begin\<close>

definition Begin :: "faults \<Rightarrow> request_start \<Rightarrow> (mutation_error, unit) step" where
  "Begin f input =
     bind_step (guard (\<not> (bg_ID input = [] \<or> bg_AgentTokenID input = [] \<or> bg_RouteID input = [] \<or> bg_RequestedAlias input = []
         \<or> is_zero (bg_StartedAt input))) invalid_operation) (\<lambda>_.
     bind_step (reads (\<lambda>db. fails f ''begin request'' \<or> (\<exists>q\<in>set (requests db). rq_id q = bg_ID input)
         \<or> \<not> (\<exists>a\<in>set (agent_tokens db). at_resource a = bg_AgentTokenID input)
         \<or> \<not> (\<exists>r\<in>set (routes db). route_resource r = bg_RouteID input))) (\<lambda>refused.
     bind_step (guard (\<not> refused) (MutationFailed ''begin operational request'')) (\<lambda>_.
     modify (\<lambda>db. db\<lparr>requests := requests db @
       [\<lparr>rq_id = bg_ID input, rq_agent = Some (bg_AgentTokenID input), rq_route = Some (bg_RouteID input),
         rq_alias = bg_RequestedAlias input, rq_started = bg_StartedAt input, rq_completed = None, rq_outcome = None,
         rq_status = None, rq_input = None, rq_output = None, rq_ttft = None, rq_duration = None\<rparr>]\<rparr>))))"

section \<open>Rate limits\<close>

text \<open>
  What a completion takes from outside: \<open>newUUID\<close> for the ids of an attempt, its observation and its
  cool-down, \<open>http.ParseTime\<close>, and the faults.
\<close>

record op_env =
  op_faults :: faults
  op_attempt_id :: "nat \<Rightarrow> string option"
  op_observation_id :: "nat \<Rightarrow> string option"
  op_cooldown_id :: "nat \<Rightarrow> string option"
  op_http_time :: "string \<Rightarrow> time option"

definition need :: "'a option \<Rightarrow> 'e \<Rightarrow> ('e, 'a) step" where
  "need x e = (case x of None \<Rightarrow> raises e | Some a \<Rightarrow> returns a)"

definition same_scope :: "cooldown_row \<Rightarrow> cooldown_row \<Rightarrow> bool" where
  "same_scope a b \<longleftrightarrow> co_kind a = co_kind b \<and> co_resource a = co_resource b"

text \<open>The insert with its \<open>ON CONFLICT ... DO UPDATE ... WHERE excluded.ends_at>cooldowns.ends_at\<close>.\<close>

definition replace_cooldown :: "cooldown_row \<Rightarrow> cooldown_row \<Rightarrow> cooldown_row" where
  "replace_cooldown c old =
     (if same_scope c old \<and> rfc3339_nano (co_ends old) < rfc3339_nano (co_ends c)
      then old\<lparr>co_reason := co_reason c, co_starts := co_starts c, co_ends := co_ends c, co_source := co_source c\<rparr>
      else old)"

definition upsert_cooldown :: "cooldown_row \<Rightarrow> cooldown_row list \<Rightarrow> cooldown_row list" where
  "upsert_cooldown c rows = (if list_ex (same_scope c) rows then map (replace_cooldown c) rows else rows @ [c])"

definition recordRateLimitTx :: "op_env \<Rightarrow> nat \<Rightarrow> string \<Rightarrow> attempt_completion \<Rightarrow> (mutation_error, unit) step" where
  "recordRateLimitTx env k attemptID a =
     (let (reset, source) = retryReset (op_http_time env) (ac_RetryAfter a) (ac_CompletedAt a); f = op_faults env in
      bind_step (need (op_observation_id env k) (MutationFailed ''uuid'')) (\<lambda>oid.
      bind_step (reads (\<lambda>db. fails f ''record observation'' \<or> (\<exists>b\<in>set (observations db). ob_id b = oid))) (\<lambda>refused.
      bind_step (guard (\<not> refused) (MutationFailed ''record rate limit observation'')) (\<lambda>_.
      bind_step (modify (\<lambda>db. db\<lparr>observations := observations db @
          [\<lparr>ob_id = oid, ob_attempt = attemptID, ob_destination = ac_DestinationID a, ob_source = source,
            ob_resets = reset, ob_observed = ac_CompletedAt a\<rparr>]\<rparr>)) (\<lambda>_.
      bind_step (need (op_cooldown_id env k) (MutationFailed ''uuid'')) (\<lambda>cid.
      bind_step (reads (\<lambda>db. fails f ''record cooldown'' \<or> (\<exists>c\<in>set (cooldowns db). co_id c = cid))) (\<lambda>refused.
      bind_step (guard (\<not> refused) (MutationFailed ''record destination cooldown'')) (\<lambda>_.
      modify (\<lambda>db. db\<lparr>cooldowns := upsert_cooldown
          \<lparr>co_id = cid, co_kind = ''destination'', co_resource = ac_DestinationID a, co_reason = ''rate_limited'',
           co_starts = ac_CompletedAt a, co_ends = reset, co_source = oid\<rparr> (cooldowns db)\<rparr>)))))))))"

section \<open>Complete\<close>

definition optional_text :: "string \<Rightarrow> string option" where
  "optional_text s = (if s = [] then None else Some s)"

definition attempt_of :: "string \<Rightarrow> string \<Rightarrow> attempt_completion \<Rightarrow> attempt_row" where
  "attempt_of aid requestID a =
     \<lparr>ar_id = aid, ar_request = requestID, ar_sequence = nat (ac_Sequence a), ar_destination = Some (ac_DestinationID a),
      ar_started = ac_StartedAt a, ar_completed = ac_CompletedAt a, ar_outcome = ac_Outcome a,
      ar_error_class = optional_text (ac_ErrorClass a),
      ar_status = (if ac_ProviderStatus a \<noteq> 0 then Some (ac_ProviderStatus a) else None),
      ar_request_ref = optional_text (ac_ProviderRequestID a), ar_retryable = ac_Retryable a,
      ar_fallback = optional_text (ac_FallbackReason a)\<rparr>"

definition record_attempt :: "op_env \<Rightarrow> string \<Rightarrow> nat \<Rightarrow> attempt_completion \<Rightarrow> (mutation_error, unit) step" where
  "record_attempt env requestID k a =
     bind_step (guard (\<not> (ac_Sequence a \<noteq> int k + 1 \<or> ac_DestinationID a = [] \<or> \<not> validRequestOutcome (ac_Outcome a)
         \<or> is_zero (ac_StartedAt a) \<or> ac_CompletedAt a < ac_StartedAt a)) invalid_operation) (\<lambda>_.
     bind_step (need (op_attempt_id env k) (MutationFailed ''uuid'')) (\<lambda>aid.
     bind_step (reads (\<lambda>db. fails (op_faults env) ''record attempt'' \<or> (\<exists>r\<in>set (attempts db). ar_id r = aid)
         \<or> \<not> (\<exists>q\<in>set (requests db). rq_id q = requestID)
         \<or> \<not> (\<exists>d\<in>set (destination_rows db). dn_resource d = ac_DestinationID a)
         \<or> (\<exists>r\<in>set (attempts db). ar_request r = requestID \<and> ar_sequence r = nat (ac_Sequence a)))) (\<lambda>refused.
     bind_step (guard (\<not> refused) (MutationFailed ''record operational attempt'')) (\<lambda>_.
     bind_step (modify (\<lambda>db. db\<lparr>attempts := attempts db @ [attempt_of aid requestID a]\<rparr>)) (\<lambda>_.
     if ac_ProviderStatus a = 429 then recordRateLimitTx env k aid a else returns ())))))"

fun record_attempts :: "op_env \<Rightarrow> string \<Rightarrow> nat \<Rightarrow> attempt_completion list \<Rightarrow> (mutation_error, unit) step" where
  "record_attempts env requestID k [] = returns ()"
| "record_attempts env requestID k (a # as) =
     bind_step (record_attempt env requestID k a) (\<lambda>_. record_attempts env requestID (Suc k) as)"

text \<open>\<open>Duration.Milliseconds\<close>, which truncates, and \<open>Time.Sub\<close>, which saturates.\<close>

definition milliseconds :: "duration \<Rightarrow> int" where
  "milliseconds d = (if d < 0 then - (- d div millisecond) else d div millisecond)"

definition elapsed :: "time \<Rightarrow> time \<Rightarrow> duration" where
  "elapsed t u = max (- max_int64 - 1) (min max_int64 (t - u))"

definition negative :: "int option \<Rightarrow> bool" where
  "negative n = (case n of None \<Rightarrow> False | Some i \<Rightarrow> i < 0)"

definition close_request :: "string \<Rightarrow> request_completion \<Rightarrow> time \<Rightarrow> request_row \<Rightarrow> request_row" where
  "close_request requestID c started r =
     (if rq_id r = requestID \<and> rq_completed r = None
      then r\<lparr>rq_completed := Some (rc_CompletedAt c), rq_outcome := Some (rc_Outcome c), rq_status := Some (rc_HTTPStatus c),
             rq_input := rc_InputTokens c, rq_output := rc_OutputTokens c,
             rq_ttft := map_option milliseconds (rc_TTFT c),
             rq_duration := Some (milliseconds (elapsed (rc_CompletedAt c) started))\<rparr>
      else r)"

definition finish_request :: "faults \<Rightarrow> string \<Rightarrow> request_completion \<Rightarrow> (mutation_error, unit) step" where
  "finish_request f requestID c =
     bind_step (guard (\<not> fails f ''read request'') (MutationFailed ''read request'')) (\<lambda>_.
     bind_step (reads (\<lambda>db. find (\<lambda>q. rq_id q = requestID \<and> rq_completed q = None) (requests db))) (\<lambda>found.
     case found of
       None \<Rightarrow> raises not_found
     | Some q \<Rightarrow>
         bind_step (guard (\<not> rc_CompletedAt c < rq_started q) invalid_operation) (\<lambda>_.
         bind_step (guard (\<not> (fails f ''complete request'' \<or> negative (rc_InputTokens c) \<or> negative (rc_OutputTokens c)
             \<or> negative (map_option milliseconds (rc_TTFT c)))) (MutationFailed ''complete operational request'')) (\<lambda>_.
         modify (\<lambda>db. db\<lparr>requests := map (close_request requestID c (rq_started q)) (requests db)\<rparr>)))))"

definition Complete :: "op_env \<Rightarrow> string \<Rightarrow> request_completion \<Rightarrow> (mutation_error, unit) step" where
  "Complete env requestID c db =
     (if requestID = [] \<or> is_zero (rc_CompletedAt c) \<or> \<not> validRequestOutcome (rc_Outcome c) \<or> rc_HTTPStatus c < 100
         \<or> rc_HTTPStatus c > 599
      then (Inl invalid_operation, db)
      else transact (op_faults env) (MutationFailed ''begin operational completion'') (MutationFailed ''commit operational completion'')
             (bind_step (record_attempts env requestID 0 (rc_Attempts c)) (\<lambda>_. finish_request (op_faults env) requestID c)) db)"

section \<open>Overview and listing\<close>

definition start_key :: "request_row \<Rightarrow> string \<times> string" where
  "start_key q = (rfc3339_nano (rq_started q), rq_id q)"

text \<open>\<open>ORDER BY started_at DESC, id DESC\<close>; ids are unique, so no two rows are equal in it.\<close>

definition newest_first :: "request_row list \<Rightarrow> request_row list" where
  "newest_first rows = rev (sort_key start_key rows)"

record operational_request =
  oq_ID :: string
  oq_RequestedAlias :: string
  oq_StartedAt :: time
  oq_CompletedAt :: "time option"
  oq_Outcome :: "string option"
  oq_HTTPStatus :: "int option"
  oq_InputTokens :: "int option"
  oq_OutputTokens :: "int option"
  oq_TTFTMillis :: "int option"
  oq_DurationMillis :: "int option"
  oq_Attempts :: nat

definition scanOperationalRequest :: "database \<Rightarrow> request_row \<Rightarrow> operational_request" where
  "scanOperationalRequest db q =
     \<lparr>oq_ID = rq_id q, oq_RequestedAlias = rq_alias q, oq_StartedAt = rq_started q, oq_CompletedAt = rq_completed q,
      oq_Outcome = rq_outcome q, oq_HTTPStatus = rq_status q, oq_InputTokens = rq_input q, oq_OutputTokens = rq_output q,
      oq_TTFTMillis = rq_ttft q, oq_DurationMillis = rq_duration q,
      oq_Attempts = length (filter (\<lambda>a. ar_request a = rq_id q) (attempts db))\<rparr>"

record recent_request =
  rr_ID :: string
  rr_RequestedAlias :: string
  rr_StartedAt :: time
  rr_CompletedAt :: "time option"
  rr_Outcome :: "string option"
  rr_HTTPStatus :: "int option"
  rr_DurationMillis :: "int option"
  rr_Attempts :: nat

definition recent_of :: "database \<Rightarrow> request_row \<Rightarrow> recent_request" where
  "recent_of db q =
     \<lparr>rr_ID = rq_id q, rr_RequestedAlias = rq_alias q, rr_StartedAt = rq_started q, rr_CompletedAt = rq_completed q,
      rr_Outcome = rq_outcome q, rr_HTTPStatus = rq_status q, rr_DurationMillis = rq_duration q,
      rr_Attempts = length (filter (\<lambda>a. ar_request a = rq_id q) (attempts db))\<rparr>"

record operational_overview =
  ov_ResourceCounts :: "(string \<times> nat) list"
  ov_RequestsTotal :: nat
  ov_RequestsSuccess :: nat
  ov_RequestsError :: nat
  ov_ActiveCooldowns :: nat
  ov_RecentRequests :: "recent_request list"
  ov_GeneratedAt :: time

definition ReadOperationalOverview :: "faults \<Rightarrow> time \<Rightarrow> (mutation_error, operational_overview) step" where
  "ReadOperationalOverview f now db =
     (let since = rfc3339_nano (now - 24 * 60 * minute);
          late = filter (\<lambda>q. \<not> rfc3339_nano (rq_started q) < since) (requests db)
      in if is_zero now then (Inl invalid_operation, db)
         else if fails f ''count resources'' then (Inl (MutationFailed ''count resources''), db)
         else if fails f ''summarize requests'' then (Inl (MutationFailed ''summarize requests''), db)
         else if fails f ''count cooldowns'' then (Inl (MutationFailed ''count cooldowns''), db)
         else if fails f ''list recent requests'' then (Inl (MutationFailed ''list recent requests''), db)
         else (Inr \<lparr>ov_ResourceCounts = map (\<lambda>k. (k, length (filter (\<lambda>r. res_kind r = k) (resources db))))
                      (remdups (map res_kind (resources db))),
                    ov_RequestsTotal = length late,
                    ov_RequestsSuccess = length (filter (\<lambda>q. rq_outcome q = Some ''success'') late),
                    ov_RequestsError = length (filter (\<lambda>q. rq_outcome q = Some ''error'') late),
                    ov_ActiveCooldowns = length (filter (\<lambda>c. rfc3339_nano now < rfc3339_nano (co_ends c)) (cooldowns db)),
                    ov_RecentRequests = map (recent_of db) (take 5 (newest_first (requests db))),
                    ov_GeneratedAt = now\<rparr>, db))"

record request_query =
  qu_Outcome :: string
  qu_Alias :: string
  qu_BeforeID :: string
  qu_From :: "time option"
  qu_To :: "time option"
  qu_BeforeStarted :: "time option"
  qu_Limit :: int

record request_page =
  pg_Items :: "operational_request list"
  pg_NextStartedAt :: string
  pg_NextID :: string

text \<open>The \<open>WHERE\<close> clauses of a query.\<close>

definition selected :: "request_query \<Rightarrow> request_row \<Rightarrow> bool" where
  "selected qu r \<longleftrightarrow>
     (qu_Outcome qu \<noteq> [] \<longrightarrow> rq_outcome r = Some (qu_Outcome qu))
     \<and> (qu_Alias qu \<noteq> [] \<longrightarrow> rq_alias r = qu_Alias qu)
     \<and> (case qu_From qu of None \<Rightarrow> True | Some t \<Rightarrow> \<not> rfc3339_nano (rq_started r) < rfc3339_nano t)
     \<and> (case qu_To qu of None \<Rightarrow> True | Some t \<Rightarrow> rfc3339_nano (rq_started r) < rfc3339_nano t)
     \<and> (case qu_BeforeStarted qu of None \<Rightarrow> True
        | Some t \<Rightarrow> rfc3339_nano (rq_started r) < rfc3339_nano t
             \<or> rfc3339_nano (rq_started r) = rfc3339_nano t \<and> rq_id r < qu_BeforeID qu)"

definition ListOperationalRequests :: "faults \<Rightarrow> request_query \<Rightarrow> (mutation_error, request_page) step" where
  "ListOperationalRequests f qu db =
     (if qu_Limit qu < 1 \<or> qu_Limit qu > 200 \<or> qu_Outcome qu \<noteq> [] \<and> \<not> validRequestOutcome (qu_Outcome qu)
         \<or> length (qu_Alias qu) > 128 then (Inl invalid_operation, db)
      else if qu_BeforeStarted qu \<noteq> None \<and> qu_BeforeID qu = [] \<or> qu_BeforeStarted qu = None \<and> qu_BeforeID qu \<noteq> []
      then (Inl invalid_operation, db)
      else if fails f ''list operational requests'' then (Inl (MutationFailed ''list operational requests''), db)
      else (let n = nat (qu_Limit qu);
                items = map (scanOperationalRequest db) (take (Suc n) (newest_first (filter (selected qu) (requests db))))
            in if n < length items
               then (let shown = take n items
                     in (Inr \<lparr>pg_Items = shown, pg_NextStartedAt = rfc3339_nano (oq_StartedAt (last shown)),
                             pg_NextID = oq_ID (last shown)\<rparr>, db))
               else (Inr \<lparr>pg_Items = items, pg_NextStartedAt = [], pg_NextID = []\<rparr>, db)))"

record operational_attempt =
  oa_Sequence :: nat
  oa_DestinationID :: "string option"
  oa_StartedAt :: time
  oa_CompletedAt :: "time option"
  oa_Outcome :: string
  oa_ErrorClass :: "string option"
  oa_ProviderStatus :: "int option"
  oa_ProviderRequestID :: "string option"
  oa_Retryable :: bool
  oa_FallbackReason :: "string option"

definition scan_attempt :: "attempt_row \<Rightarrow> operational_attempt" where
  "scan_attempt a =
     \<lparr>oa_Sequence = ar_sequence a, oa_DestinationID = ar_destination a, oa_StartedAt = ar_started a,
      oa_CompletedAt = Some (ar_completed a), oa_Outcome = ar_outcome a, oa_ErrorClass = ar_error_class a,
      oa_ProviderStatus = ar_status a, oa_ProviderRequestID = ar_request_ref a, oa_Retryable = ar_retryable a,
      oa_FallbackReason = ar_fallback a\<rparr>"

definition ListOperationalAttempts :: "faults \<Rightarrow> string \<Rightarrow> (mutation_error, operational_attempt list) step" where
  "ListOperationalAttempts f requestID db =
     (if requestID = [] \<or> length requestID > 128 then (Inl invalid_operation, db)
      else if fails f ''list operational attempts'' then (Inl (MutationFailed ''list operational attempts''), db)
      else (Inr (map scan_attempt (take 32 (sort_key ar_sequence (filter (\<lambda>a. ar_request a = requestID) (attempts db))))), db))"

end
