(* ===== verification/Snapshot.thy ===== *)
theory Snapshot
  imports Operational Engine Graph
begin

text \<open>
  Loading the routing snapshot of an alias, \<open>internal/router/snapshot.go\<close>: the route with its active
  version, the strategy definition with its limits, and for each destination the rows behind it and the
  reasons why it may not be used now. \<open>ld_text\<close> is the text SQLite's \<open>json_extract\<close> gives for a JSON value
  that is not a string.
\<close>

datatype load_error = LoadError string | LoadFailed string

abbreviation route_not_found :: load_error where "route_not_found \<equiv> LoadError ''route_not_found''"
abbreviation route_disabled :: load_error where "route_disabled \<equiv> LoadError ''route_disabled''"
abbreviation invalid_graph :: load_error where "invalid_graph \<equiv> LoadError ''invalid_router_graph''"

record loader_env =
  ld_faults :: faults
  ld_now :: time
  ld_text :: "json \<Rightarrow> string"

section \<open>The strategy definition\<close>

record strategy_definition =
  sdf_Destinations :: "reference slice"
  sdf_MaxAttempts :: int
  sdf_AttemptTimeoutMS :: int
  sdf_TotalTimeoutMS :: int

definition dec_named :: "reference dec" where
  "dec_named = dec_struct True [''name''] (\<lambda>n r v. dec_string r v)"

definition dec_definition :: "strategy_definition dec" where
  "dec_definition = dec_struct True [''destinations'', ''maxAttempts'', ''attemptTimeoutMs'', ''totalTimeoutMs'']
     (\<lambda>n r v. if n = ''destinations'' then map_option (\<lambda>x. r\<lparr>sdf_Destinations := x\<rparr>) (dec_slice [] dec_named (sdf_Destinations r) v)
              else if n = ''maxAttempts'' then map_option (\<lambda>x. r\<lparr>sdf_MaxAttempts := x\<rparr>) (dec_int (sdf_MaxAttempts r) v)
              else if n = ''attemptTimeoutMs'' then map_option (\<lambda>x. r\<lparr>sdf_AttemptTimeoutMS := x\<rparr>) (dec_int (sdf_AttemptTimeoutMS r) v)
              else map_option (\<lambda>x. r\<lparr>sdf_TotalTimeoutMS := x\<rparr>) (dec_int (sdf_TotalTimeoutMS r) v))"

text \<open>\<open>Decode\<close> reads the first value of the text and ignores what follows it.\<close>

definition decode_definition :: "string \<Rightarrow> strategy_definition option" where
  "decode_definition raw =
     (case parse_value (Suc (length (lex raw))) (lex raw) of
        None \<Rightarrow> None
      | Some (v, rest) \<Rightarrow>
          dec_definition \<lparr>sdf_Destinations = nil_slice, sdf_MaxAttempts = 0, sdf_AttemptTimeoutMS = 0, sdf_TotalTimeoutMS = 0\<rparr> v)"

definition usable_definition :: "strategy_definition \<Rightarrow> bool" where
  "usable_definition s \<longleftrightarrow>
     \<not> (slice_len (sdf_Destinations s) < 1 \<or> slice_len (sdf_Destinations s) > 32
        \<or> sdf_MaxAttempts s < 1 \<or> sdf_MaxAttempts s > 32 \<or> sdf_AttemptTimeoutMS s < 100
        \<or> sdf_AttemptTimeoutMS s > 600000 \<or> sdf_TotalTimeoutMS s < 100 \<or> sdf_TotalTimeoutMS s > 900000)"

section \<open>One destination\<close>

definition knownCapability :: "string \<Rightarrow> bool" where
  "knownCapability c \<longleftrightarrow> c \<in> set (map cap_name [Text, Stream, Tools, ParallelTools, DeveloperRole] @ [''json-schema'', ''logprobs''])"

record joined =
  jn_resource :: resource
  jn_destination :: destination_row
  jn_model :: model_row
  jn_connection_resource :: resource
  jn_connection :: provider_connection
  jn_credential :: credential_row
  jn_secret :: secret_row
  jn_egress :: egress
  jn_account :: provider_account

text \<open>The join; every table is joined by its key, so there is one row or none.\<close>

definition join_destination :: "database \<Rightarrow> string \<Rightarrow> joined option" where
  "join_destination db name =
     Option.bind (find (named ''Destination'' name) (resources db)) (\<lambda>dr.
     Option.bind (row_of dn_resource (destination_rows db) (res_id dr)) (\<lambda>d.
     Option.bind (row_of md_resource (model_rows db) (dn_model d)) (\<lambda>m.
     Option.bind (row_of res_id (resources db) (md_connection m)) (\<lambda>cr.
     Option.bind (row_of pn_resource (provider_connections db) (md_connection m)) (\<lambda>pc.
     Option.bind (row_of cd_resource (credential_rows db) (dn_credential d)) (\<lambda>c.
     Option.bind (row_of se_id (secret_rows db) (cd_secret c)) (\<lambda>s.
     Option.bind (row_of eg_resource (egresses db) (cd_egress c)) (\<lambda>e.
     Option.bind (row_of pa_resource (provider_accounts db) (cd_account c)) (\<lambda>pa.
     Some \<lparr>jn_resource = dr, jn_destination = d, jn_model = m, jn_connection_resource = cr, jn_connection = pc,
           jn_credential = c, jn_secret = s, jn_egress = e, jn_account = pa\<rparr>)))))))))"

text \<open>\<open>json_extract(spec_json,'$.adapter')\<close>; a missing member or \<open>null\<close> does not scan into a string.\<close>

definition adapter_of :: "(json \<Rightarrow> string) \<Rightarrow> string \<Rightarrow> string option" where
  "adapter_of text spec =
     (case parse_doc (lex spec) of
        Some (JObj ms) \<Rightarrow>
          (case map_of ms ''adapter'' of
             Some (JStr s) \<Rightarrow> Some s
           | Some v \<Rightarrow> if v = JLit LNull then None else Some (text v)
           | None \<Rightarrow> None)
      | _ \<Rightarrow> None)"

definition cooling_down :: "database \<Rightarrow> time \<Rightarrow> joined \<Rightarrow> bool" where
  "cooling_down db now j \<longleftrightarrow>
     (\<exists>c\<in>set (cooldowns db). rfc3339_nano now < rfc3339_nano (co_ends c) \<and>
        (co_kind c = ''destination'' \<and> co_resource c = res_id (jn_resource j)
         \<or> co_kind c = ''model'' \<and> co_resource c = md_resource (jn_model j)
         \<or> co_kind c = ''credential'' \<and> co_resource c = cd_resource (jn_credential j)
         \<or> co_kind c = ''account'' \<and> co_resource c = cd_account (jn_credential j)
         \<or> co_kind c = ''connection'' \<and> co_resource c = pn_resource (jn_connection j)
         \<or> co_kind c = ''provider'' \<and> co_resource c = pa_provider (jn_account j)))"

definition exclusion_reasons :: "joined \<Rightarrow> string list \<Rightarrow> string list \<Rightarrow> bool \<Rightarrow> string list" where
  "exclusion_reasons j available required cooling =
     sort ((if dn_enabled (jn_destination j) then [] else [''destination_disabled''])
       @ (if md_enabled (jn_model j) then [] else [''model_disabled''])
       @ (if pn_enabled (jn_connection j) then [] else [''connection_disabled''])
       @ (if cd_status (jn_credential j) = ''active'' then [] else [''credential_'' @ cd_status (jn_credential j)])
       @ (if eg_enabled (jn_egress j) then [] else [''egress_disabled''])
       @ map (\<lambda>c. ''capability_missing:'' @ c) (filter (\<lambda>c. c \<notin> set available) (remdups required))
       @ (if cooling then [''cooldown_active''] else []))"

definition loadDestination :: "loader_env \<Rightarrow> string list \<Rightarrow> database \<Rightarrow> string \<Rightarrow> load_error + destination" where
  "loadDestination env required db name =
     (if fails (ld_faults env) ''load destination'' then Inl (LoadFailed ''load destination'')
      else (case join_destination db name of
        None \<Rightarrow> Inl invalid_graph
      | Some j \<Rightarrow>
          (case adapter_of (ld_text env) (res_spec (jn_connection_resource j)) of
             None \<Rightarrow> Inl (LoadFailed ''load destination'')
           | Some adapter \<Rightarrow>
               (case md_capabilities (jn_model j) of
                  None \<Rightarrow> Inl invalid_graph
                | Some names \<Rightarrow>
                    check (distinct names \<and> list_all knownCapability names) invalid_graph
                    (check (\<not> fails (ld_faults env) ''load cooldown'') (LoadFailed ''load cooldown'')
                    (Inr \<lparr>ID = res_id (jn_resource j), dest_Name = res_name (jn_resource j), ModelID = md_resource (jn_model j),
                          ProviderModelID = md_model (jn_model j), ConnectionID = pn_resource (jn_connection j),
                          BaseURL = pn_base_url (jn_connection j), Adapter = adapter,
                          AllowPrivateNetwork = pn_private (jn_connection j), CredentialID = cd_resource (jn_credential j),
                          SecretID = cd_secret (jn_credential j), SecretName = se_name (jn_secret j),
                          EgressID = eg_resource (jn_egress j), EgressType = eg_type (jn_egress j),
                          Weight = dn_weight (jn_destination j), Capabilities = sort names,
                          ExclusionReasons = exclusion_reasons j names required (cooling_down db (ld_now env) j)\<rparr>))))))"

section \<open>The snapshot\<close>

fun load_destinations :: "loader_env \<Rightarrow> string list \<Rightarrow> database \<Rightarrow> string list \<Rightarrow> string list \<Rightarrow> load_error + destination list" where
  "load_destinations env required db seen [] = Inr []"
| "load_destinations env required db seen (n # ns) =
     check (\<not> (n = [] \<or> n \<in> set seen)) invalid_graph
     (and_then (loadDestination env required db n) (\<lambda>d.
      and_then (load_destinations env required db (n # seen) ns) (\<lambda>ds. Inr (d # ds))))"

definition active_version :: "database \<Rightarrow> route \<Rightarrow> strategy_version option" where
  "active_version db r =
     (case route_active r of
        None \<Rightarrow> None
      | Some v \<Rightarrow> find (\<lambda>s. sv_id s = v \<and> sv_strategy s = route_strategy r) (strategy_versions db))"

definition Load :: "loader_env \<Rightarrow> string \<Rightarrow> string list \<Rightarrow> database \<Rightarrow> load_error + snapshot" where
  "Load env wanted required db =
     (let f = ld_faults env in
      check (\<not> fails f ''begin'') (LoadFailed ''begin router snapshot'')
      (check (\<not> fails f ''load route'') (LoadFailed ''load route snapshot'')
      (case (installation db, find (\<lambda>r. model_alias r = wanted) (routes db)) of
         (Some inst, Some r) \<Rightarrow>
           check (route_enabled r) route_disabled
           (case active_version db r of
              None \<Rightarrow> Inl invalid_graph
            | Some v \<Rightarrow>
                (case decode_definition (sv_definition v) of
                   None \<Rightarrow> Inl invalid_graph
                 | Some s \<Rightarrow>
                     check (usable_definition s) invalid_graph
                     (and_then (load_destinations env required db [] (elems (sdf_Destinations s))) (\<lambda>ds.
                      check (\<not> commit_fails f) (LoadFailed ''commit router snapshot'')
                      (Inr \<lparr>ConfigRevision = in_revision inst, RouteID = route_resource r, Alias = model_alias r,
                            StrategyID = route_strategy r, StrategyVersionID = sv_id v, StrategyVersion = sv_number v,
                            MaxAttempts = sdf_MaxAttempts s, AttemptTimeout = sdf_AttemptTimeoutMS s * millisecond,
                            TotalTimeout = sdf_TotalTimeoutMS s * millisecond, Destinations = ds\<rparr>)))))
       | _ \<Rightarrow> Inl route_not_found)))"

end
