(* ===== verification/Cooldown.thy ===== *)
theory Cooldown
  imports Snapshot StreamEngine GraphInv
begin

text \<open>
  What the operational record and the routing snapshot guarantee: bounds of a cool-down, one completion
  for a request, what a loaded snapshot contains, and that a destination that answered 429 is not tried
  again before its cool-down ends.
\<close>

section \<open>The length of a cool-down\<close>

text \<open>
  the reset of a rate limit lies after the answer and at most a day after it, whatever the
  \<open>Retry-After\<close> header says; a header with a non-negative number of seconds gives that many, at least
  one and at most a day, and without a usable header it is thirty seconds.
\<close>

theorem retry_reset_bounds:
  "case retryReset http_time header observed of (reset, source) \<Rightarrow>
     observed < reset \<and> reset \<le> observed + 24 * 60 * minute
     \<and> (case parse_int64 (trim_space header) of
          Some s \<Rightarrow> s < 0 \<or> reset = observed + max second (min (24 * 60 * minute) (s * second)) \<and> source = ''header''
        | None \<Rightarrow> http_time (trim_space header) \<noteq> None \<or> reset = observed + 30 * second \<and> source = ''inference'')"
  by (cases "parse_int64 (trim_space header)"; cases "http_time (trim_space header)")
     (auto simp: retryReset_def retry_maximum_def Let_def split: if_splits)

section \<open>Completion\<close>

lemma need_Inr: "need x e db = (Inr a, db') \<longleftrightarrow> x = Some a \<and> db' = db"
  by (auto simp: need_def split: option.splits)

definition cooled :: "database \<Rightarrow> string \<Rightarrow> string \<Rightarrow> bool" where
  "cooled db d x \<longleftrightarrow> (\<exists>c\<in>set (cooldowns db). co_kind c = ''destination'' \<and> co_resource c = d \<and> x \<le> rfc3339_nano (co_ends c))"

lemma replace_cooldown_later:
  "co_kind (replace_cooldown n c) = co_kind c" "co_resource (replace_cooldown n c) = co_resource c"
  "rfc3339_nano (co_ends c) \<le> rfc3339_nano (co_ends (replace_cooldown n c))"
  "same_scope n c \<Longrightarrow> rfc3339_nano (co_ends n) \<le> rfc3339_nano (co_ends (replace_cooldown n c))"
  by (auto simp: replace_cooldown_def)

lemma upsert_cooldown_later:
  assumes "c \<in> set rows"
  shows "\<exists>c'\<in>set (upsert_cooldown n rows). co_kind c' = co_kind c \<and> co_resource c' = co_resource c
    \<and> rfc3339_nano (co_ends c) \<le> rfc3339_nano (co_ends c')"
proof (cases "list_ex (same_scope n) rows")
  case True
  then have "replace_cooldown n c \<in> set (upsert_cooldown n rows)" using assms by (simp add: upsert_cooldown_def)
  with replace_cooldown_later show ?thesis by metis
next
  case False
  with assms show ?thesis by (auto simp: upsert_cooldown_def)
qed

lemma upsert_cooldown_new:
  "\<exists>c'\<in>set (upsert_cooldown n rows). co_kind c' = co_kind n \<and> co_resource c' = co_resource n
    \<and> rfc3339_nano (co_ends n) \<le> rfc3339_nano (co_ends c')"
proof (cases "list_ex (same_scope n) rows")
  case True
  then obtain old where old: "old \<in> set rows" "same_scope n old" by (auto simp: list_ex_iff)
  with True have "replace_cooldown n old \<in> set (upsert_cooldown n rows)" by (simp add: upsert_cooldown_def)
  moreover have "co_kind n = co_kind old" "co_resource n = co_resource old" using old(2) by (simp_all add: same_scope_def)
  ultimately show ?thesis using replace_cooldown_later old(2) by metis
next
  case False
  then show ?thesis by (simp add: upsert_cooldown_def)
qed

lemma rate_limit_Inr:
  assumes "recordRateLimitTx env k aid a db = (Inr u, db')"
  shows "requests db' = requests db \<and> attempts db' = attempts db
    \<and> cooled db' (ac_DestinationID a) (rfc3339_nano (fst (retryReset (op_http_time env) (ac_RetryAfter a) (ac_CompletedAt a))))
    \<and> (\<forall>d x. cooled db d x \<longrightarrow> cooled db' d x)"
proof -
  obtain reset source where rs: "retryReset (op_http_time env) (ac_RetryAfter a) (ac_CompletedAt a) = (reset, source)"
    by (cases "retryReset (op_http_time env) (ac_RetryAfter a) (ac_CompletedAt a)")
  from assms rs obtain oid cid n where n: "n = \<lparr>co_id = cid, co_kind = ''destination'', co_resource = ac_DestinationID a, co_reason = ''rate_limited'',
           co_starts = ac_CompletedAt a, co_ends = reset, co_source = oid\<rparr>"
    and db': "cooldowns db' = upsert_cooldown n (cooldowns db)" "requests db' = requests db" "attempts db' = attempts db"
    unfolding recordRateLimitTx_def Let_def by (auto simp: step_elims need_Inr)
  have "cooled db' (ac_DestinationID a) (rfc3339_nano reset)"
    using upsert_cooldown_new [of n "cooldowns db"] by (simp add: cooled_def db' n)
  moreover have "cooled db' d x" if "cooled db d x" for d x
  proof -
    from that obtain c where c: "c \<in> set (cooldowns db)" "co_kind c = ''destination''" "co_resource c = d" "x \<le> rfc3339_nano (co_ends c)"
      unfolding cooled_def by blast
    from upsert_cooldown_later [OF c(1), of n] c show ?thesis unfolding cooled_def db'(1) by (metis order_trans)
  qed
  ultimately show ?thesis using db' rs by simp
qed

definition rate_limited_until :: "op_env \<Rightarrow> attempt_completion \<Rightarrow> time" where
  "rate_limited_until env a = fst (retryReset (op_http_time env) (ac_RetryAfter a) (ac_CompletedAt a))"

definition numbered :: "nat \<Rightarrow> attempt_completion list \<Rightarrow> bool" where
  "numbered k as \<longleftrightarrow> map ac_Sequence as = map (\<lambda>i. int i + 1) [k..<k + length as]"

lemma record_attempt_Inr:
  assumes "record_attempt env rid k a db = (Inr u, db')"
  shows "requests db' = requests db \<and> ac_Sequence a = int k + 1 \<and> (\<exists>aid. attempts db' = attempts db @ [attempt_of aid rid a])
    \<and> (ac_ProviderStatus a = 429 \<longrightarrow> cooled db' (ac_DestinationID a) (rfc3339_nano (rate_limited_until env a)))
    \<and> (\<forall>d x. cooled db d x \<longrightarrow> cooled db' d x)"
proof -
  from assms obtain aid where seq: "ac_Sequence a = int k + 1"
    and rest: "(if ac_ProviderStatus a = 429 then recordRateLimitTx env k aid a else returns ())
      (db\<lparr>attempts := attempts db @ [attempt_of aid rid a]\<rparr>) = (Inr u, db')"
    unfolding record_attempt_def by (auto simp only: step_elims need_Inr step_simps prod.inject sum.inject)
  show ?thesis
  proof (cases "ac_ProviderStatus a = 429")
    case True
    with rest have "recordRateLimitTx env k aid a (db\<lparr>attempts := attempts db @ [attempt_of aid rid a]\<rparr>) = (Inr u, db')" by simp
    from rate_limit_Inr [OF this] seq show ?thesis by (auto simp: rate_limited_until_def cooled_def)
  next
    case False
    with rest seq show ?thesis by (auto simp: cooled_def)
  qed
qed

lemma record_attempts_Inr:
  "record_attempts env rid k as db = (Inr u, db') \<Longrightarrow> requests db' = requests db \<and> numbered k as
    \<and> (\<exists>ids. length ids = length as \<and> attempts db' = attempts db @ map2 (\<lambda>i a. attempt_of i rid a) ids as)
    \<and> (\<forall>a\<in>set as. ac_ProviderStatus a = 429 \<longrightarrow> cooled db' (ac_DestinationID a) (rfc3339_nano (rate_limited_until env a)))
    \<and> (\<forall>d x. cooled db d x \<longrightarrow> cooled db' d x)"
proof (induction "as" arbitrary: k db)
  case (Cons a as)
  then obtain u1 d1 where a: "record_attempt env rid k a db = (Inr u1, d1)" and rest: "record_attempts env rid (Suc k) as d1 = (Inr u, db')"
    by (auto simp: step_elims)
  from record_attempt_Inr [OF a] obtain aid where one: "attempts d1 = attempts db @ [attempt_of aid rid a]" "requests d1 = requests db"
    "ac_Sequence a = int k + 1" "ac_ProviderStatus a = 429 \<Longrightarrow> cooled d1 (ac_DestinationID a) (rfc3339_nano (rate_limited_until env a))"
    "\<And>d x. cooled db d x \<Longrightarrow> cooled d1 d x" by blast
  from Cons.IH [OF rest] obtain ids where ids: "length ids = length as"
    "attempts db' = attempts d1 @ map2 (\<lambda>i a. attempt_of i rid a) ids as" by blast
  have "\<exists>ids. length ids = length (a # as) \<and> attempts db' = attempts db @ map2 (\<lambda>i a. attempt_of i rid a) ids (a # as)"
    using ids one(1) by (intro exI [of _ "aid # ids"]) simp
  moreover have "numbered k (a # as)"
    using Cons.IH [OF rest] one(3) by (simp add: numbered_def upt_conv_Cons del: upt_Suc)
  moreover have "\<forall>b\<in>set (a # as). ac_ProviderStatus b = 429 \<longrightarrow> cooled db' (ac_DestinationID b) (rfc3339_nano (rate_limited_until env b))"
    using Cons.IH [OF rest] one(4) by auto
  moreover have "requests db' = requests db" "\<forall>d x. cooled db d x \<longrightarrow> cooled db' d x"
    using Cons.IH [OF rest] one(2,5) by auto
  ultimately show ?case by blast
qed (simp add: numbered_def)

lemma finish_Inr:
  assumes "finish_request f rid c db = (Inr u, db')"
  shows "\<exists>q. find (\<lambda>q. rq_id q = rid \<and> rq_completed q = None) (requests db) = Some q \<and> rq_started q \<le> rc_CompletedAt c
    \<and> db' = db\<lparr>requests := map (close_request rid c (rq_started q)) (requests db)\<rparr>"
  using assms unfolding finish_request_def by (auto simp: step_elims split: option.splits)

lemma Complete_Inr:
  assumes "Complete env rid c db = (Inr u, db')"
  shows "\<exists>d1 u1 u2. record_attempts env rid 0 (rc_Attempts c) db = (Inr u1, d1) \<and> finish_request (op_faults env) rid c d1 = (Inr u2, db')"
  using assms unfolding Complete_def by (auto simp: transact_Inr step_elims split: if_splits)

lemma closed: "rq_id (close_request rid c s r) = rid \<Longrightarrow> \<exists>t. rq_completed (close_request rid c s r) = Some t"
  by (cases "rq_completed r") (auto simp: close_request_def split: if_splits)

lemma finished_again:
  assumes "find (\<lambda>q. rq_id q = rid \<and> rq_completed q = None) (requests db) = None"
  shows "\<exists>e. fst (Complete env rid c db) = Inl e"
proof (cases "fst (Complete env rid c db)")
  case (Inr u)
  then obtain db' where "Complete env rid c db = (Inr u, db')" by (metis prod.collapse)
  with Complete_Inr obtain d1 u1 u2 where "record_attempts env rid 0 (rc_Attempts c) db = (Inr u1, d1)"
    "finish_request (op_faults env) rid c d1 = (Inr u2, db')" by blast
  with record_attempts_Inr finish_Inr assms show ?thesis by fastforce
qed simp

text \<open>
  C28: a request is completed at most once and its attempts are recorded with it: a completion that
  succeeds found the request open and started no later, appends one row for each attempt, numbered from
  one, closes the request with its outcome, and no later completion of the same request succeeds; one
  that fails leaves everything as it was, unless the commit itself failed.
\<close>

theorem request_completed_once:
  assumes "Complete env rid c db = (r, db')"
  shows "case r of
      Inr _ \<Rightarrow>
        (\<exists>q\<in>set (requests db). rq_id q = rid \<and> rq_completed q = None \<and> rq_started q \<le> rc_CompletedAt c)
        \<and> (\<exists>ids. length ids = length (rc_Attempts c)
              \<and> attempts db' = attempts db @ map2 (\<lambda>i a. attempt_of i rid a) ids (rc_Attempts c))
        \<and> map ac_Sequence (rc_Attempts c) = map (\<lambda>i. int i + 1) [0..<length (rc_Attempts c)]
        \<and> (\<exists>q\<in>set (requests db'). rq_id q = rid \<and> rq_completed q = Some (rc_CompletedAt c) \<and> rq_outcome q = Some (rc_Outcome c))
        \<and> (\<forall>env2 c2. \<exists>e. fst (Complete env2 rid c2 db') = Inl e)
    | Inl e \<Rightarrow> db' = db \<or> commit_fails (op_faults env)"
proof (cases r)
  case (Inl e)
  with assms show ?thesis
    by (auto simp: Complete_def dest: transact_rollback split: if_splits)
next
  case (Inr u)
  with Complete_Inr assms obtain d1 u1 u2 where rec: "record_attempts env rid 0 (rc_Attempts c) db = (Inr u1, d1)"
    and fin: "finish_request (op_faults env) rid c d1 = (Inr u2, db')" by blast
  note attempts = record_attempts_Inr [OF rec]
  from finish_Inr [OF fin] obtain q where q: "find (\<lambda>q. rq_id q = rid \<and> rq_completed q = None) (requests d1) = Some q"
    "rq_started q \<le> rc_CompletedAt c" and db': "db' = d1\<lparr>requests := map (close_request rid c (rq_started q)) (requests d1)\<rparr>" by blast
  from find_some [OF q(1)] attempts have was: "q \<in> set (requests db)" "rq_id q = rid" "rq_completed q = None" by auto
  have "find (\<lambda>q. rq_id q = rid \<and> rq_completed q = None) (requests db') = None"
    by (auto simp: db' find_None_iff dest!: closed)
  with finished_again have "\<forall>env2 c2. \<exists>e. fst (Complete env2 rid c2 db') = Inl e" by blast
  moreover have "\<exists>q\<in>set (requests db'). rq_id q = rid \<and> rq_completed q = Some (rc_CompletedAt c) \<and> rq_outcome q = Some (rc_Outcome c)"
  proof
    show "close_request rid c (rq_started q) q \<in> set (requests db')" using was(1) attempts by (simp add: db')
  qed (use was in \<open>simp add: close_request_def\<close>)
  moreover have "attempts db' = attempts d1" by (simp add: db')
  ultimately show ?thesis
    using Inr attempts was q(2) by (auto simp: numbered_def)
qed

section \<open>Loading\<close>

lemma load_destinations_Inr:
  "load_destinations env required db seen ns = Inr ds \<Longrightarrow>
     distinct ns \<and> set ns \<inter> set seen = {} \<and> [] \<notin> set ns \<and> list_all2 (\<lambda>n d. loadDestination env required db n = Inr d) ns ds"
proof (induction ns arbitrary: seen ds)
  case (Cons n ns)
  then obtain d ds' where "n \<noteq> []" "n \<notin> set seen" "loadDestination env required db n = Inr d"
    "load_destinations env required db (n # seen) ns = Inr ds'" "ds = d # ds'"
    by (auto simp: and_then_Inr)
  with Cons.IH [of "n # seen" ds'] show ?case by auto
qed simp

lemma loadDestination_Inr:
  assumes "loadDestination env required db n = Inr d"
  shows "\<exists>j names. join_destination db n = Some j \<and> md_capabilities (jn_model j) = Some names \<and> dest_Name d = n
    \<and> ID d = res_id (jn_resource j) \<and> ModelID d = md_resource (jn_model j) \<and> CredentialID d = cd_resource (jn_credential j)
    \<and> ConnectionID d = pn_resource (jn_connection j) \<and> BaseURL d = pn_base_url (jn_connection j)
    \<and> SecretID d = cd_secret (jn_credential j) \<and> Capabilities d = sort names
    \<and> ExclusionReasons d = exclusion_reasons j names required (cooling_down db (ld_now env) j)"
proof -
  from assms obtain j names where j: "join_destination db n = Some j" and rest: "md_capabilities (jn_model j) = Some names"
    "ID d = res_id (jn_resource j) \<and> dest_Name d = res_name (jn_resource j) \<and> ModelID d = md_resource (jn_model j) \<and> CredentialID d = cd_resource (jn_credential j)
      \<and> ConnectionID d = pn_resource (jn_connection j) \<and> BaseURL d = pn_base_url (jn_connection j)
      \<and> SecretID d = cd_secret (jn_credential j) \<and> Capabilities d = sort names
      \<and> ExclusionReasons d = exclusion_reasons j names required (cooling_down db (ld_now env) j)"
    unfolding loadDestination_def by (auto split: option.splits if_splits)
  from j have "find (named ''Destination'' n) (resources db) = Some (jn_resource j)"
    unfolding join_destination_def by (auto simp: bind_eq_Some_conv)
  with find_some have "res_name (jn_resource j) = n" by (fastforce simp: named_def)
  with j rest show ?thesis by auto
qed

lemma exclusion_cooling: "cooling \<Longrightarrow> exclusion_reasons j names required cooling \<noteq> []"
  by (auto simp: exclusion_reasons_def dest!: arg_cong [of _ "[]" set])

lemma Load_Inr:
  assumes "Load env wanted required db = Inr snap"
  shows "\<exists>inst r v s. installation db = Some inst \<and> find (\<lambda>r. model_alias r = wanted) (routes db) = Some r \<and> route_enabled r
    \<and> active_version db r = Some v \<and> decode_definition (sv_definition v) = Some s \<and> usable_definition s
    \<and> load_destinations env required db [] (elems (sdf_Destinations s)) = Inr (Destinations snap)
    \<and> ConfigRevision snap = in_revision inst \<and> Alias snap = wanted \<and> RouteID snap = route_resource r
    \<and> StrategyVersionID snap = sv_id v \<and> MaxAttempts snap = sdf_MaxAttempts s
    \<and> AttemptTimeout snap = sdf_AttemptTimeoutMS s * millisecond \<and> TotalTimeout snap = sdf_TotalTimeoutMS s * millisecond"
proof -
  from assms obtain inst r v s ds where "installation db = Some inst" "find (\<lambda>r. model_alias r = wanted) (routes db) = Some r" "route_enabled r"
    "active_version db r = Some v" "decode_definition (sv_definition v) = Some s" "usable_definition s"
    "load_destinations env required db [] (elems (sdf_Destinations s)) = Inr ds"
    "snap = \<lparr>ConfigRevision = in_revision inst, RouteID = route_resource r, Alias = model_alias r,
                            StrategyID = route_strategy r, StrategyVersionID = sv_id v, StrategyVersion = sv_number v,
                            MaxAttempts = sdf_MaxAttempts s, AttemptTimeout = sdf_AttemptTimeoutMS s * millisecond,
                            TotalTimeout = sdf_TotalTimeoutMS s * millisecond, Destinations = ds\<rparr>"
    unfolding Load_def Let_def by (auto simp: and_then_Inr split: option.splits)
  moreover from this find_some have "model_alias r = wanted" by fastforce
  ultimately show ?thesis by auto
qed

section \<open>What a snapshot promises\<close>

lemma join_Some:
  assumes "join_destination db n = Some j"
  shows "jn_destination j \<in> set (destination_rows db) \<and> cd_resource (jn_credential j) = dn_credential (jn_destination j)
    \<and> md_resource (jn_model j) = dn_model (jn_destination j) \<and> dn_resource (jn_destination j) = res_id (jn_resource j)"
  using assms unfolding join_destination_def by (auto simp: bind_eq_Some_conv dest!: row_of_Some)

lemma exclusion_none:
  "exclusion_reasons j names required cooling = [] \<longleftrightarrow>
     dn_enabled (jn_destination j) \<and> md_enabled (jn_model j) \<and> pn_enabled (jn_connection j)
     \<and> cd_status (jn_credential j) = ''active'' \<and> eg_enabled (jn_egress j) \<and> set required \<subseteq> set names \<and> \<not> cooling"
proof -
  have "sort xs = [] \<longleftrightarrow> xs = []" for xs :: "string list" by (metis length_0_conv length_sort)
  then show ?thesis unfolding exclusion_reasons_def by (auto simp: filter_empty_conv)
qed

text \<open>The rows behind a destination allow it to be used for \<open>required\<close> at \<open>now\<close>.\<close>

definition usable :: "database \<Rightarrow> time \<Rightarrow> string list \<Rightarrow> string \<Rightarrow> bool" where
  "usable db now required name \<longleftrightarrow>
     (\<exists>j names. join_destination db name = Some j \<and> dn_enabled (jn_destination j) \<and> md_enabled (jn_model j)
        \<and> pn_enabled (jn_connection j) \<and> cd_status (jn_credential j) = ''active'' \<and> eg_enabled (jn_egress j)
        \<and> md_capabilities (jn_model j) = Some names \<and> set required \<subseteq> set names \<and> \<not> cooling_down db now j)"

lemma destination_sound:
  assumes "loadDestination env required db n = Inr d" "graph_ok db"
  shows "(Eligible d \<longleftrightarrow> usable db (ld_now env) required n)
    \<and> (\<exists>p. provider_of_credential db (CredentialID d) = Some p \<and> provider_of_model db (ModelID d) = Some p)"
proof -
  from loadDestination_Inr [OF assms(1)] obtain j names where j: "join_destination db n = Some j" "md_capabilities (jn_model j) = Some names"
    "ModelID d = md_resource (jn_model j)" "CredentialID d = cd_resource (jn_credential j)"
    "ExclusionReasons d = exclusion_reasons j names required (cooling_down db (ld_now env) j)" by blast
  have "Eligible d \<longleftrightarrow> usable db (ld_now env) required n"
    unfolding Eligible_def j(5) exclusion_none usable_def using j(1,2) by simp
  moreover have "\<exists>p. provider_of_credential db (CredentialID d) = Some p \<and> provider_of_model db (ModelID d) = Some p"
    using join_Some [OF j(1)] assms(2) unfolding j(3,4) graph_ok_def providers_ok_def by auto
  ultimately show ?thesis by blast
qed

text \<open>
  C9: a snapshot is loaded from an enabled route of the alias, bound to a version of its own strategy,
  its limits are within their bounds and its destinations are those of that version, in its order and
  without repetition; a destination is eligible exactly when everything behind it is enabled, it has
  every required capability and nothing of it is cooling down, and the credential sent to it belongs to
  the provider of its connection.
\<close>

theorem snapshot_sound:
  assumes "Load env wanted required db = Inr snap" "graph_ok db"
  shows "(\<exists>r\<in>set (routes db). \<exists>v\<in>set (strategy_versions db). model_alias r = wanted \<and> route_enabled r \<and> RouteID snap = route_resource r
        \<and> route_active r = Some (sv_id v) \<and> sv_strategy v = route_strategy r
        \<and> (\<exists>s. decode_definition (sv_definition v) = Some s \<and> map dest_Name (Destinations snap) = elems (sdf_Destinations s)))
    \<and> 1 \<le> MaxAttempts snap \<and> MaxAttempts snap \<le> 32
    \<and> 100 * millisecond \<le> AttemptTimeout snap \<and> AttemptTimeout snap \<le> 600 * second
    \<and> 100 * millisecond \<le> TotalTimeout snap \<and> TotalTimeout snap \<le> 900 * second
    \<and> Destinations snap \<noteq> [] \<and> length (Destinations snap) \<le> 32 \<and> distinct (map dest_Name (Destinations snap))
    \<and> (\<forall>d\<in>set (Destinations snap). (Eligible d \<longleftrightarrow> usable db (ld_now env) required (dest_Name d))
        \<and> (\<exists>p. provider_of_credential db (CredentialID d) = Some p \<and> provider_of_model db (ModelID d) = Some p))"
proof -
  from Load_Inr [OF assms(1)] obtain r v s where r: "find (\<lambda>r. model_alias r = wanted) (routes db) = Some r" "route_enabled r"
    and v: "active_version db r = Some v" "decode_definition (sv_definition v) = Some s" "usable_definition s"
    and ds: "load_destinations env required db [] (elems (sdf_Destinations s)) = Inr (Destinations snap)"
    and snap: "RouteID snap = route_resource r" "MaxAttempts snap = sdf_MaxAttempts s"
      "AttemptTimeout snap = sdf_AttemptTimeoutMS s * millisecond" "TotalTimeout snap = sdf_TotalTimeoutMS s * millisecond" by blast
  from load_destinations_Inr [OF ds] have loaded: "distinct (elems (sdf_Destinations s))"
    "list_all2 (\<lambda>n d. loadDestination env required db n = Inr d) (elems (sdf_Destinations s)) (Destinations snap)" by simp_all
  then have "list_all2 (\<lambda>n d. n = dest_Name d) (elems (sdf_Destinations s)) (Destinations snap)"
    by (rule_tac list_all2_mono [OF loaded(2)]) (use loadDestination_Inr in blast)
  then have names: "map dest_Name (Destinations snap) = elems (sdf_Destinations s)"
    by (auto simp: list_all2_conv_all_nth intro: nth_equalityI)
  have each: "loadDestination env required db (dest_Name d) = Inr d" if "d \<in> set (Destinations snap)" for d
    using loaded(2) that names by (auto simp: list_all2_conv_all_nth in_set_conv_nth) (metis nth_map)
  have all: "\<forall>d\<in>set (Destinations snap). (Eligible d \<longleftrightarrow> usable db (ld_now env) required (dest_Name d))
        \<and> (\<exists>p. provider_of_credential db (CredentialID d) = Some p \<and> provider_of_model db (ModelID d) = Some p)"
    using each destination_sound [OF _ assms(2)] by blast
  have "route_active r = Some (sv_id v)" "sv_strategy v = route_strategy r" "v \<in> set (strategy_versions db)"
    using v(1) find_some [of _ "strategy_versions db" v] by (auto simp: active_version_def split: option.splits)
  moreover have "r \<in> set (routes db)" "model_alias r = wanted" using find_some [OF r(1)] by auto
  moreover have "length (Destinations snap) = slice_len (sdf_Destinations s)" using names by (metis length_map)
  ultimately show ?thesis
    using r(2) v(2,3) snap names loaded(1) unfolding usable_definition_def by (intro conjI all) auto
qed


section \<open>An installation\<close>

definition sample_resource :: "string \<Rightarrow> string \<Rightarrow> string \<Rightarrow> string \<Rightarrow> resource" where
  "sample_resource rid kind name spec = \<lparr>res_id = rid, res_kind = kind, res_name = name, res_display = None,
     res_description = None, res_version = 1, res_spec = spec, res_created = Some 1, res_updated = Some 1\<rparr>"

definition sample_definition :: string where
  "sample_definition = ''{\"destinations\":[{\"name\":\"fast\"}],\"maxAttempts\":2,\"attemptTimeoutMs\":1000,\"totalTimeoutMs\":5000}''"

definition sample_graph :: database where
  "sample_graph = empty_database\<lparr>
     installation := Some \<lparr>in_id = ''i'', in_key_version = 1, in_revision = 4, in_key_check = None, in_created = None, in_updated = None\<rparr>,
     resources := [sample_resource ''p'' ''Provider'' ''acme'' ''{}'', sample_resource ''s'' ''Strategy'' ''main'' ''{}'',
       sample_resource ''c'' ''ProviderConnection'' ''api'' ''{\"adapter\":\"openai\"}'', sample_resource ''d'' ''Destination'' ''fast'' ''{}''],
     provider_accounts := [\<lparr>pa_resource = ''a'', pa_provider = ''p''\<rparr>],
     provider_connections := [\<lparr>pn_resource = ''c'', pn_provider = ''p'', pn_base_url = ''https://api.acme'', pn_private = False, pn_enabled = True\<rparr>],
     egresses := [\<lparr>eg_resource = ''e'', eg_type = ''direct'', eg_enabled = True\<rparr>],
     secret_rows := [\<lparr>se_id = ''x'', se_name = ''key'', se_key_version = 1, se_algorithm = [], se_nonce = [], se_ciphertext = [],
       se_fingerprint = [], se_version = 1, se_created = None, se_updated = None\<rparr>],
     credential_rows := [\<lparr>cd_resource = ''k'', cd_account = ''a'', cd_egress = ''e'', cd_secret = ''x'', cd_status = ''active'', cd_blocked = None\<rparr>],
     model_rows := [\<lparr>md_resource = ''m'', md_connection = ''c'', md_model = ''big'', md_capabilities = Some [''text''], md_enabled = True\<rparr>],
     destination_rows := [\<lparr>dn_resource = ''d'', dn_model = ''m'', dn_credential = ''k'', dn_weight = 1, dn_enabled = True\<rparr>],
     strategy_versions := [\<lparr>sv_id = ''v'', sv_strategy = ''s'', sv_number = 1,
       sv_definition = sample_definition,
       sv_checksum = [], sv_published = 1\<rparr>],
     routes := [\<lparr>route_resource = ''r'', model_alias = ''gpt'', route_strategy = ''s'', route_active = Some ''v'', route_enabled = True\<rparr>],
     requests := [\<lparr>rq_id = ''q'', rq_agent = None, rq_route = None, rq_alias = ''gpt'', rq_started = 10 * second, rq_completed = None,
       rq_outcome = None, rq_status = None, rq_input = None, rq_output = None, rq_ttft = None, rq_duration = None\<rparr>]\<rparr>"

definition sample_loader :: "time \<Rightarrow> loader_env" where
  "sample_loader now = \<lparr>ld_faults = no_faults, ld_now = now, ld_text = (\<lambda>v. [])\<rparr>"

lemma sample_graph_ok: "graph_ok sample_graph"
proof -
  have "keys_ok sample_graph" "refs_ok sample_graph" "versions_ok sample_graph" by code_simp+
  moreover have "list_all (\<lambda>d. provider_of_credential sample_graph (dn_credential d) = Some ''p''
      \<and> provider_of_model sample_graph (dn_model d) = Some ''p'') (destination_rows sample_graph)" by code_simp
  then have "providers_ok sample_graph" by (auto simp: providers_ok_def list_all_iff)
  ultimately show ?thesis by (simp add: graph_ok_def)
qed

lemma sample_decoded:
  "case decode_definition sample_definition of None \<Rightarrow> False
   | Some s \<Rightarrow> usable_definition s \<and> elems (sdf_Destinations s) = [''fast'']"
  by code_simp

lemma sample_adapter: "adapter_of t ''{\"adapter\":\"openai\"}'' = Some ''openai''"
  by code_simp

lemma sample_tables:
  "installation sample_graph = Some \<lparr>in_id = ''i'', in_key_version = 1, in_revision = 4, in_key_check = None, in_created = None, in_updated = None\<rparr>"
  "destination_rows sample_graph = [\<lparr>dn_resource = ''d'', dn_model = ''m'', dn_credential = ''k'', dn_weight = 1, dn_enabled = True\<rparr>]"
  "model_rows sample_graph = [\<lparr>md_resource = ''m'', md_connection = ''c'', md_model = ''big'', md_capabilities = Some [''text''], md_enabled = True\<rparr>]"
  "provider_connections sample_graph = [\<lparr>pn_resource = ''c'', pn_provider = ''p'', pn_base_url = ''https://api.acme'', pn_private = False, pn_enabled = True\<rparr>]"
  "routes sample_graph = [\<lparr>route_resource = ''r'', model_alias = ''gpt'', route_strategy = ''s'', route_active = Some ''v'', route_enabled = True\<rparr>]"
  "strategy_versions sample_graph = [\<lparr>sv_id = ''v'', sv_strategy = ''s'', sv_number = 1, sv_definition = sample_definition,
     sv_checksum = [], sv_published = 1\<rparr>]"
  "attempts sample_graph = []" "cooldowns sample_graph = []" "observations sample_graph = []"
  "requests sample_graph = [\<lparr>rq_id = ''q'', rq_agent = None, rq_route = None, rq_alias = ''gpt'', rq_started = 10 * second, rq_completed = None,
     rq_outcome = None, rq_status = None, rq_input = None, rq_output = None, rq_ttft = None, rq_duration = None\<rparr>]"
  by (simp_all add: sample_graph_def empty_database_def)

lemma sample_loader_simps:
  "ld_faults (sample_loader now) = no_faults" "ld_now (sample_loader now) = now" "\<not> fails no_faults s" "\<not> commit_fails no_faults"
  by (simp_all add: sample_loader_def no_faults_def)

definition sample_join :: joined where
  "sample_join = \<lparr>jn_resource = sample_resource ''d'' ''Destination'' ''fast'' ''{}'', jn_destination = hd (destination_rows sample_graph),
     jn_model = hd (model_rows sample_graph),
     jn_connection_resource = sample_resource ''c'' ''ProviderConnection'' ''api'' ''{\"adapter\":\"openai\"}'',
     jn_connection = hd (provider_connections sample_graph), jn_credential = hd (credential_rows sample_graph),
     jn_secret = hd (secret_rows sample_graph), jn_egress = hd (egresses sample_graph), jn_account = hd (provider_accounts sample_graph)\<rparr>"

lemma sample_joined: "join_destination sample_graph ''fast'' = Some sample_join"
  by (simp add: join_destination_def sample_join_def sample_graph_def named_def row_of_def sample_resource_def)

text \<open>The same for every database that has these tables, whatever it records about requests.\<close>

definition same_graph :: "database \<Rightarrow> bool" where
  "same_graph db \<longleftrightarrow> (\<exists>as qs os cs. db = sample_graph\<lparr>attempts := as, requests := qs, observations := os, cooldowns := cs\<rparr>)"

lemma sample_joined_same: "same_graph db \<Longrightarrow> join_destination db ''fast'' = Some sample_join"
  using sample_joined unfolding same_graph_def join_destination_def by auto

lemma sample_destination: "same_graph db \<Longrightarrow> is_ok (loadDestination (sample_loader now) [''text''] db ''fast'')"
  by (simp add: loadDestination_def sample_loader_simps sample_joined_same sample_join_def sample_resource_def sample_adapter
      sample_tables knownCapability_def)

lemma sample_loaded:
  assumes "same_graph db" shows "is_ok (Load (sample_loader now) ''gpt'' [''text''] db)"
proof -
  obtain s where s: "decode_definition sample_definition = Some s" "usable_definition s" "elems (sdf_Destinations s) = [''fast'']"
    using sample_decoded by (auto split: option.splits)
  obtain d where "loadDestination (sample_loader now) [''text''] db ''fast'' = Inr d"
    using sample_destination [OF assms] by (auto simp: is_ok_iff)
  then have "load_destinations (sample_loader now) [''text''] db [] [''fast''] = Inr [d]" by simp
  moreover have "installation db = installation sample_graph" "routes db = routes sample_graph" "strategy_versions db = strategy_versions sample_graph"
    using assms by (auto simp: same_graph_def)
  ultimately show ?thesis
    using s by (simp add: Load_def sample_loader_simps active_version_def sample_tables)
qed

text \<open>A completion writes only the operational tables.\<close>

definition but_operations :: "database \<Rightarrow> database" where
  "but_operations db = db\<lparr>attempts := [], requests := [], observations := [], cooldowns := []\<rparr>"

lemma frame_record: "frame but_operations (record_attempts env rid k as)"
proof (induction "as" arbitrary: k)
  case Nil
  show ?case unfolding record_attempts.simps by (rule frame_basic)
next
  case (Cons a as)
  have "frame but_operations (record_attempt env rid k a)"
    unfolding record_attempt_def recordRateLimitTx_def need_def Let_def
    by (intro frame_intros) (simp_all add: but_operations_def)
  with Cons show ?case unfolding record_attempts.simps by (intro frame_intros)
qed

lemma Complete_same:
  assumes "Complete env rid c sample_graph = (Inr u, db')"
  shows "same_graph db'"
proof -
  from Complete_Inr [OF assms] obtain d1 u1 u2 where rec: "record_attempts env rid 0 (rc_Attempts c) sample_graph = (Inr u1, d1)"
    and fin: "finish_request (op_faults env) rid c d1 = (Inr u2, db')" by blast
  have "but_operations db' = but_operations d1" using finish_Inr [OF fin] by (auto simp: but_operations_def)
  also have "\<dots> = but_operations sample_graph" by (rule frame_run [OF frame_record rec])
  finally have "but_operations db' = but_operations sample_graph" .
  moreover have "db' = (but_operations db')\<lparr>attempts := attempts db', requests := requests db', observations := observations db',
      cooldowns := cooldowns db'\<rparr>" by (simp add: but_operations_def)
  ultimately have "db' = (but_operations sample_graph)\<lparr>attempts := attempts db', requests := requests db', observations := observations db',
      cooldowns := cooldowns db'\<rparr>" by simp
  then show ?thesis unfolding same_graph_def but_operations_def by auto
qed

definition sample_op :: op_env where
  "sample_op = \<lparr>op_faults = no_faults, op_attempt_id = (\<lambda>k. Some ''a1''), op_observation_id = (\<lambda>k. Some ''o1''),
     op_cooldown_id = (\<lambda>k. Some ''c1''), op_http_time = (\<lambda>s. None)\<rparr>"

definition sample_attempt :: attempt_completion where
  "sample_attempt = \<lparr>ac_Sequence = 1, ac_DestinationID = ''d'', ac_Outcome = ''error'', ac_ErrorClass = ''provider_status'',
     ac_ProviderRequestID = [], ac_FallbackReason = ''rate_limited'', ac_RetryAfter = [], ac_ProviderStatus = 429,
     ac_Retryable = True, ac_StartedAt = 11 * second, ac_CompletedAt = 12 * second\<rparr>"

definition sample_completion :: request_completion where
  "sample_completion = \<lparr>rc_Outcome = ''error'', rc_HTTPStatus = 503, rc_InputTokens = None, rc_OutputTokens = None, rc_TTFT = None,
     rc_CompletedAt = 12 * second, rc_Attempts = [sample_attempt]\<rparr>"

lemma sample_until: "rate_limited_until sample_op sample_attempt = 42 * second"
  by (simp add: rate_limited_until_def retryReset_def sample_attempt_def sample_op_def trim_space_def parse_int64_def
      parse_digits_def)

lemma sample_recorded: "\<exists>d1. record_attempt sample_op ''q'' 0 sample_attempt sample_graph = (Inr (), d1) \<and> requests d1 = requests sample_graph"
proof -
  obtain reset source where "retryReset (op_http_time sample_op) (ac_RetryAfter sample_attempt) (ac_CompletedAt sample_attempt) = (reset, source)"
    by (metis surj_pair)
  moreover have "ac_Sequence sample_attempt = 1" "ac_DestinationID sample_attempt = ''d''" "validRequestOutcome (ac_Outcome sample_attempt)"
    "\<not> is_zero (ac_StartedAt sample_attempt)" "\<not> ac_CompletedAt sample_attempt < ac_StartedAt sample_attempt"
    "ac_ProviderStatus sample_attempt = 429"
    by (simp_all add: sample_attempt_def validRequestOutcome_def is_zero_def zero_time_def)
  moreover have "op_faults sample_op = no_faults" "op_attempt_id sample_op k = Some ''a1''" "op_observation_id sample_op k = Some ''o1''"
    "op_cooldown_id sample_op k = Some ''c1''" for k by (simp_all add: sample_op_def)
  ultimately show ?thesis
    by (simp add: record_attempt_def recordRateLimitTx_def step_elims need_Inr sample_tables sample_loader_simps)
qed

lemma sample_completed: "\<exists>db'. Complete sample_op ''q'' sample_completion sample_graph = (Inr (), db')"
proof -
  from sample_recorded obtain d1 where d1: "record_attempt sample_op ''q'' 0 sample_attempt sample_graph = (Inr (), d1)"
    "requests d1 = requests sample_graph" by blast
  then have "record_attempts sample_op ''q'' 0 (rc_Attempts sample_completion) sample_graph = (Inr (), d1)"
    by (simp add: sample_completion_def)
  moreover have "\<exists>db'. finish_request (op_faults sample_op) ''q'' sample_completion d1 = (Inr (), db')"
    unfolding finish_request_def
    by (simp add: step_elims d1(2) sample_tables sample_op_def sample_loader_simps sample_completion_def negative_def)
  ultimately show ?thesis
    by (simp add: Complete_def transact_Inr step_elims sample_op_def sample_loader_simps sample_completion_def is_zero_def zero_time_def
        validRequestOutcome_def)
qed

theorem request_completed_once_witness:
  "\<exists>db'. Complete sample_op ''q'' sample_completion sample_graph = (Inr (), db')
     \<and> \<not> is_ok (fst (Complete sample_op ''q'' sample_completion db'))"
proof -
  from sample_completed obtain db' where db': "Complete sample_op ''q'' sample_completion sample_graph = (Inr (), db')" by blast
  from request_completed_once [OF this] have "\<exists>e. fst (Complete sample_op ''q'' sample_completion db') = Inl e" by simp
  with db' show ?thesis by auto
qed

theorem retry_reset_bounds_witness:
  "\<exists>reset source. retryReset (\<lambda>s. None) ''120'' 0 = (reset, source) \<and> reset = 120 * second \<and> source = ''header''"
proof -
  have "trim_space ''120'' = ''120''" by (rule trim_space_graphic) code_simp
  moreover have "parse_int64 ''120'' = Some 120" by code_simp
  ultimately show ?thesis
    using retry_reset_bounds [where http_time = "\<lambda>s. None" and header = "''120''" and observed = 0] by (cases "retryReset (\<lambda>s. None) ''120'' 0") simp
qed

theorem snapshot_sound_witness:
  "\<exists>snap. Load (sample_loader 0) ''gpt'' [''text''] sample_graph = Inr snap \<and> MaxAttempts snap \<le> 32"
proof -
  have "same_graph sample_graph" unfolding same_graph_def
    by (rule exI [of _ "attempts sample_graph"], rule exI [of _ "requests sample_graph"],
        rule exI [of _ "observations sample_graph"], rule exI [of _ "cooldowns sample_graph"]) simp
  then obtain snap where snap: "Load (sample_loader 0) ''gpt'' [''text''] sample_graph = Inr snap"
    using sample_loaded by (auto simp: is_ok_iff)
  from snapshot_sound [OF this sample_graph_ok] snap show ?thesis by blast
qed


end
