(* ===== verification/DataApi.thy ===== *)
theory DataApi
  imports Cooldown
begin

text \<open>
  The data plane, \<open>internal/httpserver/data.go\<close>: a Chat Completions request from its headers to the
  answer, through the request contract, the agent token, the routing snapshot, the operational record
  and the engine. Each access to the database is a transaction of its own; \<open>da_others k\<close> is what other
  handlers did to the database before the \<open>k\<close>-th of them. The engine's world \<open>'w\<close> changes only when the
  engine runs.
\<close>

section \<open>Requests and answers\<close>

text \<open>\<open>hr_Body\<close> is \<open>None\<close> when the body cannot be read.\<close>

record http_request =
  hr_ContentType :: string
  hr_Body :: "bytes option"
  hr_Authorization :: "string list"

text \<open>
  An error document with its status, code and parameter; a completion; an event stream with the bytes
  that were sent and the error document after it; or no answer to a client that is gone.
\<close>

datatype data_response =
    DataError int string string
  | DataBody bytes
  | DataStream bytes "(int \<times> string) option"
  | DataNothing

definition equal_fold :: "string \<Rightarrow> string \<Rightarrow> bool" where
  "equal_fold a b \<longleftrightarrow> fold_name a = fold_name b"

definition mediaType :: "http_request \<Rightarrow> string \<Rightarrow> bool" where
  "mediaType r want \<longleftrightarrow> equal_fold (trim_space (takeWhile (\<lambda>c. c \<noteq> CHR '';'') (hr_ContentType r))) want"

definition bearerToken :: "string \<Rightarrow> string option" where
  "bearerToken v =
     (if length v < 8 \<or> \<not> equal_fold (take 7 v) ''Bearer ''
        \<or> list_ex (\<lambda>c. c \<in> {CHR '' '', CHR '','', char_of (9 :: nat), char_of (10 :: nat), char_of (13 :: nat)}) (drop 7 v)
      then None else Some (drop 7 v))"

text \<open>Everything that is checked before the database is asked.\<close>

definition read_request :: "http_request \<Rightarrow> data_response + (request \<times> capability list \<times> string)" where
  "read_request r =
     check (mediaType r ''application/json'') (DataError 415 ''unsupported_media_type'' [])
     (case hr_Body r of
        None \<Rightarrow> Inl (DataError 400 ''invalid_request'' [])
      | Some body \<Rightarrow>
          check (length body \<le> MaxRequestBytes) (DataError 413 ''request_too_large'' [])
          (case Parse body of
             Inl e \<Rightarrow> Inl (DataError 400 (err_code e) (err_param e))
           | Inr (req, caps) \<Rightarrow>
               (case hr_Authorization r of
                  [v] \<Rightarrow>
                    (case bearerToken v of
                       None \<Rightarrow> Inl (DataError 401 ''invalid_agent_token'' [])
                     | Some bearer \<Rightarrow> Inr (req, caps, bearer))
                | _ \<Rightarrow> Inl (DataError 401 ''invalid_agent_token'' []))))"

definition token_refusal :: "agent_error \<Rightarrow> data_response" where
  "token_refusal e =
     (case e of
        AgentTokenInvalid \<Rightarrow> DataError 401 ''invalid_agent_token'' []
      | AgentRouteForbidden \<Rightarrow> DataError 403 ''route_forbidden'' ''model''
      | AgentCode c \<Rightarrow>
          if c = ''not_found'' then DataError 404 ''route_not_found'' ''model''
          else DataError 503 ''authentication_unavailable'' []
      | AgentFailed s \<Rightarrow> DataError 503 ''authentication_unavailable'' [])"

definition load_refusal :: "load_error option \<Rightarrow> data_response" where
  "load_refusal e =
     (if e = Some route_disabled then DataError 422 ''route_disabled'' ''model''
      else if e = Some route_not_found then DataError 404 ''route_not_found'' ''model''
      else DataError 503 ''router_unavailable'' [])"

section \<open>Statuses and outcomes\<close>

definition outcomeForRunError :: "run_error option \<Rightarrow> string" where
  "outcomeForRunError e =
     (case e of
        None \<Rightarrow> ''success''
      | Some x \<Rightarrow>
          if re_Code x = ''indeterminate_upstream'' then ''indeterminate''
          else if re_Code x = ''request_cancelled'' then ''cancelled''
          else ''error'')"

definition runErrorStatus :: "run_error \<Rightarrow> int \<Rightarrow> int" where
  "runErrorStatus x upstream_status =
     (if re_Code x = ''no_eligible_destination'' then 422
      else if re_Code x = ''fallback_exhausted'' then (if upstream_status = 429 then 429 else 503)
      else if re_Code x = ''total_timeout'' then 504
      else if re_Code x = ''request_cancelled'' then 499
      else if re_Code x = ''streaming_not_supported'' then 422
      else 502)"

definition streamRunErrorStatus :: "run_error option \<Rightarrow> stream_run_result \<Rightarrow> int" where
  "streamRunErrorStatus e r =
     (case e of
        None \<Rightarrow> 200
      | Some x \<Rightarrow>
          if sr_Committed r then 200
          else runErrorStatus x (if sr_Attempts r = [] then 0 else at_StatusCode (last (sr_Attempts r))))"

definition writeRunError :: "run_error \<Rightarrow> run_result \<Rightarrow> data_response" where
  "writeRunError x r =
     (let status = runErrorStatus x (StatusCode (Upstream r))
      in if status = 499 then DataNothing else DataError status (re_Code x) [])"

definition writeStreamRunError :: "run_error \<Rightarrow> stream_run_result \<Rightarrow> (int \<times> string) option" where
  "writeStreamRunError x r =
     (let status = streamRunErrorStatus (Some x) r
      in if status \<noteq> 499 then Some (status, re_Code x) else None)"

section \<open>The handler\<close>

record 'w data_env =
  da_id :: string
  da_sha :: "bytes \<Rightarrow> bytes"
  da_token_faults :: faults
  da_token_time :: time
  da_loader :: loader_env
  da_started :: time
  da_begin_faults :: faults
  da_engine :: "'w engine_env"
  da_streams :: bool
  da_stream :: "'w stream_env"
  da_completed :: time
  da_op :: op_env
  da_others :: "nat \<Rightarrow> database \<Rightarrow> database"

definition completion_of :: "attempt \<Rightarrow> attempt_completion" where
  "completion_of a =
     \<lparr>ac_Sequence = int (Sequence a), ac_DestinationID = DestinationID a, ac_Outcome = Outcome a, ac_ErrorClass = ErrorClass a,
      ac_ProviderRequestID = ProviderRequestID a, ac_FallbackReason = FallbackReason a, ac_RetryAfter = RetryAfter a,
      ac_ProviderStatus = at_StatusCode a, ac_Retryable = Retryable a, ac_StartedAt = StartedAt a, ac_CompletedAt = CompletedAt a\<rparr>"

text \<open>\<open>completeOperational\<close>: a completion that fails is only logged.\<close>

definition completeOperational ::
    "'w data_env \<Rightarrow> int \<Rightarrow> attempt list \<Rightarrow> string \<Rightarrow> int option \<Rightarrow> int option \<Rightarrow> duration option \<Rightarrow> database \<Rightarrow> database" where
  "completeOperational env status as outcome input output ttft db =
     snd (Complete (da_op env) (da_id env)
       \<lparr>rc_Outcome = outcome, rc_HTTPStatus = status, rc_InputTokens = input, rc_OutputTokens = output, rc_TTFT = ttft,
        rc_CompletedAt = da_completed env, rc_Attempts = map completion_of as\<rparr> db)"

definition run_buffered ::
    "'w data_env \<Rightarrow> snapshot \<Rightarrow> request \<Rightarrow> database \<Rightarrow> 'w \<Rightarrow> data_response \<times> database \<times> 'w" where
  "run_buffered env snap req db w =
     (let ((r, e), w') = Run (da_engine env) snap req w;
          status = (case e of None \<Rightarrow> 200 | Some x \<Rightarrow> runErrorStatus x (StatusCode (Upstream r)));
          db' = completeOperational env status (Attempts r) (outcomeForRunError e)
                  (up_InputTokens (Upstream r)) (up_OutputTokens (Upstream r)) None (da_others env 3 db)
      in (case e of None \<Rightarrow> DataBody (Body (Upstream r)) | Some x \<Rightarrow> writeRunError x r, db', w'))"

definition streamChatCompletions ::
    "'w data_env \<Rightarrow> snapshot \<Rightarrow> request \<Rightarrow> database \<Rightarrow> 'w \<Rightarrow> data_response \<times> database \<times> 'w" where
  "streamChatCompletions env snap req db w =
     (let (((r, e), sent), w') = RunStream (da_streams env) (da_stream env) snap req w;
          outcome = outcomeForRunError e;
          outcome' = (if sr_Committed r \<and> e \<noteq> None \<and> outcome = ''error'' then ''partial'' else outcome);
          ttft = (case sr_FirstEventAt r of
                    None \<Rightarrow> None
                  | Some t \<Rightarrow> if is_zero t \<or> t < da_started env then None else Some (elapsed t (da_started env)));
          db' = completeOperational env (streamRunErrorStatus e r) (sr_Attempts r) outcome'
                  (sr_InputTokens r) (sr_OutputTokens r) ttft (da_others env 3 db)
      in (DataStream sent (case e of None \<Rightarrow> None | Some x \<Rightarrow> if sr_Committed r then None else writeStreamRunError x r), db', w'))"

definition start_of :: "'w data_env \<Rightarrow> agent_identity \<Rightarrow> string \<Rightarrow> snapshot \<Rightarrow> request_start" where
  "start_of env who route snap =
     \<lparr>bg_ID = da_id env, bg_AgentTokenID = ai_ResourceID who, bg_RouteID = route, bg_RequestedAlias = Alias snap,
      bg_StartedAt = da_started env\<rparr>"

text \<open>From the token to the open request: what is admitted, or the answer that refuses it.\<close>

definition admit_request ::
    "'w data_env \<Rightarrow> http_request \<Rightarrow> database \<Rightarrow> (data_response + snapshot \<times> request) \<times> database" where
  "admit_request env r db =
     (case read_request r of
        Inl answer \<Rightarrow> (Inl answer, db)
      | Inr (req, caps, bearer) \<Rightarrow>
          let db0 = da_others env 0 db in
          (case AuthenticateAlias (da_token_faults env) (da_sha env) (da_token_time env) bearer (Model req) db0 of
             Inl e \<Rightarrow> (Inl (token_refusal e), db0)
           | Inr (who, route) \<Rightarrow>
               let db1 = da_others env 1 db0 in
               (case Load (da_loader env) (Model req) (map cap_name caps) db1 of
                  Inl e \<Rightarrow> (Inl (load_refusal (Some e)), db1)
                | Inr snap \<Rightarrow>
                    if RouteID snap \<noteq> route then (Inl (load_refusal None), db1)
                    else let db2 = da_others env 2 db1 in
                      (case Begin (da_begin_faults env) (start_of env who route snap) db2 of
                         (Inl e, db3) \<Rightarrow> (Inl (DataError 503 ''persistence_unavailable'' []), db3)
                       | (Inr u, db3) \<Rightarrow> (Inr (snap, req), db3)))))"

definition chatCompletions ::
    "'w data_env \<Rightarrow> http_request \<Rightarrow> database \<Rightarrow> 'w \<Rightarrow> data_response \<times> database \<times> 'w" where
  "chatCompletions env r db w =
     (case admit_request env r db of
        (Inl answer, db') \<Rightarrow> (answer, db', w)
      | (Inr (snap, req), db') \<Rightarrow>
          if StreamFlag req then streamChatCompletions env snap req db' w else run_buffered env snap req db' w)"

section \<open>Nothing reaches a provider unasked\<close>

lemma Begin_Inr:
  "Begin f input db = (Inr u, db') \<Longrightarrow> db' = db\<lparr>requests := requests db @
       [\<lparr>rq_id = bg_ID input, rq_agent = Some (bg_AgentTokenID input), rq_route = Some (bg_RouteID input),
         rq_alias = bg_RequestedAlias input, rq_started = bg_StartedAt input, rq_completed = None, rq_outcome = None,
         rq_status = None, rq_input = None, rq_output = None, rq_ttft = None, rq_duration = None\<rparr>]\<rparr>
     \<and> bg_ID input \<noteq> [] \<and> (\<forall>q\<in>set (requests db). rq_id q \<noteq> bg_ID input)"
  unfolding Begin_def by (auto simp: step_elims)

lemma admit_Inr:
  assumes "admit_request env r db = (Inr (snap, req), db')"
  shows "\<exists>caps bearer who db1. read_request r = Inr (req, caps, bearer)
    \<and> AuthenticateAlias (da_token_faults env) (da_sha env) (da_token_time env) bearer (Model req) (da_others env 0 db) = Inr (who, RouteID snap)
    \<and> db1 = da_others env 1 (da_others env 0 db) \<and> Load (da_loader env) (Model req) (map cap_name caps) db1 = Inr snap
    \<and> Begin (da_begin_faults env) (start_of env who (RouteID snap) snap) (da_others env 2 db1) = (Inr (), db')"
  using assms unfolding admit_request_def Let_def
  by (auto split: sum.splits prod.splits if_splits)

lemma read_Inr:
  "read_request r = Inr (req, caps, bearer) \<longleftrightarrow>
     mediaType r ''application/json'' \<and> (\<exists>body v. hr_Body r = Some body \<and> length body \<le> MaxRequestBytes
       \<and> Parse body = Inr (req, caps) \<and> hr_Authorization r = [v] \<and> bearerToken v = Some bearer)"
  unfolding read_request_def by (auto split: option.splits sum.splits list.splits)

text \<open>
  C6: nothing is sent to a provider before the request is known to be allowed and recorded: if the
  handler changes the world of the engine, the body is an acceptable request of the contract, the one
  authorization header carries a bearer that authenticates an agent for the route of the requested
  alias, the snapshot was loaded for that route, and the request was stored as open, of that agent and
  that route, in the state the engine started from.
\<close>

theorem upstream_needs_token:
  assumes "chatCompletions env r db w = (answer, db', w')" "w' \<noteq> w"
  shows "\<exists>body v bearer req caps who snap db0 db1 db3.
      hr_Body r = Some body \<and> Parse body = Inr (req, caps) \<and> hr_Authorization r = [v] \<and> bearerToken v = Some bearer
    \<and> db0 = da_others env 0 db \<and> db1 = da_others env 1 db0
    \<and> AuthenticateAlias (da_token_faults env) (da_sha env) (da_token_time env) bearer (Model req) db0 = Inr (who, RouteID snap)
    \<and> Load (da_loader env) (Model req) (map cap_name caps) db1 = Inr snap
    \<and> db3 = (da_others env 2 db1)\<lparr>requests := requests (da_others env 2 db1) @
         [\<lparr>rq_id = da_id env, rq_agent = Some (ai_ResourceID who), rq_route = Some (RouteID snap), rq_alias = Alias snap,
           rq_started = da_started env, rq_completed = None, rq_outcome = None, rq_status = None, rq_input = None,
           rq_output = None, rq_ttft = None, rq_duration = None\<rparr>]\<rparr>
    \<and> (if StreamFlag req then streamChatCompletions env snap req db3 w else run_buffered env snap req db3 w) = (answer, db', w')"
proof -
  from assms obtain snap req d where adm: "admit_request env r db = (Inr (snap, req), d)"
    and rest: "(if StreamFlag req then streamChatCompletions env snap req d w else run_buffered env snap req d w) = (answer, db', w')"
    by (auto simp: chatCompletions_def split: prod.splits sum.splits)
  from admit_Inr [OF adm] obtain caps bearer who where who: "read_request r = Inr (req, caps, bearer)"
    "AuthenticateAlias (da_token_faults env) (da_sha env) (da_token_time env) bearer (Model req) (da_others env 0 db) = Inr (who, RouteID snap)"
    "Load (da_loader env) (Model req) (map cap_name caps) (da_others env 1 (da_others env 0 db)) = Inr snap"
    "Begin (da_begin_faults env) (start_of env who (RouteID snap) snap) (da_others env 2 (da_others env 1 (da_others env 0 db))) = (Inr (), d)"
    by blast
  from Begin_Inr [OF who(4)] who(1-3) rest show ?thesis
    unfolding read_Inr start_of_def by fastforce
qed

section \<open>Every admitted request is closed\<close>

text \<open>Ids that \<open>newUUID\<close> gives and that no row has, for the \<open>n\<close> attempts from the \<open>k\<close>-th on.\<close>

definition fresh_ids :: "(nat \<Rightarrow> string option) \<Rightarrow> string set \<Rightarrow> nat \<Rightarrow> nat \<Rightarrow> bool" where
  "fresh_ids f used k n \<longleftrightarrow> inj_on f {k..<k + n} \<and> f ` {k..<k + n} \<inter> insert None (Some ` used) = {}"

definition ids_ready :: "op_env \<Rightarrow> nat \<Rightarrow> nat \<Rightarrow> database \<Rightarrow> bool" where
  "ids_ready env k n db \<longleftrightarrow> fresh_ids (op_attempt_id env) (ar_id ` set (attempts db)) k n
     \<and> fresh_ids (op_observation_id env) (ob_id ` set (observations db)) k n
     \<and> fresh_ids (op_cooldown_id env) (co_id ` set (cooldowns db)) k n"

definition recordable :: "database \<Rightarrow> attempt_completion \<Rightarrow> bool" where
  "recordable db a \<longleftrightarrow> ac_DestinationID a \<noteq> [] \<and> validRequestOutcome (ac_Outcome a) \<and> \<not> is_zero (ac_StartedAt a)
     \<and> ac_StartedAt a \<le> ac_CompletedAt a \<and> (\<exists>d\<in>set (destination_rows db). dn_resource d = ac_DestinationID a)"

text \<open>A request of the table, none of whose attempts from the \<open>k\<close>-th on is recorded.\<close>

definition unrecorded :: "string \<Rightarrow> nat \<Rightarrow> database \<Rightarrow> bool" where
  "unrecorded rid k db \<longleftrightarrow> (\<exists>q\<in>set (requests db). rq_id q = rid)
     \<and> (\<forall>r\<in>set (attempts db). ar_request r = rid \<longrightarrow> ar_sequence r \<le> k)"

lemma fresh_ids_Suc:
  assumes "fresh_ids f used k (Suc n)"
  obtains i where "f k = Some i" "i \<notin> used" "\<And>new. new \<subseteq> insert i used \<Longrightarrow> fresh_ids f new (Suc k) n"
proof -
  have k: "{k..<k + Suc n} = insert k {Suc k..<Suc k + n}" by auto
  from assms obtain i where i: "f k = Some i" "i \<notin> used" unfolding fresh_ids_def k by (cases "f k") auto
  moreover have "fresh_ids f new (Suc k) n" if "new \<subseteq> insert i used" for new
  proof -
    have "f ` {Suc k..<Suc k + n} \<inter> insert None (Some ` insert i used) = {}"
      using assms i unfolding fresh_ids_def k inj_on_insert by auto
    moreover have "Some ` new \<subseteq> Some ` insert i used" using that by blast
    moreover have "inj_on f {Suc k..<Suc k + n}" using assms unfolding fresh_ids_def k inj_on_insert by blast
    ultimately show ?thesis unfolding fresh_ids_def by blast
  qed
  ultimately show thesis using that by blast
qed

lemma upsert_ids: "co_id ` set (upsert_cooldown n rows) \<subseteq> insert (co_id n) (co_id ` set rows)"
proof -
  have "co_id (replace_cooldown n c) = co_id c" for c by (simp add: replace_cooldown_def)
  then have "co_id ` set (map (replace_cooldown n) rows) = co_id ` set rows" by (simp add: image_image)
  then show ?thesis by (auto simp: upsert_cooldown_def)
qed

lemma rate_limit_runs:
  assumes "op_faults env = no_faults" "op_observation_id env k = Some oid" "oid \<notin> ob_id ` set (observations db)"
    and "op_cooldown_id env k = Some cid" "cid \<notin> co_id ` set (cooldowns db)"
  shows "\<exists>d. recordRateLimitTx env k aid a db = (Inr (), d) \<and> attempts d = attempts db \<and> requests d = requests db
    \<and> destination_rows d = destination_rows db \<and> ob_id ` set (observations d) \<subseteq> insert oid (ob_id ` set (observations db))
    \<and> co_id ` set (cooldowns d) \<subseteq> insert cid (co_id ` set (cooldowns db))"
proof -
  obtain reset source where rs: "retryReset (op_http_time env) (ac_RetryAfter a) (ac_CompletedAt a) = (reset, source)"
    by (metis surj_pair)
  have "\<not> (\<exists>b\<in>set (observations db). ob_id b = oid)" "\<not> (\<exists>c\<in>set (cooldowns db). co_id c = cid)" using assms(3,5) by auto
  with assms rs show ?thesis
    using upsert_ids [of "\<lparr>co_id = cid, co_kind = ''destination'', co_resource = ac_DestinationID a, co_reason = ''rate_limited'',
           co_starts = ac_CompletedAt a, co_ends = reset, co_source = oid\<rparr>" "cooldowns db"]
    unfolding recordRateLimitTx_def Let_def
    by (simp add: step_elims need_Inr no_faults_def)
qed

lemma record_attempt_runs:
  assumes "op_faults env = no_faults" "ids_ready env k (Suc n) db" "recordable db a" "unrecorded rid k db" "ac_Sequence a = int k + 1"
  shows "\<exists>d. record_attempt env rid k a db = (Inr (), d) \<and> ids_ready env (Suc k) n d \<and> unrecorded rid (Suc k) d
    \<and> requests d = requests db \<and> destination_rows d = destination_rows db"
proof -
  from assms(2) obtain aid oid cid where ids: "op_attempt_id env k = Some aid" "op_observation_id env k = Some oid"
      "op_cooldown_id env k = Some cid" and new: "aid \<notin> ar_id ` set (attempts db)" "oid \<notin> ob_id ` set (observations db)"
      "cid \<notin> co_id ` set (cooldowns db)"
    and later: "\<And>u. u \<subseteq> insert aid (ar_id ` set (attempts db)) \<Longrightarrow> fresh_ids (op_attempt_id env) u (Suc k) n"
      "\<And>u. u \<subseteq> insert oid (ob_id ` set (observations db)) \<Longrightarrow> fresh_ids (op_observation_id env) u (Suc k) n"
      "\<And>u. u \<subseteq> insert cid (co_id ` set (cooldowns db)) \<Longrightarrow> fresh_ids (op_cooldown_id env) u (Suc k) n"
    unfolding ids_ready_def by (metis fresh_ids_Suc)
  let ?db = "db\<lparr>attempts := attempts db @ [attempt_of aid rid a]\<rparr>"
  let ?rest = "if ac_ProviderStatus a = 429 then recordRateLimitTx env k aid a else returns ()"
  have "\<exists>d. ?rest ?db = (Inr (), d) \<and> attempts d = attempts ?db \<and> requests d = requests db
    \<and> destination_rows d = destination_rows db \<and> ob_id ` set (observations d) \<subseteq> insert oid (ob_id ` set (observations db))
    \<and> co_id ` set (cooldowns d) \<subseteq> insert cid (co_id ` set (cooldowns db))"
    using rate_limit_runs [OF assms(1) ids(2) _ ids(3), of ?db aid a] new by auto
  then obtain d where d: "?rest ?db = (Inr (), d)" "attempts d = attempts ?db" "requests d = requests db"
    "destination_rows d = destination_rows db" "ob_id ` set (observations d) \<subseteq> insert oid (ob_id ` set (observations db))"
    "co_id ` set (cooldowns d) \<subseteq> insert cid (co_id ` set (cooldowns db))" by blast
  have "\<not> (\<exists>r\<in>set (attempts db). ar_id r = aid)" using new(1) by auto
  moreover have "\<not> (\<exists>r\<in>set (attempts db). ar_request r = rid \<and> ar_sequence r = nat (ac_Sequence a))"
    using assms(4,5) unfolding unrecorded_def by force
  moreover have "\<exists>q\<in>set (requests db). rq_id q = rid" using assms(4) by (simp add: unrecorded_def)
  ultimately have "record_attempt env rid k a db = (Inr (), d)"
    using assms(1,3,5) ids(1) d(1) unfolding record_attempt_def recordable_def
    by (simp add: step_elims need_Inr no_faults_def not_less)
  moreover have "ids_ready env (Suc k) n d"
    unfolding ids_ready_def d(2) by (intro conjI later d(5,6)) (auto simp: attempt_of_def)
  moreover have "unrecorded rid (Suc k) d"
    using assms(4,5) unfolding unrecorded_def d(2,3) by (auto simp: attempt_of_def nat_add_distrib le_SucI)
  ultimately show ?thesis using d(3,4) by blast
qed

lemma record_attempts_runs:
  assumes "op_faults env = no_faults" "ids_ready env k (length as) db" "\<forall>a\<in>set as. recordable db a" "unrecorded rid k db"
    and "numbered k as"
  shows "\<exists>d. record_attempts env rid k as db = (Inr (), d)"
  using assms(2-5)
proof (induction "as" arbitrary: k db)
  case (Cons a as)
  from Cons.prems(4) have seq: "ac_Sequence a = int k + 1" "numbered (Suc k) as"
    by (simp_all add: numbered_def upt_conv_Cons del: upt_Suc)
  from record_attempt_runs [OF assms(1) _ _ Cons.prems(3) seq(1)] Cons.prems(1,2)
  obtain d where d: "record_attempt env rid k a db = (Inr (), d)" "ids_ready env (Suc k) (length as) d" "unrecorded rid (Suc k) d"
    "destination_rows d = destination_rows db" by fastforce
  have "\<forall>a\<in>set as. recordable d a" using Cons.prems(2) by (simp add: recordable_def d(4))
  from Cons.IH [OF d(2) this d(3) seq(2)] d(1) show ?case by (auto simp: step_elims)
qed simp

text \<open>
  What the completion of the attempts \<open>as\<close> needs of the database: the request is still open as it was
  begun, without attempts, the destinations that were tried still exist, and the ids are new. The clock
  must not have gone back.
\<close>

definition ready_to_close :: "'w data_env \<Rightarrow> attempt list \<Rightarrow> database \<Rightarrow> bool" where
  "ready_to_close env as db \<longleftrightarrow>
     op_faults (da_op env) = no_faults \<and> ids_ready (da_op env) 0 (length as) db
     \<and> \<not> is_zero (da_completed env) \<and> da_started env \<le> da_completed env
     \<and> (\<exists>q. find (\<lambda>q. rq_id q = da_id env \<and> rq_completed q = None) (requests db) = Some q \<and> rq_started q = da_started env)
     \<and> list_all (\<lambda>r. ar_request r \<noteq> da_id env) (attempts db)
     \<and> list_all (\<lambda>a. DestinationID a \<noteq> [] \<and> list_ex (\<lambda>d. dn_resource d = DestinationID a) (destination_rows db)
          \<and> \<not> is_zero (StartedAt a) \<and> StartedAt a \<le> CompletedAt a) as"

lemma completeOperational_runs:
  assumes "ready_to_close env as db" "da_id env \<noteq> []" "100 \<le> status" "status \<le> 599" "validRequestOutcome oc"
    and "\<not> negative inp" "\<not> negative outp" "\<not> negative (map_option milliseconds ttft)"
    and "map Sequence as = [1..<Suc (length as)]" "\<forall>a\<in>set as. validRequestOutcome (Outcome a)"
  shows "\<exists>q\<in>set (requests (completeOperational env status as oc inp outp ttft db)). rq_id q = da_id env
      \<and> rq_completed q = Some (da_completed env) \<and> rq_outcome q = Some oc \<and> rq_status q = Some status"
    and "map ar_destination (filter (\<lambda>r. ar_request r = da_id env) (attempts (completeOperational env status as oc inp outp ttft db)))
      = map (Some \<circ> DestinationID) as"
proof -
  let ?c = "\<lparr>rc_Outcome = oc, rc_HTTPStatus = status, rc_InputTokens = inp, rc_OutputTokens = outp, rc_TTFT = ttft,
        rc_CompletedAt = da_completed env, rc_Attempts = map completion_of as\<rparr>"
  have none: "op_faults (da_op env) = no_faults" using assms(1) by (simp add: ready_to_close_def)
  from assms(1) obtain q where q: "find (\<lambda>q. rq_id q = da_id env \<and> rq_completed q = None) (requests db) = Some q"
    "rq_started q = da_started env" "da_started env \<le> da_completed env" unfolding ready_to_close_def by blast
  have "map ac_Sequence (map completion_of as) = map int (map Sequence as)" by (simp add: completion_of_def)
  also have "\<dots> = map (\<lambda>i. int i + 1) [0..<length as]" unfolding assms(9) by (rule nth_equalityI) (auto simp del: upt_Suc)
  finally have "numbered 0 (map completion_of as)" by (simp add: numbered_def)
  moreover have "ids_ready (da_op env) 0 (length (map completion_of as)) db" "unrecorded (da_id env) 0 db"
    "\<forall>a\<in>set (map completion_of as). recordable db a"
    using assms(1,10) find_some [OF q(1)] unfolding ready_to_close_def unrecorded_def recordable_def
    by (auto simp: list_all_iff list_ex_iff completion_of_def)
  ultimately obtain d where d: "record_attempts (da_op env) (da_id env) 0 (map completion_of as) db = (Inr (), d)"
    using record_attempts_runs [OF none] by blast
  from record_attempts_Inr [OF d] obtain ids where kept: "requests d = requests db" "length ids = length as"
    "attempts d = attempts db @ map2 (\<lambda>i a. attempt_of i (da_id env) a) ids (map completion_of as)" by auto
  let ?d = "d\<lparr>requests := map (close_request (da_id env) ?c (rq_started q)) (requests d)\<rparr>"
  have "finish_request no_faults (da_id env) ?c d = (Inr (), ?d)"
    unfolding finish_request_def using q assms(6-8) by (simp add: step_elims kept(1) no_faults_def)
  with d assms(1-5) have res: "completeOperational env status as oc inp outp ttft db = ?d"
    unfolding completeOperational_def Complete_def ready_to_close_def
    by (simp add: none transact_def bind_step_def no_faults_def)
  have "close_request (da_id env) ?c (rq_started q) q \<in> set (requests ?d)"
    using find_some [OF q(1)] kept(1) by simp
  then show "\<exists>q\<in>set (requests (completeOperational env status as oc inp outp ttft db)). rq_id q = da_id env
      \<and> rq_completed q = Some (da_completed env) \<and> rq_outcome q = Some oc \<and> rq_status q = Some status"
    unfolding res by (rule rev_bexI) (use find_some [OF q(1)] in \<open>simp add: close_request_def\<close>)
  have "filter (\<lambda>r. ar_request r = da_id env) (attempts db) = []"
    using assms(1) by (auto simp: ready_to_close_def list_all_iff filter_empty_conv)
  moreover have "filter (\<lambda>r. ar_request r = rid) (map2 (\<lambda>i a. attempt_of i rid a) is bs) = map2 (\<lambda>i a. attempt_of i rid a) is bs" for rid "is" bs
    by (induction "is" bs rule: list_induct2') (simp_all add: attempt_of_def)
  moreover have "map ar_destination (map2 (\<lambda>i a. attempt_of i rid a) is (map completion_of bs)) = map (Some \<circ> DestinationID) bs"
    if "length is = length bs" for rid "is" bs
    using that by (induction "is" bs rule: list_induct2) (simp_all add: attempt_of_def completion_of_def)
  ultimately show "map ar_destination (filter (\<lambda>r. ar_request r = da_id env) (attempts (completeOperational env status as oc inp outp ttft db)))
      = map (Some \<circ> DestinationID) as"
    using kept(2) unfolding res by (simp add: kept(3))
qed

lemma runErrorStatus_range: "100 \<le> runErrorStatus x s" "runErrorStatus x s \<le> 599"
  by (simp_all add: runErrorStatus_def)

lemma outcomeForRunError_valid: "validRequestOutcome (outcomeForRunError e)"
  by (simp add: outcomeForRunError_def validRequestOutcome_def split: option.splits)


section \<open>A request to the sample installation\<close>

definition sample_plane :: database where
  "sample_plane = sample_graph\<lparr>resources := resources sample_graph @ [sample_resource ''r1'' ''AgentToken'' ''agent'' ''{}''],
     agent_tokens := [\<lparr>at_resource = ''r1'', verifier = Some (bearer_of CHR ''a''), token_prefix = None, issued_at = None,
        expires_at = Some (Some (1000 * second)), revoked_at = None, allowed_routes = Some [''r'']\<rparr>]\<rparr>"

definition sample_body :: bytes where
  "sample_body = ''{\"model\":\"gpt\",\"messages\":[{\"role\":\"user\",\"content\":\"hi\"}]}''"

definition sample_http :: http_request where
  "sample_http = \<lparr>hr_ContentType = ''application/json'', hr_Body = Some sample_body, hr_Authorization = [''Bearer '' @ bearer_of CHR ''a'']\<rparr>"

definition sample_plane_env :: "time data_env" where
  "sample_plane_env = \<lparr>da_id = ''req_1'', da_sha = agent_sha, da_token_faults = no_faults, da_token_time = 20 * second,
     da_loader = sample_loader (20 * second), da_started = 21 * second, da_begin_faults = no_faults, da_engine = example_env,
     da_streams = True, da_stream = example_stream_env, da_completed = 22 * second, da_op = sample_op, da_others = (\<lambda>k db. db)\<rparr>"

lemma sample_plane_env_simps:
  "da_id sample_plane_env = ''req_1''" "da_sha sample_plane_env = agent_sha" "da_token_faults sample_plane_env = no_faults"
  "da_loader sample_plane_env = sample_loader (20 * second)" "da_started sample_plane_env = 21 * second"
  "da_begin_faults sample_plane_env = no_faults" "da_engine sample_plane_env = example_env" "da_completed sample_plane_env = 22 * second"
  "da_op sample_plane_env = sample_op" "da_others sample_plane_env k db = db" "da_token_time sample_plane_env = 20 * second"
  by (simp_all add: sample_plane_env_def)

definition sample_read :: "request option" where
  "sample_read = (case parse_value (Suc (length (lex sample_body))) (lex sample_body) of
     None \<Rightarrow> None
   | Some (v, rest) \<Rightarrow> if rest = [] then dec_request zero_request v else None)"

lemma sample_valid: "is_ok (ValidateJSONDocument sample_body)"
  by code_simp

lemma sample_read:
  "case sample_read of None \<Rightarrow> False
   | Some v \<Rightarrow> Model v = ''gpt'' \<and> \<not> StreamFlag v
       \<and> (case validateRequest v of Inl e \<Rightarrow> False | Inr caps \<Rightarrow> map cap_name caps = [''text''])"
  by code_simp

lemma sample_parsed: "\<exists>req caps. Parse sample_body = Inr (req, caps) \<and> Model req = ''gpt'' \<and> \<not> StreamFlag req \<and> map cap_name caps = [''text'']"
proof -
  have "sample_body \<noteq> []" "length sample_body \<le> MaxRequestBytes" by (simp_all add: sample_body_def MaxRequestBytes_def)
  with sample_valid sample_read show ?thesis
    unfolding Parse_def sample_read_def
    by (auto simp: is_ok_iff check_def and_then_def split: option.splits prod.splits sum.splits if_splits)
qed

lemma base64_text: "c \<in> set (base64_encode s) \<Longrightarrow> b64_value c \<noteq> None"
  using encode_bound [of s] by (auto simp: base64_encode_def)

lemma sample_bearer: "bearerToken (''Bearer '' @ bearer_of CHR ''a'') = Some (bearer_of CHR ''a'')"
proof -
  let ?ws = "{CHR '' '', CHR '','', char_of (9 :: nat), char_of (10 :: nat), char_of (13 :: nat)}"
  have "list_all (\<lambda>c. b64_value c = None) [CHR '' '', CHR '','', char_of (9 :: nat), char_of (10 :: nat), char_of (13 :: nat)]"
    by code_simp
  then have "\<not> list_ex (\<lambda>c. c \<in> ?ws) (base64_encode (replicate 32 CHR ''a''))"
    using base64_text by (fastforce simp: list_ex_iff)
  moreover have "\<not> list_ex (\<lambda>c. c \<in> ?ws) ''mc_at_v1_''" by code_simp
  ultimately have "\<not> list_ex (\<lambda>c. c \<in> ?ws) (bearer_of CHR ''a'')" by (simp only: bearer_of_def agentTokenPrefix_def list_ex_append) simp
  moreover have "\<not> length (''Bearer '' @ bearer_of CHR ''a'') < 8" by (simp add: bearer_of_def agentTokenPrefix_def)
  moreover have "take 7 (''Bearer '' @ bearer_of CHR ''a'') = ''Bearer ''" "drop 7 (''Bearer '' @ bearer_of CHR ''a'') = bearer_of CHR ''a''"
    by simp_all
  ultimately show ?thesis unfolding bearerToken_def equal_fold_def by (simp only: if_False simp_thms)
qed

lemma sample_media: "mediaType sample_http ''application/json''"
proof -
  have "list_all (\<lambda>c. byte c \<in> {33..126}) ''application/json''" by code_simp
  then show ?thesis by (simp add: mediaType_def sample_http_def equal_fold_def trim_space_graphic)
qed

lemma sample_authenticated:
  assumes "now < 1000 * second"
  shows "AuthenticateAlias no_faults agent_sha now (bearer_of CHR ''a'') ''gpt'' sample_plane
    = Inr (\<lparr>ai_ResourceID = ''r1'', ai_Name = ''agent''\<rparr>, ''r'')"
proof -
  have "authenticateBearer no_faults agent_sha now (bearer_of CHR ''a'') sample_plane
      = Inr (\<lparr>ai_ResourceID = ''r1'', ai_Name = ''agent''\<rparr>, [''r''])"
    using assms parse_bearer [of "replicate 32 CHR ''a''" agent_sha, folded bearer_of_def]
    by (simp add: bearer_accepted_iff bearer_of bearer_row_def unexpired_def no_faults_def sample_plane_def sample_graph_def
        sample_resource_def)
  moreover have "routes sample_plane = routes sample_graph" by (simp add: sample_plane_def)
  ultimately show ?thesis
    by (simp add: AuthenticateAlias_def and_then_def sample_tables routeAllowed_def no_faults_def)
qed

definition sample_destination_loaded :: destination where
  "sample_destination_loaded = \<lparr>ID = ''d'', dest_Name = ''fast'', ModelID = ''m'', ProviderModelID = ''big'', ConnectionID = ''c'',
     BaseURL = ''https://api.acme'', Adapter = ''openai'', AllowPrivateNetwork = False, CredentialID = ''k'', SecretID = ''x'',
     SecretName = ''key'', EgressID = ''e'', EgressType = ''direct'', Weight = 1, Capabilities = [''text''], ExclusionReasons = []\<rparr>"

definition sample_snapshot_loaded :: snapshot where
  "sample_snapshot_loaded = \<lparr>ConfigRevision = 4, RouteID = ''r'', Alias = ''gpt'', StrategyID = ''s'', StrategyVersionID = ''v'',
     StrategyVersion = 1, MaxAttempts = 2, AttemptTimeout = 1000 * millisecond, TotalTimeout = 5000 * millisecond,
     Destinations = [sample_destination_loaded]\<rparr>"

lemma sample_plane_joined: "join_destination sample_plane ''fast'' = Some sample_join"
  by (simp add: join_destination_def sample_join_def sample_plane_def sample_graph_def named_def row_of_def sample_resource_def)

lemma sample_plane_destination: "loadDestination (sample_loader now) [''text''] sample_plane ''fast'' = Inr sample_destination_loaded"
proof -
  have "exclusion_reasons sample_join [''text''] [''text''] (cooling_down sample_plane now sample_join) = []"
    by (simp add: exclusion_reasons_def cooling_down_def sample_join_def sample_tables sample_plane_def) (simp add: sample_graph_def)
  then show ?thesis
    by (simp add: loadDestination_def sample_loader_simps sample_plane_joined sample_join_def sample_resource_def sample_adapter
      sample_tables knownCapability_def sample_destination_loaded_def) (simp add: sample_graph_def)
qed

lemma sample_definition_read: "decode_definition sample_definition = Some
  \<lparr>sdf_Destinations = Slice [''fast''] [], sdf_MaxAttempts = 2, sdf_AttemptTimeoutMS = 1000, sdf_TotalTimeoutMS = 5000\<rparr>"
  by code_simp

lemma sample_plane_loaded: "Load (sample_loader now) ''gpt'' [''text''] sample_plane = Inr sample_snapshot_loaded"
proof -
  have "installation sample_plane = installation sample_graph" "routes sample_plane = routes sample_graph"
    "strategy_versions sample_plane = strategy_versions sample_graph" by (simp_all add: sample_plane_def)
  then show ?thesis
    by (simp add: Load_def sample_loader_simps active_version_def sample_tables sample_definition_read usable_definition_def
        sample_plane_destination sample_snapshot_loaded_def)
qed

lemma sample_request_admitted:
  "\<exists>req d. admit_request sample_plane_env sample_http sample_plane = (Inr (sample_snapshot_loaded, req), d) \<and> \<not> StreamFlag req
     \<and> d = sample_plane\<lparr>requests := requests sample_plane @
         [\<lparr>rq_id = ''req_1'', rq_agent = Some ''r1'', rq_route = Some ''r'', rq_alias = ''gpt'', rq_started = 21 * second, rq_completed = None,
           rq_outcome = None, rq_status = None, rq_input = None, rq_output = None, rq_ttft = None, rq_duration = None\<rparr>]\<rparr>"
proof -
  obtain req caps where p: "Parse sample_body = Inr (req, caps)" "Model req = ''gpt''" "\<not> StreamFlag req" "map cap_name caps = [''text'']"
    using sample_parsed by (elim exE conjE) (rule that)
  have "length sample_body \<le> MaxRequestBytes" by (simp add: sample_body_def MaxRequestBytes_def)
  then have "read_request sample_http = Inr (req, caps, bearer_of CHR ''a'')"
    using sample_media sample_bearer p(1) unfolding read_Inr by (auto simp: sample_http_def)
  moreover have "route_resource r = ''r''" if "r \<in> set (routes sample_plane)" for r
    using that by (simp add: sample_plane_def sample_tables)
  moreover have "RouteID sample_snapshot_loaded = ''r''" by (simp add: sample_snapshot_loaded_def)
  moreover have "\<exists>d. Begin no_faults (start_of sample_plane_env \<lparr>ai_ResourceID = ''r1'', ai_Name = ''agent''\<rparr> ''r'' sample_snapshot_loaded) sample_plane
      = (Inr (), d)"
    by (simp add: Begin_def step_elims start_of_def sample_plane_env_simps sample_snapshot_loaded_def is_zero_def zero_time_def no_faults_def
        sample_plane_def sample_tables) (rule exI [of _ False], simp)
  then obtain d where d: "Begin no_faults (start_of sample_plane_env \<lparr>ai_ResourceID = ''r1'', ai_Name = ''agent''\<rparr> ''r'' sample_snapshot_loaded) sample_plane
      = (Inr (), d)" by blast
  ultimately have "admit_request sample_plane_env sample_http sample_plane = (Inr (sample_snapshot_loaded, req), d)"
    by (simp add: admit_request_def sample_plane_env_simps p sample_authenticated sample_plane_loaded Let_def)
  with Begin_Inr [OF d] p(3) show ?thesis
    by (auto simp: start_of_def sample_plane_env_simps sample_snapshot_loaded_def)
qed

lemma sample_engine_run:
  assumes "\<not> StreamFlag req"
  shows "\<exists>a. Run example_env sample_snapshot_loaded req 0 = ((\<lparr>Upstream = zero_upstream\<lparr>StatusCode := 200\<rparr>, Attempts = [a]\<rparr>, None), 4)
    \<and> DestinationID a = ''d'' \<and> StartedAt a = 2 \<and> CompletedAt a = 3"
proof -
  have "eligible sample_snapshot_loaded = [sample_destination_loaded]"
    by (simp add: eligible_def Eligible_def sample_snapshot_loaded_def sample_destination_loaded_def)
  with assms show ?thesis
    by (simp add: Run_def attempt_limit_def run_loop.simps(2) example_env_def context_error_def Let_def example_answer_def
        sample_destination_loaded_def ok_status_def classifyAttempt_def new_attempt_def empty_result_def sample_snapshot_loaded_def)
qed


theorem upstream_needs_token_witness:
  "\<exists>answer db'. chatCompletions sample_plane_env sample_http sample_plane 0 = (answer, db', 4)
     \<and> (\<exists>v bearer. hr_Authorization sample_http = [v] \<and> bearerToken v = Some bearer)"
proof -
  obtain req d where adm: "admit_request sample_plane_env sample_http sample_plane = (Inr (sample_snapshot_loaded, req), d)" "\<not> StreamFlag req"
    using sample_request_admitted by blast
  from sample_engine_run [OF adm(2)] have "snd (Run (da_engine sample_plane_env) sample_snapshot_loaded req 0) = 4"
    by (auto simp: sample_plane_env_simps)
  then have "snd (snd (chatCompletions sample_plane_env sample_http sample_plane 0)) = 4"
    using adm by (auto simp: chatCompletions_def run_buffered_def Let_def split: prod.splits)
  then obtain answer db' where run: "chatCompletions sample_plane_env sample_http sample_plane 0 = (answer, db', 4)"
    by (metis prod.collapse)
  from upstream_needs_token [OF run] run show ?thesis by auto
qed

end
