(* ===== verification/Address.thy ===== *)
theory Address
  imports GoError "HOL-Library.Word"
begin

unbundle bit_operations_syntax

text \<open>
  The dialer of \<open>internal/openaiadapter/direct_transport.go\<close>: which addresses it refuses, and how it
  goes through the addresses of a host. Addresses are \<open>netip.Addr\<close>, 32 or 128 bits wide, with the
  methods of \<open>net/netip\<close> that the code calls.
\<close>

section \<open>Addresses\<close>

datatype netip = V4 "32 word" | V6 "128 word" string

definition v4_octet :: "32 word \<Rightarrow> nat \<Rightarrow> 8 word" where
  "v4_octet a i = ucast (drop_bit (24 - 8 * i) a)"

definition v6_octet :: "128 word \<Rightarrow> 8 word" where
  "v6_octet a = ucast (drop_bit 120 a)"

definition v6_group :: "128 word \<Rightarrow> 16 word" where
  "v6_group a = ucast (drop_bit 112 a)"

definition unmap :: "netip \<Rightarrow> netip" where
  "unmap x = (case x of V4 a \<Rightarrow> V4 a | V6 a z \<Rightarrow> if drop_bit 32 a = 0xffff then V4 (ucast a) else V6 a z)"

fun is_private :: "netip \<Rightarrow> bool" where
  "is_private (V4 a) \<longleftrightarrow> v4_octet a 0 = 10 \<or> (v4_octet a 0 = 172 \<and> v4_octet a 1 AND 0xf0 = 16)
     \<or> (v4_octet a 0 = 192 \<and> v4_octet a 1 = 168)"
| "is_private (V6 a z) \<longleftrightarrow> v6_octet a AND 0xfe = 0xfc"

fun is_loopback :: "netip \<Rightarrow> bool" where
  "is_loopback (V4 a) \<longleftrightarrow> v4_octet a 0 = 127"
| "is_loopback (V6 a z) \<longleftrightarrow> a = 1"

fun is_link_local_unicast :: "netip \<Rightarrow> bool" where
  "is_link_local_unicast (V4 a) \<longleftrightarrow> v4_octet a 0 = 169 \<and> v4_octet a 1 = 254"
| "is_link_local_unicast (V6 a z) \<longleftrightarrow> v6_group a AND 0xffc0 = 0xfe80"

fun is_link_local_multicast :: "netip \<Rightarrow> bool" where
  "is_link_local_multicast (V4 a) \<longleftrightarrow> v4_octet a 0 = 224 \<and> v4_octet a 1 = 0 \<and> v4_octet a 2 = 0"
| "is_link_local_multicast (V6 a z) \<longleftrightarrow> v6_group a AND 0xff0f = 0xff02"

fun is_multicast :: "netip \<Rightarrow> bool" where
  "is_multicast (V4 a) \<longleftrightarrow> v4_octet a 0 AND 0xf0 = 0xe0"
| "is_multicast (V6 a z) \<longleftrightarrow> v6_octet a = 0xff"

definition is_unspecified :: "netip \<Rightarrow> bool" where
  "is_unspecified x \<longleftrightarrow> x = V4 0 \<or> x = V6 0 []"

definition sharedAddressSpace :: "netip \<Rightarrow> bool" where
  "sharedAddressSpace x = (case x of V4 a \<Rightarrow> drop_bit 22 (a XOR 0x64400000) = 0 | V6 a z \<Rightarrow> False)"

definition forbiddenAddress :: "netip \<Rightarrow> bool" where
  "forbiddenAddress address =
     (let x = unmap address in
      is_private x \<or> is_loopback x \<or> is_link_local_unicast x \<or> is_link_local_multicast x \<or> is_unspecified x
      \<or> is_multicast x \<or> sharedAddressSpace x)"

section \<open>Blocks\<close>

text \<open>An address block: the first \<open>n\<close> bits of its base.\<close>

definition in_block :: "'a::len word \<Rightarrow> 'a word \<times> nat \<Rightarrow> bool" where
  "in_block a b = (case b of (base, n) \<Rightarrow> drop_bit (LENGTH('a) - n) a = drop_bit (LENGTH('a) - n) base)"

definition v4_blocks :: "(32 word \<times> nat) list" where
  "v4_blocks = [(0x00000000, 32), (0x0a000000, 8), (0x64400000, 10), (0x7f000000, 8), (0xa9fe0000, 16), (0xac100000, 12),
     (0xc0a80000, 16), (0xe0000000, 4)]"

definition v6_blocks :: "(128 word \<times> nat) list" where
  "v6_blocks = [(1, 128), (0xfc000000000000000000000000000000, 7), (0xfe800000000000000000000000000000, 10),
     (0xff000000000000000000000000000000, 8)]"

lemma unat_drop: "unat (drop_bit n a) = unat a div 2 ^ n" for a :: "'a::len word"
  unfolding unat_drop_bit_eq by (rule drop_bit_eq_div)

lemma drop_bit_eq_unat: "drop_bit n a = b \<longleftrightarrow> unat a div 2 ^ n = unat b" for a b :: "'a::len word"
  by (metis unat_drop word_unat_eq_iff)

lemma unat_narrow: "unat (ucast a :: 'b::len word) = unat a mod 2 ^ LENGTH('b)" for a :: "'a::len word"
  by (simp add: unsigned_ucast_eq take_bit_eq_mod unsigned_take_bit_eq)

lemma octet_value: "unat (v4_octet a i) = unat a div 2 ^ (24 - 8 * i) mod 256"
  by (simp add: v4_octet_def unat_narrow unat_drop)

lemma v6_values: "unat (v6_octet a) = unat a div 2 ^ 120" "unat (v6_group a) = unat a div 2 ^ 112"
proof -
  have "unat a < 2 ^ 128" using unsigned_less [of a] by simp
  then have "unat a div 2 ^ 120 < 256" "unat a div 2 ^ 112 < 65536" by (simp_all add: less_mult_imp_div_less)
  then show "unat (v6_octet a) = unat a div 2 ^ 120" "unat (v6_group a) = unat a div 2 ^ 112"
    by (simp_all add: v6_octet_def v6_group_def unat_narrow unat_drop)
qed

lemma masked_eq: "x AND NOT (mask k) = c AND NOT (mask k) \<longleftrightarrow> drop_bit k x = drop_bit k c" for x c :: "'a::len word"
proof
  assume eq: "x AND NOT (mask k) = c AND NOT (mask k)"
  show "drop_bit k x = drop_bit k c"
  proof (rule bit_word_eqI)
    fix n
    have "bit (x AND NOT (mask k)) (k + n) = bit (c AND NOT (mask k)) (k + n)" using eq by simp
    then show "bit (drop_bit k x) n = bit (drop_bit k c) n" by (auto simp: bit_simps dest: bit_imp_le_length)
  qed
next
  assume eq: "drop_bit k x = drop_bit k c"
  show "x AND NOT (mask k) = c AND NOT (mask k)"
  proof (rule bit_word_eqI)
    fix n
    have "bit (drop_bit k x) (n - k) = bit (drop_bit k c) (n - k)" using eq by simp
    then show "bit (x AND NOT (mask k)) n = bit (c AND NOT (mask k)) n" by (auto simp: bit_simps)
  qed
qed

lemma masks:
  "(0xf0 :: 8 word) = NOT (mask 4)" "(0xfe :: 8 word) = NOT (mask 1)" "(0xffc0 :: 16 word) = NOT (mask 6)"
  by (simp_all add: mask_eq_exp_minus_1)

lemma masked_octet:
  "x AND 0xf0 = (16 :: 8 word) \<longleftrightarrow> unat x div 16 = 1" "x AND 0xf0 = (0xe0 :: 8 word) \<longleftrightarrow> unat x div 16 = 14"
  "x AND 0xfe = (0xfc :: 8 word) \<longleftrightarrow> unat x div 2 = 126"
proof -
  have *: "(16 :: 8 word) = 16 AND NOT (mask 4)" "(0xe0 :: 8 word) = 0xe0 AND NOT (mask 4)" "(0xfc :: 8 word) = 0xfc AND NOT (mask 1)"
    by (simp_all add: mask_eq_exp_minus_1)
  show "x AND 0xf0 = (16 :: 8 word) \<longleftrightarrow> unat x div 16 = 1"
    unfolding masks by (subst *(1)) (simp only: masked_eq drop_bit_eq_unat unat_drop, simp)
  show "x AND 0xf0 = (0xe0 :: 8 word) \<longleftrightarrow> unat x div 16 = 14"
    unfolding masks by (subst *(2)) (simp only: masked_eq drop_bit_eq_unat unat_drop, simp)
  show "x AND 0xfe = (0xfc :: 8 word) \<longleftrightarrow> unat x div 2 = 126"
    unfolding masks by (subst *(3)) (simp only: masked_eq drop_bit_eq_unat unat_drop, simp)
qed

lemma masked_group: "x AND 0xffc0 = (0xfe80 :: 16 word) \<longleftrightarrow> unat x div 64 = 1018"
proof -
  have *: "(0xfe80 :: 16 word) = 0xfe80 AND NOT (mask 6)" by (simp add: mask_eq_exp_minus_1)
  show ?thesis unfolding masks by (subst *) (simp only: masked_eq drop_bit_eq_unat unat_drop, simp)
qed

lemma octets:
  "unat (v4_octet a 0) = unat a div 65536 div 256" "unat (v4_octet a (Suc 0)) = unat a div 65536 mod 256"
proof -
  have "unat a < 2 ^ 32" using unsigned_less [of a] by simp
  then have "unat a div 16777216 < 256" by (simp add: less_mult_imp_div_less)
  then show "unat (v4_octet a 0) = unat a div 65536 div 256" "unat (v4_octet a (Suc 0)) = unat a div 65536 mod 256"
    using octet_value [of a 0] octet_value [of a 1] by (simp_all add: div_mult2_eq [symmetric])
qed

lemma in_block_v4:
  "in_block a (0x00000000 :: 32 word, 32) \<longleftrightarrow> a = 0" "in_block a (0x0a000000 :: 32 word, 8) \<longleftrightarrow> unat a div 65536 div 256 = 10"
  "in_block a (0x64400000 :: 32 word, 10) \<longleftrightarrow> drop_bit 22 a = drop_bit 22 0x64400000"
  "in_block a (0x7f000000 :: 32 word, 8) \<longleftrightarrow> unat a div 65536 div 256 = 127"
  "in_block a (0xa9fe0000 :: 32 word, 16) \<longleftrightarrow> unat a div 65536 = 43518"
  "in_block a (0xac100000 :: 32 word, 12) \<longleftrightarrow> unat a div 65536 div 16 = 2753"
  "in_block a (0xc0a80000 :: 32 word, 16) \<longleftrightarrow> unat a div 65536 = 49320"
  "in_block a (0xe0000000 :: 32 word, 4) \<longleftrightarrow> unat a div 65536 div 4096 = 14"
  by (simp_all add: in_block_def drop_bit_eq_unat unat_drop div_mult2_eq [symmetric] unat_eq_0)

lemma v4_tests:
  "is_private (V4 a) \<longleftrightarrow> in_block a (0x0a000000, 8) \<or> in_block a (0xac100000, 12) \<or> in_block a (0xc0a80000, 16)"
  "is_loopback (V4 a) \<longleftrightarrow> in_block a (0x7f000000, 8)" "is_link_local_unicast (V4 a) \<longleftrightarrow> in_block a (0xa9fe0000, 16)"
  "is_multicast (V4 a) \<longleftrightarrow> in_block a (0xe0000000, 4)" "is_unspecified (V4 a) \<longleftrightarrow> in_block a (0, 32)"
  "sharedAddressSpace (V4 a) \<longleftrightarrow> in_block a (0x64400000, 10)" "is_link_local_multicast (V4 a) \<Longrightarrow> is_multicast (V4 a)"
proof -
  define m where "m = unat a div 65536"
  have o: "unat (v4_octet a 0) = m div 256" "unat (v4_octet a (Suc 0)) = m mod 256" by (simp_all add: octets m_def)
  have lan: "m div 256 = 172 \<and> m mod 256 div 16 = 1 \<longleftrightarrow> m div 16 = 2753"
  proof -
    have "m div 256 = m div 16 div 16" by (simp add: div_mult2_eq [symmetric])
    moreover have "m mod 256 div 16 = m div 16 mod 16" using mod_mult2_eq [of m 16 16] by simp
    moreover have "k div 16 = 172 \<and> k mod 16 = 1 \<longleftrightarrow> k = 2753" for k :: nat
    proof
      assume k: "k div 16 = 172 \<and> k mod 16 = 1"
      have "k = k div 16 * 16 + k mod 16" by simp
      also have "\<dots> = 2753" unfolding conjunct1 [OF k] conjunct2 [OF k] by simp
      finally show "k = 2753" .
    qed simp
    ultimately show ?thesis by simp
  qed
  have pair: "m div 256 = x \<and> m mod 256 = y \<longleftrightarrow> m = 256 * x + y" if "y < 256" for x y using that by auto
  show "is_private (V4 a) \<longleftrightarrow> in_block a (0x0a000000, 8) \<or> in_block a (0xac100000, 12) \<or> in_block a (0xc0a80000, 16)"
    using lan pair [of 168 192] by (simp add: in_block_v4 masked_octet word_unat_eq_iff [of "v4_octet a x" for x] o flip: m_def)
  show "is_loopback (V4 a) \<longleftrightarrow> in_block a (0x7f000000, 8)"
    by (simp add: in_block_v4 word_unat_eq_iff [of "v4_octet a x" for x] o flip: m_def)
  show "is_link_local_unicast (V4 a) \<longleftrightarrow> in_block a (0xa9fe0000, 16)"
    using pair [of 254 169] by (simp add: in_block_v4 word_unat_eq_iff [of "v4_octet a x" for x] o flip: m_def)
  show "is_multicast (V4 a) \<longleftrightarrow> in_block a (0xe0000000, 4)"
    by (simp add: in_block_v4 masked_octet o div_mult2_eq [symmetric] flip: m_def)
  show "is_unspecified (V4 a) \<longleftrightarrow> in_block a (0, 32)" by (simp add: in_block_v4 is_unspecified_def)
  have "drop_bit 22 (a XOR 0x64400000) = 0 \<longleftrightarrow> drop_bit 22 a XOR drop_bit 22 0x64400000 = 0" by (simp only: drop_bit_xor)
  also have "\<dots> \<longleftrightarrow> drop_bit 22 a = drop_bit 22 0x64400000" by (metis xor_self_eq bit.xor_left_self xor.right_neutral)
  finally show "sharedAddressSpace (V4 a) \<longleftrightarrow> in_block a (0x64400000, 10)" by (simp add: in_block_v4 sharedAddressSpace_def)
  show "is_multicast (V4 a)" if "is_link_local_multicast (V4 a)"
    using that by (simp add: masked_octet)
qed

text \<open>
  C29: the dialer refuses exactly the addresses of the private, shared, loopback, link-local, unspecified
  and multicast blocks, those of IPv4 also when they are written as IPv4-mapped IPv6 addresses.
\<close>

theorem forbidden_blocks:
  "forbiddenAddress address \<longleftrightarrow>
     (case unmap address of
        V4 a \<Rightarrow> list_ex (in_block a) v4_blocks
      | V6 a z \<Rightarrow> (a = 0 \<and> z = []) \<or> list_ex (in_block a) v6_blocks)"
proof (cases "unmap address")
  case (V4 a)
  then show ?thesis
    using v4_tests(7) [of a] by (auto simp: forbiddenAddress_def v4_blocks_def v4_tests(1-6) Let_def simp del: is_private.simps
      is_loopback.simps is_link_local_unicast.simps is_link_local_multicast.simps is_multicast.simps)
next
  case (V6 a z)
  have blocks: "in_block a (1 :: 128 word, 128) \<longleftrightarrow> a = 1"
    "in_block a (0xfc000000000000000000000000000000 :: 128 word, 7) \<longleftrightarrow> unat a div 2 ^ 120 div 2 = 126"
    "in_block a (0xfe800000000000000000000000000000 :: 128 word, 10) \<longleftrightarrow> unat a div 2 ^ 112 div 64 = 1018"
    "in_block a (0xff000000000000000000000000000000 :: 128 word, 8) \<longleftrightarrow> unat a div 2 ^ 112 div 256 = 255"
    by (simp_all add: in_block_def drop_bit_eq_unat unat_drop div_mult2_eq [symmetric] word_unat_eq_iff [of a 1])
  have "is_private (V6 a z) \<longleftrightarrow> unat a div 2 ^ 120 div 2 = 126" by (simp add: masked_octet v6_values)
  moreover have "is_link_local_unicast (V6 a z) \<longleftrightarrow> unat a div 2 ^ 112 div 64 = 1018" by (simp add: masked_group v6_values)
  moreover have multi: "is_multicast (V6 a z) \<longleftrightarrow> unat a div 2 ^ 112 div 256 = 255"
    by (simp add: v6_values word_unat_eq_iff [of "v6_octet a"] div_mult2_eq [symmetric])
  moreover have "is_multicast (V6 a z)" if "is_link_local_multicast (V6 a z)"
  proof -
    from that have "drop_bit 8 (v6_group a AND 0xff0f) = 0xff" by simp
    then have "drop_bit 8 (v6_group a) AND 0xff = 0xff" by (simp add: drop_bit_and)
    moreover have "drop_bit 8 (v6_group a) AND 0xff = drop_bit 8 (v6_group a)"
    proof -
      have "drop_bit 8 (v6_group a) AND 0xff = take_bit 8 (drop_bit 8 (v6_group a))" by (simp add: take_bit_eq_mask mask_eq_exp_minus_1)
      also have "\<dots> = drop_bit 8 (take_bit LENGTH(16) (v6_group a))" by (simp add: take_bit_drop_bit)
      finally show ?thesis by (simp only: take_bit_length_eq)
    qed
    ultimately have "unat (drop_bit 8 (v6_group a)) = 255" by simp
    then show ?thesis unfolding multi by (simp add: unat_drop v6_values)
  qed
  ultimately show ?thesis
    by (simp add: forbiddenAddress_def V6 v6_blocks_def blocks is_unspecified_def sharedAddressSpace_def Let_def)
      blast
qed

section \<open>Dialling\<close>

text \<open>
  \<open>DialContext\<close> after the address has been split: the resolver, and the dialer for one address. An
  \<open>errors.Join\<close> unwraps to all its parts.
\<close>

record ('w, 'c) network =
  nw_split :: "string \<Rightarrow> (string \<times> string) option"
  nw_resolve :: "string \<Rightarrow> 'w \<Rightarrow> (goerror + netip list) \<times> 'w"
  nw_dial :: "netip \<Rightarrow> string \<Rightarrow> 'w \<Rightarrow> (goerror + 'c) \<times> 'w"

fun dial_addresses ::
    "('w, 'c) network \<Rightarrow> bool \<Rightarrow> string \<Rightarrow> netip list \<Rightarrow> goerror list \<Rightarrow> 'w \<Rightarrow> (goerror + 'c) \<times> 'w" where
  "dial_addresses net allow_private port [] failures w = (Inl (Opaque # concat failures), w)"
| "dial_addresses net allow_private port (a # as) failures w =
     (if \<not> allow_private \<and> forbiddenAddress a then dial_addresses net allow_private port as (failures @ [[Opaque]]) w
      else (case nw_dial net a port w of
              (Inr c, w') \<Rightarrow> (Inr c, w')
            | (Inl e, w') \<Rightarrow> dial_addresses net allow_private port as (failures @ [e]) w'))"

definition dial_context :: "('w, 'c) network \<Rightarrow> bool \<Rightarrow> string \<Rightarrow> 'w \<Rightarrow> (goerror + 'c) \<times> 'w" where
  "dial_context net allow_private address w =
     (case nw_split net address of
        None \<Rightarrow> (Inl [Opaque, Opaque], w)
      | Some (host, port) \<Rightarrow>
          (case nw_resolve net host w of
             (Inl e, w1) \<Rightarrow> (Inl (Opaque # e), w1)
           | (Inr as, w1) \<Rightarrow> dial_addresses net allow_private port as [] w1))"

lemma dial_addresses_public:
  assumes "\<forall>a p v. \<not> forbiddenAddress a \<longrightarrow> nw_dial net' a p v = nw_dial net a p v"
  shows "dial_addresses net' False port as failures w = dial_addresses net False port as failures w"
  using assms by (induction "as" arbitrary: failures w) (auto split: prod.splits sum.splits)

text \<open>
  C30: a destination that is not marked private never reaches a forbidden address, whatever the resolver
  says: what its connections do does not depend on how the network would answer there. The answers of
  the resolver are those that are dialled, so no second look-up can change them in between.
\<close>

theorem public_never_dials_inside:
  assumes "\<forall>a p v. \<not> forbiddenAddress a \<longrightarrow> nw_dial net' a p v = nw_dial net a p v"
    and "nw_split net' = nw_split net" "nw_resolve net' = nw_resolve net"
  shows "dial_context net' False address w = dial_context net False address w"
  using dial_addresses_public [OF assms(1)] assms(2,3)
  by (auto simp: dial_context_def split: option.splits prod.splits sum.splits)

definition inside_only :: "(nat, nat) network" where
  "inside_only = \<lparr>nw_split = (\<lambda>a. Some (a, ''443'')), nw_resolve = (\<lambda>h w. (Inr [V4 0x7f000001, V4 0x08080808], w)),
     nw_dial = (\<lambda>a p w. (if a = V4 0x08080808 then Inr 1 else Inr 0, Suc w))\<rparr>"

theorem public_never_dials_inside_witness:
  "dial_context (inside_only\<lparr>nw_dial := (\<lambda>a p w. if forbiddenAddress a then (Inl [], 0) else nw_dial inside_only a p w)\<rparr>) False ''api'' 5
     = dial_context inside_only False ''api'' 5
   \<and> dial_context inside_only False ''api'' 5 = (Inr 1, 6)"
proof -
  have "forbiddenAddress (V4 0x7f000001)" "\<not> forbiddenAddress (V4 0x08080808)" by code_simp+
  then have "dial_context inside_only False ''api'' 5 = (Inr 1, 6)" by (simp add: dial_context_def inside_only_def)
  moreover note public_never_dials_inside [of "inside_only\<lparr>nw_dial := (\<lambda>a p w. if forbiddenAddress a then (Inl [], 0) else nw_dial inside_only a p w)\<rparr>"
    inside_only "''api''" 5]
  ultimately show ?thesis by simp
qed

end
