(* ===== verification/RequestJson.thy ===== *)
theory RequestJson
  imports Sse JsonPrint
begin

text \<open>
  What \<open>json.Marshal\<close> makes of a \<open>Request\<close>: the struct tags of \<open>chatcompletions/request.go\<close>, with
  \<open>omitempty\<close>, as a JSON value. \<open>float_text\<close> is how \<open>encoding/json\<close> writes a \<open>float64\<close>.
\<close>

section \<open>Encoding\<close>

definition optional_member :: "string \<Rightarrow> ('a \<Rightarrow> json) \<Rightarrow> 'a option \<Rightarrow> members" where
  "optional_member n enc x = (case x of None \<Rightarrow> [] | Some v \<Rightarrow> [(n, enc v)])"

definition text_member :: "string \<Rightarrow> string \<Rightarrow> members" where
  "text_member n s = (if s = [] then [] else [(n, JStr s)])"

definition list_member :: "string \<Rightarrow> ('a \<Rightarrow> json) \<Rightarrow> 'a slice \<Rightarrow> members" where
  "list_member n enc s = (if elems s = [] then [] else [(n, JArr (map enc (elems s)))])"

definition encode_call :: "tool_call \<Rightarrow> json" where
  "encode_call c = JObj [(''id'', JStr (call_ID c)), (''type'', JStr (call_Type c)),
     (''function'', JObj [(''name'', JStr (cf_Name (call_Function c))), (''arguments'', JStr (cf_Arguments (call_Function c)))])]"

definition encode_message :: "message \<Rightarrow> json" where
  "encode_message m = JObj ([(''role'', JStr (Role m))] @ optional_member ''content'' (\<lambda>v. v) (Content m) @ text_member ''name'' (Name m)
     @ text_member ''tool_call_id'' (ToolCallID m) @ list_member ''tool_calls'' encode_call (ToolCalls m))"

definition encode_function :: "function_tool \<Rightarrow> json" where
  "encode_function f = JObj ([(''name'', JStr (ft_Name f))] @ text_member ''description'' (ft_Description f)
     @ optional_member ''parameters'' (\<lambda>v. v) (ft_Parameters f) @ optional_member ''strict'' JBool (ft_Strict f))"

definition encode_tool :: "tool \<Rightarrow> json" where
  "encode_tool t = JObj [(''type'', JStr (tool_Type t)), (''function'', encode_function (tool_Function t))]"

definition encode_stream_options :: "stream_options \<Rightarrow> json" where
  "encode_stream_options s = JObj (if IncludeUsage s then [(''include_usage'', JBool True)] else [])"

definition encode_float :: "(rat \<Rightarrow> string) \<Rightarrow> rat \<Rightarrow> json" where
  "encode_float float_text q = JLit (LNum (float_text q))"

text \<open>\<open>messages\<close> is never left out; a request that was accepted has at least one.\<close>

definition encode_request :: "(rat \<Rightarrow> string) \<Rightarrow> request \<Rightarrow> json" where
  "encode_request float_text r = JObj ([(''model'', JStr (Model r)), (''messages'', JArr (map encode_message (elems (Messages r))))]
     @ (if StreamFlag r then [(''stream'', JBool True)] else [])
     @ optional_member ''stream_options'' encode_stream_options (StreamOptions r)
     @ list_member ''tools'' encode_tool (ToolList r) @ optional_member ''tool_choice'' (\<lambda>v. v) (ToolChoice r)
     @ optional_member ''parallel_tool_calls'' JBool (ParallelToolCalls r)
     @ optional_member ''temperature'' (encode_float float_text) (Temperature r)
     @ optional_member ''top_p'' (encode_float float_text) (TopP r)
     @ optional_member ''max_tokens'' JInt (MaxTokens r) @ optional_member ''max_completion_tokens'' JInt (MaxCompletionTokens r))"

section \<open>Decoding it again\<close>

text \<open>The same request without what decoding left behind the elements of its slices.\<close>

definition fresh_slice :: "('a \<Rightarrow> 'a) \<Rightarrow> 'a slice \<Rightarrow> 'a slice" where
  "fresh_slice f s = Slice (map f (elems s)) []"

definition fresh_message :: "message \<Rightarrow> message" where
  "fresh_message m = m\<lparr>ToolCalls := fresh_slice (\<lambda>c. c) (ToolCalls m)\<rparr>"

definition fresh_request :: "request \<Rightarrow> request" where
  "fresh_request r = r\<lparr>Messages := fresh_slice fresh_message (Messages r), ToolList := fresh_slice (\<lambda>t. t) (ToolList r)\<rparr>"

lemma dec_members_append:
  "dec_members strict names f r (xs @ ys) = Option.bind (dec_members strict names f r xs) (\<lambda>r'. dec_members strict names f r' ys)"
  by (induction strict names f r xs rule: dec_members.induct) (auto split: option.splits)

lemma dec_optional_member:
  "n \<in> set names \<Longrightarrow> dec_members strict names f r (optional_member n enc x) = (case x of None \<Rightarrow> Some r | Some v \<Rightarrow> f n r (enc v))"
  by (auto simp: optional_member_def split: option.splits)

lemma dec_text_member:
  "n \<in> set names \<Longrightarrow> dec_members strict names f r (text_member n s) = (if s = [] then Some r else f n r (JStr s))"
  by (auto simp: text_member_def split: option.splits)

lemma dec_list_member:
  "n \<in> set names \<Longrightarrow> dec_members strict names f r (list_member n enc s)
    = (if elems s = [] then Some r else f n r (JArr (map enc (elems s))))"
  by (auto simp: list_member_def split: option.splits)

lemmas dec_encoded = dec_struct_def dec_members_append dec_optional_member dec_text_member dec_list_member

lemma dec_elems_map:
  "\<forall>x\<in>set xs. d zero (enc x) = Some (g x) \<Longrightarrow> dec_elems zero d [] (map enc xs) = Some (map g xs)"
  by (induction xs) simp_all

lemma dec_slice_map:
  assumes "\<forall>x\<in>set xs. d zero (enc x) = Some (g x)"
  shows "dec_slice zero d nil_slice (JArr (map enc xs)) = Some (Slice (map g xs) [])"
  using dec_elems_map [of xs d zero enc g] assms by (cases xs) (simp_all add: dec_slice_def)

lemma dec_encode_call: "dec_tool_call zero_tool_call (encode_call c) = Some c"
  by (simp add: encode_call_def dec_tool_call_def dec_call_function_def dec_struct_def dec_string_def zero_tool_call_def
      zero_call_function_def)

lemma dec_encode_message: "dec_message zero_message (encode_message m) = Some (fresh_message m)"
proof -
  have calls: "dec_slice zero_tool_call dec_tool_call nil_slice (JArr (map encode_call cs)) = Some (Slice cs [])" for cs
    using dec_slice_map [of cs dec_tool_call zero_tool_call encode_call "\<lambda>c. c"] dec_encode_call by simp
  show ?thesis
    by (cases m) (auto simp: encode_message_def dec_message_def dec_encoded dec_string_def dec_raw_def calls zero_message_def
        fresh_message_def fresh_slice_def split: option.splits)
qed

lemma dec_encode_tool: "dec_tool zero_tool (encode_tool t) = Some t"
  by (cases t; cases "tool_Function t") (auto simp: encode_tool_def encode_function_def dec_tool_def dec_function_tool_def dec_encoded
      dec_string_def dec_raw_def dec_ptr_def dec_bool_def zero_tool_def zero_function_tool_def split: option.splits)

lemma dec_encode_stream_options: "dec_stream_options zero_stream_options (encode_stream_options s) = Some s"
  by (cases s) (simp add: encode_stream_options_def dec_stream_options_def dec_struct_def zero_stream_options_def dec_bool_def)

lemma dec_request_members:
  assumes "\<forall>q\<in>set_option (Temperature r) \<union> set_option (TopP r). parse_float64 (float_text q) = Some q"
    and "\<forall>n\<in>set_option (MaxTokens r) \<union> set_option (MaxCompletionTokens r). - max_int64 - 1 \<le> n \<and> n \<le> max_int64"
  shows "dec_request zero_request (encode_request float_text r) = Some (fresh_request r)"
proof -
  have messages: "dec_slice zero_message dec_message nil_slice (JArr (map encode_message ms)) = Some (Slice (map fresh_message ms) [])" for ms
    by (rule dec_slice_map) (simp add: dec_encode_message)
  have tools: "dec_slice zero_tool dec_tool nil_slice (JArr (map encode_tool ts)) = Some (Slice ts [])" for ts
    using dec_slice_map [of ts dec_tool zero_tool encode_tool "\<lambda>t. t"] dec_encode_tool by simp
  have options: "dec_ptr zero_stream_options dec_stream_options None (encode_stream_options s) = Some (Some s)" for s
    using dec_encode_stream_options [of s] by (simp add: dec_ptr_def encode_stream_options_def)
  have floats: "dec_ptr 0 dec_float None (encode_float float_text q) = Some (Some q)" if "q \<in> set_option (Temperature r) \<union> set_option (TopP r)" for q
    using assms(1) that by (simp add: dec_ptr_def dec_float_def encode_float_def)
  have ints: "dec_ptr 0 dec_int None (JInt n) = Some (Some n)" if "n \<in> set_option (MaxTokens r) \<union> set_option (MaxCompletionTokens r)" for n
    using assms(2) that by (simp add: dec_ptr_def dec_int_def parse_int64_int_text)
  have bools: "dec_ptr False dec_bool None (JBool b) = Some (Some b)" for b by (simp add: dec_ptr_def dec_bool_def)
  have field: "n \<in> set request_fields" if "n \<in> {''model'', ''messages'', ''stream'', ''stream_options'', ''tools'', ''tool_choice'',
     ''parallel_tool_calls'', ''temperature'', ''top_p'', ''max_tokens'', ''max_completion_tokens''}" for n
    using that by (auto simp: request_fields_def)
  obtain m ms st so ts tc pt te tp mt mc where r: "r = \<lparr>Model = m, Messages = ms, StreamFlag = st, StreamOptions = so, ToolList = ts, ToolChoice = tc,
    ParallelToolCalls = pt, Temperature = te, TopP = tp, MaxTokens = mt, MaxCompletionTokens = mc\<rparr>" by (cases r)
  have head: "dec_members True request_fields dec_request_field zero_request ([(''model'', JStr m), (''messages'', JArr (map encode_message (elems ms)))]
      @ (if st then [(''stream'', JBool True)] else [])) = Some (zero_request\<lparr>Model := m, Messages := fresh_slice fresh_message ms, StreamFlag := st\<rparr>)"
    using messages by (simp add: field dec_request_field_def dec_string_def dec_bool_def fresh_slice_def zero_request_def)
  let ?dec = "dec_members True request_fields dec_request_field"
  have steps:
    "StreamOptions q = None \<Longrightarrow> ?dec q (optional_member ''stream_options'' encode_stream_options so) = Some (q\<lparr>StreamOptions := so\<rparr>)"
    "ToolList q = nil_slice \<Longrightarrow> ?dec q (list_member ''tools'' encode_tool ts) = Some (q\<lparr>ToolList := fresh_slice (\<lambda>t. t) ts\<rparr>)"
    "ToolChoice q = None \<Longrightarrow> ?dec q (optional_member ''tool_choice'' (\<lambda>v. v) tc) = Some (q\<lparr>ToolChoice := tc\<rparr>)"
    "ParallelToolCalls q = None \<Longrightarrow> ?dec q (optional_member ''parallel_tool_calls'' JBool pt) = Some (q\<lparr>ParallelToolCalls := pt\<rparr>)"
    "Temperature q = None \<Longrightarrow> ?dec q (optional_member ''temperature'' (encode_float float_text) te) = Some (q\<lparr>Temperature := te\<rparr>)"
    "TopP q = None \<Longrightarrow> ?dec q (optional_member ''top_p'' (encode_float float_text) tp) = Some (q\<lparr>TopP := tp\<rparr>)"
    "MaxTokens q = None \<Longrightarrow> ?dec q (optional_member ''max_tokens'' JInt mt) = Some (q\<lparr>MaxTokens := mt\<rparr>)"
    "MaxCompletionTokens q = None \<Longrightarrow> ?dec q (optional_member ''max_completion_tokens'' JInt mc) = Some (q\<lparr>MaxCompletionTokens := mc\<rparr>)" for q
    using options tools floats ints bools
    by (cases q; auto simp: r field dec_optional_member dec_list_member dec_request_field_def dec_raw_def fresh_slice_def split: option.splits)+
  have "?dec zero_request
      (([(''model'', JStr m), (''messages'', JArr (map encode_message (elems ms)))] @ (if st then [(''stream'', JBool True)] else []))
       @ optional_member ''stream_options'' encode_stream_options so @ list_member ''tools'' encode_tool ts
       @ optional_member ''tool_choice'' (\<lambda>v. v) tc @ optional_member ''parallel_tool_calls'' JBool pt
       @ optional_member ''temperature'' (encode_float float_text) te @ optional_member ''top_p'' (encode_float float_text) tp
       @ optional_member ''max_tokens'' JInt mt @ optional_member ''max_completion_tokens'' JInt mc) = Some (fresh_request r)"
    by (subst dec_members_append, subst head, simp only: Option.bind.simps dec_members_append steps request.simps request.select_convs
      request.update_convs zero_request_def r fresh_request_def)
  then show ?thesis by (simp add: r dec_request_def encode_request_def dec_struct_def)
qed

section \<open>Decoded requests\<close>

lemma dec_members_keeps:
  assumes "\<And>n r v r'. P r \<Longrightarrow> f n r v = Some r' \<Longrightarrow> P r'"
  shows "P r \<Longrightarrow> dec_members strict names f r fs = Some r' \<Longrightarrow> P r'"
proof (induction fs arbitrary: r)
  case (Cons m fs)
  obtain k v where m: "m = (k, v)" by (cases m)
  show ?case
  proof (cases "find_field names k")
    case None
    with Cons m show ?thesis by (auto split: if_splits)
  next
    case (Some n)
    with Cons.prems(2) m obtain r1 where "f n r v = Some r1" "dec_members strict names f r1 fs = Some r'"
      by (auto split: option.splits)
    with assms Cons.prems(1) Cons.IH show ?thesis by blast
  qed
qed simp

definition counts_fit :: "request \<Rightarrow> bool" where
  "counts_fit r \<longleftrightarrow> (\<forall>n\<in>set_option (MaxTokens r) \<union> set_option (MaxCompletionTokens r). - max_int64 - 1 \<le> n \<and> n \<le> max_int64)"

lemma parse_int64_range: "parse_int64 s = Some n \<Longrightarrow> - max_int64 - 1 \<le> n \<and> n \<le> max_int64"
  by (auto simp: parse_int64_def Let_def split: option.splits if_splits)

lemma dec_count_range:
  assumes "dec_ptr 0 dec_int old v = Some (Some n)" "\<And>k. old = Some k \<Longrightarrow> - max_int64 - 1 \<le> k \<and> k \<le> max_int64"
  shows "- max_int64 - 1 \<le> n \<and> n \<le> max_int64"
  using assms parse_int64_range by (auto simp: dec_ptr_def dec_int_def split: json.splits lit.splits if_splits option.splits)

lemma dec_request_field_fits: "counts_fit r \<Longrightarrow> dec_request_field n r v = Some r' \<Longrightarrow> counts_fit r'"
  unfolding dec_request_field_def
  by (auto simp: counts_fit_def split: if_splits; erule dec_count_range [THEN conjunct1] dec_count_range [THEN conjunct2]; simp)

lemma decoded_counts_fit: "dec_request zero_request v = Some r \<Longrightarrow> counts_fit r"
proof -
  assume r: "dec_request zero_request v = Some r"
  have zero: "counts_fit zero_request" by (simp add: counts_fit_def zero_request_def)
  from r obtain fs where "dec_members True request_fields dec_request_field zero_request fs = Some r \<or> r = zero_request"
    by (auto simp: dec_request_def dec_struct_def split: json.splits lit.splits)
  then show ?thesis using dec_members_keeps [of counts_fit dec_request_field, OF dec_request_field_fits zero] zero by auto
qed

lemma parsed_counts_fit: "Parse body = Inr (r, caps) \<Longrightarrow> counts_fit r"
  using decoded_counts_fit by (auto simp: Parse_def and_then_Inr simp del: parse_value.simps split: option.splits)

end
