(* ===== verification/Adapter.thy ===== *)
theory Adapter
  imports StreamEngine RequestJson Address
begin

text \<open>
  The provider adapter, \<open>internal/openaiadapter/adapter.go\<close>: the endpoint of a destination, the checks
  and the rewriting of a completion, and the two calls that the engine makes, \<open>Execute\<close> and \<open>OpenStream\<close>.
\<close>

section \<open>The endpoint\<close>

text \<open>A \<open>url.URL\<close>; \<open>ur_User\<close> tells whether it has user information.\<close>

record url =
  ur_Scheme :: string
  ur_User :: bool
  ur_Host :: string
  ur_Path :: string
  ur_RawPath :: string
  ur_RawQuery :: string
  ur_Fragment :: string

text \<open>\<open>URL.Hostname\<close>: without the port and the brackets of an IPv6 literal.\<close>

definition valid_optional_port :: "string \<Rightarrow> bool" where
  "valid_optional_port p \<longleftrightarrow> (case p of [] \<Rightarrow> True | c # ds \<Rightarrow> c = CHR '':'' \<and> list_all is_digit ds)"

definition split_port :: "string \<Rightarrow> string" where
  "split_port h =
     (let port = rev (takeWhile (\<lambda>c. c \<noteq> CHR '':'') (rev h)); colon = length h - length port - 1
      in if CHR '':'' \<in> set h \<and> valid_optional_port (CHR '':'' # port) then take colon h else h)"

definition hostname :: "string \<Rightarrow> string" where
  "hostname h =
     (let s = split_port h
      in if has_prefix s ''['' \<and> has_prefix (rev s) '']'' then take (length s - 2) (drop 1 s) else s)"

definition trim_right :: "char \<Rightarrow> string \<Rightarrow> string" where
  "trim_right c s = rev (dropWhile (\<lambda>d. d = c) (rev s))"

definition privateHTTPHost :: "(string \<Rightarrow> netip option) \<Rightarrow> string \<Rightarrow> bool" where
  "privateHTTPHost parse_addr host =
     (let h = map to_lower host
      in h = ''localhost'' \<or> has_prefix (rev h) (rev ''.localhost'')
         \<or> (case parse_addr h of None \<Rightarrow> False | Some a \<Rightarrow> forbiddenAddress a))"

definition completionURL :: "(string \<Rightarrow> url option) \<Rightarrow> (string \<Rightarrow> netip option) \<Rightarrow> string \<Rightarrow> bool \<Rightarrow> url option" where
  "completionURL parse_url parse_addr base allow_private =
     (case parse_url base of
        None \<Rightarrow> None
      | Some u \<Rightarrow>
          if ur_Scheme u = [] \<or> ur_Host u = [] \<or> ur_User u \<or> ur_RawQuery u \<noteq> [] \<or> ur_Fragment u \<noteq> [] then None
          else if ur_Scheme u \<noteq> ''http'' \<and> ur_Scheme u \<noteq> ''https'' then None
          else if ur_Scheme u \<noteq> ''https'' \<and> \<not> (allow_private \<and> privateHTTPHost parse_addr (hostname (ur_Host u))) then None
          else Some (u\<lparr>ur_Path := trim_right (CHR ''/'') (ur_Path u) @ ''/chat/completions'', ur_RawPath := []\<rparr>))"

section \<open>Completions\<close>

record response_call =
  rl_ID :: string
  rl_Type :: string
  rl_Name :: string
  rl_Arguments :: string

definition zero_response_call :: response_call where
  "zero_response_call = \<lparr>rl_ID = [], rl_Type = [], rl_Name = [], rl_Arguments = []\<rparr>"

definition dec_response_call :: "response_call dec" where
  "dec_response_call = dec_struct False [''id'', ''type'', ''function'']
     (\<lambda>n r v. if n = ''id'' then map_option (\<lambda>x. r\<lparr>rl_ID := x\<rparr>) (dec_string (rl_ID r) v)
              else if n = ''type'' then map_option (\<lambda>x. r\<lparr>rl_Type := x\<rparr>) (dec_string (rl_Type r) v)
              else dec_struct False [''name'', ''arguments'']
                (\<lambda>n r v. if n = ''name'' then map_option (\<lambda>x. r\<lparr>rl_Name := x\<rparr>) (dec_string (rl_Name r) v)
                         else map_option (\<lambda>x. r\<lparr>rl_Arguments := x\<rparr>) (dec_string (rl_Arguments r) v)) r v)"

definition valid_response_call :: "response_call \<Rightarrow> bool" where
  "valid_response_call c \<longleftrightarrow>
     \<not> (rl_ID c = [] \<or> rl_Type c \<noteq> ''function'' \<or> rl_Name c = [] \<or> length (rl_Name c) > 64)"

definition validAssistantResponse :: "members \<Rightarrow> bool" where
  "validAssistantResponse m =
     (let content = map_of m ''content''; tool_calls = map_of m ''tool_calls'';
          valid_content = (content = Some JNull \<or> unmarshal_string content \<noteq> None);
          valid_tools = (case tool_calls of
              None \<Rightarrow> False
            | Some v \<Rightarrow>
                (case dec_slice zero_response_call dec_response_call nil_slice v of
                   None \<Rightarrow> False
                 | Some calls \<Rightarrow> slice_len calls > 0 \<and> list_all valid_response_call (elems calls)))
      in \<not> (content \<noteq> None \<and> \<not> valid_content) \<and> \<not> (tool_calls \<noteq> None \<and> \<not> valid_tools)
         \<and> (content \<noteq> None \<or> tool_calls \<noteq> None))"

definition valid_response_choice :: "json \<Rightarrow> bool" where
  "valid_response_choice raw =
     (case dec_choice ''message'' zero_choice raw of
        None \<Rightarrow> False
      | Some ch \<Rightarrow>
          (case (ch_Index ch, ch_Body ch) of
             (Some i, Some message) \<Rightarrow>
               0 \<le> i \<and> unmarshal_string (map_of message ''role'') = Some ''assistant'' \<and> validAssistantResponse message
               \<and> valid_finish (ch_FinishReason ch)
           | _ \<Rightarrow> False))"

definition normalizeResponse :: "bytes \<Rightarrow> string \<Rightarrow> json option" where
  "normalizeResponse body requested =
     (case parse_object body of
        None \<Rightarrow> None
      | Some m \<Rightarrow>
          (let object = map_of m in
           if (case unmarshal_string (object ''id'') of None \<Rightarrow> True | Some i \<Rightarrow> i = [])
              \<or> unmarshal_string (object ''object'') \<noteq> Some ''chat.completion'' then None
           else (case unmarshal_list (object ''choices'') of
                   Some (Some choices) \<Rightarrow>
                     if choices = [] \<or> \<not> list_all valid_response_choice choices then None
                     else Some (set_model m requested)
                 | _ \<Rightarrow> None)))"

text \<open>\<open>None\<close> is the error.\<close>

definition responseUsage :: "bytes \<Rightarrow> (int option \<times> int option) option" where
  "responseUsage body =
     (case parse_doc (lex body) of
        None \<Rightarrow> None
      | Some v \<Rightarrow> (case unmarshal_map v of None \<Rightarrow> None | Some m \<Rightarrow> usageTokens (case m of None \<Rightarrow> (\<lambda>k. None) | Some fs \<Rightarrow> map_of fs)))"

section \<open>Calls\<close>

definition MaxResponseBytes :: nat where
  "MaxResponseBytes = 8388608"

definition boundedHeader :: "string \<Rightarrow> string" where
  "boundedHeader v = (if length v > 256 then take 256 v else v)"

definition firstHeader :: "(string \<Rightarrow> string) \<Rightarrow> string list \<Rightarrow> string" where
  "firstHeader header names =
     (case find (\<lambda>n. header n \<noteq> []) names of None \<Rightarrow> [] | Some n \<Rightarrow> boundedHeader (header n))"

definition hex_text :: "bytes \<Rightarrow> string" where
  "hex_text s = concat (map (\<lambda>c. [hex_char (byte c div 16), hex_char (byte c mod 16)]) s)"

definition providerRequestReference :: "(bytes \<Rightarrow> bytes) \<Rightarrow> string \<Rightarrow> string" where
  "providerRequestReference sha v = (if v = [] then [] else ''sha256:'' @ hex_text (take 16 (sha v)))"

text \<open>
  What the client is asked to send and what it answers: the status, the headers by name, the bytes of
  the body and the error, if any, after them. The client follows no redirects.
\<close>

record call =
  cl_URL :: url
  cl_Payload :: bytes
  cl_Accept :: string
  cl_Authorization :: string
  cl_Private :: bool

record answer =
  an_Status :: int
  an_Header :: "string \<Rightarrow> string"
  an_Body :: bytes
  an_End :: stream_end

record 'w adapter_env =
  ae_float :: "rat \<Rightarrow> string"
  ae_marshal :: "json \<Rightarrow> bytes option"
  ae_url :: "string \<Rightarrow> url option"
  ae_addr :: "string \<Rightarrow> netip option"
  ae_request :: "url \<Rightarrow> bool"
  ae_sha :: "bytes \<Rightarrow> bytes"
  ae_media :: "string \<Rightarrow> string option"
  ae_secret :: "string \<Rightarrow> 'w \<Rightarrow> (goerror + bytes) \<times> 'w"
  ae_send :: "time \<Rightarrow> call \<Rightarrow> 'w \<Rightarrow> (goerror \<times> bool + answer) \<times> 'w"

definition adapter_error :: "string \<Rightarrow> bool \<Rightarrow> goerror \<Rightarrow> goerror" where
  "adapter_error code written cause = Classified code written # cause"

text \<open>What is prepared before the secret is asked for: the endpoint and the payload.\<close>

definition prepare :: "'w adapter_env \<Rightarrow> destination \<Rightarrow> request \<Rightarrow> bool \<Rightarrow> goerror + url \<times> bytes" where
  "prepare env d req supported =
     check (Adapter d = ''openai-chat-v1'' \<and> EgressType d = ''direct'' \<and> supported) (adapter_error ''unsupported_destination'' False [])
     (case completionURL (ae_url env) (ae_addr env) (BaseURL d) (AllowPrivateNetwork d) of
        None \<Rightarrow> Inl (adapter_error ''invalid_destination'' False [Opaque])
      | Some endpoint \<Rightarrow>
          (case ae_marshal env (encode_request (ae_float env) (req\<lparr>Model := ProviderModelID d\<rparr>)) of
             None \<Rightarrow> Inl (adapter_error ''encode_request'' False [Opaque])
           | Some payload \<Rightarrow>
               check (ae_request env endpoint) (adapter_error ''invalid_destination'' False [Opaque]) (Inr (endpoint, payload))))"

text \<open>\<open>errors.As\<close> finds the adapter's own error, the first classified link, and drops what wraps it.\<close>

fun own_error :: "goerror \<Rightarrow> goerror option" where
  "own_error [] = None"
| "own_error (Classified c b # ls) = Some (Classified c b # ls)"
| "own_error (l # ls) = own_error ls"

definition final_error :: "goerror \<Rightarrow> goerror" where
  "final_error e = (case own_error e of Some e' \<Rightarrow> e' | None \<Rightarrow> adapter_error ''credential_unavailable'' False e)"

definition line_break :: "char \<Rightarrow> bool" where
  "line_break c \<longleftrightarrow> c = carriage \<or> c = newline"

text \<open>The call inside \<open>secrets.Use\<close>: one request with the secret as bearer.\<close>

definition exchange :: "'w adapter_env \<Rightarrow> destination \<Rightarrow> time \<Rightarrow> string \<Rightarrow> url \<times> bytes \<Rightarrow> 'w \<Rightarrow> (goerror + answer) \<times> 'w" where
  "exchange env d deadline accept prepared w =
     (case ae_secret env (SecretName d) w of
        (Inl e, w1) \<Rightarrow> (Inl (final_error e), w1)
      | (Inr secret, w1) \<Rightarrow>
          if secret = [] \<or> list_ex line_break secret then (Inl (adapter_error ''invalid_credential'' False []), w1)
          else (case ae_send env deadline
                  \<lparr>cl_URL = fst prepared, cl_Payload = snd prepared, cl_Accept = accept, cl_Authorization = ''Bearer '' @ secret,
                   cl_Private = AllowPrivateNetwork d\<rparr> w1 of
                  (Inl (cause, written), w2) \<Rightarrow> (Inl (adapter_error ''transport_error'' written cause), w2)
                | (Inr a, w2) \<Rightarrow> (Inr a, w2)))"

definition header_of :: "'w adapter_env \<Rightarrow> answer \<Rightarrow> string" where
  "header_of env a = providerRequestReference (ae_sha env) (firstHeader (an_Header a) [''x-request-id'', ''request-id''])"

definition status_result :: "'w adapter_env \<Rightarrow> answer \<Rightarrow> upstream_result" where
  "status_result env a =
     \<lparr>StatusCode = an_Status a, ContentType = boundedHeader (an_Header a ''Content-Type''),
      up_RetryAfter = boundedHeader (an_Header a ''Retry-After''), up_ProviderRequestID = header_of env a,
      Body = [], up_InputTokens = None, up_OutputTokens = None\<rparr>"

text \<open>
  Reading the body through a limit of \<open>MaxResponseBytes + 1\<close>: an error of the connection shows only when
  the body ends before the limit.
\<close>

definition read_completion :: "'w adapter_env \<Rightarrow> string \<Rightarrow> answer \<Rightarrow> goerror + upstream_result" where
  "read_completion env requested a =
     (let r = status_result env a; invalid = adapter_error ''invalid_response'' True in
      if \<not> ok_status (an_Status a) then Inr r
      else if length (an_Body a) > MaxResponseBytes then Inl (adapter_error ''response_too_large'' True [])
      else (case an_End a of
              EndError l e \<Rightarrow> Inl (adapter_error ''read_response'' True (l # e))
            | EndEOF \<Rightarrow>
                if ae_media env (ContentType r) \<noteq> Some ''application/json'' then Inl (invalid [])
                else (case Option.bind (normalizeResponse (an_Body a) requested) (ae_marshal env) of
                        None \<Rightarrow> Inl (invalid [Opaque])
                      | Some v \<Rightarrow>
                          (case responseUsage (an_Body a) of
                             None \<Rightarrow> Inl (invalid [Opaque])
                           | Some (i, n) \<Rightarrow> Inr (r\<lparr>Body := v, up_InputTokens := i, up_OutputTokens := n\<rparr>)))))"

definition Execute ::
    "'w adapter_env \<Rightarrow> destination \<Rightarrow> request \<Rightarrow> string \<Rightarrow> time \<Rightarrow> 'w \<Rightarrow> (upstream_result \<times> goerror) \<times> 'w" where
  "Execute env d req requested deadline w =
     (case prepare env d req True of
        Inl e \<Rightarrow> ((zero_upstream, e), w)
      | Inr prepared \<Rightarrow>
          (case exchange env d deadline ''application/json'' prepared w of
             (Inl e, w') \<Rightarrow> ((zero_upstream, e), w')
           | (Inr a, w') \<Rightarrow>
               (case read_completion env requested a of Inl e \<Rightarrow> ((zero_upstream, e), w') | Inr r \<Rightarrow> ((r, []), w'))))"

definition zero_stream_upstream :: stream_upstream where
  "zero_stream_upstream = \<lparr>su_StatusCode = 0, su_ContentType = [], su_RetryAfter = [], su_ProviderRequestID = [], su_Body = [], su_End = EndEOF\<rparr>"

definition stream_result :: "'w adapter_env \<Rightarrow> answer \<Rightarrow> stream_upstream" where
  "stream_result env a =
     \<lparr>su_StatusCode = an_Status a, su_ContentType = boundedHeader (an_Header a ''Content-Type''),
      su_RetryAfter = boundedHeader (an_Header a ''Retry-After''), su_ProviderRequestID = header_of env a, su_Body = [], su_End = EndEOF\<rparr>"

definition OpenStream ::
    "'w adapter_env \<Rightarrow> destination \<Rightarrow> request \<Rightarrow> time \<Rightarrow> 'w \<Rightarrow> (stream_upstream \<times> goerror) \<times> 'w" where
  "OpenStream env d req deadline w =
     (case prepare env d req (StreamFlag req) of
        Inl e \<Rightarrow> ((zero_stream_upstream, e), w)
      | Inr prepared \<Rightarrow>
          (case exchange env d deadline ''text/event-stream'' prepared w of
             (Inl e, w') \<Rightarrow> ((zero_stream_upstream, e), w')
           | (Inr a, w') \<Rightarrow>
               let r = stream_result env a in
               if \<not> ok_status (an_Status a) then ((r, []), w')
               else if ae_media env (su_ContentType r) \<noteq> Some ''text/event-stream''
               then ((zero_stream_upstream, adapter_error ''invalid_response'' True []), w')
               else ((r\<lparr>su_Body := an_Body a, su_End := an_End a\<rparr>, []), w')))"

section \<open>Where a credential goes\<close>

text \<open>The calls a destination allows: its endpoint, over TLS or to a private host, with its own secret.\<close>

definition call_allowed :: "'w adapter_env \<Rightarrow> destination \<Rightarrow> request \<Rightarrow> call \<Rightarrow> bool" where
  "call_allowed env d req c \<longleftrightarrow>
     completionURL (ae_url env) (ae_addr env) (BaseURL d) (AllowPrivateNetwork d) = Some (cl_URL c)
     \<and> (ur_Scheme (cl_URL c) = ''https''
        \<or> ur_Scheme (cl_URL c) = ''http'' \<and> AllowPrivateNetwork d \<and> privateHTTPHost (ae_addr env) (hostname (ur_Host (cl_URL c))))
     \<and> cl_Private c = AllowPrivateNetwork d
     \<and> ae_marshal env (encode_request (ae_float env) (req\<lparr>Model := ProviderModelID d\<rparr>)) = Some (cl_Payload c)
     \<and> (\<exists>secret w w'. ae_secret env (SecretName d) w = (Inr secret, w') \<and> secret \<noteq> [] \<and> \<not> list_ex line_break secret
          \<and> cl_Authorization c = ''Bearer '' @ secret)"

lemma completionURL_scheme:
  assumes "completionURL pu pa base priv = Some u"
  shows "ur_Scheme u = ''https'' \<or> ur_Scheme u = ''http'' \<and> priv \<and> privateHTTPHost pa (hostname (ur_Host u))"
  using assms by (auto simp: completionURL_def split: option.splits if_splits)

lemma prepare_Inr:
  "prepare env d req s = Inr (u, payload) \<longleftrightarrow>
     Adapter d = ''openai-chat-v1'' \<and> EgressType d = ''direct'' \<and> s
     \<and> completionURL (ae_url env) (ae_addr env) (BaseURL d) (AllowPrivateNetwork d) = Some u
     \<and> ae_marshal env (encode_request (ae_float env) (req\<lparr>Model := ProviderModelID d\<rparr>)) = Some payload \<and> ae_request env u"
  by (auto simp: prepare_def split: option.splits)

definition with_send :: "'w adapter_env \<Rightarrow> (time \<Rightarrow> call \<Rightarrow> 'w \<Rightarrow> (goerror \<times> bool + answer) \<times> 'w) \<Rightarrow> 'w adapter_env" where
  "with_send env s = env\<lparr>ae_send := s\<rparr>"

lemma with_send_simps [simp]:
  "ae_float (with_send env s) = ae_float env" "ae_marshal (with_send env s) = ae_marshal env" "ae_url (with_send env s) = ae_url env"
  "ae_addr (with_send env s) = ae_addr env" "ae_request (with_send env s) = ae_request env" "ae_sha (with_send env s) = ae_sha env"
  "ae_media (with_send env s) = ae_media env" "ae_secret (with_send env s) = ae_secret env" "ae_send (with_send env s) = s"
  by (simp_all add: with_send_def)

lemma exchange_allowed:
  assumes "prepare env d req s = Inr prepared" "\<forall>dl c v. call_allowed env d req c \<longrightarrow> send dl c v = ae_send env dl c v"
  shows "exchange (with_send env send) d deadline accept prepared w = exchange env d deadline accept prepared w"
proof -
  obtain u payload where p: "prepared = (u, payload)" by (cases prepared)
  obtain r w1 where s: "ae_secret env (SecretName d) w = (r, w1)" by (cases "ae_secret env (SecretName d) w")
  note url = assms(1) [unfolded p prepare_Inr]
  show ?thesis
  proof (cases "\<exists>secret. r = Inr secret \<and> secret \<noteq> [] \<and> \<not> list_ex line_break secret")
    case True
    then obtain secret where secret: "r = Inr secret" "secret \<noteq> []" "\<not> list_ex line_break secret" by blast
    let ?c = "\<lparr>cl_URL = u, cl_Payload = payload, cl_Accept = accept, cl_Authorization = ''Bearer '' @ secret,
                   cl_Private = AllowPrivateNetwork d\<rparr>"
    have "call_allowed env d req ?c"
      using url completionURL_scheme s secret by (fastforce simp: call_allowed_def)
    with assms(2) secret s show ?thesis by (simp add: exchange_def p)
  next
    case False
    with s show ?thesis by (auto simp: exchange_def split: sum.splits)
  qed
qed

text \<open>
  C7: a credential leaves only in a request to the completion endpoint of its own destination, over TLS,
  or over plain HTTP to a private host of a destination that allows it, and through the dialer of that
  permission: replacing the client outside such requests changes nothing in what an execution or a
  stream does.
\<close>

theorem credential_stays_home:
  assumes "\<forall>dl c v. call_allowed env d req c \<longrightarrow> send dl c v = ae_send env dl c v"
  shows "Execute (with_send env send) d req requested deadline w = Execute env d req requested deadline w
    \<and> OpenStream (with_send env send) d req deadline w = OpenStream env d req deadline w"
proof
  have prep: "prepare (with_send env send) d req s = prepare env d req s" for s
    unfolding prepare_def with_send_simps by (rule refl)
  have "read_completion (with_send env send) x a = read_completion env x a" "stream_result (with_send env send) a = stream_result env a" for x a
    unfolding read_completion_def status_result_def stream_result_def header_of_def with_send_simps by (rule refl)+
  then have comp: "read_completion (with_send env send) = read_completion env" "stream_result (with_send env send) = stream_result env"
    by (simp_all add: fun_eq_iff)
  show "Execute (with_send env send) d req requested deadline w = Execute env d req requested deadline w"
  proof (cases "prepare env d req True")
    case (Inr p)
    show ?thesis unfolding Execute_def prep Inr sum.case comp exchange_allowed [OF Inr assms] by (rule refl)
  qed (simp add: Execute_def prep)
  show "OpenStream (with_send env send) d req deadline w = OpenStream env d req deadline w"
  proof (cases "prepare env d req (StreamFlag req)")
    case (Inr p)
    show ?thesis unfolding OpenStream_def prep Inr sum.case comp with_send_simps exchange_allowed [OF Inr assms] by (rule refl)
  qed (simp add: OpenStream_def prep)
qed

section \<open>What is asked\<close>


section \<open>What is answered\<close>

lemma map_of_sorted: "map_of (sort_key fst xs) k = map_of xs k" for xs :: "('k :: linorder \<times> 'a) list"
proof -
  have "map_of ys k = map_of (filter (\<lambda>f. fst f = k) ys) k" for ys :: "('k :: linorder \<times> 'a) list" and k
    by (induction ys) auto
  from this [of "sort_key fst xs" k] this [of xs k] show ?thesis by (simp add: sort_key_stable)
qed

lemma map_of_set_model:
  "\<exists>fs. set_model m requested = JObj fs \<and> sorted (map fst fs)
     \<and> (\<forall>k. map_of fs k = (if k = ''model'' then Some (JStr requested) else map_of m k))"
proof -
  have "map_of (filter (\<lambda>f. fst f \<noteq> ''model'') m) k = (if k = ''model'' then None else map_of m k)" for k
    by (induction m) auto
  then show ?thesis by (simp add: set_model_def map_of_sorted del: sort_key_simps)
qed

lemma normalizeResponse_Some:
  assumes "normalizeResponse body requested = Some v"
  shows "\<exists>m choices. parse_object body = Some m \<and> v = set_model m requested \<and> map_of m ''choices'' = Some (JArr choices)
    \<and> choices \<noteq> [] \<and> list_all valid_response_choice choices"
  using assms by (auto simp: normalizeResponse_def Let_def unmarshal_list_def split: option.splits if_splits json.splits lit.splits)

lemma responseUsage_Some: "responseUsage body = Some (i, n) \<Longrightarrow> (\<forall>x. i = Some x \<longrightarrow> 0 \<le> x) \<and> (\<forall>x. n = Some x \<longrightarrow> 0 \<le> x)"
  by (auto simp: responseUsage_def usageTokens_def split: option.splits if_splits)


section \<open>A provider\<close>

definition adapter_body :: bytes where
  "adapter_body = ''{\"id\":\"1\",\"object\":\"chat.completion\",\"choices\":[{\"index\":0,\"message\":{\"role\":\"assistant\",\"content\":\"x\"}}]}''"

definition adapter_answer :: answer where
  "adapter_answer = \<lparr>an_Status = 200, an_Header = (\<lambda>n. if n = ''Content-Type'' then ''application/json'' else []),
     an_Body = adapter_body, an_End = EndEOF\<rparr>"

definition adapter_world :: "nat adapter_env" where
  "adapter_world = \<lparr>ae_float = (\<lambda>q. ''1''), ae_marshal = (\<lambda>v. Some (print_json v)),
     ae_url = (\<lambda>s. Some \<lparr>ur_Scheme = ''https'', ur_User = False, ur_Host = ''api.acme'', ur_Path = ''/v1/'', ur_RawPath = [], ur_RawQuery = [],
        ur_Fragment = []\<rparr>),
     ae_addr = (\<lambda>h. None), ae_request = (\<lambda>u. True), ae_sha = (\<lambda>s. s), ae_media = Some, ae_secret = (\<lambda>n w. (Inr ''key'', w)),
     ae_send = (\<lambda>dl c w. (Inr adapter_answer, Suc w))\<rparr>"

definition adapter_destination :: destination where
  "adapter_destination = example_destination ''d''"

lemma adapter_prepared: "is_ok (prepare adapter_world adapter_destination req True)"
  by (simp add: prepare_def adapter_world_def adapter_destination_def example_destination_def completionURL_def)

lemma adapter_exchanged:
  "exchange adapter_world adapter_destination dl accept p w = (Inr adapter_answer, Suc w)"
  by (simp add: exchange_def adapter_world_def adapter_destination_def line_break_def newline_char)

lemma adapter_normalised: "normalizeResponse adapter_body ''gpt'' \<noteq> None \<and> responseUsage adapter_body = Some (None, None)"
  by code_simp

lemma adapter_executed:
  "\<exists>r. Execute adapter_world adapter_destination req ''gpt'' dl w = ((r, []), Suc w) \<and> StatusCode r = 200"
proof -
  obtain p where p: "prepare adapter_world adapter_destination req True = Inr p" using adapter_prepared is_ok_iff by metis
  obtain v where v: "normalizeResponse adapter_body ''gpt'' = Some v" using adapter_normalised by auto
  have "length adapter_body \<le> MaxResponseBytes" by (simp add: adapter_body_def MaxResponseBytes_def)
  then have "\<exists>r. read_completion adapter_world ''gpt'' adapter_answer = Inr r \<and> StatusCode r = 200"
    using v adapter_normalised
    by (simp add: read_completion_def adapter_answer_def adapter_world_def status_result_def ok_status_def boundedHeader_def Let_def not_less)
  with p show ?thesis by (auto simp: Execute_def adapter_exchanged)
qed

theorem credential_stays_home_witness:
  "\<exists>r. Execute (with_send adapter_world (\<lambda>dl c w. if call_allowed adapter_world adapter_destination zero_request c
        then (Inr adapter_answer, Suc w) else (Inl ([], True), 0))) adapter_destination zero_request ''gpt'' 9 5 = ((r, []), 6)"
proof -
  let ?send = "\<lambda>dl c w. if call_allowed adapter_world adapter_destination zero_request c
        then (Inr adapter_answer, Suc w) else (Inl ([], True), 0)"
  have "\<forall>dl c v. call_allowed adapter_world adapter_destination zero_request c \<longrightarrow> ?send dl c v = ae_send adapter_world dl c v"
    by (simp add: adapter_world_def)
  from credential_stays_home [OF this, of "''gpt''" 9 5] adapter_executed [of zero_request 9 5] show ?thesis by auto
qed


definition adapter_request_body :: bytes where
  "adapter_request_body = ''{\"model\":\"gpt\",\"max_tokens\":5,\"messages\":[{\"role\":\"user\",\"content\":\"hi\"}]}''"

lemma adapter_request_read:
  "case parse_value (Suc (length (lex adapter_request_body))) (lex adapter_request_body) of
     None \<Rightarrow> False
   | Some (v, rest) \<Rightarrow> rest = [] \<and> (case dec_request zero_request v of
         None \<Rightarrow> False
       | Some r \<Rightarrow> is_ok (validateRequest r) \<and> Temperature r = None \<and> TopP r = None \<and> MaxTokens r = Some 5)"
  by code_simp

lemma adapter_request_valid: "is_ok (ValidateJSONDocument adapter_request_body)"
  by code_simp

lemma adapter_request_parsed:
  "\<exists>req caps. Parse adapter_request_body = Inr (req, caps) \<and> Temperature req = None \<and> TopP req = None \<and> MaxTokens req = Some 5"
proof -
  have "adapter_request_body \<noteq> []" "length adapter_request_body \<le> MaxRequestBytes" by (simp_all add: adapter_request_body_def MaxRequestBytes_def)
  with adapter_request_valid adapter_request_read show ?thesis
    unfolding Parse_def
    by (auto simp: is_ok_iff check_def and_then_def split: option.splits prod.splits sum.splits if_splits)
qed


end
