(* ===== verification/SecretCrypto.thy ===== *)
theory SecretCrypto
  imports AdminMutation
begin

text \<open>
  The encryption of stored secrets, \<open>internal/storage/secret_crypto.go\<close>, and the check value of a master
  key, \<open>masterKeyCheck\<close> of \<open>keyring.go\<close>. XChaCha20-Poly1305, HKDF and HMAC are parameters.
\<close>

section \<open>Big-endian integers\<close>

fun big_endian :: "nat \<Rightarrow> nat \<Rightarrow> bytes" where
  "big_endian 0 x = []"
| "big_endian (Suc n) x = big_endian n (x div 256) @ [char_of (x mod 256)]"

fun big_endian_value :: "nat \<Rightarrow> bytes \<Rightarrow> nat" where
  "big_endian_value acc [] = acc"
| "big_endian_value acc (c # s) = big_endian_value (256 * acc + byte c) s"

lemma length_big_endian [simp]: "length (big_endian n x) = n"
  by (induction n arbitrary: x) simp_all

lemma big_endian_value_snoc: "big_endian_value acc (s @ [c]) = 256 * big_endian_value acc s + byte c"
  by (induction acc s rule: big_endian_value.induct) simp_all

lemma big_endian_value: "x < 256 ^ n \<Longrightarrow> big_endian_value 0 (big_endian n x) = x"
proof (induction n arbitrary: x)
  case (Suc n)
  then have "x div 256 < 256 ^ n" by (simp add: less_mult_imp_div_less mult.commute)
  then show ?case using Suc.IH by (simp add: big_endian_value_snoc byte_def)
qed simp

lemma big_endian_inject: "x < 256 ^ n \<Longrightarrow> y < 256 ^ n \<Longrightarrow> big_endian n x = big_endian n y \<Longrightarrow> x = y"
  using big_endian_value by metis

section \<open>Associated data\<close>

record secret_context =
  cx_installation :: string
  cx_secret :: string
  cx_version :: int
  cx_key_version :: int

definition secret_domain :: bytes where
  "secret_domain = ''modelcairn/secret/v1'' @ [char_of (0 :: nat)]"

text \<open>\<open>uint32 (len (value))\<close> and \<open>uint64 (version)\<close> keep their value within the bounds that are checked.\<close>

definition length_prefixed :: "string \<Rightarrow> bytes" where
  "length_prefixed s = big_endian 4 (length s) @ s"

definition associatedData :: "secret_context \<Rightarrow> bytes option" where
  "associatedData c =
     (if cx_installation c = [] \<or> cx_secret c = [] \<or> length (cx_installation c) > 128 \<or> length (cx_secret c) > 128
         \<or> cx_version c < 1 \<or> cx_key_version c < 1
      then None
      else Some (secret_domain @ length_prefixed (cx_installation c) @ length_prefixed (cx_secret c)
             @ big_endian 8 (nat (cx_version c)) @ big_endian 8 (nat (cx_key_version c))))"

lemma length_prefixed_inject:
  assumes "length s < 256 ^ 4" "length t < 256 ^ 4" "length_prefixed s @ x = length_prefixed t @ y"
  shows "s = t \<and> x = y"
proof -
  from assms(3) have len: "big_endian 4 (length s) = big_endian 4 (length t)" and rest: "s @ x = t @ y"
    by (simp_all add: length_prefixed_def)
  from big_endian_inject [OF assms(1,2) len] rest show ?thesis by simp
qed

text \<open>
  C40: the associated data of a ciphertext determine the installation, the row, its version and the version
  of the key: a ciphertext moved to another row or kept for another version is authenticated against
  other data.
\<close>

theorem associated_data_binds:
  assumes "associatedData c = Some ad" "associatedData c' = Some ad"
    and "cx_version c < 2 ^ 63" "cx_version c' < 2 ^ 63" "cx_key_version c < 2 ^ 63" "cx_key_version c' < 2 ^ 63"
  shows "c = c'"
proof -
  define tail where "tail c = big_endian 8 (nat (cx_version c)) @ big_endian 8 (nat (cx_key_version c))" for c :: secret_context
  have b: "length (cx_installation c) < 256 ^ 4" "length (cx_installation c') < 256 ^ 4" "length (cx_secret c) < 256 ^ 4"
    "length (cx_secret c') < 256 ^ 4" "cx_version c \<ge> 1" "cx_version c' \<ge> 1" "cx_key_version c \<ge> 1" "cx_key_version c' \<ge> 1"
    using assms(1,2) by (auto simp: associatedData_def split: if_splits)
  from assms(1,2) have "length_prefixed (cx_installation c) @ length_prefixed (cx_secret c) @ tail c
      = length_prefixed (cx_installation c') @ length_prefixed (cx_secret c') @ tail c'"
    by (auto simp: associatedData_def tail_def split: if_splits)
  from length_prefixed_inject [OF b(1,2) this] have i: "cx_installation c = cx_installation c'"
    and "length_prefixed (cx_secret c) @ tail c = length_prefixed (cx_secret c') @ tail c'" by simp_all
  from length_prefixed_inject [OF b(3,4) this(2)] have s: "cx_secret c = cx_secret c'" and "tail c = tail c'" by simp_all
  then have v: "big_endian 8 (nat (cx_version c)) = big_endian 8 (nat (cx_version c'))"
    "big_endian 8 (nat (cx_key_version c)) = big_endian 8 (nat (cx_key_version c'))" by (simp_all add: tail_def)
  have "nat (cx_version c) = nat (cx_version c')" "nat (cx_key_version c) = nat (cx_key_version c')"
    by (rule big_endian_inject [OF _ _ v(1)]; use assms(3,4) in simp) (rule big_endian_inject [OF _ _ v(2)]; use assms(5,6) in simp)
  with i s b show ?thesis by (intro secret_context.equality) simp_all
qed

section \<open>Sealing\<close>

record secret_crypto =
  aead_seal :: "bytes \<Rightarrow> bytes \<Rightarrow> bytes \<Rightarrow> bytes \<Rightarrow> bytes"
  aead_open :: "bytes \<Rightarrow> bytes \<Rightarrow> bytes \<Rightarrow> bytes \<Rightarrow> bytes option"
  hkdf_key :: "bytes \<Rightarrow> bytes \<Rightarrow> bytes"
  hmac_sha256 :: "bytes \<Rightarrow> bytes \<Rightarrow> bytes"
  sha_256 :: "bytes \<Rightarrow> bytes"

abbreviation invalid_secret :: mutation_error where "invalid_secret \<equiv> MutationFailed ''invalid_secret''"
abbreviation secret_authentication :: mutation_error where "secret_authentication \<equiv> MutationFailed ''secret_authentication_failed''"
abbreviation key_unavailable :: mutation_error where "key_unavailable \<equiv> MutationUnavailable"

definition sealSecret ::
    "secret_crypto \<Rightarrow> bytes option \<Rightarrow> bytes \<Rightarrow> bytes \<Rightarrow> secret_context \<Rightarrow> mutation_error + bytes \<times> bytes" where
  "sealSecret cr random key plain c =
     check (\<not> (length plain < 8 \<or> length plain > 16384 \<or> \<not> utf8_valid plain)) invalid_secret
     (case associatedData c of
        None \<Rightarrow> Inl secret_authentication
      | Some ad \<Rightarrow>
          check (length key = 32) secret_authentication
          (case random of
             None \<Rightarrow> Inl (MutationFailed ''secret_randomness_unavailable'')
           | Some nonce \<Rightarrow> Inr (nonce, aead_seal cr key nonce plain ad)))"

definition openSecret :: "secret_crypto \<Rightarrow> bytes \<Rightarrow> bytes \<Rightarrow> bytes \<Rightarrow> secret_context \<Rightarrow> bytes option" where
  "openSecret cr key nonce ciphertext c =
     (if length nonce \<noteq> 24 \<or> length ciphertext < 8 + 16 \<or> length ciphertext > 16384 + 16 then None
      else (case associatedData c of
              None \<Rightarrow> None
            | Some ad \<Rightarrow>
                if length key \<noteq> 32 then None
                else (case aead_open cr key nonce ciphertext ad of
                        None \<Rightarrow> None
                      | Some plain \<Rightarrow> if utf8_valid plain then Some plain else None)))"

definition secretFingerprint :: "secret_crypto \<Rightarrow> bytes \<Rightarrow> bytes \<Rightarrow> string \<Rightarrow> string option" where
  "secretFingerprint cr key plain inst =
     (if length key \<noteq> 32 \<or> inst = [] then None
      else Some (''mc_fp_'' @ base64_encode (take 12 (hmac_sha256 cr (hkdf_key cr key inst) plain))))"

definition masterKeyCheck :: "secret_crypto \<Rightarrow> bytes \<Rightarrow> string \<Rightarrow> bytes option" where
  "masterKeyCheck cr key inst =
     (if length key \<noteq> 32 \<or> inst = [] then None
      else Some (hmac_sha256 cr key (''modelcairn/master-key-check/v1'' @ [char_of (0 :: nat)] @ inst)))"

section \<open>The contract of the cipher\<close>

text \<open>
  What the code relies on of \<open>chacha20poly1305\<close>: opening what was sealed with the same key, nonce and
  associated data gives the plaintext, the ciphertext is sixteen bytes longer, and only what was sealed
  opens. A digest of HMAC is not empty.
\<close>

definition cipher_laws :: "secret_crypto \<Rightarrow> bool" where
  "cipher_laws cr \<longleftrightarrow> (\<forall>k n p a. aead_open cr k n (aead_seal cr k n p a) a = Some p \<and> length (aead_seal cr k n p a) = length p + 16)
     \<and> (\<forall>k n c a p. aead_open cr k n c a = Some p \<longrightarrow> c = aead_seal cr k n p a)
     \<and> (\<forall>k m. hmac_sha256 cr k m \<noteq> [])"

definition secret_fits :: "bytes \<Rightarrow> bool" where
  "secret_fits plain \<longleftrightarrow> 8 \<le> length plain \<and> length plain \<le> 16384 \<and> utf8_valid plain"

lemma sealSecret_Inr:
  "sealSecret cr random key plain c = Inr (nonce, text) \<longleftrightarrow>
     secret_fits plain \<and> (\<exists>ad. associatedData c = Some ad \<and> length key = 32 \<and> random = Some nonce \<and> text = aead_seal cr key nonce plain ad)"
  by (auto simp: sealSecret_def secret_fits_def not_less split: option.splits)

lemma openSecret_Some:
  "openSecret cr key nonce text c = Some plain \<longleftrightarrow>
     length nonce = 24 \<and> 24 \<le> length text \<and> length text \<le> 16400 \<and> length key = 32 \<and> utf8_valid plain
     \<and> (\<exists>ad. associatedData c = Some ad \<and> aead_open cr key nonce text ad = Some plain)"
  by (auto simp: openSecret_def not_less split: option.splits if_splits)

text \<open>\<open>rand.Read\<close> fills the nonce of 24 bytes.\<close>

definition random_ok :: "bytes option \<Rightarrow> bool" where
  "random_ok random \<longleftrightarrow> (case random of None \<Rightarrow> True | Some nonce \<Rightarrow> length nonce = 24)"

lemma open_sealed:
  assumes "cipher_laws cr" "random_ok random" "sealSecret cr random key plain c = Inr (nonce, text)"
  shows "openSecret cr key nonce text c = Some plain"
  using assms by (auto simp: sealSecret_Inr openSecret_Some cipher_laws_def random_ok_def secret_fits_def)

lemma open_fits:
  assumes "cipher_laws cr" "openSecret cr key nonce text c = Some plain"
  shows "secret_fits plain"
proof -
  from assms obtain ad where o: "aead_open cr key nonce text ad = Some plain" "24 \<le> length text" "length text \<le> 16400" "utf8_valid plain"
    by (auto simp: openSecret_Some)
  with assms(1) have "length text = length plain + 16" unfolding cipher_laws_def by metis
  with o show ?thesis by (simp add: secret_fits_def)
qed

end
