(* ===== verification/Keyring.thy ===== *)
theory Keyring
  imports SecretCrypto JsonPrint Redaction Repository "HOL-Library.List_Lexorder" "HOL-Library.Char_ord"
begin

text \<open>
  The directory of master keys, \<open>internal/storage/keyring.go\<close>: one file for each version, published by
  a rename of a private temporary and never overwritten. The directory is the list of its entries; a
  file carries its bytes and what \<open>validatePrivateFile\<close> makes of its mode and owner.
\<close>

record key_file =
  kf_bytes :: bytes
  kf_private :: bool
  kf_regular :: bool

type_synonym key_dir = "(string \<times> key_file) list"

definition keyFilename :: "int \<Rightarrow> string" where
  "keyFilename v = CHR ''v'' # int_text v @ ''.key''"

text \<open>The key a version has in a directory: the code reads 33 bytes and wants 32.\<close>

definition key_at :: "key_dir \<Rightarrow> int \<Rightarrow> bytes option" where
  "key_at dir v =
     (if v < 1 then None
      else (case map_of dir (keyFilename v) of
              None \<Rightarrow> None
            | Some k \<Rightarrow> if kf_private k \<and> kf_regular k \<and> length (kf_bytes k) = 32 then Some (kf_bytes k) else None))"

definition load_key :: "faults \<Rightarrow> string \<Rightarrow> key_dir \<Rightarrow> int \<Rightarrow> mutation_error + bytes" where
  "load_key f site dir v =
     (case key_at dir v of
        None \<Rightarrow> Inl key_unavailable
      | Some key \<Rightarrow> check (\<not> fails f site) key_unavailable (Inr key))"

lemma load_key_Inr: "load_key f site dir v = Inr key \<longleftrightarrow> key_at dir v = Some key \<and> \<not> fails f site"
  by (auto simp: load_key_def split: option.splits)

definition is_key_name :: "string \<Rightarrow> bool" where
  "is_key_name name \<longleftrightarrow> has_prefix name ''v'' \<and> has_suffix name ''.key''"

definition key_version :: "string \<Rightarrow> int option" where
  "key_version name =
     (let middle = tl name
      in case parse_int64 (if has_suffix middle ''.key'' then take (length middle - 4) middle else middle) of
           None \<Rightarrow> None
         | Some v \<Rightarrow> if v < 1 \<or> keyFilename v \<noteq> name then None else Some v)"

definition key_versions :: "faults \<Rightarrow> key_dir \<Rightarrow> mutation_error + int list" where
  "key_versions f dir =
     check (\<not> fails f ''read keyring'') (MutationFailed ''read keyring'')
       (case those (map key_version (filter is_key_name (map fst dir))) of
          None \<Rightarrow> Inl (MutationFailed ''invalid keyring entry'')
        | Some versions \<Rightarrow> Inr (sort versions))"

section \<open>Publishing a key\<close>

text \<open>
  What the random source gives, and how much of a key reaches a file whose writing fails. A checkpoint
  is recorded with the directory at that moment.
\<close>

record key_env =
  ke_key :: "bytes option"
  ke_name :: "bytes option"
  ke_written :: nat

type_synonym key_trace = "(string \<times> key_dir) list"

definition temporary_name :: "bytes \<Rightarrow> string" where
  "temporary_name random = ''.new-'' @ concat (map (\<lambda>c. [hex_char (byte c div 16), hex_char (byte c mod 16)]) random) @ ''.tmp''"

definition private_file :: "bytes \<Rightarrow> key_file" where
  "private_file s = \<lparr>kf_bytes = s, kf_private = True, kf_regular = True\<rparr>"

definition unlink :: "string \<Rightarrow> key_dir \<Rightarrow> key_dir" where
  "unlink name dir = filter (\<lambda>e. fst e \<noteq> name) dir"

definition create_key :: "faults \<Rightarrow> key_env \<Rightarrow> int \<Rightarrow> key_dir \<Rightarrow> (mutation_error + bytes) \<times> key_trace \<times> key_dir" where
  "create_key f ke v dir =
     (if v < 1 then (Inl key_unavailable, [], dir)
      else case (ke_key ke, ke_name ke) of
        (Some key, Some random) \<Rightarrow>
          let temporary = temporary_name random;
              created = (temporary, private_file []) # dir;
              cleanup = (\<lambda>d. if fails f ''remove temporary'' then d else unlink temporary d)
          in if fails f ''create private key temporary'' \<or> map_of dir temporary \<noteq> None
             then (Inl (MutationFailed ''create private key temporary''), [], dir)
             else if fails f ''write private key''
             then (Inl (MutationFailed ''write private key''), [(''temporary-created'', created)],
                   cleanup ((temporary, private_file (take (ke_written ke) key)) # dir))
             else
               let synced = (temporary, private_file key) # dir;
                   published = (keyFilename v, private_file key) # dir;
                   trace = [(''temporary-created'', created), (''file-synced'', synced)]
               in if fails f ''publish master key'' \<or> map_of dir (keyFilename v) \<noteq> None
                  then (Inl (MutationFailed ''publish master key''), trace, cleanup synced)
                  else if fails f ''sync keyring''
                  then (Inl (MutationFailed ''sync keyring''), trace @ [(''key-renamed'', published)], published)
                  else (Inr key, trace @ [(''key-renamed'', published), (''directory-synced'', published)], published)
      | (None, _) \<Rightarrow> (Inl (MutationFailed ''generate master key''), [], dir)
      | (Some _, None) \<Rightarrow> (Inl (MutationFailed ''generate key filename''), [], dir))"

section \<open>File names\<close>

lemma int_text_inject: "1 \<le> v \<Longrightarrow> 1 \<le> w \<Longrightarrow> int_text v = int_text w \<Longrightarrow> v = w"
  by (simp add: int_text_def)

lemma keyFilename_inject: "1 \<le> v \<Longrightarrow> 1 \<le> w \<Longrightarrow> keyFilename v = keyFilename w \<longleftrightarrow> v = w"
  using int_text_inject by (auto simp: keyFilename_def)

lemma temporary_not_key: "temporary_name random \<noteq> keyFilename v"
  by (simp add: temporary_name_def keyFilename_def)

lemma has_suffix_append: "has_suffix (s @ p) p"
  by (simp add: has_suffix_def has_prefix_iff)

lemma is_key_filename: "is_key_name (keyFilename v)"
  using has_suffix_append [of "CHR ''v'' # int_text v" "''.key''"]
  by (simp add: is_key_name_def keyFilename_def has_prefix_def)

lemma key_version_filename:
  assumes "1 \<le> v" "v \<le> max_int64"
  shows "key_version (keyFilename v) = Some v"
  using assms has_suffix_append [of "int_text v" "''.key''"] parse_int64_int_text [of v]
  by (simp add: key_version_def keyFilename_def max_int64_def)

lemma key_version_Some: "key_version name = Some v \<Longrightarrow> 1 \<le> v \<and> keyFilename v = name"
  by (auto simp: key_version_def Let_def split: option.splits if_splits)

lemma set_those: "those xs = Some ys \<Longrightarrow> set xs = Some ` set ys"
  by (induction xs arbitrary: ys) (auto split: option.splits)

text \<open>The versions are those of the files: every version that has a key is among them.\<close>

lemma key_versions_Inr:
  assumes "key_versions f dir = Inr vs"
  shows "v \<in> set vs \<longleftrightarrow> 1 \<le> v \<and> v \<le> max_int64 \<and> keyFilename v \<in> fst ` set dir"
proof -
  from assms obtain ws where ws: "those (map key_version (filter is_key_name (map fst dir))) = Some ws" "vs = sort ws"
    by (auto simp: key_versions_def split: option.splits)
  from set_those [OF ws(1)] have img: "key_version ` {n \<in> fst ` set dir. is_key_name n} = Some ` set vs"
    using ws(2) by simp
  show ?thesis
  proof
    assume "v \<in> set vs"
    with img obtain n where n: "n \<in> fst ` set dir" "key_version n = Some v" by (metis (no_types, lifting) image_iff mem_Collect_eq)
    moreover have "v \<le> max_int64"
      using n(2) by (auto simp: key_version_def parse_int64_def Let_def split: option.splits if_splits)
    ultimately show "1 \<le> v \<and> v \<le> max_int64 \<and> keyFilename v \<in> fst ` set dir" using key_version_Some by auto
  next
    assume v: "1 \<le> v \<and> v \<le> max_int64 \<and> keyFilename v \<in> fst ` set dir"
    then have "Some v \<in> key_version ` {n \<in> fst ` set dir. is_key_name n}"
      using key_version_filename is_key_filename by (metis (mono_tags, lifting) image_iff mem_Collect_eq)
    with img show "v \<in> set vs" by auto
  qed
qed

section \<open>A directory keeps its keys\<close>

definition keeps_keys :: "key_dir \<Rightarrow> key_dir \<Rightarrow> bool" where
  "keeps_keys dir dir' \<longleftrightarrow> (\<forall>v key. key_at dir v = Some key \<longrightarrow> key_at dir' v = Some key)"

lemma keeps_keys_refl [simp]: "keeps_keys dir dir"
  by (simp add: keeps_keys_def)

lemma keeps_keys_trans: "keeps_keys a b \<Longrightarrow> keeps_keys b c \<Longrightarrow> keeps_keys a c"
  by (simp add: keeps_keys_def)

lemma keeps_keysD: "keeps_keys dir dir' \<Longrightarrow> key_at dir v = Some key \<Longrightarrow> key_at dir' v = Some key"
  by (simp add: keeps_keys_def)

lemma key_at_Some: "key_at dir v = Some key \<Longrightarrow> 1 \<le> v \<and> map_of dir (keyFilename v) \<noteq> None \<and> length key = 32"
  by (auto simp: key_at_def split: if_splits option.splits)

lemma keeps_keys_add: "map_of dir name = None \<Longrightarrow> keeps_keys dir ((name, k) # dir)"
  by (auto simp: keeps_keys_def key_at_def split: if_splits option.splits)

lemma map_of_unlink: "map_of (unlink name dir) n = (if n = name then None else map_of dir n)"
  by (induction dir) (auto simp: unlink_def)

lemma keeps_keys_unlink_temporary: "keeps_keys dir (unlink (temporary_name random) dir)"
  using temporary_not_key [of random, symmetric] by (auto simp: keeps_keys_def key_at_def map_of_unlink split: if_splits)

lemma key_at_unlink: "1 \<le> v \<Longrightarrow> 1 \<le> w \<Longrightarrow> key_at (unlink (keyFilename w) dir) v = (if v = w then None else key_at dir v)"
  by (simp add: key_at_def map_of_unlink keyFilename_inject)

lemma create_keeps_keys:
  assumes "create_key f ke v dir = (r, trace, dir')"
  shows "keeps_keys dir dir'" "\<forall>x\<in>set trace. keeps_keys dir (snd x)"
proof -
  have add: "keeps_keys dir ((name, k) # dir)" if "map_of dir name = None" for name k
    using that by (rule keeps_keys_add)
  have rem: "keeps_keys dir (unlink (temporary_name random) ((temporary_name random, k) # dir))"
    if "map_of dir (temporary_name random) = None" for random k
    by (rule keeps_keys_trans [OF add [OF that] keeps_keys_unlink_temporary])
  from assms add rem show "keeps_keys dir dir'" "\<forall>x\<in>set trace. keeps_keys dir (snd x)"
    by (auto simp: create_key_def Let_def split: if_splits option.splits)
qed

lemma create_publishes:
  assumes "create_key f ke v dir = (Inr key, trace, dir')"
  shows "1 \<le> v \<and> map_of dir (keyFilename v) = None \<and> ke_key ke = Some key \<and> (length key = 32 \<longrightarrow> key_at dir' v = Some key)
    \<and> trace \<noteq> []"
  using assms by (auto simp: create_key_def Let_def key_at_def private_file_def split: if_splits option.splits)

end
