(* ===== verification/SecretStore.thy ===== *)
theory SecretStore
  imports Keyring Operational
begin

text \<open>
  Stored secrets, \<open>internal/storage/secret_state.go\<close>: rows sealed under the master keys, the store that
  keeps the active key in memory and registers every plaintext with the redactor of the installation.

  The record holds the fields of \<open>SecretStore\<close> with the database and the key directory it works on,
  and what the checkpoints of the code would observe: the committed database and the directory. Its
  locks make every operation one step. The other components see of the store only whether it is available.
\<close>

definition MaxSecrets :: nat where "MaxSecrets = 4096"

record secret_metadata =
  sm_Name :: string
  sm_Fingerprint :: string
  sm_ResourceVersion :: int
  sm_KeyVersion :: int
  sm_CreatedAt :: time
  sm_UpdatedAt :: time

record put_secret =
  ps_Name :: string
  ps_Value :: bytes
  ps_ExpectedVersion :: int

record secret_state =
  ss_db :: database
  ss_dir :: key_dir
  ss_installation :: string
  ss_active :: int
  ss_key :: bytes
  ss_unavailable :: bool
  ss_redactor :: redactor
  ss_registrations :: "string \<Rightarrow> nat option"
  ss_trace :: "(string \<times> database \<times> key_dir) list"

text \<open>The nonce drawn for a row is given by the id of the row.\<close>

record secret_env =
  sx_crypto :: secret_crypto
  sx_faults :: faults
  sx_now :: time
  sx_audit :: time
  sx_uuid :: "string option"
  sx_nonce :: "string \<Rightarrow> bytes option"
  sx_keys :: key_env

abbreviation not_authentic :: mutation_error where "not_authentic \<equiv> MutationFailed ''secret authentication failed''"

definition row_context :: "string \<Rightarrow> secret_row \<Rightarrow> secret_context" where
  "row_context inst r = \<lparr>cx_installation = inst, cx_secret = se_id r, cx_version = se_version r, cx_key_version = se_key_version r\<rparr>"

definition secret_algorithm :: string where
  "secret_algorithm = ''XCHACHA20-POLY1305''"

section \<open>Metadata\<close>

definition scanSecretMetadata :: "secret_row \<Rightarrow> mutation_error + secret_metadata" where
  "scanSecretMetadata r =
     (case (se_created r, se_updated r) of
        (Some c, Some u) \<Rightarrow> Inr \<lparr>sm_Name = se_name r, sm_Fingerprint = se_fingerprint r, sm_ResourceVersion = se_version r,
          sm_KeyVersion = se_key_version r, sm_CreatedAt = c, sm_UpdatedAt = u\<rparr>
      | (None, _) \<Rightarrow> Inl (MutationFailed ''parse secret created_at'')
      | (Some _, None) \<Rightarrow> Inl (MutationFailed ''parse secret updated_at''))"

definition GetMetadata :: "secret_env \<Rightarrow> string \<Rightarrow> secret_state \<Rightarrow> mutation_error + secret_metadata" where
  "GetMetadata env name s =
     (if \<not> secretNamePattern name then Inl invalid_resource
      else if ss_unavailable s then Inl key_unavailable
      else if fails (sx_faults env) ''scan secret metadata'' then Inl (MutationFailed ''scan secret metadata'')
      else (case find (\<lambda>r. se_name r = name) (secret_rows (ss_db s)) of
              None \<Rightarrow> Inl (MutationCode ''not_found'')
            | Some r \<Rightarrow> scanSecretMetadata r))"

fun scan_metadata :: "secret_row list \<Rightarrow> mutation_error + secret_metadata list" where
  "scan_metadata [] = Inr []"
| "scan_metadata (r # rs) = and_then (scanSecretMetadata r) (\<lambda>m. and_then (scan_metadata rs) (\<lambda>ms. Inr (m # ms)))"

definition ListMetadata :: "secret_env \<Rightarrow> secret_state \<Rightarrow> mutation_error + secret_metadata list" where
  "ListMetadata env s =
     (if ss_unavailable s then Inl key_unavailable
      else if fails (sx_faults env) ''list secret metadata'' then Inl (MutationFailed ''list secret metadata'')
      else scan_metadata (sort_key se_name (secret_rows (ss_db s))))"

definition ListMetadataPage ::
    "secret_env \<Rightarrow> string \<Rightarrow> int \<Rightarrow> secret_state \<Rightarrow> mutation_error + secret_metadata list \<times> string" where
  "ListMetadataPage env afterID limit s =
     (if length afterID > 64 \<or> limit < 1 \<or> limit > 200 then Inl invalid_resource
      else if ss_unavailable s then Inl key_unavailable
      else if fails (sx_faults env) ''list secret metadata page'' then Inl (MutationFailed ''list secret metadata page'')
      else
        let rows = take (nat limit + 1) (sort_key se_id (filter (\<lambda>r. afterID < se_id r) (secret_rows (ss_db s)))) in
        and_then (scan_metadata rows) (\<lambda>entries.
          Inr (take (nat limit) entries, if length rows > nat limit then se_id (rows ! (nat limit - 1)) else [])))"

section \<open>Registration with the redactor\<close>

definition replaceRegistration :: "secret_crypto \<Rightarrow> string \<Rightarrow> bytes \<Rightarrow> secret_state \<Rightarrow> bool \<times> secret_state" where
  "replaceRegistration cr rid v s =
     (case Register (sha_256 cr) (ss_redactor s) v of
        (Inl e, r) \<Rightarrow> (False, s\<lparr>ss_redactor := r\<rparr>)
      | (Inr k, r) \<Rightarrow>
          (True, s\<lparr>ss_redactor := (case ss_registrations s rid of None \<Rightarrow> r | Some j \<Rightarrow> remove r j),
                   ss_registrations := (ss_registrations s)(rid := Some k)\<rparr>))"

definition removeRegistration :: "string \<Rightarrow> secret_state \<Rightarrow> secret_state" where
  "removeRegistration rid s =
     s\<lparr>ss_registrations := (ss_registrations s)(rid := None),
       ss_redactor := (case ss_registrations s rid of None \<Rightarrow> ss_redactor s | Some j \<Rightarrow> remove (ss_redactor s) j)\<rparr>"

text \<open>\<open>ids\<close>: the registered ids, in the order in which the map is walked.\<close>

definition close_store :: "string list \<Rightarrow> secret_state \<Rightarrow> secret_state" where
  "close_store ids s = (fold removeRegistration ids (s\<lparr>ss_unavailable := True\<rparr>))\<lparr>ss_key := []\<rparr>"

section \<open>Writing\<close>

text \<open>Go's \<open>current + 1\<close> on \<open>int64\<close>.\<close>

definition next_int64 :: "int \<Rightarrow> int" where
  "next_int64 v = (if v = max_int64 then - max_int64 - 1 else v + 1)"

text \<open>The id, the version and the time of creation a write gives to the row.\<close>

definition secret_slot :: "secret_env \<Rightarrow> put_secret \<Rightarrow> string \<Rightarrow> (mutation_error, string \<times> int \<times> stamp) step" where
  "secret_slot env input fresh_id =
     (if ps_ExpectedVersion input = 0 then
        bind_step (guard (\<not> fails (sx_faults env) ''count secrets'') (MutationFailed ''count secrets'')) (\<lambda>_.
        bind_step (reads (\<lambda>db. find (\<lambda>r. se_name r = ps_Name input) (secret_rows db))) (\<lambda>present.
        bind_step (guard (present = None) (MutationCode ''already_exists'')) (\<lambda>_.
        bind_step (reads (\<lambda>db. length (secret_rows db))) (\<lambda>total.
        bind_step (guard (total < MaxSecrets) invalid_resource) (\<lambda>_.
        returns (fresh_id, 1, Some (sx_now env)))))))
      else
        bind_step (guard (\<not> fails (sx_faults env) ''read secret'') (MutationFailed ''read secret'')) (\<lambda>_.
        bind_step (reads (\<lambda>db. find (\<lambda>r. se_name r = ps_Name input) (secret_rows db))) (\<lambda>present.
        case present of
          None \<Rightarrow> raises (MutationCode ''not_found'')
        | Some r \<Rightarrow>
            bind_step (guard (se_version r = ps_ExpectedVersion input) version_conflict) (\<lambda>_.
            returns (se_id r, next_int64 (se_version r), se_created r)))))"

text \<open>The insert, with the constraints of the table, and the update.\<close>

definition insert_secret :: "faults \<Rightarrow> secret_row \<Rightarrow> (mutation_error, unit) step" where
  "insert_secret f r =
     bind_step (reads (\<lambda>db. \<forall>x\<in>set (secret_rows db). se_id x \<noteq> se_id r \<and> se_name x \<noteq> se_name r)) (\<lambda>unique.
     bind_step (guard (\<not> fails f ''persist encrypted secret'' \<and> unique \<and> se_key_version r > 0 \<and> length (se_nonce r) = 24 \<and> se_version r > 0)
       (MutationFailed ''persist encrypted secret'')) (\<lambda>_.
     modify (\<lambda>db. db\<lparr>secret_rows := secret_rows db @ [r]\<rparr>)))"

definition update_secret :: "faults \<Rightarrow> string \<Rightarrow> int \<Rightarrow> (secret_row \<Rightarrow> secret_row) \<Rightarrow> (mutation_error, unit) step" where
  "update_secret f rid expected k =
     bind_step (guard (\<not> fails f ''persist encrypted secret'') (MutationFailed ''persist encrypted secret'')) (\<lambda>_.
     bind_step (reads (\<lambda>db. update_where (\<lambda>r. se_id r = rid \<and> se_version r = expected) k (secret_rows db))) (\<lambda>(rows, n).
     bind_step (guard (n = 1) version_conflict) (\<lambda>_.
     modify (\<lambda>db. db\<lparr>secret_rows := rows\<rparr>))))"

definition put_secret_tx ::
    "secret_env \<Rightarrow> string \<Rightarrow> int \<Rightarrow> bytes \<Rightarrow> put_secret \<Rightarrow> (mutation_error, secret_metadata \<times> string) step" where
  "put_secret_tx env inst active key input =
     bind_step (need (sx_uuid env) (MutationFailed ''uuid'')) (\<lambda>fresh_id.
     bind_step (secret_slot env input fresh_id) (\<lambda>(rid, version, created).
     bind_step (lift (sealSecret (sx_crypto env) (sx_nonce env rid) key (ps_Value input)
       \<lparr>cx_installation = inst, cx_secret = rid, cx_version = version, cx_key_version = active\<rparr>)) (\<lambda>(nonce, ciphertext).
     bind_step (need (secretFingerprint (sx_crypto env) key (ps_Value input) inst) key_unavailable) (\<lambda>fingerprint.
     bind_step
       (if ps_ExpectedVersion input = 0
        then insert_secret (sx_faults env)
          \<lparr>se_id = rid, se_name = ps_Name input, se_key_version = active, se_algorithm = secret_algorithm, se_nonce = nonce,
           se_ciphertext = ciphertext, se_fingerprint = fingerprint, se_version = version, se_created = created,
           se_updated = Some (sx_now env)\<rparr>
        else update_secret (sx_faults env) rid (ps_ExpectedVersion input)
          (\<lambda>r. r\<lparr>se_key_version := active, se_algorithm := secret_algorithm, se_nonce := nonce, se_ciphertext := ciphertext,
             se_fingerprint := fingerprint, se_version := version, se_updated := Some (sx_now env)\<rparr>)) (\<lambda>_.
     bind_step (need created (MutationFailed ''parse created_at'')) (\<lambda>createdAt.
     returns (\<lparr>sm_Name = ps_Name input, sm_Fingerprint = fingerprint, sm_ResourceVersion = version, sm_KeyVersion = active,
       sm_CreatedAt = createdAt, sm_UpdatedAt = sx_now env\<rparr>, rid)))))))"

definition put_work ::
    "secret_env \<Rightarrow> string \<Rightarrow> int \<Rightarrow> bytes \<Rightarrow> put_secret \<Rightarrow> actor \<Rightarrow> (mutation_error, secret_metadata \<times> string) step" where
  "put_work env inst active key input a =
     bind_step (put_secret_tx env inst active key input) (\<lambda>(metadata, rid).
     bind_step (insertAudit (sx_faults env) (MutationFailed ''insert audit event'') (sx_audit env) a
       (if ps_ExpectedVersion input > 0 then ''secret.update'' else ''secret.create'') ''Secret'' rid ''success''
       (sm_ResourceVersion metadata)) (\<lambda>_.
     returns (metadata, rid)))"

text \<open>
  The transaction is that of \<open>mutate\<close>: after a commit that reports an error the store is unavailable.
  A value that cannot be registered makes it unavailable too.
\<close>

definition putAuthorized ::
    "secret_env \<Rightarrow> (mutation_error, actor) step \<Rightarrow> put_secret \<Rightarrow> secret_state
     \<Rightarrow> (mutation_error + secret_metadata) \<times> secret_state" where
  "putAuthorized env authorize input s =
     (if \<not> secretNamePattern (ps_Name input) \<or> ps_ExpectedVersion input < 0 then (Inl invalid_resource, s)
      else (case mutate (sx_faults env) authorize (put_work env (ss_installation s) (ss_active s) (ss_key s) input)
                   (ss_unavailable s) (ss_db s) of
              (Inl e, unavail, db) \<Rightarrow> (Inl e, s\<lparr>ss_db := db, ss_unavailable := unavail\<rparr>)
            | (Inr (metadata, rid), unavail, db) \<Rightarrow>
                (case replaceRegistration (sx_crypto env) rid (ps_Value input) (s\<lparr>ss_db := db, ss_unavailable := unavail\<rparr>) of
                   (False, s') \<Rightarrow> (Inl (MutationFailed ''register secret redaction''), s'\<lparr>ss_unavailable := True\<rparr>)
                 | (True, s') \<Rightarrow> (Inr metadata, s'))))"

definition SecretPut :: "secret_env \<Rightarrow> actor \<Rightarrow> put_secret \<Rightarrow> secret_state \<Rightarrow> (mutation_error + secret_metadata) \<times> secret_state" where
  "SecretPut env a input s =
     (case validateActor a of Inl e \<Rightarrow> (Inl e, s) | Inr _ \<Rightarrow> putAuthorized env (returns a) input s)"

definition PutSession ::
    "secret_env \<Rightarrow> mutation_env \<Rightarrow> put_secret \<Rightarrow> secret_state \<Rightarrow> (mutation_error + secret_metadata) \<times> secret_state" where
  "PutSession env session input s = putAuthorized env (authorize_session session) input s"

definition delete_work :: "secret_env \<Rightarrow> string \<Rightarrow> int \<Rightarrow> actor \<Rightarrow> (mutation_error, string) step" where
  "delete_work env name expected a =
     bind_step (guard (\<not> fails (sx_faults env) ''read secret'') (MutationFailed ''read secret for deletion'')) (\<lambda>_.
     bind_step (reads (\<lambda>db. find (\<lambda>r. se_name r = name) (secret_rows db))) (\<lambda>present.
     case present of
       None \<Rightarrow> raises (MutationCode ''not_found'')
     | Some r \<Rightarrow>
         bind_step (guard (se_version r = expected) version_conflict) (\<lambda>_.
         bind_step (guard (\<not> fails (sx_faults env) ''check secret references'') (MutationFailed ''check secret references'')) (\<lambda>_.
         bind_step (reads (\<lambda>db. \<exists>c\<in>set (credential_rows db). cd_secret c = se_id r)) (\<lambda>used.
         bind_step (guard (\<not> used) resource_in_use) (\<lambda>_.
         bind_step (guard (\<not> fails (sx_faults env) ''delete secret'') (MutationFailed ''delete secret'')) (\<lambda>_.
         bind_step (modify (\<lambda>db. db\<lparr>secret_rows :=
           delete_where (\<lambda>x. se_id x = se_id r \<and> se_version x = expected) (secret_rows db)\<rparr>)) (\<lambda>_.
         bind_step (insertAudit (sx_faults env) (MutationFailed ''audit secret deletion'') (sx_audit env) a ''secret.delete''
           ''Secret'' (se_id r) ''success'' expected) (\<lambda>_.
         returns (se_id r))))))))))"

definition deleteAuthorized ::
    "secret_env \<Rightarrow> (mutation_error, actor) step \<Rightarrow> string \<Rightarrow> int \<Rightarrow> secret_state \<Rightarrow> (mutation_error + unit) \<times> secret_state" where
  "deleteAuthorized env authorize name expected s =
     (if \<not> secretNamePattern name \<or> expected < 1 then (Inl invalid_resource, s)
      else (case mutate (sx_faults env) authorize (delete_work env name expected) (ss_unavailable s) (ss_db s) of
              (Inl e, unavail, db) \<Rightarrow> (Inl e, s\<lparr>ss_db := db, ss_unavailable := unavail\<rparr>)
            | (Inr rid, unavail, db) \<Rightarrow> (Inr (), removeRegistration rid (s\<lparr>ss_db := db, ss_unavailable := unavail\<rparr>))))"

definition SecretDelete :: "secret_env \<Rightarrow> actor \<Rightarrow> string \<Rightarrow> int \<Rightarrow> secret_state \<Rightarrow> (mutation_error + unit) \<times> secret_state" where
  "SecretDelete env a name expected s =
     (case validateActor a of Inl e \<Rightarrow> (Inl e, s) | Inr _ \<Rightarrow> deleteAuthorized env (returns a) name expected s)"

definition DeleteSession ::
    "secret_env \<Rightarrow> mutation_env \<Rightarrow> string \<Rightarrow> int \<Rightarrow> secret_state \<Rightarrow> (mutation_error + unit) \<times> secret_state" where
  "DeleteSession env session name expected s = deleteAuthorized env (authorize_session session) name expected s"

section \<open>Reading\<close>

definition resolveValue :: "secret_env \<Rightarrow> string \<Rightarrow> secret_state \<Rightarrow> mutation_error + bytes" where
  "resolveValue env name s =
     (if ss_unavailable s then Inl key_unavailable
      else if fails (sx_faults env) ''resolve'' then Inl (MutationFailed ''resolve encrypted secret'')
      else (case find (\<lambda>r. se_name r = name) (secret_rows (ss_db s)) of
              None \<Rightarrow> Inl (MutationCode ''not_found'')
            | Some r \<Rightarrow>
                and_then (if se_key_version r \<noteq> ss_active s then load_key (sx_faults env) ''resolve key'' (ss_dir s) (se_key_version r)
                          else Inr (ss_key s)) (\<lambda>key.
                case openSecret (sx_crypto env) key (se_nonce r) (se_ciphertext r) (row_context (ss_installation s) r) of
                  None \<Rightarrow> Inl not_authentic
                | Some plain \<Rightarrow> Inr plain)))"

text \<open>\<open>Use\<close>: the callback runs without the lock and may itself change the store.\<close>

definition Use ::
    "secret_env \<Rightarrow> string \<Rightarrow> (bytes \<Rightarrow> secret_state \<Rightarrow> (mutation_error + unit) \<times> secret_state) \<Rightarrow> secret_state
     \<Rightarrow> (mutation_error + unit) \<times> secret_state" where
  "Use env name callback s =
     (if \<not> secretNamePattern name then (Inl invalid_resource, s)
      else (case resolveValue env name s of
              Inl e \<Rightarrow> (Inl e, s)
            | Inr plain \<Rightarrow>
                (case Register (sha_256 (sx_crypto env)) (ss_redactor s) plain of
                   (Inl e, r) \<Rightarrow> (Inl (MutationFailed ''register''), s\<lparr>ss_redactor := r\<rparr>)
                 | (Inr k, r) \<Rightarrow>
                     (case callback plain (s\<lparr>ss_redactor := r\<rparr>) of
                        (x, s') \<Rightarrow> (x, s'\<lparr>ss_redactor := remove (ss_redactor s') k\<rparr>)))))"

section \<open>Verification\<close>

text \<open>
  The keys loaded are kept for the length of the loop; the directory does not change meanwhile, so a
  second use of a key reads the same. \<open>tag\<close> names the run, so that a fault can hit one of several.
\<close>

definition verify_row :: "secret_env \<Rightarrow> string \<Rightarrow> secret_state \<Rightarrow> secret_row \<Rightarrow> mutation_error + bytes" where
  "verify_row env tag s r =
     check (\<not> fails (sx_faults env) (tag @ '' scan '' @ se_id r)) (MutationFailed ''scan encrypted secret metadata'')
     (check (se_algorithm r = secret_algorithm) not_authentic
     (and_then (if se_key_version r = ss_active s then Inr (ss_key s)
                else load_key (sx_faults env) (tag @ '' load '' @ se_id r) (ss_dir s) (se_key_version r)) (\<lambda>key.
      case openSecret (sx_crypto env) key (se_nonce r) (se_ciphertext r) (row_context (ss_installation s) r) of
        None \<Rightarrow> Inl not_authentic
      | Some plain \<Rightarrow>
          check (secretFingerprint (sx_crypto env) key plain (ss_installation s) = Some (se_fingerprint r)) not_authentic
            (Inr plain))))"

fun verify_rows :: "secret_env \<Rightarrow> string \<Rightarrow> secret_row list \<Rightarrow> secret_state \<Rightarrow> (mutation_error + unit) \<times> secret_state" where
  "verify_rows env tag [] s = (Inr (), s)"
| "verify_rows env tag (r # rs) s =
     (case verify_row env tag s r of
        Inl e \<Rightarrow> (Inl e, s)
      | Inr plain \<Rightarrow>
          (case replaceRegistration (sx_crypto env) (se_id r) plain s of
             (False, s') \<Rightarrow> (Inl (MutationFailed ''register secret redaction''), s')
           | (True, s') \<Rightarrow> verify_rows env tag rs s'))"

definition verifyAll :: "secret_env \<Rightarrow> string \<Rightarrow> secret_state \<Rightarrow> (mutation_error + unit) \<times> secret_state" where
  "verifyAll env tag s =
     (if fails (sx_faults env) (tag @ '' read'') then (Inl (MutationFailed ''read encrypted secrets''), s)
      else verify_rows env tag (sort_key se_id (secret_rows (ss_db s))) s)"

definition newSecretStore :: "database \<Rightarrow> key_dir \<Rightarrow> string \<Rightarrow> int \<Rightarrow> bytes \<Rightarrow> secret_state" where
  "newSecretStore db dir inst version key =
     \<lparr>ss_db = db, ss_dir = dir, ss_installation = inst, ss_active = version, ss_key = key, ss_unavailable = False,
      ss_redactor = new_redactor, ss_registrations = (\<lambda>_. None), ss_trace = []\<rparr>"

text \<open>The directory and the database after a failed or successful start.\<close>

definition bootstrapSecretStore ::
    "secret_env \<Rightarrow> key_dir \<Rightarrow> database \<Rightarrow> (mutation_error + secret_state) \<times> key_dir \<times> database" where
  "bootstrapSecretStore env dir db =
     (if fails (sx_faults env) ''check secret-store bootstrap'' then (Inl (MutationFailed ''check secret-store bootstrap''), dir, db)
      else if secret_rows db \<noteq> [] then (Inl (MutationFailed ''secret store has data without installation identity''), dir, db)
      else (case key_versions (sx_faults env) dir of
        Inl e \<Rightarrow> (Inl e, dir, db)
      | Inr versions \<Rightarrow>
          let version = (if versions \<noteq> [] then next_int64 (List.last versions) else 1) in
          if version < 1 then (Inl key_unavailable, dir, db)
          else (case create_key (sx_faults env) (sx_keys env) version dir of
            (Inl e, _, dir') \<Rightarrow> (Inl e, dir', db)
          | (Inr key, _, dir') \<Rightarrow>
              (case sx_uuid env of
                 None \<Rightarrow> (Inl (MutationFailed ''generate installation identity''), dir', db)
               | Some inst \<Rightarrow>
                   (case masterKeyCheck (sx_crypto env) key inst of
                      None \<Rightarrow> (Inl key_unavailable, dir', db)
                    | Some c \<Rightarrow>
                        if fails (sx_faults env) ''commit installation key state''
                        then (Inl (MutationFailed ''commit installation key state''), dir', db)
                        else
                          let db' = db\<lparr>installation := Some \<lparr>in_id = inst, in_key_version = version, in_revision = 1,
                                in_key_check = Some c, in_created = Some (sx_now env), in_updated = Some (sx_now env)\<rparr>\<rparr>
                          in (Inr (newSecretStore db' dir' inst version key), dir', db'))))))"

definition openSecretStore ::
    "secret_env \<Rightarrow> key_dir \<Rightarrow> database \<Rightarrow> (mutation_error + secret_state) \<times> key_dir \<times> database" where
  "openSecretStore env dir db =
     (if fails (sx_faults env) ''read installation key state'' then (Inl (MutationFailed ''read installation key state''), dir, db)
      else (case installation db of
        None \<Rightarrow> bootstrapSecretStore env dir db
      | Some i \<Rightarrow>
          (case load_key (sx_faults env) ''open'' dir (in_key_version i) of
             Inl e \<Rightarrow> (Inl e, dir, db)
           | Inr key \<Rightarrow>
               if in_key_check i = None \<or> in_key_check i = Some [] then (Inl key_unavailable, dir, db)
               else if masterKeyCheck (sx_crypto env) key (in_id i) \<noteq> in_key_check i then (Inl key_unavailable, dir, db)
               else (case verifyAll env ''open'' (newSecretStore db dir (in_id i) (in_key_version i) key) of
                       (Inl e, _) \<Rightarrow> (Inl e, dir, db)
                     | (Inr _, s) \<Rightarrow> (Inr s, dir, db)))))"

end
