(* ===== verification/Rotation.thy ===== *)
theory Rotation
  imports SecretStore
begin

text \<open>
  Rotation of the master key and collection of unused keys, \<open>internal/storage/rotation.go\<close>. A checkpoint
  outside the transaction records the committed database and the directory; those inside it would record
  the state before the transaction, already recorded by the publication of the key.
\<close>

definition checkpoint :: "string \<Rightarrow> secret_state \<Rightarrow> secret_state" where
  "checkpoint name s = s\<lparr>ss_trace := ss_trace s @ [(name, ss_db s, ss_dir s)]\<rparr>"

section \<open>Key state\<close>

definition verifyKeyState :: "secret_env \<Rightarrow> string \<Rightarrow> secret_state \<Rightarrow> mutation_error + unit" where
  "verifyKeyState env tag s =
     (if fails (sx_faults env) (tag @ '' state'') then Inl key_unavailable
      else (case installation (ss_db s) of
        None \<Rightarrow> Inl key_unavailable
      | Some i \<Rightarrow>
          check (in_id i = ss_installation s \<and> in_key_version i = ss_active s) key_unavailable
          (and_then (load_key (sx_faults env) (tag @ '' key'') (ss_dir s) (in_key_version i)) (\<lambda>key.
           case masterKeyCheck (sx_crypto env) key (in_id i) of
             None \<Rightarrow> Inl key_unavailable
           | Some expected \<Rightarrow> check (in_key_check i = Some expected \<and> key = ss_key s) key_unavailable (Inr ())))))"

section \<open>The transaction\<close>

text \<open>A row under the new key, with the columns the update sets.\<close>

definition rotate_row :: "secret_env \<Rightarrow> key_dir \<Rightarrow> string \<Rightarrow> int \<Rightarrow> bytes \<Rightarrow> secret_row \<Rightarrow> mutation_error + secret_row" where
  "rotate_row env dir inst next newKey r =
     and_then (load_key (sx_faults env) (''rotate load '' @ se_id r) dir (se_key_version r)) (\<lambda>key.
     case openSecret (sx_crypto env) key (se_nonce r) (se_ciphertext r) (row_context inst r) of
       None \<Rightarrow> Inl secret_authentication
     | Some plain \<Rightarrow>
         check (secretFingerprint (sx_crypto env) key plain inst = Some (se_fingerprint r)) secret_authentication
         (and_then (sealSecret (sx_crypto env) (sx_nonce env (se_id r)) newKey plain
            \<lparr>cx_installation = inst, cx_secret = se_id r, cx_version = se_version r, cx_key_version = next\<rparr>) (\<lambda>(nonce, encrypted).
          case secretFingerprint (sx_crypto env) newKey plain inst of
            None \<Rightarrow> Inl key_unavailable
          | Some fp \<Rightarrow>
              check (\<not> fails (sx_faults env) (''update secret '' @ se_id r)) (MutationFailed ''update secret'')
              (Inr (r\<lparr>se_key_version := next, se_nonce := nonce, se_ciphertext := encrypted, se_fingerprint := fp\<rparr>)))))"

text \<open>\<open>WHERE id > last ORDER BY id LIMIT 1\<close>.\<close>

definition next_row :: "string \<Rightarrow> secret_row list \<Rightarrow> secret_row option" where
  "next_row bound rows =
     (case sort_key se_id (filter (\<lambda>r. bound < se_id r) rows) of [] \<Rightarrow> None | r # _ \<Rightarrow> Some r)"

lemma next_row_Some:
  assumes "next_row l rows = Some r"
  shows "r \<in> set rows \<and> l < se_id r \<and> (\<forall>x\<in>set rows. l < se_id x \<longrightarrow> se_id r \<le> se_id x)"
proof -
  from assms obtain rs where s: "sort_key se_id (filter (\<lambda>r. l < se_id r) rows) = r # rs"
    by (auto simp: next_row_def split: list.splits)
  then have set: "set (r # rs) = {x \<in> set rows. l < se_id x}" by (metis set_sort set_filter)
  have "sorted (map se_id (r # rs))" using s sorted_sort_key by metis
  with set show ?thesis by auto
qed

lemma next_row_None: "next_row l rows = None \<longleftrightarrow> (\<forall>r\<in>set rows. \<not> l < se_id r)"
proof -
  have "sort_key se_id ys = [] \<longleftrightarrow> ys = []" for ys :: "secret_row list" by (metis length_0_conv length_sort)
  then have "next_row l rows = None \<longleftrightarrow> filter (\<lambda>r. l < se_id r) rows = []"
    by (simp add: next_row_def split: list.split) (metis list.distinct(1))
  then show ?thesis by (simp add: filter_empty_conv)
qed

text \<open>\<open>UPDATE secrets SET ... WHERE id=?\<close> with the rotated row.\<close>

definition put_rotated :: "secret_row \<Rightarrow> secret_row list \<Rightarrow> secret_row list" where
  "put_rotated r' rows =
     fst (update_where (\<lambda>r. se_id r = se_id r')
       (\<lambda>r. r\<lparr>se_key_version := se_key_version r', se_nonce := se_nonce r', se_ciphertext := se_ciphertext r',
          se_fingerprint := se_fingerprint r'\<rparr>) rows)"

lemma rotate_row_Inr:
  assumes "rotate_row env dir inst next newKey r = Inr r'"
  obtains key plain nonce encrypted fp where "key_at dir (se_key_version r) = Some key"
    "openSecret (sx_crypto env) key (se_nonce r) (se_ciphertext r) (row_context inst r) = Some plain"
    "secretFingerprint (sx_crypto env) key plain inst = Some (se_fingerprint r)"
    "sealSecret (sx_crypto env) (sx_nonce env (se_id r)) newKey plain
       \<lparr>cx_installation = inst, cx_secret = se_id r, cx_version = se_version r, cx_key_version = next\<rparr> = Inr (nonce, encrypted)"
    "secretFingerprint (sx_crypto env) newKey plain inst = Some fp"
    "r' = r\<lparr>se_key_version := next, se_nonce := nonce, se_ciphertext := encrypted, se_fingerprint := fp\<rparr>"
  using assms unfolding rotate_row_def
  by (simp only: and_then_Inr load_key_Inr case_option_Inl_Inr check_Inr case_prod_Inr) (metis sum.inject(2))

lemma rotate_row_id:
  assumes "rotate_row env dir inst next newKey r = Inr r'"
  shows "se_id r' = se_id r \<and> se_name r' = se_name r \<and> se_version r' = se_version r \<and> se_key_version r' = next"
  by (rule rotate_row_Inr [OF assms]) simp

lemma map_id_put_rotated [simp]: "map se_id (put_rotated r' rows) = map se_id rows"
  unfolding put_rotated_def by (rule map_key_update_where) simp

lemma above_put_rotated:
  assumes "next_row l rows = Some r"
  shows "length (filter (\<lambda>x. se_id r < se_id x) (put_rotated r' rows)) < length (filter (\<lambda>x. l < se_id x) rows)"
proof -
  have ids: "length (filter (\<lambda>x. P (se_id x)) ys) = length (filter P (map se_id ys))" for P and ys :: "secret_row list"
    by (simp add: filter_map comp_def)
  have "length (filter (\<lambda>x. se_id r < se_id x) (put_rotated r' rows)) = length (filter (\<lambda>x. se_id r < se_id x) rows)"
    by (simp only: ids map_id_put_rotated)
  also have "\<dots> < length (filter (\<lambda>x. l < se_id x) rows)"
  proof -
    have sub: "filter (\<lambda>x. se_id r < se_id x) rows = filter (\<lambda>x. se_id r < se_id x) (filter (\<lambda>x. l < se_id x) rows)"
      using next_row_Some [OF assms] by (auto simp: filter_eq_Cons_iff intro!: filter_cong)
    have "r \<in> set (filter (\<lambda>x. l < se_id x) rows)" using next_row_Some [OF assms] by simp
    then have "length (filter (\<lambda>x. se_id r < se_id x) (filter (\<lambda>x. l < se_id x) rows)) < length (filter (\<lambda>x. l < se_id x) rows)"
      by (rule length_filter_less) simp
    with sub show ?thesis by simp
  qed
  finally show ?thesis .
qed

text \<open>The keyset loop over the table; it ends because the rows above \<open>last\<close> (here \<open>bound\<close>) become fewer.\<close>

function rotate_rows ::
    "secret_env \<Rightarrow> key_dir \<Rightarrow> string \<Rightarrow> int \<Rightarrow> bytes \<Rightarrow> string \<Rightarrow> secret_row list \<Rightarrow> mutation_error + secret_row list" where
  "rotate_rows env dir inst next newKey bound rows =
     (case next_row bound rows of
        None \<Rightarrow> Inr rows
      | Some r \<Rightarrow>
          (case rotate_row env dir inst next newKey r of
             Inl e \<Rightarrow> Inl e
           | Inr r' \<Rightarrow> rotate_rows env dir inst next newKey (se_id r) (put_rotated r' rows)))"
  by pat_completeness auto

termination
  by (relation "measure (\<lambda>(_, _, _, _, _, bound, rows). length (filter (\<lambda>r. bound < se_id r) rows))")
    (use above_put_rotated in auto)

declare rotate_rows.simps [simp del]

definition rotateTx ::
    "secret_env \<Rightarrow> key_dir \<Rightarrow> string \<Rightarrow> int \<Rightarrow> int \<Rightarrow> bytes \<Rightarrow> actor \<Rightarrow> (mutation_error, unit) step" where
  "rotateTx env dir inst active next newKey a =
     bind_step (\<lambda>db. case rotate_rows env dir inst next newKey [] (secret_rows db) of
                  Inl e \<Rightarrow> (Inl e, db) | Inr rows \<Rightarrow> (Inr (), db\<lparr>secret_rows := rows\<rparr>)) (\<lambda>_.
     bind_step (need (masterKeyCheck (sx_crypto env) newKey inst) key_unavailable) (\<lambda>c.
     bind_step (guard (\<not> fails (sx_faults env) ''update installation'') (MutationFailed ''update installation'')) (\<lambda>_.
     bind_step (reads installation) (\<lambda>found.
     bind_step (guard (case found of None \<Rightarrow> False | Some i \<Rightarrow> in_key_version i = active) key_unavailable) (\<lambda>_.
     bind_step (modify (\<lambda>db. db\<lparr>installation := map_option (\<lambda>i. i\<lparr>in_key_version := next, in_key_check := Some c,
       in_updated := Some (sx_now env)\<rparr>) (installation db)\<rparr>)) (\<lambda>_.
     insertAudit (sx_faults env) (MutationFailed ''insert audit event'') (sx_audit env) a ''secret.rotate'' ''Secret'' []
       ''success'' next))))))"

section \<open>Collection\<close>

definition key_referenced :: "database \<Rightarrow> int \<Rightarrow> bool" where
  "key_referenced db v \<longleftrightarrow> (\<exists>r\<in>set (secret_rows db). se_key_version r = v) \<or> (\<exists>i. installation db = Some i \<and> in_key_version i = v)"

fun collect_versions :: "secret_env \<Rightarrow> int list \<Rightarrow> secret_state \<Rightarrow> (mutation_error + unit) \<times> secret_state" where
  "collect_versions env [] s = (Inr (), s)"
| "collect_versions env (v # vs) s =
     (if fails (sx_faults env) (''count '' @ keyFilename v) then (Inl (MutationFailed ''count references''), s)
      else if key_referenced (ss_db s) v then collect_versions env vs s
      else (case map_of (ss_dir s) (keyFilename v) of
        None \<Rightarrow> (Inl (MutationFailed ''lstat''), s)
      | Some k \<Rightarrow>
          if \<not> kf_regular k then (Inl key_unavailable, s)
          else if fails (sx_faults env) (''remove '' @ keyFilename v) then (Inl (MutationFailed ''remove''), s)
          else
            let s1 = checkpoint ''old-key-removed'' (s\<lparr>ss_dir := unlink (keyFilename v) (ss_dir s)\<rparr>)
            in if fails (sx_faults env) (''sync after '' @ keyFilename v) then (Inl (MutationFailed ''sync keyring''), s1)
               else collect_versions env vs (checkpoint ''gc-directory-synced'' s1)))"

definition temporaryKeyName :: "string \<Rightarrow> bool" where
  "temporaryKeyName name \<longleftrightarrow>
     length name = 41 \<and> take 5 name = ''.new-'' \<and> drop 37 name = ''.tmp''
     \<and> list_all (\<lambda>c. is_digit c \<or> in_range 97 102 c) (take 32 (drop 5 name))"

fun collect_temporaries :: "secret_env \<Rightarrow> string list \<Rightarrow> secret_state \<Rightarrow> (mutation_error + unit) \<times> secret_state" where
  "collect_temporaries env [] s = (Inr (), s)"
| "collect_temporaries env (name # names) s =
     (if \<not> temporaryKeyName name then collect_temporaries env names s
      else (case map_of (ss_dir s) name of
        None \<Rightarrow> (Inl (MutationFailed ''lstat''), s)
      | Some k \<Rightarrow>
          if \<not> kf_regular k then (Inl key_unavailable, s)
          else if fails (sx_faults env) (''remove '' @ name) then (Inl (MutationFailed ''remove''), s)
          else collect_temporaries env names (checkpoint ''temporary-removed'' (s\<lparr>ss_dir := unlink name (ss_dir s)\<rparr>))))"

definition collectKeys :: "secret_env \<Rightarrow> secret_state \<Rightarrow> (mutation_error + unit) \<times> secret_state" where
  "collectKeys env s =
     (case key_versions (sx_faults env) (ss_dir s) of
        Inl e \<Rightarrow> (Inl e, s)
      | Inr versions \<Rightarrow>
          (case collect_versions env versions s of
             (Inl e, s1) \<Rightarrow> (Inl e, s1)
           | (Inr _, s1) \<Rightarrow>
               if fails (sx_faults env) ''read keyring entries'' then (Inl (MutationFailed ''read keyring''), s1)
               else (case collect_temporaries env (sort (map fst (ss_dir s1))) s1 of
                       (Inl e, s2) \<Rightarrow> (Inl e, s2)
                     | (Inr _, s2) \<Rightarrow>
                         if fails (sx_faults env) ''sync keyring at the end'' then (Inl (MutationFailed ''sync keyring''), s2)
                         else (Inr (), checkpoint ''cleanup-synced'' s2))))"

text \<open>The checks before rotation and collection: a failure makes the store unavailable.\<close>

definition verify_first :: "secret_env \<Rightarrow> secret_state \<Rightarrow> (mutation_error + unit) \<times> secret_state" where
  "verify_first env s =
     (case verifyKeyState env ''first'' s of
        Inl e \<Rightarrow> (Inl e, s\<lparr>ss_unavailable := True\<rparr>)
      | Inr _ \<Rightarrow>
          (case verifyAll env ''first'' s of
             (Inl e, s') \<Rightarrow> (Inl e, s'\<lparr>ss_unavailable := True\<rparr>)
           | (Inr _, s') \<Rightarrow> (Inr (), s')))"

definition CollectUnusedKeys :: "secret_env \<Rightarrow> secret_state \<Rightarrow> (mutation_error + unit) \<times> secret_state" where
  "CollectUnusedKeys env s =
     (if ss_unavailable s then (Inl key_unavailable, s)
      else (case verify_first env s of
              (Inl e, s') \<Rightarrow> (Inl e, s')
            | (Inr _, s') \<Rightarrow> collectKeys env s'))"

section \<open>Rotation\<close>

text \<open>A version with the error beside it, as Go returns both.\<close>

type_synonym rotation_result = "int \<times> mutation_error option"

definition after_commit :: "secret_env \<Rightarrow> int \<Rightarrow> secret_state \<Rightarrow> rotation_result \<times> secret_state" where
  "after_commit env next s0 =
     (let s = checkpoint ''database-committed'' (s0\<lparr>ss_unavailable := True\<rparr>) in
      case load_key (sx_faults env) ''verify published'' (ss_dir s) next of
        Inl e \<Rightarrow> ((next, Some e), s)
      | Inr key \<Rightarrow>
          let s1 = s\<lparr>ss_key := key, ss_active := next\<rparr> in
          (case verifyKeyState env ''last'' s1 of
             Inl e \<Rightarrow> ((next, Some e), s1)
           | Inr _ \<Rightarrow>
               (case verifyAll env ''last'' s1 of
                  (Inl e, s2) \<Rightarrow> ((next, Some e), s2)
                | (Inr _, s2) \<Rightarrow>
                    (case collectKeys env ((checkpoint ''rows-verified'' s2)\<lparr>ss_unavailable := False\<rparr>) of
                       (Inl e, s3) \<Rightarrow> ((next, Some e), s3)
                     | (Inr _, s3) \<Rightarrow> ((next, None), s3)))))"

definition rotate_with :: "secret_env \<Rightarrow> actor \<Rightarrow> int \<Rightarrow> bytes \<Rightarrow> secret_state \<Rightarrow> rotation_result \<times> secret_state" where
  "rotate_with env a next newKey s =
     (if fails (sx_faults env) ''begin'' then ((0, Some (MutationFailed ''begin'')), s)
      else (case rotateTx env (ss_dir s) (ss_installation s) (ss_active s) next newKey a (ss_db s) of
        (Inl e, _) \<Rightarrow> ((0, Some e), s\<lparr>ss_unavailable := ss_unavailable s \<or> fails (sx_faults env) ''rollback''\<rparr>)
      | (Inr _, db') \<Rightarrow>
          let s1 = checkpoint ''before-commit'' s in
          if commit_fails (sx_faults env)
          then ((0, Some (MutationFailed ''rotation commit outcome uncertain'')),
                s1\<lparr>ss_unavailable := True, ss_db := (if commit_durable (sx_faults env) then db' else ss_db s1)\<rparr>)
          else after_commit env next (s1\<lparr>ss_db := db'\<rparr>)))"

definition RotateMasterKey :: "secret_env \<Rightarrow> actor \<Rightarrow> secret_state \<Rightarrow> rotation_result \<times> secret_state" where
  "RotateMasterKey env a s =
     (case validateActor a of
        Inl e \<Rightarrow> ((0, Some e), s)
      | Inr _ \<Rightarrow>
        if ss_unavailable s then ((0, Some key_unavailable), s)
        else (case verify_first env s of
          (Inl e, s1) \<Rightarrow> ((0, Some e), s1)
        | (Inr _, s1) \<Rightarrow>
          (case key_versions (sx_faults env) (ss_dir s1) of
            Inl e \<Rightarrow> ((0, Some e), s1)
          | Inr versions \<Rightarrow>
            let highest = fold max versions (ss_active s1) in
            if highest = max_int64 then ((0, Some key_unavailable), s1)
            else (case create_key (sx_faults env) (sx_keys env) (highest + 1) (ss_dir s1) of
              (r, trace, dir) \<Rightarrow>
              let s2 = s1\<lparr>ss_dir := dir, ss_trace := ss_trace s1 @ map (\<lambda>(name, d). (name, ss_db s1, d)) trace\<rparr> in
              (case r of
                Inl e \<Rightarrow> ((0, Some e), s2)
              | Inr newKey \<Rightarrow>
                (case load_key (sx_faults env) ''read back'' (ss_dir s2) (highest + 1) of
                  Inl e \<Rightarrow> ((0, Some e), s2)
                | Inr published \<Rightarrow>
                    if newKey \<noteq> published then ((0, Some key_unavailable), s2)
                    else rotate_with env a (highest + 1) newKey s2))))))"

end
