(* ===== verification/SecretMap.thy ===== *)
theory SecretMap
  imports Rotation
begin

text \<open>
  The secret store refines a map from names to plaintexts with versions: \<open>contents\<close> decrypts what a
  database and a key directory hold, and writing, deleting, resolving and starting act on it as the
  operations of a map.
\<close>

section \<open>What is on disk\<close>

definition row_plain :: "secret_crypto \<Rightarrow> key_dir \<Rightarrow> string \<Rightarrow> secret_row \<Rightarrow> bytes option" where
  "row_plain cr dir inst r =
     (case key_at dir (se_key_version r) of
        None \<Rightarrow> None
      | Some key \<Rightarrow> openSecret cr key (se_nonce r) (se_ciphertext r) (row_context inst r))"

text \<open>A row that decrypts under its key, to a value with its fingerprint.\<close>

definition row_sound :: "secret_crypto \<Rightarrow> key_dir \<Rightarrow> string \<Rightarrow> secret_row \<Rightarrow> bool" where
  "row_sound cr dir inst r \<longleftrightarrow> se_algorithm r = secret_algorithm
     \<and> (\<exists>key plain. key_at dir (se_key_version r) = Some key
          \<and> openSecret cr key (se_nonce r) (se_ciphertext r) (row_context inst r) = Some plain
          \<and> secretFingerprint cr key plain inst = Some (se_fingerprint r))"

definition check_sound :: "secret_crypto \<Rightarrow> key_dir \<Rightarrow> installation_row \<Rightarrow> bool" where
  "check_sound cr dir i \<longleftrightarrow>
     (\<exists>key c. key_at dir (in_key_version i) = Some key \<and> masterKeyCheck cr key (in_id i) = Some c \<and> c \<noteq> []
        \<and> in_key_check i = Some c)"

definition rows_sound :: "secret_crypto \<Rightarrow> key_dir \<Rightarrow> string \<Rightarrow> secret_row list \<Rightarrow> bool" where
  "rows_sound cr dir inst rows \<longleftrightarrow>
     distinct (map se_id rows) \<and> distinct (map se_name rows) \<and> (\<forall>r\<in>set rows. row_sound cr dir inst r)"

definition disk_sound :: "secret_crypto \<Rightarrow> key_dir \<Rightarrow> database \<Rightarrow> bool" where
  "disk_sound cr dir db \<longleftrightarrow>
     (\<exists>i. installation db = Some i \<and> check_sound cr dir i \<and> rows_sound cr dir (in_id i) (secret_rows db))"

definition row_contents :: "secret_crypto \<Rightarrow> key_dir \<Rightarrow> string \<Rightarrow> secret_row list \<Rightarrow> string \<Rightarrow> (bytes \<times> int) option" where
  "row_contents cr dir inst rows name =
     (case find (\<lambda>r. se_name r = name) rows of
        None \<Rightarrow> None
      | Some r \<Rightarrow> map_option (\<lambda>plain. (plain, se_version r)) (row_plain cr dir inst r))"

definition contents :: "secret_crypto \<Rightarrow> key_dir \<Rightarrow> database \<Rightarrow> string \<Rightarrow> (bytes \<times> int) option" where
  "contents cr dir db name =
     (case installation db of None \<Rightarrow> None | Some i \<Rightarrow> row_contents cr dir (in_id i) (secret_rows db) name)"

text \<open>A store whose memory agrees with a sound disk.\<close>

definition store_ok :: "secret_crypto \<Rightarrow> secret_state \<Rightarrow> bool" where
  "store_ok cr s \<longleftrightarrow> disk_sound cr (ss_dir s) (ss_db s)
     \<and> (\<exists>i. installation (ss_db s) = Some i \<and> in_id i = ss_installation s \<and> in_key_version i = ss_active s)
     \<and> key_at (ss_dir s) (ss_active s) = Some (ss_key s)"

abbreviation stored :: "secret_crypto \<Rightarrow> secret_state \<Rightarrow> string \<Rightarrow> (bytes \<times> int) option" where
  "stored cr s \<equiv> contents cr (ss_dir s) (ss_db s)"

section \<open>The rows of a sound disk\<close>

lemma row_sound_plain: "row_sound cr dir inst r \<Longrightarrow> \<exists>plain. row_plain cr dir inst r = Some plain"
  by (auto simp: row_sound_def row_plain_def)

lemma rows_soundD:
  assumes "rows_sound cr dir inst rows"
  shows "distinct (map se_id rows)" "distinct (map se_name rows)" "r \<in> set rows \<Longrightarrow> row_sound cr dir inst r"
  using assms by (auto simp: rows_sound_def)

lemma store_okE:
  assumes "store_ok cr s"
  obtains i where "installation (ss_db s) = Some i" "in_id i = ss_installation s" "in_key_version i = ss_active s"
    "check_sound cr (ss_dir s) i" "rows_sound cr (ss_dir s) (ss_installation s) (secret_rows (ss_db s))"
    "key_at (ss_dir s) (ss_active s) = Some (ss_key s)"
  using assms by (auto simp: store_ok_def disk_sound_def)

lemma stored_rows: "store_ok cr s \<Longrightarrow> stored cr s = row_contents cr (ss_dir s) (ss_installation s) (secret_rows (ss_db s))"
  by (erule store_okE) (rule ext, simp add: contents_def)

lemma find_name_Some: "find (\<lambda>r. se_name r = name) rows = Some r \<Longrightarrow> r \<in> set rows \<and> se_name r = name"
  by (induction rows) (auto split: if_splits)

lemma row_contents_sound:
  assumes "rows_sound cr dir inst rows"
  shows "row_contents cr dir inst rows name = None \<longleftrightarrow> find (\<lambda>r. se_name r = name) rows = None"
    and "find (\<lambda>r. se_name r = name) rows = Some r \<Longrightarrow>
      \<exists>plain. row_plain cr dir inst r = Some plain \<and> row_contents cr dir inst rows name = Some (plain, se_version r)"
proof -
  show some: "\<exists>plain. row_plain cr dir inst r = Some plain \<and> row_contents cr dir inst rows name = Some (plain, se_version r)"
    if "find (\<lambda>r. se_name r = name) rows = Some r" for r
    using that row_sound_plain [OF rows_soundD(3) [OF assms]] find_name_Some [OF that] by (fastforce simp: row_contents_def)
  show "row_contents cr dir inst rows name = None \<longleftrightarrow> find (\<lambda>r. se_name r = name) rows = None"
    using some by (cases "find (\<lambda>r. se_name r = name) rows") (auto simp: row_contents_def)
qed

text \<open>A disk stays readable in a directory that keeps the keys it refers to.\<close>

definition keeps_referenced :: "database \<Rightarrow> key_dir \<Rightarrow> key_dir \<Rightarrow> bool" where
  "keeps_referenced db dir dir' \<longleftrightarrow>
     (\<forall>v key. key_referenced db v \<longrightarrow> key_at dir v = Some key \<longrightarrow> key_at dir' v = Some key)"

lemma keeps_keys_referenced: "keeps_keys dir dir' \<Longrightarrow> keeps_referenced db dir dir'"
  by (simp add: keeps_keys_def keeps_referenced_def)

lemma disk_sound_keeps:
  assumes keeps: "keeps_referenced db dir dir'" and "disk_sound cr dir db"
  shows "disk_sound cr dir' db \<and> contents cr dir' db = contents cr dir db"
proof -
  from assms(2) obtain i where i: "installation db = Some i" "check_sound cr dir i" "rows_sound cr dir (in_id i) (secret_rows db)"
    by (auto simp: disk_sound_def)
  have "check_sound cr dir' i" using i(1,2) keeps by (fastforce simp: check_sound_def keeps_referenced_def key_referenced_def)
  moreover have rows: "row_sound cr dir' (in_id i) r \<and> row_plain cr dir' (in_id i) r = row_plain cr dir (in_id i) r"
    if "r \<in> set (secret_rows db)" for r
  proof -
    from rows_soundD(3) [OF i(3) that] obtain key where "key_at dir (se_key_version r) = Some key" by (auto simp: row_sound_def)
    moreover from this have "key_at dir' (se_key_version r) = Some key"
      using keeps that by (auto simp: keeps_referenced_def key_referenced_def)
    ultimately show ?thesis using rows_soundD(3) [OF i(3) that] by (simp add: row_sound_def row_plain_def)
  qed
  then have "rows_sound cr dir' (in_id i) (secret_rows db)" using i(3) by (simp add: rows_sound_def)
  moreover have "contents cr dir' db name = contents cr dir db name" for name
    using rows find_name_Some [of name "secret_rows db"] i(1) by (auto simp: contents_def row_contents_def split: option.split)
  ultimately show ?thesis using i(1) by (auto simp: disk_sound_def)
qed

section \<open>Resolving\<close>

lemma row_key:
  assumes "store_ok cr s" "r \<in> set (secret_rows (ss_db s))"
  obtains key plain where "key_at (ss_dir s) (se_key_version r) = Some key" "se_key_version r = ss_active s \<longrightarrow> key = ss_key s"
    "openSecret cr key (se_nonce r) (se_ciphertext r) (row_context (ss_installation s) r) = Some plain"
    "secretFingerprint cr key plain (ss_installation s) = Some (se_fingerprint r)" "se_algorithm r = secret_algorithm"
    "row_plain cr (ss_dir s) (ss_installation s) r = Some plain"
proof -
  from assms have "row_sound cr (ss_dir s) (ss_installation s) r" "key_at (ss_dir s) (ss_active s) = Some (ss_key s)"
    by (auto elim: store_okE dest: rows_soundD(3))
  then show ?thesis using that by (fastforce simp: row_sound_def row_plain_def)
qed

lemma resolve_stored:
  assumes "store_ok (sx_crypto env) s" "\<not> ss_unavailable s" "\<not> fails (sx_faults env) ''resolve''"
    "\<not> fails (sx_faults env) ''resolve key''"
  shows "resolveValue env name s =
    (case stored (sx_crypto env) s name of None \<Rightarrow> Inl (MutationCode ''not_found'') | Some (plain, _) \<Rightarrow> Inr plain)"
proof -
  let ?rows = "secret_rows (ss_db s)"
  from assms(1) have sound: "rows_sound (sx_crypto env) (ss_dir s) (ss_installation s) ?rows" by (elim store_okE)
  note st = stored_rows [OF assms(1)]
  show ?thesis
  proof (cases "find (\<lambda>r. se_name r = name) ?rows")
    case None
    then have "stored (sx_crypto env) s name = None" using row_contents_sound(1) [OF sound] by (simp add: st)
    with None assms(2,3) show ?thesis by (simp add: resolveValue_def)
  next
    case (Some r)
    from row_contents_sound(2) [OF sound Some] obtain plain where
      p: "row_plain (sx_crypto env) (ss_dir s) (ss_installation s) r = Some plain" "stored (sx_crypto env) s name = Some (plain, se_version r)"
      by (auto simp: st)
    from row_key [OF assms(1) conjunct1 [OF find_name_Some [OF Some]]] show ?thesis
      by (rule) (use Some p assms(2-4) in \<open>auto simp: resolveValue_def load_key_def\<close>)
  qed
qed

text \<open>Without the assumption on faults, a value that is returned is the stored one.\<close>

lemma resolve_Inr:
  assumes "store_ok (sx_crypto env) s" "resolveValue env name s = Inr plain"
  shows "\<exists>v. stored (sx_crypto env) s name = Some (plain, v)"
proof -
  let ?env = "env\<lparr>sx_faults := no_faults\<rparr>"
  have "resolveValue ?env name s = Inr plain" "\<not> ss_unavailable s"
    using assms(2) by (auto simp: resolveValue_def no_faults_def load_key_def and_then_Inr split: if_splits option.splits)
  with resolve_stored [of ?env s name] assms(1) show ?thesis
    by (auto simp: no_faults_def split: option.splits)
qed

section \<open>What a write does to the rows\<close>

text \<open>\<open>rows'\<close> is \<open>rows\<close> with the row \<open>r\<close> added or put in the place of the one with its id.\<close>

definition put_row :: "int \<Rightarrow> secret_row \<Rightarrow> secret_row list \<Rightarrow> secret_row list \<Rightarrow> bool" where
  "put_row expected r rows rows' \<longleftrightarrow>
     (if expected = 0 then (\<forall>x\<in>set rows. se_id x \<noteq> se_id r \<and> se_name x \<noteq> se_name r) \<and> se_version r = 1 \<and> rows' = rows @ [r]
      else (\<exists>old. find (\<lambda>x. se_name x = se_name r) rows = Some old \<and> se_id old = se_id r \<and> se_version old = expected
              \<and> se_version r = next_int64 expected \<and> rows' = map (\<lambda>x. if se_id x = se_id r then r else x) rows))"

definition put_row_for :: "secret_env \<Rightarrow> string \<Rightarrow> int \<Rightarrow> bytes \<Rightarrow> put_secret \<Rightarrow> secret_row \<Rightarrow> bool" where
  "put_row_for env inst active key input r \<longleftrightarrow>
     sealSecret (sx_crypto env) (sx_nonce env (se_id r)) key (ps_Value input) (row_context inst r) = Inr (se_nonce r, se_ciphertext r)
     \<and> secretFingerprint (sx_crypto env) key (ps_Value input) inst = Some (se_fingerprint r)
     \<and> se_name r = ps_Name input \<and> se_key_version r = active \<and> se_algorithm r = secret_algorithm"

lemma needed_Inr: "need x e db = (Inr a, db') \<longleftrightarrow> x = Some a \<and> db' = db"
  by (auto simp: need_def split: option.splits)

lemma insert_secret_Inr:
  assumes "insert_secret f r db = (Inr u, db')"
  shows "(\<forall>x\<in>set (secret_rows db). se_id x \<noteq> se_id r \<and> se_name x \<noteq> se_name r) \<and> db' = db\<lparr>secret_rows := secret_rows db @ [r]\<rparr>"
  using assms unfolding insert_secret_def bind_step_Inr guard_Inr by auto

lemma update_secret_Inr:
  assumes "update_secret f rid expected k db = (Inr u, db')"
  shows "db' = db\<lparr>secret_rows := map (\<lambda>r. if se_id r = rid \<and> se_version r = expected then k r else r) (secret_rows db)\<rparr>"
  using assms unfolding update_secret_def bind_step_Inr guard_Inr by (auto simp: update_where_def step_elims)

lemma update_by_id:
  assumes "distinct (map se_id rows)" "old \<in> set rows" "se_version old = expected"
  shows "map (\<lambda>r. if se_id r = se_id old \<and> se_version r = expected then k r else r) rows
    = map (\<lambda>r. if se_id r = se_id old then k old else r) rows"
  using assms by (auto simp: distinct_map inj_on_def)

lemma slot_Inr:
  assumes "secret_slot env input fresh_id db = (Inr (rid, version, created), db')"
  shows "db' = db \<and> (if ps_ExpectedVersion input = 0 then rid = fresh_id \<and> version = 1
    else \<exists>old. find (\<lambda>x. se_name x = ps_Name input) (secret_rows db) = Some old \<and> se_id old = rid
      \<and> se_version old = ps_ExpectedVersion input \<and> version = next_int64 (ps_ExpectedVersion input))"
  using assms unfolding secret_slot_def by (auto simp: step_elims split: if_splits option.splits)

lemma put_tx_Inr:
  assumes "put_secret_tx env inst active key input db = (Inr (metadata, rid), db')" "distinct (map se_id (secret_rows db))"
  obtains r where "put_row_for env inst active key input r" "put_row (ps_ExpectedVersion input) r (secret_rows db) (secret_rows db')"
    "installation db' = installation db" "se_id r = rid" "sm_ResourceVersion metadata = se_version r"
proof -
  let ?e = "ps_ExpectedVersion input"
  from assms(1) obtain fresh_id version created nonce sealed fp u db1 where
    slot: "secret_slot env input fresh_id db = (Inr (rid, version, created), db)"
    and seal: "sealSecret (sx_crypto env) (sx_nonce env rid) key (ps_Value input)
      \<lparr>cx_installation = inst, cx_secret = rid, cx_version = version, cx_key_version = active\<rparr> = Inr (nonce, sealed)"
    and fp: "secretFingerprint (sx_crypto env) key (ps_Value input) inst = Some fp"
    and put: "(if ?e = 0
        then insert_secret (sx_faults env)
          \<lparr>se_id = rid, se_name = ps_Name input, se_key_version = active, se_algorithm = secret_algorithm, se_nonce = nonce,
           se_ciphertext = sealed, se_fingerprint = fp, se_version = version, se_created = created,
           se_updated = Some (sx_now env)\<rparr>
        else update_secret (sx_faults env) rid ?e
          (\<lambda>r. r\<lparr>se_key_version := active, se_algorithm := secret_algorithm, se_nonce := nonce, se_ciphertext := sealed,
             se_fingerprint := fp, se_version := version, se_updated := Some (sx_now env)\<rparr>)) db = (Inr u, db')"
    and md: "sm_ResourceVersion metadata = version"
    using slot_Inr unfolding put_secret_tx_def bind_step_Inr needed_Inr by (fastforce simp: needed_Inr bind_step_Inr)
  show ?thesis
  proof (cases "?e = 0")
    case True
    let ?r = "\<lparr>se_id = rid, se_name = ps_Name input, se_key_version = active, se_algorithm = secret_algorithm, se_nonce = nonce,
      se_ciphertext = sealed, se_fingerprint = fp, se_version = version, se_created = created, se_updated = Some (sx_now env)\<rparr>"
    show ?thesis
      by (rule that [of ?r])
        (use True put insert_secret_Inr [of "sx_faults env" ?r db u db'] seal fp md slot_Inr [OF slot]
          in \<open>simp_all add: put_row_for_def put_row_def row_context_def\<close>)
  next
    case False
    then obtain old where old: "find (\<lambda>x. se_name x = ps_Name input) (secret_rows db) = Some old" "se_id old = rid"
      "se_version old = ?e" "version = next_int64 ?e" using slot_Inr [OF slot] by auto
    let ?k = "\<lambda>r :: secret_row. r\<lparr>se_key_version := active, se_algorithm := secret_algorithm, se_nonce := nonce, se_ciphertext := sealed,
      se_fingerprint := fp, se_version := version, se_updated := Some (sx_now env)\<rparr>"
    have mem: "old \<in> set (secret_rows db)" "se_name old = ps_Name input" using find_name_Some [OF old(1)] by simp_all
    from put False have "db' = db\<lparr>secret_rows := map (\<lambda>r. if se_id r = rid \<and> se_version r = ?e then ?k r else r) (secret_rows db)\<rparr>"
      by (intro update_secret_Inr) simp
    with update_by_id [OF assms(2) mem(1) old(3), of ?k] old(2)
    have db': "db' = db\<lparr>secret_rows := map (\<lambda>r. if se_id r = rid then ?k old else r) (secret_rows db)\<rparr>" by simp
    show ?thesis
      by (rule that [of "?k old"])
        (use False old mem db' seal fp md in \<open>simp_all add: put_row_for_def put_row_def row_context_def\<close>)
  qed
qed

lemma put_row_find:
  assumes "put_row expected r rows rows'" "distinct (map se_id rows)" "distinct (map se_name rows)"
  shows "distinct (map se_id rows') \<and> distinct (map se_name rows') \<and> set rows' \<subseteq> insert r (set rows)
    \<and> (\<forall>name. find (\<lambda>x. se_name x = name) rows' = (if name = se_name r then Some r else find (\<lambda>x. se_name x = name) rows))"
proof (cases "expected = 0")
  case True
  with assms have new: "\<forall>x\<in>set rows. se_id x \<noteq> se_id r \<and> se_name x \<noteq> se_name r" "rows' = rows @ [r]" by (auto simp: put_row_def)
  have app: "find P (xs @ ys) = (case find P xs of None \<Rightarrow> find P ys | Some x \<Rightarrow> Some x)" for P and xs ys :: "secret_row list"
    by (induction xs) auto
  have "find (\<lambda>x. se_name x = se_name r) rows = None" using new(1) by (auto simp: find_None_iff)
  with new assms(2,3) show ?thesis by (auto simp: app split: option.split)
next
  case False
  with assms(1) obtain old where f: "find (\<lambda>x. se_name x = se_name r) rows = Some old" "se_id old = se_id r"
    "rows' = map (\<lambda>x. if se_id x = se_id r then r else x) rows"
    by (auto simp: put_row_def)
  then have old: "old \<in> set rows" "se_name old = se_name r" "se_id old = se_id r"
    "rows' = map (\<lambda>x. if se_id x = se_id r then r else x) rows"
    using find_name_Some [OF f(1)] by simp_all
  have name: "se_name (if se_id x = se_id r then r else x) = se_name x" if "x \<in> set rows" for x
    using that old(1-3) assms(2) by (auto simp: distinct_map inj_on_def)
  have maps: "map se_id rows' = map se_id rows" "map se_name rows' = map se_name rows" using name by (auto simp: old(4))
  have "find (\<lambda>x. se_name x = name) rows' = (if name = se_name r then Some r else find (\<lambda>x. se_name x = name) rows)" for name
  proof -
    have mf: "find (\<lambda>x. se_name x = name) (map k ys) = map_option k (find (\<lambda>x. se_name x = name) ys)"
      if "\<forall>x\<in>set ys. se_name (k x) = se_name x" for k and ys :: "secret_row list"
      using that by (induction ys) auto
    have "find (\<lambda>x. se_name x = name) rows' = map_option (\<lambda>x. if se_id x = se_id r then r else x) (find (\<lambda>x. se_name x = name) rows)"
      unfolding old(4) by (rule mf) (use name in blast)
    moreover have "find (\<lambda>x. se_name x = se_name r) rows = Some old" using find_key_unique [OF assms(3) old(1)] old(2) by simp
    moreover have "se_id x \<noteq> se_id r" if "find (\<lambda>x. se_name x = name) rows = Some x" "name \<noteq> se_name r" for x
      using find_name_Some [OF that(1)] that(2) old(1-3) assms(2) by (auto simp: distinct_map inj_on_def)
    ultimately show ?thesis using old(3) by (cases "find (\<lambda>x. se_name x = name) rows") auto
  qed
  moreover have "set rows' \<subseteq> insert r (set rows)" by (auto simp: old(4))
  ultimately show ?thesis using assms(2,3) by (simp add: maps)
qed

lemma put_row_plain:
  assumes "cipher_laws (sx_crypto env)" "random_ok (sx_nonce env (se_id r))" "key_at dir active = Some key"
    and r: "put_row_for env inst active key input r"
  shows "row_sound (sx_crypto env) dir inst r \<and> row_plain (sx_crypto env) dir inst r = Some (ps_Value input)"
proof -
  from r have "sealSecret (sx_crypto env) (sx_nonce env (se_id r)) key (ps_Value input) (row_context inst r) = Inr (se_nonce r, se_ciphertext r)"
    by (simp add: put_row_for_def)
  from open_sealed [OF assms(1,2) this] assms(3) r show ?thesis by (simp add: row_sound_def row_plain_def put_row_for_def)
qed

lemma put_row_sound:
  assumes laws: "cipher_laws (sx_crypto env)" and rand: "random_ok (sx_nonce env (se_id r))"
    and sound: "rows_sound (sx_crypto env) dir inst rows" and key: "key_at dir active = Some key"
    and r: "put_row_for env inst active key input r" and put: "put_row expected r rows rows'"
  shows "rows_sound (sx_crypto env) dir inst rows'
    \<and> row_contents (sx_crypto env) dir inst rows' = (row_contents (sx_crypto env) dir inst rows)(ps_Name input \<mapsto> (ps_Value input, se_version r))"
proof -
  note find = put_row_find [OF put rows_soundD(1,2) [OF sound]]
  from put_row_plain [OF laws rand key r]
  have new: "row_sound (sx_crypto env) dir inst r" "row_plain (sx_crypto env) dir inst r = Some (ps_Value input)" by simp_all
  have "row_contents (sx_crypto env) dir inst rows' name =
      ((row_contents (sx_crypto env) dir inst rows)(ps_Name input \<mapsto> (ps_Value input, se_version r))) name" for name
    using find new(2) r by (simp add: row_contents_def put_row_for_def)
  moreover have "rows_sound (sx_crypto env) dir inst rows'"
    using find new(1) rows_soundD(3) [OF sound] by (auto simp: rows_sound_def)
  ultimately show ?thesis by blast
qed

lemma put_row_others: "put_row expected r rows rows' \<Longrightarrow> x \<in> set rows' \<Longrightarrow> x = r \<or> x \<in> set rows \<and> se_id x \<noteq> se_id r"
  by (auto simp: put_row_def split: if_splits)

text \<open>A deletion.\<close>

lemma delete_work_Inr:
  assumes "delete_work env name expected a db = (Inr rid, db')" "distinct (map se_id (secret_rows db))"
  obtains old where "find (\<lambda>r. se_name r = name) (secret_rows db) = Some old" "se_id old = rid" "se_version old = expected"
    "secret_rows db' = filter (\<lambda>r. se_id r \<noteq> rid) (secret_rows db)" "installation db' = installation db"
    "\<not> (\<exists>c\<in>set (credential_rows db). cd_secret c = rid)"
proof -
  from assms(1) obtain old where old: "find (\<lambda>r. se_name r = name) (secret_rows db) = Some old" "se_id old = rid" "se_version old = expected"
    "secret_rows db' = delete_where (\<lambda>x. se_id x = se_id old \<and> se_version x = expected) (secret_rows db)"
    "installation db' = installation db" "\<not> (\<exists>c\<in>set (credential_rows db). cd_secret c = rid)"
    unfolding delete_work_def by (auto simp: step_elims insertAudit_def split: option.splits)
  have "old \<in> set (secret_rows db)" using find_name_Some [OF old(1)] by simp
  then have "delete_where (\<lambda>x. se_id x = se_id old \<and> se_version x = expected) (secret_rows db) = filter (\<lambda>r. se_id r \<noteq> rid) (secret_rows db)"
    unfolding delete_where_def using old(2,3) assms(2) by (intro filter_cong refl) (auto simp: distinct_map inj_on_def)
  with old show ?thesis by (intro that) simp_all
qed

lemma find_filter: "(\<And>x. x \<in> set xs \<Longrightarrow> P x \<Longrightarrow> Q x) \<Longrightarrow> find P (filter Q xs) = find P xs"
  by (induction xs) auto

lemma delete_row_sound:
  assumes "rows_sound cr dir inst rows" "find (\<lambda>r. se_name r = name) rows = Some old"
  shows "rows_sound cr dir inst (filter (\<lambda>r. se_id r \<noteq> se_id old) rows)
    \<and> row_contents cr dir inst (filter (\<lambda>r. se_id r \<noteq> se_id old) rows) = (row_contents cr dir inst rows)(name := None)"
proof -
  have old: "old \<in> set rows" "se_name old = name" using find_name_Some [OF assms(2)] by simp_all
  have same: "se_id x = se_id old \<longleftrightarrow> se_name x = name" if "x \<in> set rows" for x
    using that old rows_soundD(1,2) [OF assms(1)] by (auto simp: distinct_map inj_on_def)
  have "row_contents cr dir inst (filter (\<lambda>r. se_id r \<noteq> se_id old) rows) n = ((row_contents cr dir inst rows)(name := None)) n" for n
  proof (cases "n = name")
    case True
    then have "find (\<lambda>r. se_name r = n) (filter (\<lambda>r. se_id r \<noteq> se_id old) rows) = None" using same by (auto simp: find_None_iff)
    with True show ?thesis by (simp add: row_contents_def)
  next
    case False
    then have "find (\<lambda>r. se_name r = n) (filter (\<lambda>r. se_id r \<noteq> se_id old) rows) = find (\<lambda>r. se_name r = n) rows"
      using same by (intro find_filter) auto
    with False show ?thesis by (simp add: row_contents_def)
  qed
  moreover have "rows_sound cr dir inst (filter (\<lambda>r. se_id r \<noteq> se_id old) rows)"
    using assms(1) by (auto simp: rows_sound_def distinct_map_filter)
  ultimately show ?thesis by blast
qed

section \<open>The abstract map\<close>

type_synonym secrets = "string \<Rightarrow> (bytes \<times> int) option"

text \<open>What a write and a deletion are to do to the map of secrets; \<open>None\<close>: refused.\<close>

definition abs_put :: "put_secret \<Rightarrow> secrets \<Rightarrow> secrets option" where
  "abs_put input m =
     (case m (ps_Name input) of
        None \<Rightarrow> if ps_ExpectedVersion input = 0 then Some (m(ps_Name input \<mapsto> (ps_Value input, 1))) else None
      | Some (_, v) \<Rightarrow> if ps_ExpectedVersion input = v \<and> v \<noteq> 0 then Some (m(ps_Name input \<mapsto> (ps_Value input, v + 1))) else None)"

definition abs_delete :: "string \<Rightarrow> int \<Rightarrow> secrets \<Rightarrow> secrets option" where
  "abs_delete name expected m =
     (case m name of None \<Rightarrow> None | Some (_, v) \<Rightarrow> if expected = v then Some (m(name := None)) else None)"

text \<open>
  The invariant of the store: the disk is sound, and while the store is available its memory agrees
  with it. An outcome refines a change of the map: a success makes the change, an error leaves the map
  as it is, or it made the change and the store refuses everything from then on.
\<close>

definition store_inv :: "secret_crypto \<Rightarrow> secret_state \<Rightarrow> bool" where
  "store_inv cr s \<longleftrightarrow> disk_sound cr (ss_dir s) (ss_db s) \<and> (\<not> ss_unavailable s \<longrightarrow> store_ok cr s)"

definition outcome :: "secret_crypto \<Rightarrow> secrets option \<Rightarrow> secret_state \<Rightarrow> bool \<Rightarrow> secret_state \<Rightarrow> bool" where
  "outcome cr change s success s' \<longleftrightarrow> store_inv cr s' \<and> (ss_unavailable s \<longrightarrow> ss_unavailable s')
     \<and> (if success then change = Some (stored cr s')
        else stored cr s' = stored cr s \<or> ss_unavailable s' \<and> change = Some (stored cr s'))"

definition env_ok :: "secret_env \<Rightarrow> bool" where
  "env_ok env \<longleftrightarrow> (\<forall>rid. random_ok (sx_nonce env rid)) \<and> (\<forall>key. ke_key (sx_keys env) = Some key \<longrightarrow> length key = 32)"

lemma store_inv_ok: "store_ok cr s \<Longrightarrow> store_inv cr s"
  by (simp add: store_inv_def store_ok_def)

lemma outcome_refused: "store_inv cr s \<Longrightarrow> outcome cr change s False s"
  by (simp add: outcome_def)

text \<open>The invariant and the map depend on the disk and the identity alone.\<close>

definition same_identity :: "secret_state \<Rightarrow> secret_state \<Rightarrow> bool" where
  "same_identity s s' \<longleftrightarrow> ss_dir s' = ss_dir s \<and> ss_installation s' = ss_installation s \<and> ss_active s' = ss_active s \<and> ss_key s' = ss_key s"

lemma store_ok_rows:
  assumes "store_ok cr s" "same_identity s s'" "installation (ss_db s') = installation (ss_db s)"
    "rows_sound cr (ss_dir s) (ss_installation s) (secret_rows (ss_db s'))"
  shows "store_ok cr s'"
  using assms by (auto simp: store_ok_def disk_sound_def same_identity_def)

lemma disk_same:
  assumes "installation db' = installation db" "secret_rows db' = secret_rows db"
  shows "disk_sound cr dir db' = disk_sound cr dir db" "contents cr dir db' = contents cr dir db"
  using assms by (auto simp: disk_sound_def contents_def fun_eq_iff split: option.split)

lemma but_sessions_disk:
  assumes "but_sessions db' = but_sessions db"
  shows "installation db' = installation db" "secret_rows db' = secret_rows db"
  using arg_cong [OF assms, of installation] arg_cong [OF assms, of secret_rows] by (simp_all add: but_sessions_def)

lemma replaceRegistration_same:
  "replaceRegistration cr rid v s = (b, s') \<Longrightarrow> same_identity s s' \<and> ss_db s' = ss_db s \<and> ss_unavailable s' = ss_unavailable s"
  by (auto simp: replaceRegistration_def same_identity_def split: prod.splits sum.splits)

lemma removeRegistration_same [simp]:
  "ss_db (removeRegistration rid s) = ss_db s" "ss_dir (removeRegistration rid s) = ss_dir s"
  "ss_installation (removeRegistration rid s) = ss_installation s" "ss_active (removeRegistration rid s) = ss_active s"
  "ss_key (removeRegistration rid s) = ss_key s" "ss_unavailable (removeRegistration rid s) = ss_unavailable s"
  by (simp_all add: removeRegistration_def)

section \<open>Writing and deleting refine the map\<close>

lemma sealed_version: "sealSecret cr random key plain c = Inr x \<Longrightarrow> 1 \<le> cx_version c"
  by (cases x) (auto simp: sealSecret_Inr associatedData_def split: if_splits)

lemma put_row_abs:
  assumes "put_row_for env inst active key input r" "put_row (ps_ExpectedVersion input) r rows rows'"
    "rows_sound cr dir inst rows"
  shows "abs_put input (row_contents cr dir inst rows)
    = Some ((row_contents cr dir inst rows)(ps_Name input \<mapsto> (ps_Value input, se_version r)))"
proof (cases "ps_ExpectedVersion input = 0")
  case True
  with assms(1,2) have "find (\<lambda>x. se_name x = ps_Name input) rows = None" "se_version r = 1"
    by (auto simp: put_row_def put_row_for_def find_None_iff)
  moreover from this have "row_contents cr dir inst rows (ps_Name input) = None" using row_contents_sound(1) [OF assms(3)] by simp
  ultimately show ?thesis using True by (simp add: abs_put_def)
next
  case False
  with assms(1,2) obtain old where old: "find (\<lambda>x. se_name x = ps_Name input) rows = Some old"
    "se_version old = ps_ExpectedVersion input" "se_version r = next_int64 (ps_ExpectedVersion input)"
    by (auto simp: put_row_def put_row_for_def)
  have "1 \<le> se_version r" using assms(1) sealed_version by (fastforce simp: put_row_for_def row_context_def)
  then have "se_version r = ps_ExpectedVersion input + 1" using old(3) by (auto simp: next_int64_def max_int64_def split: if_splits)
  with row_contents_sound(2) [OF assms(3) old(1)] old(2) False show ?thesis by (auto simp: abs_put_def)
qed

lemma put_work_row:
  assumes "cipher_laws (sx_crypto env)" "env_ok env" "store_ok (sx_crypto env) s" "but_sessions db1 = but_sessions (ss_db s)"
    and work: "put_work env (ss_installation s) (ss_active s) (ss_key s) input a db1 = (Inr (metadata, rid), db')"
  obtains r where "put_row_for env (ss_installation s) (ss_active s) (ss_key s) input r" "se_id r = rid"
    "put_row (ps_ExpectedVersion input) r (secret_rows (ss_db s)) (secret_rows db')" "installation db' = installation (ss_db s)"
    "row_plain (sx_crypto env) (ss_dir s) (ss_installation s) r = Some (ps_Value input)"
proof -
  note db1 = but_sessions_disk [OF assms(4)]
  have sound: "rows_sound (sx_crypto env) (ss_dir s) (ss_installation s) (secret_rows (ss_db s))"
    and key: "key_at (ss_dir s) (ss_active s) = Some (ss_key s)"
    using assms(3) by (auto elim: store_okE)
  from work obtain db2 where tx: "put_secret_tx env (ss_installation s) (ss_active s) (ss_key s) input db1 = (Inr (metadata, rid), db2)"
    and db2: "secret_rows db' = secret_rows db2" "installation db' = installation db2"
    unfolding put_work_def by (auto simp: step_elims insertAudit_def)
  from put_tx_Inr [OF tx] rows_soundD(1) [OF sound] obtain r where
    r: "put_row_for env (ss_installation s) (ss_active s) (ss_key s) input r" "se_id r = rid"
    and put: "put_row (ps_ExpectedVersion input) r (secret_rows (ss_db s)) (secret_rows db')" and inst: "installation db' = installation (ss_db s)"
    unfolding db1 db2 by metis
  have "random_ok (sx_nonce env (se_id r))" using assms(2) by (simp add: env_ok_def)
  from that [OF r put inst conjunct2 [OF put_row_plain [OF assms(1) this key r(1)]]] show ?thesis .
qed

lemma put_work_abs:
  assumes "cipher_laws (sx_crypto env)" "env_ok env" "store_ok (sx_crypto env) s" "but_sessions db1 = but_sessions (ss_db s)"
    and work: "put_work env (ss_installation s) (ss_active s) (ss_key s) input a db1 = (Inr (metadata, rid), db')"
    and s': "same_identity s s'" "ss_db s' = db'"
  shows "store_ok (sx_crypto env) s' \<and> abs_put input (stored (sx_crypto env) s) = Some (stored (sx_crypto env) s')"
proof -
  let ?cr = "sx_crypto env" and ?rows = "secret_rows (ss_db s)"
  have sound: "rows_sound ?cr (ss_dir s) (ss_installation s) ?rows" and key: "key_at (ss_dir s) (ss_active s) = Some (ss_key s)"
    using assms(3) by (auto elim: store_okE)
  obtain r where r: "put_row_for env (ss_installation s) (ss_active s) (ss_key s) input r"
    "put_row (ps_ExpectedVersion input) r ?rows (secret_rows db')" "installation db' = installation (ss_db s)"
    by (rule put_work_row [OF assms(1-4) work])
  have "random_ok (sx_nonce env (se_id r))" using assms(2) by (simp add: env_ok_def)
  from put_row_sound [OF assms(1) this sound key r(1,2)]
  have new: "rows_sound ?cr (ss_dir s) (ss_installation s) (secret_rows db')"
    "row_contents ?cr (ss_dir s) (ss_installation s) (secret_rows db')
      = (row_contents ?cr (ss_dir s) (ss_installation s) ?rows)(ps_Name input \<mapsto> (ps_Value input, se_version r))" by simp_all
  have ok: "store_ok ?cr s'" by (rule store_ok_rows [OF assms(3) s'(1)]) (simp_all add: s'(2) r(3) new(1))
  have "stored ?cr s' = row_contents ?cr (ss_dir s) (ss_installation s) (secret_rows db')"
    unfolding stored_rows [OF ok] using s' by (simp add: same_identity_def)
  then show ?thesis using ok put_row_abs [OF r(1,2) sound] unfolding stored_rows [OF assms(3)] new(2) by simp
qed

lemma delete_work_abs:
  assumes "store_ok cr s" "but_sessions db1 = but_sessions (ss_db s)" "delete_work env name expected a db1 = (Inr rid, db')"
    and s': "same_identity s s'" "ss_db s' = db'"
  shows "store_ok cr s' \<and> abs_delete name expected (stored cr s) = Some (stored cr s')"
proof -
  let ?rows = "secret_rows (ss_db s)"
  note db1 = but_sessions_disk [OF assms(2)]
  have sound: "rows_sound cr (ss_dir s) (ss_installation s) ?rows" using assms(1) by (auto elim: store_okE)
  from delete_work_Inr [OF assms(3)] rows_soundD(1) [OF sound] obtain old where
    old: "find (\<lambda>r. se_name r = name) ?rows = Some old" "se_version old = expected"
    "secret_rows db' = filter (\<lambda>r. se_id r \<noteq> se_id old) ?rows" "installation db' = installation (ss_db s)"
    unfolding db1 by metis
  note del = delete_row_sound [OF sound old(1)]
  have ok: "store_ok cr s'" by (rule store_ok_rows [OF assms(1) s'(1)]) (use del old in \<open>simp_all add: s'(2)\<close>)
  have "stored cr s' = (row_contents cr (ss_dir s) (ss_installation s) ?rows)(name := None)"
    unfolding stored_rows [OF ok] using s' del old(3) by (simp add: same_identity_def)
  then show ?thesis using ok row_contents_sound(2) [OF sound old(1)] old(2)
    unfolding stored_rows [OF assms(1)] by (auto simp: abs_delete_def)
qed

text \<open>The transaction around it, for any authorization.\<close>

context authorizer
begin

lemma mutate_outcome:
  assumes inv: "store_inv cr s" and run: "mutate f authorize work (ss_unavailable s) (ss_db s) = (r, unavail, db)"
    and work: "\<And>a db1 x db' s'. store_ok cr s \<Longrightarrow> but_sessions db1 = but_sessions (ss_db s) \<Longrightarrow> work a db1 = (Inr x, db') \<Longrightarrow>
      same_identity s s' \<Longrightarrow> ss_db s' = db' \<Longrightarrow> store_ok cr s' \<and> change = Some (stored cr s')"
  shows "outcome cr change s (is_ok r) (s\<lparr>ss_db := db, ss_unavailable := unavail\<rparr>)"
proof -
  let ?s = "s\<lparr>ss_db := db, ss_unavailable := unavail\<rparr>"
  have same: "same_identity s ?s" by (simp add: same_identity_def)
  have ran: "store_inv cr ?s \<and> change = Some (stored cr ?s)"
    if "\<not> ss_unavailable s" "but_sessions db1 = but_sessions (ss_db s)" "work a db1 = (Inr x, db)" for a db1 x
  proof -
    have "store_ok cr s" using that(1) inv by (simp add: store_inv_def)
    from work [OF this that(2,3) same] show ?thesis using store_inv_ok [of cr ?s] by auto
  qed
  show ?thesis
  proof (cases r)
    case (Inr x)
    with mutate_Inr [of f work "ss_unavailable s" "ss_db s" x unavail db] run obtain a db1 where
      "\<not> ss_unavailable s" "unavail = ss_unavailable s" "but_sessions db1 = but_sessions (ss_db s)" "work a db1 = (Inr x, db)" by auto
    with ran Inr show ?thesis by (simp add: outcome_def)
  next
    case (Inl e)
    with run have m: "mutate f authorize work (ss_unavailable s) (ss_db s) = (Inl e, unavail, db)" by simp
    consider "db = ss_db s" "ss_unavailable s \<longrightarrow> unavail" "unavail = ss_unavailable s \<or> unavail"
      | x db1 a where "unavail" "\<not> ss_unavailable s" "but_sessions db1 = but_sessions (ss_db s)" "work x db1 = (Inr a, db)"
      using mutate_Inl [OF m] by blast
    then show ?thesis
    proof cases
      case 1
      then have "store_inv cr ?s" using inv by (auto simp: store_inv_def store_ok_def)
      with 1 Inl show ?thesis by (simp add: outcome_def)
    next
      case 2
      with ran [OF 2(2-4)] Inl show ?thesis by (simp add: outcome_def)
    qed
  qed
qed

lemma put_outcome:
  assumes "cipher_laws (sx_crypto env)" "env_ok env" "store_inv (sx_crypto env) s" "putAuthorized env authorize input s = (r, s')"
  shows "outcome (sx_crypto env) (abs_put input (stored (sx_crypto env) s)) s (is_ok r) s'"
proof (cases "\<not> secretNamePattern (ps_Name input) \<or> ps_ExpectedVersion input < 0")
  case True
  with assms(3,4) show ?thesis by (auto simp: putAuthorized_def outcome_refused)
next
  case False
  let ?work = "put_work env (ss_installation s) (ss_active s) (ss_key s) input"
  obtain x unavail db where m: "mutate (sx_faults env) authorize ?work (ss_unavailable s) (ss_db s) = (x, unavail, db)"
    by (metis prod_cases3)
  let ?s = "s\<lparr>ss_db := db, ss_unavailable := unavail\<rparr>"
  have out: "outcome (sx_crypto env) (abs_put input (stored (sx_crypto env) s)) s (is_ok x) ?s"
    by (rule mutate_outcome [OF assms(3) m]) (use put_work_abs [OF assms(1,2)] in auto)
  show ?thesis
  proof (cases x)
    case (Inl e)
    with out m assms(4) False show ?thesis by (auto simp: putAuthorized_def)
  next
    case (Inr p)
    obtain metadata rid where p: "p = (metadata, rid)" by (cases p)
    obtain b s2 where reg: "replaceRegistration (sx_crypto env) rid (ps_Value input) ?s = (b, s2)" by (metis surj_pair)
    from replaceRegistration_same [OF reg] have "ss_db s2 = db" "ss_dir s2 = ss_dir s" "ss_unavailable s2 = unavail"
      "ss_installation s2 = ss_installation s" "ss_active s2 = ss_active s" "ss_key s2 = ss_key s" by (auto simp: same_identity_def)
    then have "outcome (sx_crypto env) (abs_put input (stored (sx_crypto env) s)) s b (if b then s2 else s2\<lparr>ss_unavailable := True\<rparr>)"
      using out Inr by (auto simp: outcome_def store_inv_def store_ok_def)
    moreover have "is_ok r = b \<and> s' = (if b then s2 else s2\<lparr>ss_unavailable := True\<rparr>)"
      using assms(4) False m Inr p reg by (cases b) (auto simp: putAuthorized_def)
    ultimately show ?thesis by simp
  qed
qed

lemma delete_outcome:
  assumes "store_inv cr s" "deleteAuthorized env authorize name expected s = (r, s')"
  shows "outcome cr (abs_delete name expected (stored cr s)) s (is_ok r) s'"
proof (cases "\<not> secretNamePattern name \<or> expected < 1")
  case True
  with assms show ?thesis by (auto simp: deleteAuthorized_def outcome_refused)
next
  case False
  obtain x unavail db where m: "mutate (sx_faults env) authorize (delete_work env name expected) (ss_unavailable s) (ss_db s) = (x, unavail, db)"
    by (metis prod_cases3)
  let ?s = "s\<lparr>ss_db := db, ss_unavailable := unavail\<rparr>"
  have out: "outcome cr (abs_delete name expected (stored cr s)) s (is_ok x) ?s"
    by (rule mutate_outcome [OF assms(1) m]) (use delete_work_abs in auto)
  show ?thesis
  proof (cases x)
    case (Inl e)
    with out m assms(2) False show ?thesis by (auto simp: deleteAuthorized_def)
  next
    case (Inr rid)
    with assms(2) False m have "r = Inr ()" "s' = removeRegistration rid ?s" by (auto simp: deleteAuthorized_def)
    with out Inr show ?thesis by (auto simp: outcome_def store_inv_def store_ok_def)
  qed
qed

end

text \<open>A fixed actor, as the command line uses it, authorizes itself.\<close>

interpretation actor_authorizer: authorizer "returns a" "\<lambda>_ b. b = a" for a
  by unfold_locales (simp_all add: frame_intros)

end
