(* ===== verification/RotationSafe.thy ===== *)
theory RotationSafe
  imports SecretMap
begin

text \<open>
  Rotation loses no secret: the keyset loop is one pass over all rows, every state a checkpoint records
  is sound and decrypts to the same map, and after a success every row is sealed with the new key, the
  only one left.
\<close>

section \<open>The loop is one pass\<close>

lemma put_rotated_by_id:
  assumes "distinct (map se_id rows)" "r \<in> set rows" "rotate_row env dir inst next newKey r = Inr r'"
  shows "put_rotated r' rows = map (\<lambda>x. if se_id x = se_id r then r' else x) rows"
proof -
  obtain nonce encrypted fp where
    r': "r' = r\<lparr>se_key_version := next, se_nonce := nonce, se_ciphertext := encrypted, se_fingerprint := fp\<rparr>"
    by (rule rotate_row_Inr [OF assms(3)]) blast
  have "x = r" if "x \<in> set rows" "se_id x = se_id r" for x
    using that assms(1,2) by (auto simp: distinct_map inj_on_def)
  with r' show ?thesis by (auto simp: put_rotated_def update_where_def)
qed

lemma rotate_rows_pointwise:
  assumes "distinct (map se_id rows)"
  shows "rotate_rows env dir inst next newKey bound rows = Inr rows' \<longleftrightarrow>
    list_all2 (\<lambda>r r'. if bound < se_id r then rotate_row env dir inst next newKey r = Inr r' else r' = r) rows rows'"
  using assms
proof (induction env dir inst "next" newKey bound rows rule: rotate_rows.induct)
  case (1 env dir inst nxt newKey bound rows)
  let ?rot = "rotate_row env dir inst nxt newKey"
  show ?case
  proof (cases "next_row bound rows")
    case None
    then have "\<forall>r\<in>set rows. \<not> bound < se_id r" by (simp add: next_row_None)
    then have "list_all2 (\<lambda>r r'. if bound < se_id r then ?rot r = Inr r' else r' = r) rows rows' \<longleftrightarrow> list_all2 (=) rows rows'"
      by (intro list.rel_cong refl) auto
    with None show ?thesis by (simp add: rotate_rows.simps list.rel_eq)
  next
    case (Some r)
    note r = next_row_Some [OF Some]
    show ?thesis
    proof (cases "?rot r")
      case (Inl e)
      have "\<not> list_all2 (\<lambda>r r'. if bound < se_id r then ?rot r = Inr r' else r' = r) rows rows'"
        using r Inl by (auto simp: list_all2_conv_all_nth in_set_conv_nth)
      with Some Inl show ?thesis by (simp add: rotate_rows.simps)
    next
      case (Inr r')
      let ?put = "\<lambda>x. if se_id x = se_id r then r' else x"
      have put: "put_rotated r' rows = map ?put rows"
        by (rule put_rotated_by_id [OF "1.prems" _ Inr]) (use r in simp)
      have step: "(if se_id r < se_id (?put x) then ?rot (?put x) = Inr x' else x' = ?put x)
          = (if bound < se_id x then ?rot x = Inr x' else x' = x)" if "x \<in> set rows" for x x'
      proof (cases "se_id x = se_id r")
        case True
        then have "x = r" using that r "1.prems" by (auto simp: distinct_map inj_on_def)
        with r Inr rotate_row_id [OF Inr] show ?thesis by auto
      next
        case False
        with r that have "se_id r < se_id x \<longleftrightarrow> bound < se_id x" by (metis order.strict_trans order_le_less)
        with False show ?thesis by simp
      qed
      have "rotate_rows env dir inst nxt newKey bound rows = rotate_rows env dir inst nxt newKey (se_id r) (put_rotated r' rows)"
        using Some Inr by (subst rotate_rows.simps) simp
      also have "\<dots> = Inr rows' \<longleftrightarrow> list_all2 (\<lambda>x x'. if se_id r < se_id x then ?rot x = Inr x' else x' = x) (put_rotated r' rows) rows'"
        by (rule "1.IH" [OF Some Inr]) (simp add: "1.prems")
      also have "\<dots> \<longleftrightarrow> list_all2 (\<lambda>r r'. if bound < se_id r then ?rot r = Inr r' else r' = r) rows rows'"
        unfolding put list_all2_map1 by (rule list.rel_cong [OF refl refl]) (use step in blast)
      finally show ?thesis .
    qed
  qed
qed

text \<open>
  C39: the keyset loop of the rotation, which looks for the next id after each update, ends, and it ends
  well exactly with the table in which every row, in its place, is the one sealed with the new key.
\<close>

theorem rotation_is_one_pass:
  assumes "distinct (map se_id rows)" "[] \<notin> se_id ` set rows"
  shows "rotate_rows env dir inst next newKey [] rows = Inr rows' \<longleftrightarrow>
    list_all2 (\<lambda>r r'. rotate_row env dir inst next newKey r = Inr r') rows rows'"
proof -
  have "[] < se_id r" if "r \<in> set rows" for r
    using that assms(2) by (cases "se_id r") (auto simp: image_iff)
  then show ?thesis
    unfolding rotate_rows_pointwise [OF assms(1)] by (intro list.rel_cong refl) simp
qed

section \<open>A rotated table decrypts to the same map\<close>

lemma rotate_row_sound:
  assumes "cipher_laws (sx_crypto env)" "env_ok env" "key_at dir next = Some newKey" "rotate_row env dir inst next newKey r = Inr r'"
    and "se_algorithm r = secret_algorithm"
  shows "row_sound (sx_crypto env) dir inst r' \<and> row_plain (sx_crypto env) dir inst r' = row_plain (sx_crypto env) dir inst r"
proof (rule rotate_row_Inr [OF assms(4)])
  fix key plain nonce encrypted fp
  assume a: "key_at dir (se_key_version r) = Some key"
    "openSecret (sx_crypto env) key (se_nonce r) (se_ciphertext r) (row_context inst r) = Some plain"
    "sealSecret (sx_crypto env) (sx_nonce env (se_id r)) newKey plain
       \<lparr>cx_installation = inst, cx_secret = se_id r, cx_version = se_version r, cx_key_version = next\<rparr> = Inr (nonce, encrypted)"
    "secretFingerprint (sx_crypto env) newKey plain inst = Some fp"
    "r' = r\<lparr>se_key_version := next, se_nonce := nonce, se_ciphertext := encrypted, se_fingerprint := fp\<rparr>"
  have "random_ok (sx_nonce env (se_id r))" using assms(2) by (simp add: env_ok_def)
  from open_sealed [OF assms(1) this a(3)] have
    "openSecret (sx_crypto env) newKey (se_nonce r') (se_ciphertext r') (row_context inst r') = Some plain"
    by (simp add: a(5) row_context_def)
  with a assms(3,5) show ?thesis by (simp add: row_sound_def row_plain_def)
qed

definition same_secret :: "secret_crypto \<Rightarrow> key_dir \<Rightarrow> string \<Rightarrow> secret_row \<Rightarrow> secret_row \<Rightarrow> bool" where
  "same_secret cr dir inst r r' \<longleftrightarrow>
     se_name r' = se_name r \<and> se_version r' = se_version r \<and> row_plain cr dir inst r' = row_plain cr dir inst r"

lemma same_secrets:
  assumes "list_all2 (same_secret cr dir inst) rows rows'"
  shows "map se_name rows' = map se_name rows \<and> row_contents cr dir inst rows' = row_contents cr dir inst rows"
proof
  from assms show "map se_name rows' = map se_name rows" by (induction rule: list_all2_induct) (simp_all add: same_secret_def)
  have "row_contents cr dir inst rows' name = row_contents cr dir inst rows name" for name
    using assms by (induction rule: list_all2_induct) (simp_all add: same_secret_def row_contents_def)
  then show "row_contents cr dir inst rows' = row_contents cr dir inst rows" by blast
qed

lemma list_all2_set2: "list_all2 P xs ys \<Longrightarrow> y \<in> set ys \<Longrightarrow> \<exists>x\<in>set xs. P x y"
  by (induction rule: list_all2_induct) auto

lemma rotated_rows_sound:
  assumes "cipher_laws (sx_crypto env)" "env_ok env" "key_at dir next = Some newKey"
    and sound: "rows_sound (sx_crypto env) dir inst rows"
    and "rotate_rows env dir inst next newKey [] rows = Inr rows'"
  shows "rows_sound (sx_crypto env) dir inst rows' \<and> row_contents (sx_crypto env) dir inst rows' = row_contents (sx_crypto env) dir inst rows
    \<and> (\<forall>r\<in>set rows'. [] < se_id r \<longrightarrow> se_key_version r = next)"
proof -
  let ?P = "\<lambda>r r'. if [] < se_id r then rotate_row env dir inst next newKey r = Inr r' else r' = r"
  from assms(5) have all: "list_all2 ?P rows rows'" using rotate_rows_pointwise [OF rows_soundD(1) [OF sound]] by simp
  have row: "se_id r' = se_id r \<and> se_name r' = se_name r \<and> se_version r' = se_version r \<and> row_sound (sx_crypto env) dir inst r'
      \<and> row_plain (sx_crypto env) dir inst r' = row_plain (sx_crypto env) dir inst r \<and> ([] < se_id r' \<longrightarrow> se_key_version r' = next)"
    if "r \<in> set rows" "?P r r'" for r r'
  proof (cases "[] < se_id r")
    case True
    with that(2) have rot: "rotate_row env dir inst next newKey r = Inr r'" by simp
    have "se_algorithm r = secret_algorithm" using rows_soundD(3) [OF sound that(1)] by (simp add: row_sound_def)
    from rotate_row_sound [OF assms(1-3) rot this] rotate_row_id [OF rot] show ?thesis by simp
  next
    case False
    with that(2) have "r' = r" by simp
    with False rows_soundD(3) [OF sound that(1)] show ?thesis by simp
  qed
  have rel: "list_all2 (\<lambda>r r'. se_id r' = se_id r \<and> same_secret (sx_crypto env) dir inst r r'
      \<and> row_sound (sx_crypto env) dir inst r' \<and> ([] < se_id r' \<longrightarrow> se_key_version r' = next)) rows rows'"
    by (rule list.rel_mono_strong [OF all]) (unfold same_secret_def, use row in blast)
  have "list_all2 (same_secret (sx_crypto env) dir inst) rows rows'" by (rule list.rel_mono_strong [OF rel]) blast
  note same = same_secrets [OF this]
  have "list_all2 (\<lambda>r r'. se_id r' = se_id r) rows rows'" by (rule list.rel_mono_strong [OF rel]) blast
  then have "map se_id rows' = map se_id rows" by (induction rule: list_all2_induct) simp_all
  moreover have "row_sound (sx_crypto env) dir inst r' \<and> ([] < se_id r' \<longrightarrow> se_key_version r' = next)" if "r' \<in> set rows'" for r'
    using list_all2_set2 [OF rel that] by blast
  ultimately show ?thesis using sound same by (simp add: rows_sound_def)
qed

lemma masterKeyCheck_nonempty: "cipher_laws cr \<Longrightarrow> masterKeyCheck cr key inst = Some c \<Longrightarrow> c \<noteq> []"
  by (auto simp: masterKeyCheck_def cipher_laws_def split: if_splits)

text \<open>The transaction.\<close>

lemma rotateTx_Inr:
  assumes "cipher_laws (sx_crypto env)" "env_ok env" "key_at dir next = Some newKey" "disk_sound (sx_crypto env) dir db"
    and inst: "\<And>i. installation db = Some i \<Longrightarrow> in_id i = inst"
    and run: "rotateTx env dir inst active next newKey a db = (Inr u, db')"
  shows "disk_sound (sx_crypto env) dir db' \<and> contents (sx_crypto env) dir db' = contents (sx_crypto env) dir db
    \<and> (\<forall>r\<in>set (secret_rows db'). [] < se_id r \<longrightarrow> se_key_version r = next) \<and> (\<exists>i. installation db' = Some i \<and> in_id i = inst \<and> in_key_version i = next)"
proof -
  from assms(4) obtain i where i: "installation db = Some i" "rows_sound (sx_crypto env) dir (in_id i) (secret_rows db)"
    by (auto simp: disk_sound_def)
  from run i(1) obtain rows c where rows: "rotate_rows env dir inst next newKey [] (secret_rows db) = Inr rows"
    and c: "masterKeyCheck (sx_crypto env) newKey inst = Some c"
    and db': "secret_rows db' = rows" "installation db' = Some (i\<lparr>in_key_version := next, in_key_check := Some c, in_updated := Some (sx_now env)\<rparr>)"
    unfolding rotateTx_def by (auto simp: step_elims needed_Inr insertAudit_def split: sum.splits)
  note inst = inst [OF i(1)]
  note rot = rotated_rows_sound [OF assms(1-3) i(2) [unfolded inst] rows]
  have "check_sound (sx_crypto env) dir (i\<lparr>in_key_version := next, in_key_check := Some c, in_updated := Some (sx_now env)\<rparr>)"
    using assms(3) c masterKeyCheck_nonempty [OF assms(1) c] inst by (simp add: check_sound_def)
  moreover have "contents (sx_crypto env) dir db' name = contents (sx_crypto env) dir db name" for name
    using rot i(1) inst by (simp add: contents_def db')
  ultimately show ?thesis using rot inst by (auto simp: disk_sound_def db')
qed

section \<open>Verification reads, collection keeps what is referenced\<close>

definition same_disk :: "secret_state \<Rightarrow> secret_state \<Rightarrow> bool" where
  "same_disk s s' \<longleftrightarrow> same_identity s s' \<and> ss_db s' = ss_db s \<and> ss_trace s' = ss_trace s"

lemma same_disk_refl: "same_disk s s" "same_disk s (s\<lparr>ss_unavailable := b\<rparr>)"
  by (simp_all add: same_disk_def same_identity_def)

lemma same_disk_trans: "same_disk a b \<Longrightarrow> same_disk b c \<Longrightarrow> same_disk a c"
  by (simp add: same_disk_def same_identity_def)

lemma replaceRegistration_disk: "same_disk s (snd (replaceRegistration cr rid v s))"
  by (auto simp: replaceRegistration_def same_disk_def same_identity_def split: prod.splits sum.splits)

lemma verify_rows_same:
  "same_disk s (snd (verify_rows env tag rows s)) \<and> ss_unavailable (snd (verify_rows env tag rows s)) = ss_unavailable s"
proof (induction env tag rows s rule: verify_rows.induct)
  case (2 env tag r rs s)
  show ?case
  proof (cases "verify_row env tag s r")
    case (Inl e)
    then show ?thesis by (simp add: same_disk_refl)
  next
    case (Inr plain)
    obtain b s1 where reg: "replaceRegistration (sx_crypto env) (se_id r) plain s = (b, s1)" by (metis surj_pair)
    with replaceRegistration_disk [of s "sx_crypto env" "se_id r" plain] replaceRegistration_same [OF reg]
    have s1: "same_disk s s1" "ss_unavailable s1 = ss_unavailable s" by simp_all
    show ?thesis
    proof (cases b)
      case True
      with "2.IH" [OF Inr reg [symmetric]] reg have "same_disk s1 (snd (verify_rows env tag rs s1)) \<and> ss_unavailable (snd (verify_rows env tag rs s1)) = ss_unavailable s1" by simp
      with same_disk_trans [OF s1(1)] s1(2) Inr reg True show ?thesis by simp
    qed (use Inr reg s1 in simp)
  qed
qed (simp add: same_disk_refl)

lemma verifyAll_same: "verifyAll env tag s = (x, s') \<Longrightarrow> same_disk s s' \<and> ss_unavailable s' = ss_unavailable s"
  using verify_rows_same [of s env tag "sort_key se_id (secret_rows (ss_db s))"]
  by (auto simp: verifyAll_def same_disk_refl split: if_splits)

lemma verify_first_same:
  assumes "verify_first env s = (x, s')"
  shows "same_disk s s' \<and> (is_ok x \<longrightarrow> ss_unavailable s' = ss_unavailable s) \<and> (\<not> is_ok x \<longrightarrow> ss_unavailable s')"
proof (cases "verifyKeyState env ''first'' s")
  case (Inl e)
  with assms have "x = Inl e" "s' = s\<lparr>ss_unavailable := True\<rparr>" by (simp_all add: verify_first_def)
  then show ?thesis by (simp add: same_disk_refl)
next
  case (Inr u)
  obtain y s1 where v: "verifyAll env ''first'' s = (y, s1)" by (metis surj_pair)
  from verifyAll_same [OF v] have s1: "same_disk s s1" "ss_unavailable s1 = ss_unavailable s" by simp_all
  show ?thesis
  proof (cases y)
    case (Inl e)
    with assms Inr v have "x = Inl e" "s' = s1\<lparr>ss_unavailable := True\<rparr>" by (simp_all add: verify_first_def)
    then show ?thesis using same_disk_trans [OF s1(1) same_disk_refl(2)] by simp
  next
    case r: (Inr u)
    with assms Inr v have "x = Inr ()" "s' = s1" by (simp_all add: verify_first_def)
    with s1 show ?thesis by simp
  qed
qed

text \<open>
  The states at the checkpoints between \<open>s\<close> and \<open>s'\<close> are sound and decrypt to \<open>m\<close>: a process that
  stops there finds them at its next start.
\<close>

definition safe_disk :: "secret_crypto \<Rightarrow> secrets \<Rightarrow> database \<Rightarrow> key_dir \<Rightarrow> bool" where
  "safe_disk cr m db dir \<longleftrightarrow> disk_sound cr dir db \<and> contents cr dir db = m"

definition safe_trace :: "secret_crypto \<Rightarrow> secrets \<Rightarrow> secret_state \<Rightarrow> secret_state \<Rightarrow> bool" where
  "safe_trace cr m s s' \<longleftrightarrow>
     (\<exists>new. ss_trace s' = ss_trace s @ new \<and> (\<forall>(name, db, dir)\<in>set new. safe_disk cr m db dir))"

lemma safe_trace_same: "ss_trace s' = ss_trace s \<Longrightarrow> safe_trace cr m s s'"
  by (simp add: safe_trace_def)

lemma safe_trace_trans: "safe_trace cr m a b \<Longrightarrow> safe_trace cr m b c \<Longrightarrow> safe_trace cr m a c"
  by (fastforce simp: safe_trace_def)

lemma safe_checkpoint: "safe_disk cr m (ss_db s) (ss_dir s) \<Longrightarrow> safe_trace cr m s (checkpoint name s)"
  by (simp add: safe_trace_def checkpoint_def)

lemma checkpoint_simps [simp]:
  "ss_db (checkpoint name s) = ss_db s" "ss_dir (checkpoint name s) = ss_dir s" "ss_unavailable (checkpoint name s) = ss_unavailable s"
  "ss_installation (checkpoint name s) = ss_installation s" "ss_active (checkpoint name s) = ss_active s" "ss_key (checkpoint name s) = ss_key s"
  "ss_redactor (checkpoint name s) = ss_redactor s" "ss_registrations (checkpoint name s) = ss_registrations s"
  by (simp_all add: checkpoint_def)

lemma safe_keeps: "safe_disk cr m db dir \<Longrightarrow> keeps_referenced db dir dir' \<Longrightarrow> safe_disk cr m db dir'"
  using disk_sound_keeps by (auto simp: safe_disk_def)

text \<open>What a collection does to the store, whatever its result.\<close>

definition collected :: "secret_crypto \<Rightarrow> secrets \<Rightarrow> secret_state \<Rightarrow> secret_state \<Rightarrow> bool" where
  "collected cr m s s' \<longleftrightarrow> ss_db s' = ss_db s \<and> keeps_referenced (ss_db s) (ss_dir s) (ss_dir s') \<and> safe_trace cr m s s'
     \<and> ss_unavailable s' = ss_unavailable s \<and> ss_installation s' = ss_installation s \<and> ss_active s' = ss_active s \<and> ss_key s' = ss_key s
     \<and> ss_redactor s' = ss_redactor s \<and> ss_registrations s' = ss_registrations s"

lemma collected_refl: "collected cr m s s"
  by (simp add: collected_def keeps_referenced_def safe_trace_same)

lemma collected_trans: "collected cr m a b \<Longrightarrow> collected cr m b c \<Longrightarrow> collected cr m a c"
  using safe_trace_trans by (auto simp: collected_def keeps_referenced_def)

lemma collected_safe: "collected cr m s s' \<Longrightarrow> safe_disk cr m (ss_db s) (ss_dir s) \<Longrightarrow> safe_disk cr m (ss_db s') (ss_dir s')"
  by (auto simp: collected_def intro: safe_keeps)

lemma collected_unlink:
  assumes "safe_disk cr m (ss_db s) (ss_dir s)" "keeps_referenced (ss_db s) (ss_dir s) (unlink name (ss_dir s))"
  shows "collected cr m s (checkpoint site (s\<lparr>ss_dir := unlink name (ss_dir s)\<rparr>))"
proof -
  have "safe_disk cr m (ss_db s) (unlink name (ss_dir s))" by (rule safe_keeps [OF assms])
  then show ?thesis using assms(2) by (simp add: collected_def safe_trace_def checkpoint_def)
qed

lemma keeps_unreferenced:
  assumes "1 \<le> v" "\<not> key_referenced db v"
  shows "keeps_referenced db dir (unlink (keyFilename v) dir)"
  using assms key_at_Some key_at_unlink [OF _ assms(1)] by (auto simp: keeps_referenced_def)

lemma collect_versions_collected:
  assumes "safe_disk cr m (ss_db s) (ss_dir s)" "\<forall>v\<in>set vs. 1 \<le> v" "collect_versions env vs s = (x, s')"
  shows "collected cr m s s'"
  using assms
proof (induction env vs s rule: collect_versions.induct)
  case (2 env v vs s)
  show ?case
  proof (cases "fails (sx_faults env) (''count '' @ keyFilename v) \<or> key_referenced (ss_db s) v")
    case True
    with "2.IH"(1) "2.prems" show ?thesis by (auto simp: collected_refl split: if_splits)
  next
    case count: False
    let ?s1 = "checkpoint ''old-key-removed'' (s\<lparr>ss_dir := unlink (keyFilename v) (ss_dir s)\<rparr>)"
    let ?s2 = "checkpoint ''gc-directory-synced'' ?s1"
    have s1: "collected cr m s ?s1"
      by (rule collected_unlink [OF "2.prems"(1) keeps_unreferenced]) (use "2.prems"(2) count in auto)
    have safe1: "safe_disk cr m (ss_db ?s1) (ss_dir ?s1)" by (rule collected_safe [OF s1 "2.prems"(1)])
    have "collected cr m ?s1 ?s2" using safe_checkpoint [OF safe1] by (simp add: collected_def keeps_referenced_def)
    with s1 have s2: "collected cr m s ?s2" by (rule collected_trans)
    have safe2: "safe_disk cr m (ss_db ?s2) (ss_dir ?s2)" using safe1 by simp
    show ?thesis
    proof (cases "map_of (ss_dir s) (keyFilename v)")
      case None
      with count "2.prems"(3) show ?thesis by (simp add: collected_refl)
    next
      case (Some k)
      consider "s' = s" | "s' = ?s1" | "kf_regular k" "\<not> fails (sx_faults env) (''remove '' @ keyFilename v)"
          "\<not> fails (sx_faults env) (''sync after '' @ keyFilename v)" "collect_versions env vs ?s2 = (x, s')"
        using "2.prems"(3) count Some by (auto simp: Let_def split: if_splits)
      then show ?thesis
      proof cases
        case 3
        have "collected cr m ?s2 s'"
          by (rule "2.IH"(2)) (use count Some 3 "2.prems"(2) safe2 in simp_all)
        with s2 show ?thesis by (rule collected_trans)
      qed (use s1 in \<open>simp_all add: collected_refl\<close>)
    qed
  qed
qed (simp add: collected_refl)

lemma temporary_name_not_key: "temporaryKeyName name \<Longrightarrow> name \<noteq> keyFilename v"
  by (cases name) (auto simp: temporaryKeyName_def keyFilename_def)

lemma keeps_temporary: "temporaryKeyName name \<Longrightarrow> keeps_referenced db dir (unlink name dir)"
  using temporary_name_not_key [of name] by (auto simp: keeps_referenced_def key_at_def map_of_unlink split: if_splits)

lemma collect_temporaries_collected:
  assumes "safe_disk cr m (ss_db s) (ss_dir s)" "collect_temporaries env names s = (x, s')"
  shows "collected cr m s s'"
  using assms
proof (induction env names s rule: collect_temporaries.induct)
  case (2 env name names s)
  let ?s1 = "checkpoint ''temporary-removed'' (s\<lparr>ss_dir := unlink name (ss_dir s)\<rparr>)"
  show ?case
  proof (cases "temporaryKeyName name")
    case False
    with 2 show ?thesis by simp
  next
    case temp: True
    have s1: "collected cr m s ?s1" by (rule collected_unlink [OF "2.prems"(1) keeps_temporary [OF temp]])
    have safe1: "safe_disk cr m (ss_db ?s1) (ss_dir ?s1)" by (rule collected_safe [OF s1 "2.prems"(1)])
    consider "s' = s" | k where "map_of (ss_dir s) name = Some k" "kf_regular k" "\<not> fails (sx_faults env) (''remove '' @ name)"
        "collect_temporaries env names ?s1 = (x, s')"
      using "2.prems"(2) temp by (auto split: if_splits option.splits)
    then show ?thesis
    proof cases
      case 2
      have "collected cr m ?s1 s'" by (rule "2.IH"(2)) (use temp 2 safe1 in simp_all)
      with s1 show ?thesis by (rule collected_trans)
    qed (simp add: collected_refl)
  qed
qed (simp add: collected_refl)

lemma collectKeys_collected:
  assumes "safe_disk cr m (ss_db s) (ss_dir s)" "collectKeys env s = (x, s')"
  shows "collected cr m s s'"
proof (cases "key_versions (sx_faults env) (ss_dir s)")
  case (Inl e)
  with assms show ?thesis by (auto simp: collectKeys_def collected_refl)
next
  case (Inr vs)
  obtain y s1 where s1: "collect_versions env vs s = (y, s1)" by (metis surj_pair)
  have c1: "collected cr m s s1"
    by (rule collect_versions_collected [OF assms(1) _ s1]) (use key_versions_Inr [OF Inr] in blast)
  note safe1 = collected_safe [OF c1 assms(1)]
  obtain z s2 where s2: "collect_temporaries env (sort (map fst (ss_dir s1))) s1 = (z, s2)" by (metis surj_pair)
  have c2: "collected cr m s s2" by (rule collected_trans [OF c1 collect_temporaries_collected [OF safe1 s2]])
  have "collected cr m s2 (checkpoint ''cleanup-synced'' s2)"
    using safe_checkpoint [OF collected_safe [OF c2 assms(1)]] by (simp add: collected_def keeps_referenced_def)
  then have c3: "collected cr m s (checkpoint ''cleanup-synced'' s2)" by (rule collected_trans [OF c2])
  have "s' = s1 \<or> s' = s2 \<or> s' = checkpoint ''cleanup-synced'' s2"
    using assms(2) Inr s1 s2 by (auto simp: collectKeys_def split: sum.splits if_splits)
  with c1 c2 c3 show ?thesis by blast
qed

text \<open>A collection that ends well leaves no key that nothing refers to.\<close>

definition shrinks :: "key_dir \<Rightarrow> key_dir \<Rightarrow> bool" where
  "shrinks dir dir' \<longleftrightarrow> (\<forall>name. map_of dir name = None \<longrightarrow> map_of dir' name = None)"

lemma shrinks_unlink: "shrinks dir (unlink name dir)"
  by (simp add: shrinks_def map_of_unlink)

lemma shrinks_trans: "shrinks a b \<Longrightarrow> shrinks b c \<Longrightarrow> shrinks a c"
  by (simp add: shrinks_def)

lemma collect_versions_gone:
  assumes "collect_versions env vs s = (Inr u, s')"
  shows "ss_db s' = ss_db s \<and> shrinks (ss_dir s) (ss_dir s')
    \<and> (\<forall>v\<in>set vs. key_referenced (ss_db s) v \<or> map_of (ss_dir s') (keyFilename v) = None)"
  using assms
proof (induction env vs s rule: collect_versions.induct)
  case (2 env v vs s)
  let ?s2 = "checkpoint ''gc-directory-synced'' (checkpoint ''old-key-removed'' (s\<lparr>ss_dir := unlink (keyFilename v) (ss_dir s)\<rparr>))"
  show ?case
  proof (cases "key_referenced (ss_db s) v")
    case True
    with "2.IH"(1) "2.prems" show ?thesis by (auto split: if_splits)
  next
    case False
    with "2.prems" obtain k where k: "\<not> fails (sx_faults env) (''count '' @ keyFilename v)" "map_of (ss_dir s) (keyFilename v) = Some k"
      "kf_regular k" "\<not> fails (sx_faults env) (''remove '' @ keyFilename v)" "\<not> fails (sx_faults env) (''sync after '' @ keyFilename v)"
      "collect_versions env vs ?s2 = (Inr u, s')"
      by (auto simp: Let_def split: if_splits option.splits)
    have ih: "ss_db s' = ss_db ?s2 \<and> shrinks (ss_dir ?s2) (ss_dir s')
        \<and> (\<forall>v\<in>set vs. key_referenced (ss_db ?s2) v \<or> map_of (ss_dir s') (keyFilename v) = None)"
      by (rule "2.IH"(2)) (use False k in simp_all)
    have "shrinks (ss_dir s) (ss_dir ?s2)" using shrinks_unlink by simp
    then have "shrinks (ss_dir s) (ss_dir s')" using ih shrinks_trans by blast
    moreover have "map_of (ss_dir ?s2) (keyFilename v) = None" by (simp add: map_of_unlink)
    then have "map_of (ss_dir s') (keyFilename v) = None" using ih unfolding shrinks_def by blast
    ultimately show ?thesis using ih by simp
  qed
qed (simp add: shrinks_def)

lemma collect_temporaries_shrinks:
  assumes "collect_temporaries env names s = (x, s')"
  shows "shrinks (ss_dir s) (ss_dir s')"
  using assms
proof (induction env names s rule: collect_temporaries.induct)
  case (2 env name names s)
  let ?s1 = "checkpoint ''temporary-removed'' (s\<lparr>ss_dir := unlink name (ss_dir s)\<rparr>)"
  consider "\<not> temporaryKeyName name" "collect_temporaries env names s = (x, s')" | "s' = s"
    | k where "temporaryKeyName name" "map_of (ss_dir s) name = Some k" "kf_regular k" "\<not> fails (sx_faults env) (''remove '' @ name)"
      "collect_temporaries env names ?s1 = (x, s')"
    using "2.prems" by (auto split: if_splits option.splits)
  then show ?case
  proof cases
    case 1
    with "2.IH"(1) show ?thesis by simp
  next
    case 3
    have "shrinks (ss_dir ?s1) (ss_dir s')" by (rule "2.IH"(2)) (use 3 in simp_all)
    with shrinks_trans [OF shrinks_unlink [of "ss_dir s" name]] show ?thesis by simp
  qed (simp add: shrinks_def)
qed (simp add: shrinks_def)

lemma collectKeys_gone:
  assumes "collectKeys env s = (Inr u, s')" "1 \<le> v" "v \<le> max_int64" "\<not> key_referenced (ss_db s) v"
  shows "key_at (ss_dir s') v = None"
proof -
  obtain vs s1 s2 where c: "key_versions (sx_faults env) (ss_dir s) = Inr vs" "collect_versions env vs s = (Inr (), s1)"
    "collect_temporaries env (sort (map fst (ss_dir s1))) s1 = (Inr (), s2)" "s' = checkpoint ''cleanup-synced'' s2"
    using assms(1) by (auto simp: collectKeys_def split: sum.splits prod.splits if_splits)
  have "map_of (ss_dir s1) (keyFilename v) = None"
  proof (cases "v \<in> set vs")
    case True
    with collect_versions_gone [OF c(2)] assms(4) show ?thesis by blast
  next
    case False
    then have "keyFilename v \<notin> fst ` set (ss_dir s)" using key_versions_Inr [OF c(1)] assms(2,3) by blast
    then have "map_of (ss_dir s) (keyFilename v) = None" by (simp add: map_of_eq_None_iff)
    with collect_versions_gone [OF c(2)] show ?thesis by (simp add: shrinks_def)
  qed
  with collect_temporaries_shrinks [OF c(3)] show ?thesis by (simp add: shrinks_def c(4) key_at_def)
qed

section \<open>Rotation\<close>

lemma row_sound_id: "row_sound cr dir inst r \<Longrightarrow> [] < se_id r"
  by (cases "se_id r") (auto simp: row_sound_def openSecret_Some associatedData_def row_context_def)

text \<open>A step of the rotation keeps the map on disk, at every checkpoint, and in memory if the store stays available.\<close>

definition rotated :: "secret_crypto \<Rightarrow> secrets \<Rightarrow> secret_state \<Rightarrow> secret_state \<Rightarrow> bool" where
  "rotated cr m s s' \<longleftrightarrow> safe_disk cr m (ss_db s') (ss_dir s') \<and> safe_trace cr m s s' \<and> (\<not> ss_unavailable s' \<longrightarrow> store_ok cr s')"

text \<open>What holds when the rotation to \<open>next\<close> has ended well.\<close>

definition on_new_key :: "int \<Rightarrow> secret_state \<Rightarrow> bool" where
  "on_new_key next s \<longleftrightarrow> ss_active s = next \<and> (\<forall>r\<in>set (secret_rows (ss_db s)). se_key_version r = next)
     \<and> (\<forall>v. 1 \<le> v \<and> v \<le> max_int64 \<and> v \<noteq> next \<longrightarrow> key_at (ss_dir s) v = None)"

lemma rotated_trace: "safe_trace cr m a b \<Longrightarrow> rotated cr m b c \<Longrightarrow> rotated cr m a c"
  using safe_trace_trans by (auto simp: rotated_def)

lemma store_ok_safe: "store_ok cr s \<Longrightarrow> safe_disk cr (stored cr s) (ss_db s) (ss_dir s)"
  by (simp add: store_ok_def safe_disk_def)

lemma store_ok_collected:
  assumes "store_ok cr s" "collected cr m s s'"
  shows "store_ok cr s'"
proof -
  obtain i where i: "installation (ss_db s) = Some i" "in_id i = ss_installation s" "in_key_version i = ss_active s"
    "key_at (ss_dir s) (ss_active s) = Some (ss_key s)" using assms(1) by (auto elim: store_okE)
  have c: "ss_db s' = ss_db s" "keeps_referenced (ss_db s) (ss_dir s) (ss_dir s')" "ss_installation s' = ss_installation s"
    "ss_active s' = ss_active s" "ss_key s' = ss_key s" using assms(2) by (simp_all add: collected_def)
  have "key_referenced (ss_db s) (ss_active s)" using i by (auto simp: key_referenced_def)
  then have "key_at (ss_dir s') (ss_active s') = Some (ss_key s')" using c i(4) by (simp add: keeps_referenced_def)
  moreover have "disk_sound cr (ss_dir s') (ss_db s')" using disk_sound_keeps [OF c(2)] assms(1) c(1) by (simp add: store_ok_def)
  ultimately show ?thesis using i c by (simp add: store_ok_def)
qed

lemma after_commit_rotated:
  assumes safe: "safe_disk cr m (ss_db s0) (ss_dir s0)"
    and inst: "\<exists>i. installation (ss_db s0) = Some i \<and> in_id i = ss_installation s0 \<and> in_key_version i = next"
    and rows: "\<forall>r\<in>set (secret_rows (ss_db s0)). se_key_version r = next"
    and run: "after_commit env next s0 = ((v, e), s')"
  shows "rotated cr m s0 s' \<and> v = next \<and> (e = None \<longrightarrow> on_new_key next s')"
proof -
  let ?s = "checkpoint ''database-committed'' (s0\<lparr>ss_unavailable := True\<rparr>)"
  have trace: "safe_trace cr m s0 ?s" using safe by (simp add: safe_trace_def checkpoint_def)
  show ?thesis
  proof (cases "load_key (sx_faults env) ''verify published'' (ss_dir ?s) next")
    case (Inl x)
    with run have "s' = ?s" "v = next" "e = Some x" by (auto simp: after_commit_def Let_def)
    with trace safe show ?thesis by (simp add: rotated_def)
  next
    case (Inr key)
    let ?s1 = "?s\<lparr>ss_key := key, ss_active := next\<rparr>"
    show ?thesis
    proof (cases "verifyKeyState env ''last'' ?s1")
      case key: (Inl x)
      with run Inr have "s' = ?s1" "v = next" "e = Some x" by (auto simp: after_commit_def Let_def)
      with trace safe show ?thesis by (simp add: rotated_def safe_trace_def)
    next
      case key: (Inr u)
      obtain y s2 where v: "verifyAll env ''last'' ?s1 = (y, s2)" by (metis surj_pair)
      from verifyAll_same [OF v] have s2: "ss_db s2 = ss_db s0" "ss_dir s2 = ss_dir s0" "ss_unavailable s2"
        "ss_installation s2 = ss_installation s0" "ss_active s2 = next" "ss_key s2 = key" "ss_trace s2 = ss_trace ?s"
        by (simp_all add: same_disk_def same_identity_def)
      have trace2: "safe_trace cr m s0 s2" using trace s2(7) by (simp add: safe_trace_def)
      show ?thesis
      proof (cases y)
        case (Inl x)
        with run key v \<open>load_key _ _ _ _ = _\<close> have "s' = s2" "v = next" "e = Some x" by (auto simp: after_commit_def Let_def)
        with trace2 safe s2 show ?thesis by (simp add: rotated_def)
      next
        case y: (Inr u)
        let ?s3 = "(checkpoint ''rows-verified'' s2)\<lparr>ss_unavailable := False\<rparr>"
        obtain z s4 where c: "collectKeys env ?s3 = (z, s4)" by (metis surj_pair)
        have safe3: "safe_disk cr m (ss_db ?s3) (ss_dir ?s3)" using safe s2 by simp
        have col: "collected cr m ?s3 s4" by (rule collectKeys_collected [OF safe3 c])
        have "safe_trace cr m s2 ?s3" using safe s2 by (simp add: safe_trace_def checkpoint_def)
        then have "safe_trace cr m s0 ?s3" by (rule safe_trace_trans [OF trace2])
        moreover have "safe_trace cr m ?s3 s4" using col unfolding collected_def by blast
        ultimately have trace4: "safe_trace cr m s0 s4" by (rule safe_trace_trans)
        have "key_at (ss_dir s0) next = Some key" using Inr by (simp add: load_key_Inr)
        then have "store_ok cr ?s3" using safe inst s2 by (auto simp: store_ok_def safe_disk_def)
        then have ok: "store_ok cr s4" using col by (rule store_ok_collected)
        have run4: "s' = s4" "v = next" "e = None \<longleftrightarrow> is_ok z"
          using run key v y c Inr by (auto simp: after_commit_def Let_def is_ok_def split: sum.splits)
        have "on_new_key next s4" if "is_ok z"
        proof -
          from that c have c: "collectKeys env ?s3 = (Inr (), s4)" by (cases z) auto
          have "\<not> key_referenced (ss_db ?s3) w" if "w \<noteq> next" for w
            using rows inst s2 that by (auto simp: key_referenced_def)
          with collectKeys_gone [OF c] rows col s2 show ?thesis by (simp add: on_new_key_def collected_def)
        qed
        with run4 ok trace4 collected_safe [OF col safe3] show ?thesis by (simp add: rotated_def)
      qed
    qed
  qed
qed

lemma rotate_with_rotated:
  assumes laws: "cipher_laws (sx_crypto env)" "env_ok env" and ok: "store_ok (sx_crypto env) s" and key: "key_at (ss_dir s) next = Some newKey"
    and run: "rotate_with env a next newKey s = ((v, e), s')"
  shows "rotated (sx_crypto env) (stored (sx_crypto env) s) s s' \<and> (e = None \<longrightarrow> v = next \<and> on_new_key next s')"
proof -
  let ?cr = "sx_crypto env" and ?m = "stored (sx_crypto env) s"
  note safe = store_ok_safe [OF ok]
  have refused: "rotated ?cr ?m s (s\<lparr>ss_unavailable := b\<rparr>)" for b
    using ok safe by (auto simp: rotated_def safe_trace_def store_ok_def)
  have refused': "rotated ?cr ?m s s" using ok safe by (simp add: rotated_def safe_trace_def)
  show ?thesis
  proof (cases "fails (sx_faults env) ''begin''")
    case True
    with run refused' show ?thesis by (auto simp: rotate_with_def)
  next
    case begun: False
    obtain r db' where tx: "rotateTx env (ss_dir s) (ss_installation s) (ss_active s) next newKey a (ss_db s) = (r, db')" by (metis surj_pair)
    show ?thesis
    proof (cases r)
      case (Inl x)
      with run begun tx refused show ?thesis by (auto simp: rotate_with_def)
    next
      case (Inr u)
      have inst: "in_id i = ss_installation s" if "installation (ss_db s) = Some i" for i
        using that ok by (auto elim: store_okE)
      have tx': "rotateTx env (ss_dir s) (ss_installation s) (ss_active s) next newKey a (ss_db s) = (Inr u, db')" using tx Inr by simp
      have sound: "disk_sound ?cr (ss_dir s) (ss_db s)" using ok by (simp add: store_ok_def)
      note fin = rotateTx_Inr [OF laws key sound inst tx']
      have safe': "safe_disk ?cr ?m db' (ss_dir s)" using fin by (simp add: safe_disk_def)
      let ?s1 = "checkpoint ''before-commit'' s"
      have trace: "safe_trace ?cr ?m s ?s1" by (rule safe_checkpoint [OF safe])
      show ?thesis
      proof (cases "commit_fails (sx_faults env)")
        case True
        with run begun tx Inr have "s' = ?s1\<lparr>ss_unavailable := True, ss_db := (if commit_durable (sx_faults env) then db' else ss_db s)\<rparr>" "e \<noteq> None"
          by (auto simp: rotate_with_def Let_def)
        with trace safe safe' show ?thesis by (auto simp: rotated_def safe_trace_def)
      next
        case False
        let ?s2 = "?s1\<lparr>ss_db := db'\<rparr>"
        have "after_commit env next ?s2 = ((v, e), s')" using run begun tx Inr False by (simp add: rotate_with_def Let_def)
        moreover have "\<forall>r\<in>set (secret_rows (ss_db ?s2)). se_key_version r = next"
        proof
          fix r assume r: "r \<in> set (secret_rows (ss_db ?s2))"
          from safe' obtain i :: installation_row where "rows_sound ?cr (ss_dir s) (in_id i) (secret_rows db')" by (auto simp: safe_disk_def disk_sound_def)
          from row_sound_id [OF rows_soundD(3) [OF this]] r fin show "se_key_version r = next" by simp
        qed
        ultimately have "rotated ?cr ?m ?s2 s' \<and> v = next \<and> (e = None \<longrightarrow> on_new_key next s')"
          using safe' fin by (intro after_commit_rotated) simp_all
        moreover have "safe_trace ?cr ?m s ?s2" using trace by (simp add: safe_trace_def)
        ultimately show ?thesis using rotated_trace by blast
      qed
    qed
  qed
qed

lemma store_ok_dir:
  assumes "store_ok cr s" "keeps_keys (ss_dir s) dir" "same_disk s s1"
  shows "store_ok cr (s1\<lparr>ss_dir := dir, ss_trace := trace\<rparr>) \<and> stored cr (s1\<lparr>ss_dir := dir, ss_trace := trace\<rparr>) = stored cr s"
proof -
  have s1: "ss_db s1 = ss_db s" "ss_installation s1 = ss_installation s" "ss_active s1 = ss_active s" "ss_key s1 = ss_key s"
    using assms(3) by (simp_all add: same_disk_def same_identity_def)
  have "disk_sound cr dir (ss_db s) \<and> contents cr dir (ss_db s) = stored cr s"
    by (rule disk_sound_keeps [OF keeps_keys_referenced [OF assms(2)]]) (use assms(1) in \<open>simp add: store_ok_def\<close>)
  with assms(1,2) s1 show ?thesis by (auto simp: store_ok_def keeps_keys_def)
qed

lemma same_disk_ok: "same_disk s s' \<Longrightarrow> store_ok cr s \<Longrightarrow> store_ok cr s' \<and> stored cr s' = stored cr s"
  by (simp add: same_disk_def same_identity_def store_ok_def)

lemma verify_first_rotated:
  assumes "store_ok cr s" "verify_first env s = (x, s')"
  shows "rotated cr (stored cr s) s s'"
proof -
  from verify_first_same [OF assms(2)] have same: "same_disk s s'" by blast
  with same_disk_ok [OF same assms(1)] store_ok_safe [of cr s'] show ?thesis
    by (simp add: rotated_def safe_trace_def same_disk_def)
qed

text \<open>The store before the transaction of a rotation: verified, with the new key published.\<close>

lemma RotateMasterKey_cases:
  assumes run: "RotateMasterKey env a s = ((v, e), s')"
  obtains "s' = s" "e \<noteq> None" | x where "verify_first env s = (x, s')" "e \<noteq> None"
    | u s1 vs y trace dir where "e \<noteq> None" "verify_first env s = (Inr u, s1)" "create_key (sx_faults env) (sx_keys env) (fold max vs (ss_active s1) + 1) (ss_dir s1) = (y, trace, dir)"
      "s' = s1\<lparr>ss_dir := dir, ss_trace := ss_trace s1 @ map (\<lambda>(name, d). (name, ss_db s1, d)) trace\<rparr>"
    | u s1 vs newKey trace dir where "verify_first env s = (Inr u, s1)"
      "create_key (sx_faults env) (sx_keys env) (fold max vs (ss_active s1) + 1) (ss_dir s1) = (Inr newKey, trace, dir)"
      "key_at dir (fold max vs (ss_active s1) + 1) = Some newKey"
      "rotate_with env a (fold max vs (ss_active s1) + 1) newKey
        (s1\<lparr>ss_dir := dir, ss_trace := ss_trace s1 @ map (\<lambda>(name, d). (name, ss_db s1, d)) trace\<rparr>) = ((v, e), s')"
proof (cases "validateActor a")
  case (Inl e)
  with run that(1) show ?thesis by (auto simp: RotateMasterKey_def)
next
  case (Inr w)
  show ?thesis
  proof (cases "ss_unavailable s")
    case True
    with Inr run that(1) show ?thesis by (auto simp: RotateMasterKey_def)
  next
    case False
    obtain x s1 where first: "verify_first env s = (x, s1)" by (metis surj_pair)
    let ?high = "\<lambda>vs. fold max vs (ss_active s1)"
    let ?s2 = "\<lambda>dir trace. s1\<lparr>ss_dir := dir, ss_trace := ss_trace s1 @ map (\<lambda>(name, d). (name, ss_db s1, d)) trace\<rparr>"
    consider "s' = s1" "e \<noteq> None" | u vs where "x = Inr u" "key_versions (sx_faults env) (ss_dir s1) = Inr vs" "?high vs \<noteq> max_int64"
      using run Inr False first
      by (cases x; cases "key_versions (sx_faults env) (ss_dir s1)") (auto simp: RotateMasterKey_def Let_def split: if_splits)
    then show ?thesis
    proof cases
      case 1
      with first that(2) show ?thesis by blast
    next
      case 2
      obtain y trace dir where c: "create_key (sx_faults env) (sx_keys env) (?high vs + 1) (ss_dir s1) = (y, trace, dir)" by (metis prod_cases3)
      have "(case y of Inl e \<Rightarrow> ((0, Some e), ?s2 dir trace)
          | Inr newKey \<Rightarrow> (case load_key (sx_faults env) ''read back'' (ss_dir (?s2 dir trace)) (?high vs + 1) of
              Inl e \<Rightarrow> ((0, Some e), ?s2 dir trace)
            | Inr published \<Rightarrow> if newKey \<noteq> published then ((0, Some key_unavailable), ?s2 dir trace)
                else rotate_with env a (?high vs + 1) newKey (?s2 dir trace))) = ((v, e), s')"
        using run Inr False first 2 c by (simp add: RotateMasterKey_def Let_def)
      then consider "e \<noteq> None" "s' = ?s2 dir trace" | newKey where "y = Inr newKey" "key_at dir (?high vs + 1) = Some newKey"
          "rotate_with env a (?high vs + 1) newKey (?s2 dir trace) = ((v, e), s')"
        by (auto simp: load_key_Inr split: sum.splits if_splits)
      then show ?thesis
      proof cases
        case 1
        from that(3) [OF 1(1) first [unfolded 2(1)] c 1(2)] show ?thesis .
      next
        case (2 newKey)
        from that(4) [OF first [unfolded \<open>x = Inr u\<close>] c [unfolded 2(1)] 2(2,3)] show ?thesis .
      qed
    qed
  qed
qed

text \<open>The store once the new key is published, and the version it takes.\<close>

lemma published_rotated:
  assumes ok: "store_ok cr s" and first: "verify_first env s = (x, s1)" and c: "create_key f ke v (ss_dir s1) = (y, trace, dir)"
  defines "s2 \<equiv> s1\<lparr>ss_dir := dir, ss_trace := ss_trace s1 @ map (\<lambda>(name, d). (name, ss_db s1, d)) trace\<rparr>"
  shows "store_ok cr s2 \<and> stored cr s2 = stored cr s \<and> rotated cr (stored cr s) s s2"
proof -
  from verify_first_same [OF first] have same: "same_disk s s1" by blast
  then have db: "ss_db s1 = ss_db s" "ss_dir s1 = ss_dir s" "ss_trace s1 = ss_trace s" by (simp_all add: same_disk_def same_identity_def)
  note keeps = create_keeps_keys [OF c]
  have ok2: "store_ok cr s2" "stored cr s2 = stored cr s"
    using store_ok_dir [OF ok _ same] keeps(1) db(2) by (simp_all add: s2_def)
  have "safe_disk cr (stored cr s) (ss_db s) (snd y)" if "y \<in> set trace" for y
    using that keeps(2) db(2) safe_keeps [OF store_ok_safe [OF ok] keeps_keys_referenced] by auto
  then have "safe_trace cr (stored cr s) s s2" using db by (auto simp: safe_trace_def s2_def)
  with ok2 store_ok_safe [OF ok2(1)] show ?thesis by (simp add: rotated_def)
qed

lemma fold_max_le: "b \<le> fold max xs b" for b :: int
  by (induction xs arbitrary: b) (simp, metis fold_simps(2) max.cobounded2 order_trans)

lemma RotateMasterKey_rotated:
  assumes laws: "cipher_laws (sx_crypto env)" "env_ok env" and ok: "store_ok (sx_crypto env) s"
    and run: "RotateMasterKey env a s = ((v, e), s')"
  shows "rotated (sx_crypto env) (stored (sx_crypto env) s) s s' \<and> (e = None \<longrightarrow> ss_active s < v \<and> on_new_key v s')"
  using run
proof (cases rule: RotateMasterKey_cases)
  case 1
  with ok store_ok_safe [OF ok] show ?thesis by (auto simp: rotated_def safe_trace_def)
next
  case (2 x)
  with verify_first_rotated [OF ok 2(1)] show ?thesis by auto
next
  case (3 u s1 vs y trace dir)
  with published_rotated [OF ok 3(2,3)] show ?thesis by auto
next
  case (4 u s1 vs newKey trace dir)
  let ?s2 = "s1\<lparr>ss_dir := dir, ss_trace := ss_trace s1 @ map (\<lambda>(name, d). (name, ss_db s1, d)) trace\<rparr>"
  note p = published_rotated [OF ok 4(1,2)]
  have active: "ss_active s1 = ss_active s" using verify_first_same [OF 4(1)] by (simp add: same_disk_def same_identity_def)
  have "key_at (ss_dir ?s2) (fold max vs (ss_active s1) + 1) = Some newKey" using 4(3) by simp
  from rotate_with_rotated [OF laws conjunct1 [OF p] this 4(4)] p
  have "rotated (sx_crypto env) (stored (sx_crypto env) s) ?s2 s'"
    "e = None \<longrightarrow> v = fold max vs (ss_active s1) + 1 \<and> on_new_key v s'" by auto
  moreover have "safe_trace (sx_crypto env) (stored (sx_crypto env) s) s ?s2" using p by (simp add: rotated_def)
  ultimately show ?thesis using rotated_trace fold_max_le [of "ss_active s" vs] active by (auto simp: zle_add1_eq_le)
qed

lemma CollectUnusedKeys_rotated:
  assumes ok: "store_ok cr s" and run: "CollectUnusedKeys env s = (x, s')"
  shows "rotated cr (stored cr s) s s'"
proof -
  have refused: "rotated cr (stored cr s) s s" using ok store_ok_safe [OF ok] by (simp add: rotated_def safe_trace_def)
  obtain y s1 where first: "verify_first env s = (y, s1)" by (metis surj_pair)
  note s1 = verify_first_rotated [OF ok first]
  consider "s' = s \<or> s' = s1" | "is_ok y" "collectKeys env s1 = (x, s')"
    using run first by (auto simp: CollectUnusedKeys_def split: if_splits sum.splits)
  then show ?thesis
  proof cases
    case 1
    with refused s1 show ?thesis by auto
  next
    case 2
    from verify_first_same [OF first] have same: "same_disk s s1" by blast
    note ok1 = same_disk_ok [OF same ok]
    have col: "collected cr (stored cr s) s1 s'" by (rule collectKeys_collected [OF _ 2(2)]) (use store_ok_safe [of cr s1] ok1 in simp)
    from store_ok_collected [OF conjunct1 [OF ok1] col] have ok': "store_ok cr s'" .
    have "safe_trace cr (stored cr s) s s1" using s1 by (simp add: rotated_def)
    then have "safe_trace cr (stored cr s) s s'" by (rule safe_trace_trans) (use col in \<open>simp add: collected_def\<close>)
    with ok' collected_safe [OF col] store_ok_safe [of cr s1] ok1 show ?thesis by (simp add: rotated_def)
  qed
qed

end
