(* ===== verification/SecretGuard.thy ===== *)
theory SecretGuard
  imports RotationSafe
begin

text \<open>
  While the store is available the plaintext of every stored secret is registered with its redactor: a
  registration is taken before the previous one of its row is given up, and every operation that may
  leave the two apart makes the store unavailable.
\<close>

section \<open>Registrations\<close>

text \<open>Each registered id has a handle of its own that has not been used.\<close>

definition handles_ok :: "secret_crypto \<Rightarrow> secret_state \<Rightarrow> bool" where
  "handles_ok cr s \<longleftrightarrow> inv (sha_256 cr) (ss_redactor s)
     \<and> (\<forall>rid k. ss_registrations s rid = Some k \<longrightarrow> k < length (handles (ss_redactor s)))
     \<and> (\<forall>rid rid' k. ss_registrations s rid = Some k \<longrightarrow> ss_registrations s rid' = Some k \<longrightarrow> rid = rid')"

definition guards :: "secret_crypto \<Rightarrow> string \<Rightarrow> bytes \<Rightarrow> secret_state \<Rightarrow> bool" where
  "guards cr rid v s \<longleftrightarrow> (\<exists>k. ss_registrations s rid = Some k \<and> holds (sha_256 cr) k v (ss_redactor s))"

lemma register_handles:
  assumes "Register sha r v = (Inr k, r')"
  shows "k = length (handles r)" "length (handles r') = Suc (length (handles r))"
  using assms by (auto simp: Register_def Let_def split: if_splits option.splits)

lemma length_remove [simp]: "length (handles (remove r k)) = length (handles r)"
  by (auto simp: remove_def Let_def split: prod.splits option.splits if_splits)

lemma replaceRegistration_guards:
  assumes ok: "handles_ok cr s" and run: "replaceRegistration cr rid v s = (True, s')"
  shows "handles_ok cr s'" "guards cr rid v s'" "rid' \<noteq> rid \<Longrightarrow> guards cr rid' w s \<Longrightarrow> guards cr rid' w s'"
proof -
  let ?sha = "sha_256 cr"
  obtain k r where reg: "Register ?sha (ss_redactor s) v = (Inr k, r)"
    and s': "s' = s\<lparr>ss_redactor := (case ss_registrations s rid of None \<Rightarrow> r | Some j \<Rightarrow> remove r j),
                   ss_registrations := (ss_registrations s)(rid := Some k)\<rparr>"
    using run by (auto simp: replaceRegistration_def split: prod.splits sum.splits)
  let ?r' = "case ss_registrations s rid of None \<Rightarrow> r | Some j \<Rightarrow> remove r j"
  have inv: "inv ?sha (ss_redactor s)" using ok by (simp add: handles_ok_def)
  have invr: "inv ?sha r" using inv_register [OF inv, of v] reg by simp
  note new = register_handles [OF reg]
  have old: "j < length (handles (ss_redactor s))" if "ss_registrations s i = Some j" for i j
    using that ok by (auto simp: handles_ok_def)
  have len: "length (handles ?r') = length (handles r)" by (simp split: option.split)
  have older: "j < length (handles r)" if "ss_registrations s i = Some j" for i j
    using old [OF that] new by simp
  have invr': "inv ?sha ?r'" using invr inv_remove [OF invr older] by (auto split: option.split)
  have keep: "holds ?sha j w ?r'" if "holds ?sha j w r" "ss_registrations s rid \<noteq> Some j" for j w
    using that holds_after_remove [OF that(1) older] by (auto split: option.split)
  show "handles_ok cr s'"
    using ok invr' old new len by (fastforce simp: handles_ok_def s')
  have "holds ?sha k v ?r'" by (rule keep [OF register_holds [OF inv reg]]) (use old new in fastforce)
  then show "guards cr rid v s'" by (simp add: guards_def s')
  show "guards cr rid' w s'" if other: "rid' \<noteq> rid" "guards cr rid' w s"
  proof -
    from other(2) obtain j where j: "ss_registrations s rid' = Some j" "holds ?sha j w (ss_redactor s)" by (auto simp: guards_def)
    from holds_after_register [OF j(2), of v] reg have "holds ?sha j w r" by simp
    moreover have "ss_registrations s rid \<noteq> Some j" using j(1) other(1) ok by (auto simp: handles_ok_def)
    ultimately have "holds ?sha j w ?r'" by (rule keep)
    with j(1) other(1) show ?thesis by (auto simp: guards_def s')
  qed
qed

lemma replaceRegistration_handles:
  assumes "handles_ok cr s" "replaceRegistration cr rid v s = (b, s')"
  shows "handles_ok cr s'"
proof (cases b)
  case True
  with assms(2) have "replaceRegistration cr rid v s = (True, s')" by simp
  from replaceRegistration_guards(1) [OF assms(1) this] show ?thesis .
next
  case False
  have "Register (sha_256 cr) (ss_redactor s) v = (Inl e, r) \<Longrightarrow> r = ss_redactor s" for e r
    by (auto simp: Register_def Let_def split: if_splits option.splits)
  with assms False show ?thesis by (auto simp: replaceRegistration_def handles_ok_def split: prod.splits sum.splits)
qed

lemma removeRegistration_guards:
  assumes ok: "handles_ok cr s"
  shows "handles_ok cr (removeRegistration rid s)" "rid' \<noteq> rid \<Longrightarrow> guards cr rid' w s \<Longrightarrow> guards cr rid' w (removeRegistration rid s)"
proof -
  have inv: "inv (sha_256 cr) (ss_redactor s)" using ok by (simp add: handles_ok_def)
  have old: "j < length (handles (ss_redactor s))" if "ss_registrations s i = Some j" for i j
    using that ok by (auto simp: handles_ok_def)
  show "handles_ok cr (removeRegistration rid s)"
    using ok inv_remove [OF inv] old by (auto simp: handles_ok_def removeRegistration_def split: option.split)
  show "guards cr rid' w (removeRegistration rid s)" if other: "rid' \<noteq> rid" "guards cr rid' w s"
  proof -
    from other(2) obtain j where j: "ss_registrations s rid' = Some j" "holds (sha_256 cr) j w (ss_redactor s)" by (auto simp: guards_def)
    have "ss_registrations s rid \<noteq> Some j" using j(1) other(1) ok by (auto simp: handles_ok_def)
    with j other(1) holds_after_remove [OF j(2)] old show ?thesis by (auto simp: guards_def removeRegistration_def split: option.split)
  qed
qed

section \<open>Verification registers every row\<close>

lemma verify_row_plain:
  assumes "key_at (ss_dir s) (ss_active s) = Some (ss_key s)" "verify_row env tag s r = Inr plain"
  shows "row_plain (sx_crypto env) (ss_dir s) (ss_installation s) r = Some plain"
proof -
  from assms(2) obtain key where
    "(if se_key_version r = ss_active s then Inr (ss_key s)
      else load_key (sx_faults env) (tag @ '' load '' @ se_id r) (ss_dir s) (se_key_version r)) = Inr key"
    "openSecret (sx_crypto env) key (se_nonce r) (se_ciphertext r) (row_context (ss_installation s) r) = Some plain"
    unfolding verify_row_def by (simp only: check_Inr and_then_Inr case_option_Inl_Inr) (metis sum.inject(2))
  with assms(1) show ?thesis by (auto simp: row_plain_def load_key_Inr split: if_splits)
qed

lemma verify_rows_Cons:
  "verify_rows env tag (r # rs) s = (Inr u, s') \<longleftrightarrow> (\<exists>plain s1. verify_row env tag s r = Inr plain
    \<and> replaceRegistration (sx_crypto env) (se_id r) plain s = (True, s1) \<and> verify_rows env tag rs s1 = (Inr u, s'))"
  by (auto split: sum.splits prod.splits bool.splits)

lemma verify_rows_guards:
  assumes "verify_rows env tag rows s = (Inr u, s')" "handles_ok (sx_crypto env) s"
    and "key_at (ss_dir s) (ss_active s) = Some (ss_key s)" "distinct (map se_id rows)"
  shows "(\<forall>rid w. rid \<notin> se_id ` set rows \<longrightarrow> guards (sx_crypto env) rid w s \<longrightarrow> guards (sx_crypto env) rid w s')
    \<and> (\<forall>r\<in>set rows. \<exists>p. row_plain (sx_crypto env) (ss_dir s) (ss_installation s) r = Some p \<and> guards (sx_crypto env) (se_id r) p s')"
  using assms
proof (induction rows arbitrary: s)
  case (Cons r rs)
  let ?cr = "sx_crypto env"
  from Cons.prems(1) obtain plain s1 where row: "verify_row env tag s r = Inr plain"
    and reg: "replaceRegistration ?cr (se_id r) plain s = (True, s1)" and rest: "verify_rows env tag rs s1 = (Inr u, s')"
    by (auto simp only: verify_rows_Cons)
  have same: "ss_dir s1 = ss_dir s" "ss_installation s1 = ss_installation s" "ss_active s1 = ss_active s" "ss_key s1 = ss_key s"
    using replaceRegistration_same [OF reg] by (simp_all add: same_identity_def)
  note g = replaceRegistration_guards [OF Cons.prems(2) reg]
  have "key_at (ss_dir s1) (ss_active s1) = Some (ss_key s1)" "distinct (map se_id rs)" "se_id r \<notin> se_id ` set rs"
    using Cons.prems(3,4) same by auto
  with Cons.IH [OF rest g(1)] g(2,3) verify_row_plain [OF Cons.prems(3) row] same show ?case by auto
qed simp

lemma verify_rows_handles: "handles_ok (sx_crypto env) s \<Longrightarrow> handles_ok (sx_crypto env) (snd (verify_rows env tag rows s))"
proof (induction env tag rows s rule: verify_rows.induct)
  case (2 env tag r rs s)
  show ?case
  proof (cases "verify_row env tag s r")
    case (Inr plain)
    obtain b s1 where reg: "replaceRegistration (sx_crypto env) (se_id r) plain s = (b, s1)" by (metis surj_pair)
    have s1: "handles_ok (sx_crypto env) s1" by (rule replaceRegistration_handles [OF "2.prems" reg])
    with "2.IH" [OF Inr reg [symmetric]] Inr reg show ?thesis by (cases b) auto
  qed (use "2.prems" in simp)
qed simp

definition all_guarded :: "secret_crypto \<Rightarrow> secret_state \<Rightarrow> bool" where
  "all_guarded cr s \<longleftrightarrow> (\<forall>r\<in>set (secret_rows (ss_db s)). \<exists>p. row_plain cr (ss_dir s) (ss_installation s) r = Some p \<and> guards cr (se_id r) p s)"

text \<open>The invariant of the registrations beside that of the disk.\<close>

definition guarded :: "secret_crypto \<Rightarrow> secret_state \<Rightarrow> bool" where
  "guarded cr s \<longleftrightarrow> handles_ok cr s \<and> (\<not> ss_unavailable s \<longrightarrow> all_guarded cr s)"

lemma verifyAll_guards:
  assumes "verifyAll env tag s = (x, s')" "handles_ok (sx_crypto env) s"
  shows "handles_ok (sx_crypto env) s'"
    and "is_ok x \<Longrightarrow> key_at (ss_dir s) (ss_active s) = Some (ss_key s) \<Longrightarrow> distinct (map se_id (secret_rows (ss_db s))) \<Longrightarrow>
      all_guarded (sx_crypto env) s'"
proof -
  let ?rows = "sort_key se_id (secret_rows (ss_db s))"
  show "handles_ok (sx_crypto env) s'"
    using assms verify_rows_handles [OF assms(2), of tag ?rows] by (auto simp: verifyAll_def split: if_splits)
  assume ok: "is_ok x" "key_at (ss_dir s) (ss_active s) = Some (ss_key s)" "distinct (map se_id (secret_rows (ss_db s)))"
  then have run: "verify_rows env tag ?rows s = (Inr (), s')" using assms(1) by (cases x) (auto simp: verifyAll_def split: if_splits)
  have "distinct (map se_id ?rows)" using ok(3) by (simp add: distinct_map)
  from verify_rows_guards [OF run assms(2) ok(2) this] verifyAll_same [OF assms(1)] show "all_guarded (sx_crypto env) s'"
    by (simp add: all_guarded_def same_disk_def same_identity_def)
qed

section \<open>Every operation keeps the secrets registered\<close>

lemma guarded_same:
  assumes "guarded cr s" "ss_redactor s' = ss_redactor s" "ss_registrations s' = ss_registrations s"
    and "ss_unavailable s' \<or> \<not> ss_unavailable s \<and> secret_rows (ss_db s') = secret_rows (ss_db s) \<and> ss_installation s' = ss_installation s
      \<and> (\<forall>r\<in>set (secret_rows (ss_db s)). row_plain cr (ss_dir s') (ss_installation s) r = row_plain cr (ss_dir s) (ss_installation s) r)"
  shows "guarded cr s'"
  using assms by (auto simp: guarded_def handles_ok_def all_guarded_def guards_def)

context authorizer
begin

lemma mutate_refused_guarded:
  assumes "guarded cr s" "mutate f authorize work (ss_unavailable s) (ss_db s) = (Inl e, unavail, db)"
  shows "guarded cr (s\<lparr>ss_db := db, ss_unavailable := unavail\<rparr>)"
  by (rule guarded_same [OF assms(1)]) (use mutate_Inl [OF assms(2)] in auto)

lemma put_guarded:
  assumes "cipher_laws (sx_crypto env)" "env_ok env" "store_inv (sx_crypto env) s" "guarded (sx_crypto env) s"
    and run: "putAuthorized env authorize input s = (r, s')"
  shows "guarded (sx_crypto env) s'"
proof (cases "\<not> secretNamePattern (ps_Name input) \<or> ps_ExpectedVersion input < 0")
  case True
  with assms(4) run show ?thesis by (auto simp: putAuthorized_def)
next
  case False
  let ?cr = "sx_crypto env"
  let ?work = "put_work env (ss_installation s) (ss_active s) (ss_key s) input"
  obtain x unavail db where m: "mutate (sx_faults env) authorize ?work (ss_unavailable s) (ss_db s) = (x, unavail, db)"
    by (metis prod_cases3)
  let ?s = "s\<lparr>ss_db := db, ss_unavailable := unavail\<rparr>"
  show ?thesis
  proof (cases x)
    case (Inl e)
    with m run False have "s' = ?s" by (auto simp: putAuthorized_def)
    with mutate_refused_guarded [OF assms(4)] m Inl show ?thesis by simp
  next
    case (Inr p)
    obtain metadata rid where p: "p = (metadata, rid)" by (cases p)
    obtain b s2 where reg: "replaceRegistration ?cr rid (ps_Value input) ?s = (b, s2)" by (metis surj_pair)
    have s': "s' = (if b then s2 else s2\<lparr>ss_unavailable := True\<rparr>)"
      using run False m Inr p reg by (cases b) (auto simp: putAuthorized_def)
    have handles: "handles_ok ?cr ?s" using assms(4) by (simp add: guarded_def handles_ok_def)
    have "handles_ok ?cr s2" by (rule replaceRegistration_handles [OF handles reg])
    moreover have "all_guarded ?cr s2" if b
    proof -
      from mutate_Inr [OF m [unfolded Inr p]] obtain a db1 where
        w: "\<not> ss_unavailable s" "but_sessions db1 = but_sessions (ss_db s)" "?work a db1 = (Inr (metadata, rid), db)" by auto
      with assms(3) have ok: "store_ok ?cr s" by (simp add: store_inv_def)
      obtain row where row: "se_id row = rid" "put_row (ps_ExpectedVersion input) row (secret_rows (ss_db s)) (secret_rows db)"
        "row_plain ?cr (ss_dir s) (ss_installation s) row = Some (ps_Value input)"
        by (rule put_work_row [OF assms(1,2) ok w(2,3)])
      from reg that have reg: "replaceRegistration ?cr rid (ps_Value input) ?s = (True, s2)" by simp
      note g = replaceRegistration_guards [OF handles reg]
      have s2: "ss_db s2 = db" "ss_dir s2 = ss_dir s" "ss_installation s2 = ss_installation s"
        using replaceRegistration_same [OF reg] by (simp_all add: same_identity_def)
      have old: "\<exists>p. row_plain ?cr (ss_dir s) (ss_installation s) y = Some p \<and> guards ?cr (se_id y) p ?s" if "y \<in> set (secret_rows (ss_db s))" for y
        using assms(4) w(1) that by (auto simp: guarded_def all_guarded_def guards_def)
      show ?thesis
        unfolding all_guarded_def s2
      proof
        fix y assume "y \<in> set (secret_rows db)"
        from put_row_others [OF row(2) this] show "\<exists>p. row_plain ?cr (ss_dir s) (ss_installation s) y = Some p \<and> guards ?cr (se_id y) p s2"
          using row(1,3) g(2) g(3) old by blast
      qed
    qed
    ultimately show ?thesis by (simp add: s' guarded_def handles_ok_def)
  qed
qed

lemma delete_guarded:
  assumes "store_inv cr s" "guarded cr s" and run: "deleteAuthorized env authorize name expected s = (r, s')"
  shows "guarded cr s'"
proof (cases "\<not> secretNamePattern name \<or> expected < 1")
  case True
  with assms(2) run show ?thesis by (auto simp: deleteAuthorized_def)
next
  case False
  obtain x unavail db where m: "mutate (sx_faults env) authorize (delete_work env name expected) (ss_unavailable s) (ss_db s) = (x, unavail, db)"
    by (metis prod_cases3)
  let ?s = "s\<lparr>ss_db := db, ss_unavailable := unavail\<rparr>"
  show ?thesis
  proof (cases x)
    case (Inl e)
    with m run False have "s' = ?s" by (auto simp: deleteAuthorized_def)
    with mutate_refused_guarded [OF assms(2)] m Inl show ?thesis by simp
  next
    case (Inr rid)
    with run False m have s': "s' = removeRegistration rid ?s" by (auto simp: deleteAuthorized_def)
    from mutate_Inr [OF m [unfolded Inr]] obtain a db1 where
      w: "\<not> ss_unavailable s" "but_sessions db1 = but_sessions (ss_db s)" "delete_work env name expected a db1 = (Inr rid, db)" by auto
    have "distinct (map se_id (secret_rows db1))"
      using assms(1) w(1) unfolding but_sessions_disk [OF w(2)] by (auto simp: store_inv_def elim: store_okE dest: rows_soundD(1))
    then have rows: "secret_rows db = filter (\<lambda>r. se_id r \<noteq> rid) (secret_rows (ss_db s))"
      using delete_work_Inr [OF w(3)] unfolding but_sessions_disk [OF w(2)] by metis
    have handles: "handles_ok cr ?s" using assms(2) by (simp add: guarded_def handles_ok_def)
    note g = removeRegistration_guards [OF handles]
    have "all_guarded cr s'"
      unfolding all_guarded_def
    proof
      fix y assume "y \<in> set (secret_rows (ss_db s'))"
      then have y: "y \<in> set (secret_rows (ss_db s))" "se_id y \<noteq> rid" by (simp_all add: s' rows)
      then obtain p where p: "row_plain cr (ss_dir s) (ss_installation s) y = Some p" "guards cr (se_id y) p ?s"
        using assms(2) w(1) by (auto simp: guarded_def all_guarded_def guards_def)
      from g(2) [OF y(2) p(2)] p(1) show "\<exists>p. row_plain cr (ss_dir s') (ss_installation s') y = Some p \<and> guards cr (se_id y) p s'"
        by (simp add: s')
    qed
    with g(1) [of rid] show ?thesis unfolding s' guarded_def by blast
  qed
qed

end

text \<open>Rotation and collection.\<close>

lemma row_plain_kept:
  assumes "disk_sound cr dir db" "keeps_referenced db dir dir'" "installation db = Some i" "r \<in> set (secret_rows db)"
  shows "row_plain cr dir' (in_id i) r = row_plain cr dir (in_id i) r"
proof -
  have "row_sound cr dir (in_id i) r" using assms(1,3,4) by (auto simp: disk_sound_def dest: rows_soundD(3))
  then obtain key where "key_at dir (se_key_version r) = Some key" by (auto simp: row_sound_def)
  moreover from this have "key_at dir' (se_key_version r) = Some key"
    using assms(2,4) by (auto simp: keeps_referenced_def key_referenced_def)
  ultimately show ?thesis by (simp add: row_plain_def)
qed

lemma collected_guarded:
  assumes "store_ok cr s" "guarded cr s" "collected cr m s s'"
  shows "guarded cr s'"
proof (rule guarded_same [OF assms(2)])
  obtain i where i: "installation (ss_db s) = Some i" "in_id i = ss_installation s" using assms(1) by (auto elim: store_okE)
  have "row_plain cr (ss_dir s') (ss_installation s) r = row_plain cr (ss_dir s) (ss_installation s) r" if "r \<in> set (secret_rows (ss_db s))" for r
    using row_plain_kept [of cr "ss_dir s" "ss_db s" "ss_dir s'" i r] assms(1,3) i that by (simp add: store_ok_def collected_def)
  then show "ss_unavailable s' \<or> \<not> ss_unavailable s \<and> secret_rows (ss_db s') = secret_rows (ss_db s) \<and> ss_installation s' = ss_installation s
      \<and> (\<forall>r\<in>set (secret_rows (ss_db s)). row_plain cr (ss_dir s') (ss_installation s) r = row_plain cr (ss_dir s) (ss_installation s) r)"
    using assms(3) by (auto simp: collected_def)
qed (use assms(3) in \<open>simp_all add: collected_def\<close>)

lemma verify_first_guarded:
  assumes "store_ok (sx_crypto env) s" "handles_ok (sx_crypto env) s" "verify_first env s = (x, s')"
  shows "guarded (sx_crypto env) s'"
proof (cases "verifyKeyState env ''first'' s")
  case (Inl e)
  with assms show ?thesis by (auto simp: verify_first_def guarded_def handles_ok_def)
next
  case (Inr u)
  obtain y s1 where v: "verifyAll env ''first'' s = (y, s1)" by (metis surj_pair)
  note g = verifyAll_guards [OF v assms(2)]
  have key: "key_at (ss_dir s) (ss_active s) = Some (ss_key s)" "distinct (map se_id (secret_rows (ss_db s)))"
    using assms(1) by (auto elim: store_okE dest: rows_soundD(1))
  show ?thesis
  proof (cases y)
    case (Inl e)
    with assms(3) Inr v g(1) show ?thesis by (auto simp: verify_first_def guarded_def handles_ok_def)
  next
    case y: (Inr u)
    with assms(3) Inr v have "s' = s1" by (simp add: verify_first_def)
    with g y key show ?thesis by (simp add: guarded_def)
  qed
qed

lemma after_commit_guarded:
  assumes "handles_ok (sx_crypto env) s0" and safe: "safe_disk (sx_crypto env) m (ss_db s0) (ss_dir s0)"
    and inst: "\<exists>i. installation (ss_db s0) = Some i \<and> in_id i = ss_installation s0 \<and> in_key_version i = next"
    and run: "after_commit env next s0 = (r, s')"
  shows "guarded (sx_crypto env) s'"
proof -
  let ?cr = "sx_crypto env"
  let ?s = "checkpoint ''database-committed'' (s0\<lparr>ss_unavailable := True\<rparr>)"
  consider "s' = ?s" | key where "s' = ?s\<lparr>ss_key := key, ss_active := next\<rparr>"
    | key e s2 where "verifyAll env ''last'' (?s\<lparr>ss_key := key, ss_active := next\<rparr>) = (Inl e, s2)" "s' = s2"
    | key u s2 x where "key_at (ss_dir s0) next = Some key" "verifyAll env ''last'' (?s\<lparr>ss_key := key, ss_active := next\<rparr>) = (Inr u, s2)"
        "collectKeys env ((checkpoint ''rows-verified'' s2)\<lparr>ss_unavailable := False\<rparr>) = (x, s')"
    using run by (auto simp: after_commit_def Let_def load_key_Inr split: sum.splits prod.splits)
  then show ?thesis
  proof cases
    case 3
    have "handles_ok ?cr (?s\<lparr>ss_key := key, ss_active := next\<rparr>)" using assms(1) by (simp add: handles_ok_def)
    from verifyAll_guards(1) [OF 3(1) this] verifyAll_same [OF 3(1)] 3(2) show ?thesis by (simp add: guarded_def)
  next
    case 4
    let ?s1 = "?s\<lparr>ss_key := key, ss_active := next\<rparr>"
    let ?s3 = "(checkpoint ''rows-verified'' s2)\<lparr>ss_unavailable := False\<rparr>"
    from verifyAll_same [OF 4(2)] have s2: "ss_db s2 = ss_db s0" "ss_dir s2 = ss_dir s0"
      "ss_installation s2 = ss_installation s0" "ss_active s2 = next" "ss_key s2 = key"
      by (simp_all add: same_disk_def same_identity_def)
    have handles: "handles_ok ?cr ?s1" using assms(1) by (simp add: handles_ok_def)
    have "distinct (map se_id (secret_rows (ss_db ?s1)))" using safe by (auto simp: safe_disk_def disk_sound_def dest: rows_soundD(1))
    with verifyAll_guards [OF 4(2) handles] 4(1) have "handles_ok ?cr s2" "all_guarded ?cr s2" by simp_all
    then have g: "guarded ?cr ?s3" by (simp add: guarded_def handles_ok_def all_guarded_def guards_def)
    have safe3: "safe_disk ?cr m (ss_db ?s3) (ss_dir ?s3)" using safe s2 by simp
    have "store_ok ?cr ?s3" using safe inst s2 4(1) by (auto simp: store_ok_def safe_disk_def)
    then show ?thesis using g collectKeys_collected [OF safe3 4(3)] by (rule collected_guarded)
  qed (use assms(1) in \<open>simp_all add: guarded_def handles_ok_def\<close>)
qed

lemma guarded_dir:
  assumes "store_ok cr s" "guarded cr s" "keeps_keys (ss_dir s) dir"
  shows "guarded cr (s\<lparr>ss_dir := dir, ss_trace := trace\<rparr>)"
proof (rule guarded_same [OF assms(2)])
  obtain i where i: "installation (ss_db s) = Some i" "in_id i = ss_installation s" using assms(1) by (auto elim: store_okE)
  have "row_plain cr dir (ss_installation s) r = row_plain cr (ss_dir s) (ss_installation s) r" if "r \<in> set (secret_rows (ss_db s))" for r
    using row_plain_kept [OF _ keeps_keys_referenced [OF assms(3)], of cr "ss_db s" i r] assms(1) i that by (simp add: store_ok_def)
  then show "ss_unavailable (s\<lparr>ss_dir := dir, ss_trace := trace\<rparr>) \<or> \<not> ss_unavailable s
      \<and> secret_rows (ss_db (s\<lparr>ss_dir := dir, ss_trace := trace\<rparr>)) = secret_rows (ss_db s)
      \<and> ss_installation (s\<lparr>ss_dir := dir, ss_trace := trace\<rparr>) = ss_installation s
      \<and> (\<forall>r\<in>set (secret_rows (ss_db s)). row_plain cr (ss_dir (s\<lparr>ss_dir := dir, ss_trace := trace\<rparr>)) (ss_installation s) r
            = row_plain cr (ss_dir s) (ss_installation s) r)"
    by simp
qed simp_all

lemma rotate_with_guarded:
  assumes laws: "cipher_laws (sx_crypto env)" "env_ok env" and ok: "store_ok (sx_crypto env) s" and g: "guarded (sx_crypto env) s"
    and key: "key_at (ss_dir s) next = Some newKey" and run: "rotate_with env a next newKey s = (r, s')"
  shows "guarded (sx_crypto env) s'"
proof (cases "fails (sx_faults env) ''begin''")
  case True
  with run g show ?thesis by (simp add: rotate_with_def)
next
  case begun: False
  obtain x db' where tx: "rotateTx env (ss_dir s) (ss_installation s) (ss_active s) next newKey a (ss_db s) = (x, db')" by (metis surj_pair)
  show ?thesis
  proof (cases x)
    case (Inl e)
    with run begun tx have "s' = s\<lparr>ss_unavailable := ss_unavailable s \<or> fails (sx_faults env) ''rollback''\<rparr>" by (simp add: rotate_with_def)
    with g ok show ?thesis by (cases "ss_unavailable s") (auto simp: guarded_def handles_ok_def all_guarded_def guards_def)
  next
    case (Inr u)
    let ?s1 = "checkpoint ''before-commit'' s"
    show ?thesis
    proof (cases "commit_fails (sx_faults env)")
      case True
      with run begun tx Inr g show ?thesis by (auto simp: rotate_with_def Let_def guarded_def handles_ok_def)
    next
      case False
      with run begun tx Inr have after: "after_commit env next (?s1\<lparr>ss_db := db'\<rparr>) = (r, s')" by (simp add: rotate_with_def Let_def)
      have inst: "in_id i = ss_installation s" if "installation (ss_db s) = Some i" for i
        using that ok by (auto elim: store_okE)
      have sound: "disk_sound (sx_crypto env) (ss_dir s) (ss_db s)" using ok by (simp add: store_ok_def)
      note fin = rotateTx_Inr [OF laws key sound inst tx [unfolded Inr]]
      show ?thesis
        by (rule after_commit_guarded [OF _ _ _ after, of "stored (sx_crypto env) s"])
          (use g fin in \<open>simp_all add: guarded_def handles_ok_def safe_disk_def\<close>)
    qed
  qed
qed

lemma RotateMasterKey_guarded:
  assumes laws: "cipher_laws (sx_crypto env)" "env_ok env" and ok: "store_ok (sx_crypto env) s" and g: "guarded (sx_crypto env) s"
    and run: "RotateMasterKey env a s = ((v, e), s')"
  shows "guarded (sx_crypto env) s'"
proof -
  let ?cr = "sx_crypto env"
  have handles: "handles_ok ?cr s" using g by (simp add: guarded_def)
  have first: "guarded ?cr s1" if "verify_first env s = (x, s1)" for x s1
    by (rule verify_first_guarded [OF ok handles that])
  have ok1: "store_ok ?cr s1" if "verify_first env s = (x, s1)" for x s1
    using same_disk_ok [OF conjunct1 [OF verify_first_same [OF that]] ok] by simp
  have published: "store_ok ?cr (s1\<lparr>ss_dir := dir, ss_trace := tr\<rparr>) \<and> guarded ?cr (s1\<lparr>ss_dir := dir, ss_trace := tr\<rparr>)"
    if "verify_first env s = (x, s1)" "create_key f ke v (ss_dir s1) = (y, trace, dir)" for x s1 f ke v y trace dir tr
    using store_ok_dir [OF ok1 [OF that(1)] create_keeps_keys(1) [OF that(2)] same_disk_refl(1)]
      guarded_dir [OF ok1 [OF that(1)] first [OF that(1)] create_keeps_keys(1) [OF that(2)]] by blast
  from run show ?thesis
  proof (cases rule: RotateMasterKey_cases)
    case 1
    with g show ?thesis by simp
  next
    case (2 x)
    from first [OF 2(1)] show ?thesis .
  next
    case (3 u s1 vs y trace dir)
    with published [OF 3(2,3)] show ?thesis by simp
  next
    case (4 u s1 vs newKey trace dir)
    have p: "store_ok ?cr (s1\<lparr>ss_dir := dir, ss_trace := ss_trace s1 @ map (\<lambda>(name, d). (name, ss_db s1, d)) trace\<rparr>)"
      "guarded ?cr (s1\<lparr>ss_dir := dir, ss_trace := ss_trace s1 @ map (\<lambda>(name, d). (name, ss_db s1, d)) trace\<rparr>)"
      using published [OF 4(1,2)] by blast+
    show ?thesis by (rule rotate_with_guarded [OF laws p _ 4(4)]) (use 4(3) in simp)
  qed
qed

lemma CollectUnusedKeys_guarded:
  assumes ok: "store_ok (sx_crypto env) s" and g: "guarded (sx_crypto env) s" and run: "CollectUnusedKeys env s = (x, s')"
  shows "guarded (sx_crypto env) s'"
proof -
  obtain y s1 where first: "verify_first env s = (y, s1)" by (metis surj_pair)
  have g1: "guarded (sx_crypto env) s1" by (rule verify_first_guarded [OF ok _ first]) (use g in \<open>simp add: guarded_def\<close>)
  have ok1: "store_ok (sx_crypto env) s1" using same_disk_ok [OF conjunct1 [OF verify_first_same [OF first]] ok] by simp
  consider "s' = s \<or> s' = s1" | "collectKeys env s1 = (x, s')"
    using run first by (auto simp: CollectUnusedKeys_def split: if_splits sum.splits)
  then show ?thesis
  proof cases
    case 1
    with g g1 show ?thesis by auto
  next
    case 2
    from collected_guarded [OF ok1 g1 collectKeys_collected [OF store_ok_safe [OF ok1] 2]] show ?thesis .
  qed
qed

section \<open>Starting\<close>

text \<open>The constraints of the table of secrets, which the database keeps.\<close>

definition unique_secrets :: "database \<Rightarrow> bool" where
  "unique_secrets db \<longleftrightarrow> distinct (map se_id (secret_rows db)) \<and> distinct (map se_name (secret_rows db))"

lemma verify_row_sound:
  assumes "key_at (ss_dir s) (ss_active s) = Some (ss_key s)" "verify_row env tag s r = Inr plain"
  shows "row_sound (sx_crypto env) (ss_dir s) (ss_installation s) r"
proof -
  from assms(2) obtain key where "se_algorithm r = secret_algorithm"
    "(if se_key_version r = ss_active s then Inr (ss_key s)
      else load_key (sx_faults env) (tag @ '' load '' @ se_id r) (ss_dir s) (se_key_version r)) = Inr key"
    "openSecret (sx_crypto env) key (se_nonce r) (se_ciphertext r) (row_context (ss_installation s) r) = Some plain"
    "secretFingerprint (sx_crypto env) key plain (ss_installation s) = Some (se_fingerprint r)"
    unfolding verify_row_def by (simp only: check_Inr and_then_Inr case_option_Inl_Inr) (metis sum.inject(2))
  with assms(1) show ?thesis by (auto simp: row_sound_def load_key_Inr split: if_splits)
qed

lemma verify_rows_sound:
  assumes "verify_rows env tag rows s = (Inr u, s')" "key_at (ss_dir s) (ss_active s) = Some (ss_key s)"
  shows "\<forall>r\<in>set rows. row_sound (sx_crypto env) (ss_dir s) (ss_installation s) r"
  using assms
proof (induction rows arbitrary: s)
  case (Cons r rs)
  from Cons.prems(1) obtain plain s1 where row: "verify_row env tag s r = Inr plain"
    and reg: "replaceRegistration (sx_crypto env) (se_id r) plain s = (True, s1)" and rest: "verify_rows env tag rs s1 = (Inr u, s')"
    by (auto simp only: verify_rows_Cons)
  have "ss_dir s1 = ss_dir s" "ss_installation s1 = ss_installation s" "ss_active s1 = ss_active s" "ss_key s1 = ss_key s"
    using replaceRegistration_same [OF reg] by (simp_all add: same_identity_def)
  with Cons.IH [OF rest] Cons.prems(2) verify_row_sound [OF Cons.prems(2) row] show ?case by simp
qed simp

lemma new_store_handles: "handles_ok cr (newSecretStore db dir inst version key)"
  by (simp add: handles_ok_def newSecretStore_def inv_new)

lemma openSecretStore_ok:
  assumes laws: "cipher_laws (sx_crypto env)" "env_ok env" and run: "openSecretStore env dir db = (Inr s, dir', db')"
    and unique: "unique_secrets db"
  shows "store_ok (sx_crypto env) s \<and> guarded (sx_crypto env) s \<and> \<not> ss_unavailable s \<and> ss_db s = db' \<and> ss_dir s = dir'"
proof (cases "installation db")
  case (Some i)
  with run obtain key u where key: "key_at dir (in_key_version i) = Some key" "in_key_check i \<noteq> None" "in_key_check i \<noteq> Some []"
    "masterKeyCheck (sx_crypto env) key (in_id i) = in_key_check i" "dir' = dir" "db' = db"
    and v: "verifyAll env ''open'' (newSecretStore db dir (in_id i) (in_key_version i) key) = (Inr u, s)"
    by (auto simp: openSecretStore_def load_key_Inr split: if_splits sum.splits prod.splits)
  let ?s0 = "newSecretStore db dir (in_id i) (in_key_version i) key"
  have s0: "ss_db ?s0 = db" "ss_dir ?s0 = dir" "ss_installation ?s0 = in_id i" "ss_active ?s0 = in_key_version i" "ss_key ?s0 = key"
    "\<not> ss_unavailable ?s0" by (simp_all add: newSecretStore_def)
  from verifyAll_same [OF v] s0 have s: "ss_db s = db" "ss_dir s = dir" "ss_installation s = in_id i" "ss_active s = in_key_version i"
    "ss_key s = key" "\<not> ss_unavailable s" by (simp_all add: same_disk_def same_identity_def)
  have "verify_rows env ''open'' (sort_key se_id (secret_rows db)) ?s0 = (Inr u, s)" using v s0(1) by (simp add: verifyAll_def split: if_splits)
  from verify_rows_sound [OF this] s0 key(1) have "\<forall>r\<in>set (secret_rows db). row_sound (sx_crypto env) dir (in_id i) r" by simp
  then have "rows_sound (sx_crypto env) dir (in_id i) (secret_rows db)" using unique by (simp add: rows_sound_def unique_secrets_def)
  moreover have "check_sound (sx_crypto env) dir i" using key by (auto simp: check_sound_def)
  ultimately have "store_ok (sx_crypto env) s" using Some s key(1) by (simp add: store_ok_def disk_sound_def)
  moreover have "guarded (sx_crypto env) s"
    using verifyAll_guards [OF v new_store_handles] s0 key(1) unique by (simp add: guarded_def unique_secrets_def)
  ultimately show ?thesis using s key(5,6) by simp
next
  case None
  with run have "bootstrapSecretStore env dir db = (Inr s, dir', db')" by (simp add: openSecretStore_def split: if_splits)
  then obtain key trace inst v c where b: "secret_rows db = []" "create_key (sx_faults env) (sx_keys env) v dir = (Inr key, trace, dir')"
    "masterKeyCheck (sx_crypto env) key inst = Some c"
    "db' = db\<lparr>installation := Some \<lparr>in_id = inst, in_key_version = v, in_revision = 1, in_key_check = Some c,
       in_created = Some (sx_now env), in_updated = Some (sx_now env)\<rparr>\<rparr>" "s = newSecretStore db' dir' inst v key"
    by (auto simp: bootstrapSecretStore_def Let_def split: if_splits sum.splits prod.splits option.splits)
  have key: "key_at dir' v = Some key" using create_publishes [OF b(2)] laws(2) by (auto simp: env_ok_def)
  have "c \<noteq> []" by (rule masterKeyCheck_nonempty [OF laws(1) b(3)])
  with b key have "store_ok (sx_crypto env) s"
    by (auto simp: store_ok_def disk_sound_def check_sound_def rows_sound_def newSecretStore_def)
  moreover have "guarded (sx_crypto env) s"
    using new_store_handles [of "sx_crypto env" db' dir' inst v key] b by (simp add: guarded_def all_guarded_def newSecretStore_def)
  ultimately show ?thesis using b by (simp add: newSecretStore_def)
qed

end
