(* ===== verification/StoredSecrets.thy ===== *)
theory StoredSecrets
  imports SecretGuard
begin

text \<open>
  Histories of the secret store: requests served one after another refine operations on a map of
  secrets, and the secrets stay registered with the redactor; what a start needs and gives; examples.
\<close>

section \<open>Histories\<close>

fun serve_all :: "('r \<Rightarrow> 's \<Rightarrow> bool \<times> 's) \<Rightarrow> 'r list \<Rightarrow> 's \<Rightarrow> bool list \<times> 's" where
  "serve_all serve [] s = ([], s)"
| "serve_all serve (r # rs) s =
     (case serve r s of (b, s1) \<Rightarrow> (case serve_all serve rs s1 of (bs, s2) \<Rightarrow> (b # bs, s2)))"

text \<open>The requests that succeeded, replayed on the map.\<close>

fun replay :: "('r \<Rightarrow> 'm \<Rightarrow> 'm option) \<Rightarrow> ('r \<times> bool) list \<Rightarrow> 'm \<Rightarrow> 'm option" where
  "replay spec [] m = Some m"
| "replay spec ((r, b) # rs) m =
     (if b then (case spec r m of None \<Rightarrow> None | Some m' \<Rightarrow> replay spec rs m') else replay spec rs m)"

text \<open>
  A server whose states stand for maps: a success makes the change of the specification, an error makes
  none, or the server is down from then on.
\<close>

locale map_server =
  fixes inv :: "'s \<Rightarrow> bool" and abs :: "'s \<Rightarrow> 'm" and down :: "'s \<Rightarrow> bool" and good :: "'r \<Rightarrow> bool"
    and serve :: "'r \<Rightarrow> 's \<Rightarrow> bool \<times> 's" and spec :: "'r \<Rightarrow> 'm \<Rightarrow> 'm option"
  assumes serve_inv: "inv s \<Longrightarrow> good r \<Longrightarrow> serve r s = (b, s') \<Longrightarrow> inv s'"
    and serve_down: "inv s \<Longrightarrow> good r \<Longrightarrow> serve r s = (b, s') \<Longrightarrow> down s \<Longrightarrow> down s'"
    and serve_success: "inv s \<Longrightarrow> good r \<Longrightarrow> serve r s = (True, s') \<Longrightarrow> spec r (abs s) = Some (abs s')"
    and serve_failure: "inv s \<Longrightarrow> good r \<Longrightarrow> serve r s = (False, s') \<Longrightarrow> down s' \<or> abs s' = abs s"
begin

lemma history:
  assumes "inv s" "list_all good rs" "serve_all serve rs s = (bs, s')"
  shows "inv s' \<and> (down s \<longrightarrow> down s') \<and> (\<not> down s' \<longrightarrow> replay spec (zip rs bs) (abs s) = Some (abs s'))"
  using assms
proof (induction rs arbitrary: s bs)
  case (Cons r rs)
  obtain b s1 where step: "serve r s = (b, s1)" by (metis surj_pair)
  with Cons.prems(3) obtain bs1 where rest: "serve_all serve rs s1 = (bs1, s')" "bs = b # bs1" by (auto split: prod.splits)
  have good: "good r" "list_all good rs" using Cons.prems(2) by simp_all
  note inv1 = serve_inv [OF Cons.prems(1) good(1) step]
  note ih = Cons.IH [OF inv1 good(2) rest(1)]
  have "replay spec (zip (r # rs) bs) (abs s) = Some (abs s')" if up: "\<not> down s'"
  proof (cases b)
    case True
    with serve_success [OF Cons.prems(1) good(1)] step ih up rest(2) show ?thesis by simp
  next
    case False
    with step serve_failure [OF Cons.prems(1) good(1)] ih up have "abs s1 = abs s" by auto
    with False ih up rest(2) show ?thesis by simp
  qed
  with ih serve_down [OF Cons.prems(1) good(1) step] show ?case by blast
qed simp

end

section \<open>The requests of the secret store\<close>

datatype secret_request =
    RPut secret_env actor put_secret
  | RPutSession secret_env mutation_env put_secret
  | RDelete secret_env actor string int
  | RDeleteSession secret_env mutation_env string int
  | RRotate secret_env actor
  | RCollect secret_env

fun request_env :: "secret_request \<Rightarrow> secret_env" where
  "request_env (RPut env a input) = env"
| "request_env (RPutSession env session input) = env"
| "request_env (RDelete env a name expected) = env"
| "request_env (RDeleteSession env session name expected) = env"
| "request_env (RRotate env a) = env"
| "request_env (RCollect env) = env"

definition served :: "('e + 'a) \<times> 's \<Rightarrow> bool \<times> 's" where
  "served x = (is_ok (fst x), snd x)"

fun serve :: "secret_request \<Rightarrow> secret_state \<Rightarrow> bool \<times> secret_state" where
  "serve (RPut env a input) s = served (SecretPut env a input s)"
| "serve (RPutSession env session input) s = served (PutSession env session input s)"
| "serve (RDelete env a name expected) s = served (SecretDelete env a name expected s)"
| "serve (RDeleteSession env session name expected) s = served (DeleteSession env session name expected s)"
| "serve (RRotate env a) s = (snd (fst (RotateMasterKey env a s)) = None, snd (RotateMasterKey env a s))"
| "serve (RCollect env) s = served (CollectUnusedKeys env s)"

fun abs_request :: "secret_request \<Rightarrow> secrets \<Rightarrow> secrets option" where
  "abs_request (RPut env a input) m = abs_put input m"
| "abs_request (RPutSession env session input) m = abs_put input m"
| "abs_request (RDelete env a name expected) m = abs_delete name expected m"
| "abs_request (RDeleteSession env session name expected) m = abs_delete name expected m"
| "abs_request (RRotate env a) m = Some m"
| "abs_request (RCollect env) m = Some m"

text \<open>The requests of one installation: its cipher, and a random source that gives what is asked of it.\<close>

definition request_ok :: "secret_crypto \<Rightarrow> secret_request \<Rightarrow> bool" where
  "request_ok cr r \<longleftrightarrow> sx_crypto (request_env r) = cr \<and> env_ok (request_env r)"

definition secret_inv :: "secret_crypto \<Rightarrow> secret_state \<Rightarrow> bool" where
  "secret_inv cr s \<longleftrightarrow> cipher_laws cr \<and> store_inv cr s \<and> guarded cr s"

lemma refused_outcome:
  assumes "secret_inv cr s" "served (Inl e, s) = (b, s')"
  shows "outcome cr change s b s' \<and> guarded cr s'"
  using assms by (simp add: served_def secret_inv_def outcome_refused)

lemma rotated_outcome:
  assumes "store_ok cr s" "\<not> ss_unavailable s" "rotated cr (stored cr s) s s'"
  shows "outcome cr (Some (stored cr s)) s b s'"
  using assms by (auto simp: outcome_def store_inv_def rotated_def safe_disk_def)

lemma RotateMasterKey_down: "ss_unavailable s \<Longrightarrow> \<exists>e. RotateMasterKey env a s = ((0, Some e), s)"
  by (auto simp: RotateMasterKey_def split: sum.split)

lemma serve_outcome:
  assumes inv: "secret_inv cr s" and ok: "request_ok cr r" and run: "serve r s = (b, s')"
  shows "outcome cr (abs_request r (stored cr s)) s b s' \<and> guarded cr s'"
proof -
  have laws: "cipher_laws (sx_crypto (request_env r))" "env_ok (request_env r)" and cr: "sx_crypto (request_env r) = cr"
    and g: "guarded (sx_crypto (request_env r)) s" and si: "store_inv (sx_crypto (request_env r)) s"
    using inv ok by (auto simp: secret_inv_def request_ok_def)
  have up: "store_ok cr s" if "\<not> ss_unavailable s" using inv that by (simp add: secret_inv_def store_inv_def)
  show ?thesis
  proof (cases r)
    case (RPut env a input)
    show ?thesis
    proof (cases "validateActor a")
      case (Inl e)
      with RPut run refused_outcome [OF inv, of e b s'] show ?thesis by (simp add: SecretPut_def)
    next
      case (Inr u)
      obtain x where p: "putAuthorized env (returns a) input s = (x, s')" "b = is_ok x"
        using run RPut Inr by (cases "putAuthorized env (returns a) input s") (auto simp: SecretPut_def served_def)
      from actor_authorizer.put_outcome [OF _ _ _ p(1)] actor_authorizer.put_guarded [OF _ _ _ _ p(1)] laws g si cr RPut p(2)
      show ?thesis by simp
    qed
  next
    case (RPutSession env session input)
    obtain x where p: "putAuthorized env (authorize_session session) input s = (x, s')" "b = is_ok x"
      using run RPutSession by (cases "putAuthorized env (authorize_session session) input s") (auto simp: PutSession_def served_def)
    from session_authorizer.put_outcome [OF _ _ _ p(1)] session_authorizer.put_guarded [OF _ _ _ _ p(1)] laws g si cr RPutSession p(2)
    show ?thesis by simp
  next
    case (RDelete env a name expected)
    show ?thesis
    proof (cases "validateActor a")
      case (Inl e)
      with RDelete run refused_outcome [OF inv, of e b s'] show ?thesis by (simp add: SecretDelete_def)
    next
      case (Inr u)
      obtain x where p: "deleteAuthorized env (returns a) name expected s = (x, s')" "b = is_ok x"
        using run RDelete Inr by (cases "deleteAuthorized env (returns a) name expected s") (auto simp: SecretDelete_def served_def)
      from actor_authorizer.delete_outcome [OF _ p(1)] actor_authorizer.delete_guarded [OF _ _ p(1)] g si cr RDelete p(2)
      show ?thesis by simp
    qed
  next
    case (RDeleteSession env session name expected)
    obtain x where p: "deleteAuthorized env (authorize_session session) name expected s = (x, s')" "b = is_ok x"
      using run RDeleteSession
      by (cases "deleteAuthorized env (authorize_session session) name expected s") (auto simp: DeleteSession_def served_def)
    from session_authorizer.delete_outcome [OF _ p(1)] session_authorizer.delete_guarded [OF _ _ p(1)] g si cr RDeleteSession p(2)
    show ?thesis by simp
  next
    case (RRotate env a)
    obtain v e where p: "RotateMasterKey env a s = ((v, e), s')" using run RRotate by (metis prod.collapse serve.simps(5) snd_conv)
    show ?thesis
    proof (cases "ss_unavailable s")
      case True
      with RotateMasterKey_down [OF True, of env a] p run RRotate si g cr show ?thesis by (auto simp: outcome_refused)
    next
      case False
      with RotateMasterKey_rotated [OF _ _ _ p] RotateMasterKey_guarded [OF _ _ _ _ p] laws g cr RRotate up rotated_outcome [OF up]
      show ?thesis by simp
    qed
  next
    case (RCollect env)
    obtain x where p: "CollectUnusedKeys env s = (x, s')" "b = is_ok x"
      using run RCollect by (cases "CollectUnusedKeys env s") (auto simp: served_def)
    show ?thesis
    proof (cases "ss_unavailable s")
      case True
      with p si g cr RCollect show ?thesis by (auto simp: CollectUnusedKeys_def outcome_refused)
    next
      case False
      with CollectUnusedKeys_rotated [OF up p(1)] CollectUnusedKeys_guarded [OF _ _ p(1)] g cr RCollect up rotated_outcome [OF up]
      show ?thesis by simp
    qed
  qed
qed

interpretation store: map_server "secret_inv cr" "stored cr" ss_unavailable "request_ok cr" serve abs_request for cr
proof unfold_locales
  fix s r b s'
  assume a: "secret_inv cr s" "request_ok cr r" "serve r s = (b, s')"
  from serve_outcome [OF this] a(1) show "secret_inv cr s'" "ss_unavailable s \<Longrightarrow> ss_unavailable s'"
    by (auto simp: secret_inv_def outcome_def)
next
  fix s r s'
  assume a: "secret_inv cr s" "request_ok cr r"
  show "abs_request r (stored cr s) = Some (stored cr s')" if "serve r s = (True, s')"
    using serve_outcome [OF a that] by (simp add: outcome_def)
  show "ss_unavailable s' \<or> stored cr s' = stored cr s" if "serve r s = (False, s')"
    using serve_outcome [OF a that] by (auto simp: outcome_def)
qed

text \<open>A store that has been opened, and what it was asked since.\<close>

definition opened :: "secret_crypto \<Rightarrow> secret_env \<Rightarrow> key_dir \<Rightarrow> database \<Rightarrow> secret_request list \<Rightarrow> secret_state \<Rightarrow> bool list \<Rightarrow> secret_state \<Rightarrow> bool" where
  "opened cr env dir db rs s0 bs s \<longleftrightarrow>
     cipher_laws cr \<and> sx_crypto env = cr \<and> env_ok env \<and> unique_secrets db \<and> list_all (request_ok cr) rs
     \<and> openSecretStore env dir db = (Inr s0, ss_dir s0, ss_db s0) \<and> serve_all serve rs s0 = (bs, s)"

lemma opened_history:
  assumes "opened cr env dir db rs s0 bs s"
  shows "secret_inv cr s \<and> (\<not> ss_unavailable s \<longrightarrow> replay abs_request (zip rs bs) (stored cr s0) = Some (stored cr s))"
proof -
  have o: "cipher_laws cr" "sx_crypto env = cr" "env_ok env" "unique_secrets db" "list_all (request_ok cr) rs"
    "openSecretStore env dir db = (Inr s0, ss_dir s0, ss_db s0)" "serve_all serve rs s0 = (bs, s)"
    using assms by (simp_all add: opened_def)
  from openSecretStore_ok [OF _ o(3,6,4)] o(1,2) have "secret_inv cr s0" using store_inv_ok by (simp add: secret_inv_def)
  from store.history [OF this o(5,7)] show ?thesis by blast
qed

text \<open>
  C1: the secret store refines a map from names to plaintexts with versions: after any sequence of
  writes, deletions, rotations and collections since its start, with whatever faults, a store that is
  still available holds exactly the map that the successful requests make of the one it started with,
  and without a fault resolves every name as the map does.
\<close>

theorem secret_store_refines_map:
  assumes "opened cr env dir db rs s0 bs s" and "\<not> ss_unavailable s"
    and "sx_crypto env' = cr" "\<not> fails (sx_faults env') ''resolve''" "\<not> fails (sx_faults env') ''resolve key''"
  shows "(case replay abs_request (zip rs bs) (contents cr (ss_dir s0) (ss_db s0)) of
      None \<Rightarrow> False
    | Some m \<Rightarrow> m = contents cr (ss_dir s) (ss_db s)
        \<and> resolveValue env' name s = (case m name of None \<Rightarrow> Inl (MutationCode ''not_found'') | Some (plain, _) \<Rightarrow> Inr plain))"
proof -
  from opened_history [OF assms(1)] assms(2) have "store_ok (sx_crypto env') s"
    "replay abs_request (zip rs bs) (stored cr s0) = Some (stored cr s)"
    using assms(3) by (auto simp: secret_inv_def store_inv_def)
  with resolve_stored [of env' s name] assms(2-5) show ?thesis by simp
qed


text \<open>
  C2: rotating the master key loses no secret. Whatever its outcome, and at every checkpoint it passes, the
  committed database and the key directory are sound, so that a restart can verify them, and decrypt to
  the same map; after a success all rows are sealed with the key of a higher version and no other key
  is left.
\<close>

theorem rotation_loses_nothing:
  assumes "cipher_laws (sx_crypto env)" "env_ok env" "store_ok (sx_crypto env) s" "RotateMasterKey env a s = ((v, e), s')"
  shows "(\<exists>new. ss_trace s' = ss_trace s @ new \<and> list_all (\<lambda>(_, db, dir). disk_sound (sx_crypto env) dir db
        \<and> contents (sx_crypto env) dir db = contents (sx_crypto env) (ss_dir s) (ss_db s)) (new @ [([], ss_db s', ss_dir s')]))
    \<and> (e \<noteq> None \<or> ss_active s < v \<and> on_new_key v s')"
proof -
  from RotateMasterKey_rotated [OF assms] have r: "rotated (sx_crypto env) (stored (sx_crypto env) s) s s'"
    "e = None \<longrightarrow> ss_active s < v \<and> on_new_key v s'" by simp_all
  then obtain new where "ss_trace s' = ss_trace s @ new"
    "\<forall>(name, db, dir)\<in>set new. safe_disk (sx_crypto env) (stored (sx_crypto env) s) db dir"
    "safe_disk (sx_crypto env) (stored (sx_crypto env) s) (ss_db s') (ss_dir s')"
    by (auto simp: rotated_def safe_trace_def)
  then show ?thesis using r(2) by (intro conjI exI [of _ new]) (auto simp: list_all_iff safe_disk_def)
qed

section \<open>A sound disk opens\<close>

definition plains :: "secret_crypto \<Rightarrow> key_dir \<Rightarrow> database \<Rightarrow> bytes set" where
  "plains cr dir db = {p. \<exists>name v. contents cr dir db name = Some (p, v)}"

lemma Register_fresh:
  assumes "inv sha r" "secret_fits v" "inj_on sha (insert v (set (registered r)))"
  shows "\<exists>k r'. Register sha r v = (Inr k, r') \<and> set (registered r') \<subseteq> insert v (set (registered r))"
proof (cases "entries r (sha v)")
  case None
  have old: "i < fresh r" if "i \<in> set (ordered r)" for i
    using that inv_ordered [OF assms(1)] inv_entry [OF assms(1)] by (auto simp: ran_def)
  obtain k r' where reg: "Register sha r v = (Inr k, r')" and r': "set (ordered r') = insert (fresh r) (set (ordered r))"
    "heap r' = (heap r)(fresh r := \<lparr>Value = v, refs = 1\<rparr>)"
    using None assms(2) by (simp add: Register_def secret_fits_def Let_def)
  have "Value (heap r' i) \<in> insert v (set (registered r))" if "i \<in> set (ordered r')" for i
    using that old [of i] by (auto simp: r' registered_def)
  with reg show ?thesis by (auto simp: registered_def)
next
  case (Some i)
  have i: "i \<in> set (ordered r)" "sha (Value (heap r i)) = sha v"
    using Some inv_ordered [OF assms(1)] inv_entry [OF assms(1) Some] by (auto simp: ran_def)
  then have "Value (heap r i) = v" using assms(3) by (auto simp: inj_on_def registered_def)
  with Some assms(2) show ?thesis by (auto simp: Register_def secret_fits_def registered_def)
qed

lemma verify_row_sound_Inr:
  assumes "sx_faults env = no_faults" "key_at (ss_dir s) (ss_active s) = Some (ss_key s)"
    and "row_sound (sx_crypto env) (ss_dir s) (ss_installation s) r"
  shows "\<exists>p. verify_row env tag s r = Inr p \<and> row_plain (sx_crypto env) (ss_dir s) (ss_installation s) r = Some p"
proof -
  from assms(3) obtain key p where k: "key_at (ss_dir s) (se_key_version r) = Some key"
    "openSecret (sx_crypto env) key (se_nonce r) (se_ciphertext r) (row_context (ss_installation s) r) = Some p"
    "secretFingerprint (sx_crypto env) key p (ss_installation s) = Some (se_fingerprint r)" "se_algorithm r = secret_algorithm"
    by (auto simp: row_sound_def)
  have "(if se_key_version r = ss_active s then Inr (ss_key s)
      else load_key (sx_faults env) (tag @ '' load '' @ se_id r) (ss_dir s) (se_key_version r)) = (Inr key :: mutation_error + bytes)"
    using k(1) assms(1,2) by (auto simp: load_key_def no_faults_def)
  then have "verify_row env tag s r = Inr p"
    unfolding verify_row_def by (simp only: and_then_simps k option.simps) (simp add: assms(1) no_faults_def)
  with k(1,2) show ?thesis by (simp add: row_plain_def)
qed

lemma verify_rows_opens:
  assumes "cipher_laws (sx_crypto env)" "sx_faults env = no_faults" "key_at (ss_dir s) (ss_active s) = Some (ss_key s)"
    and "\<forall>r\<in>set rows. row_sound (sx_crypto env) (ss_dir s) (ss_installation s) r \<and> ss_registrations s (se_id r) = None
      \<and> row_plain (sx_crypto env) (ss_dir s) (ss_installation s) r \<in> Some ` P"
    and "distinct (map se_id rows)" "handles_ok (sx_crypto env) s" "set (registered (ss_redactor s)) \<subseteq> P"
    and "inj_on (sha_256 (sx_crypto env)) P"
  shows "\<exists>s'. verify_rows env tag rows s = (Inr (), s')"
  using assms(3-7)
proof (induction rows arbitrary: s)
  case (Cons r rs)
  let ?cr = "sx_crypto env"
  from Cons.prems(2) have r: "row_sound ?cr (ss_dir s) (ss_installation s) r" "ss_registrations s (se_id r) = None" by simp_all
  from verify_row_sound_Inr [OF assms(2) Cons.prems(1) r(1), of tag] obtain p where
    p: "verify_row env tag s r = Inr p" "row_plain ?cr (ss_dir s) (ss_installation s) r = Some p" by blast
  have P: "p \<in> P" using Cons.prems(2) p(2) by auto
  have fits: "secret_fits p" using p(2) open_fits [OF assms(1)] by (auto simp: row_plain_def split: option.splits)
  have inv: "inv (sha_256 ?cr) (ss_redactor s)" using Cons.prems(4) by (simp add: handles_ok_def)
  have "inj_on (sha_256 ?cr) (insert p (set (registered (ss_redactor s))))"
    by (rule inj_on_subset [OF assms(8)]) (use P Cons.prems(5) in auto)
  from Register_fresh [OF inv fits this] obtain k red where
    reg: "Register (sha_256 ?cr) (ss_redactor s) p = (Inr k, red)" "set (registered red) \<subseteq> P" using P Cons.prems(5) by auto
  let ?s1 = "s\<lparr>ss_redactor := red, ss_registrations := (ss_registrations s)(se_id r \<mapsto> k)\<rparr>"
  have rep: "replaceRegistration ?cr (se_id r) p s = (True, ?s1)" using reg(1) r(2) by (simp add: replaceRegistration_def)
  have "\<exists>s'. verify_rows env tag rs ?s1 = (Inr (), s')"
    by (rule Cons.IH)
      (use Cons.prems(1,2,3) reg(2) replaceRegistration_handles [OF Cons.prems(4) rep] in \<open>auto simp: image_iff\<close>)
  with p(1) rep show ?case by (simp add: verify_rows_Cons del: verify_rows.simps)
qed simp

text \<open>
  C38: a sound disk can be opened: without a fault, when the digests of the stored values do not collide, the
  start succeeds, changes nothing, and the store resolves every name to the value the disk holds. Every
  checkpoint of a rotation leaves such a disk.
\<close>

theorem sound_disk_opens:
  assumes "cipher_laws (sx_crypto env)" "env_ok env" "sx_faults env = no_faults" "disk_sound (sx_crypto env) dir db"
    and "inj_on (sha_256 (sx_crypto env)) (plains (sx_crypto env) dir db)"
  shows "\<exists>s. openSecretStore env dir db = (Inr s, dir, db) \<and> (\<forall>name. resolveValue env name s =
    (case contents (sx_crypto env) dir db name of None \<Rightarrow> Inl (MutationCode ''not_found'') | Some (plain, _) \<Rightarrow> Inr plain))"
proof -
  let ?cr = "sx_crypto env" and ?rows = "sort_key se_id (secret_rows db)"
  from assms(4) obtain i where i: "installation db = Some i" "check_sound ?cr dir i" "rows_sound ?cr dir (in_id i) (secret_rows db)"
    by (auto simp: disk_sound_def)
  from i(2) obtain key c where key: "key_at dir (in_key_version i) = Some key" "masterKeyCheck ?cr key (in_id i) = Some c" "c \<noteq> []"
    "in_key_check i = Some c" by (auto simp: check_sound_def)
  let ?s0 = "newSecretStore db dir (in_id i) (in_key_version i) key"
  have s0: "ss_db ?s0 = db" "ss_dir ?s0 = dir" "ss_installation ?s0 = in_id i" "ss_active ?s0 = in_key_version i" "ss_key ?s0 = key"
    "registered (ss_redactor ?s0) = []" "ss_registrations ?s0 = (\<lambda>_. None)"
    by (simp_all add: newSecretStore_def registered_def new_redactor_def)
  have plain: "row_plain ?cr dir (in_id i) r \<in> Some ` plains ?cr dir db" if "r \<in> set (secret_rows db)" for r
  proof -
    have "find (\<lambda>x. se_name x = se_name r) (secret_rows db) = Some r" by (rule find_key_unique [OF rows_soundD(2) [OF i(3)] that])
    with row_contents_sound(2) [OF i(3) this] i(1) show ?thesis by (auto simp: plains_def contents_def)
  qed
  have "\<exists>s. verify_rows env ''open'' ?rows ?s0 = (Inr (), s)"
    by (rule verify_rows_opens [OF assms(1,3) _ _ _ new_store_handles _ assms(5)])
      (use key(1) plain rows_soundD [OF i(3)] s0 in \<open>auto simp: distinct_map\<close>)
  then obtain s where "verifyAll env ''open'' ?s0 = (Inr (), s)" using s0(1) by (auto simp: verifyAll_def assms(3) no_faults_def)
  then have run: "openSecretStore env dir db = (Inr s, dir, db)"
    using i(1) key by (simp add: openSecretStore_def load_key_def assms(3) no_faults_def)
  have "unique_secrets db" using rows_soundD(1,2) [OF i(3)] by (simp add: unique_secrets_def)
  from openSecretStore_ok [OF assms(1,2) run this] have s: "store_ok ?cr s" "\<not> ss_unavailable s" "ss_db s = db" "ss_dir s = dir" by simp_all
  with resolve_stored [OF s(1,2)] run show ?thesis by (intro exI [of _ s]) (simp add: assms(3) no_faults_def)
qed

end
