(* ===== verification/SecretWitness.thy ===== *)
theory SecretWitness
  imports StoredSecrets
begin

text \<open>
  The theorems on stored secrets at a concrete installation: a cipher that appends bytes of its key, a
  first start, one stored secret and a rotation.
\<close>

section \<open>The installation\<close>

definition toy_tag :: "bytes \<Rightarrow> bytes" where
  "toy_tag key = take 16 (key @ replicate 16 CHR ''x'')"

definition toy_crypto :: secret_crypto where
  "toy_crypto = \<lparr>aead_seal = (\<lambda>key nonce plain ad. plain @ toy_tag key),
     aead_open = (\<lambda>key nonce c ad. if length c \<ge> 16 \<and> drop (length c - 16) c = toy_tag key then Some (take (length c - 16) c) else None),
     hkdf_key = (\<lambda>key inst. key @ inst), hmac_sha256 = (\<lambda>key s. CHR ''h'' # key @ s), sha_256 = (\<lambda>s. s)\<rparr>"

lemma length_toy_tag [simp]: "length (toy_tag key) = 16"
  by (simp add: toy_tag_def)

lemma toy_laws: "cipher_laws toy_crypto"
  unfolding cipher_laws_def toy_crypto_def
  by (auto simp: append_eq_conv_conj split: if_splits) (metis append_take_drop_id)

definition toy_key :: bytes where "toy_key = replicate 32 CHR ''k''"

definition toy_env :: secret_env where
  "toy_env = \<lparr>sx_crypto = toy_crypto, sx_faults = no_faults, sx_now = 0, sx_audit = 0, sx_uuid = Some ''id-1'',
     sx_nonce = (\<lambda>_. Some (replicate 24 CHR ''n'')), sx_keys = \<lparr>ke_key = Some toy_key, ke_name = Some (replicate 16 CHR ''r''), ke_written = 0\<rparr>\<rparr>"

lemma toy_env_simps [simp]:
  "sx_crypto toy_env = toy_crypto" "sx_faults toy_env = no_faults" "sx_now toy_env = 0" "sx_audit toy_env = 0"
  "sx_uuid toy_env = Some ''id-1''" "sx_nonce toy_env rid = Some (replicate 24 CHR ''n'')"
  "ke_key (sx_keys toy_env) = Some toy_key" "ke_name (sx_keys toy_env) = Some (replicate 16 CHR ''r'')"
  "fails no_faults site = False" "commit_fails no_faults = False"
  by (simp_all add: toy_env_def no_faults_def)

lemma toy_env_ok: "env_ok toy_env"
  by (simp add: env_ok_def random_ok_def toy_key_def)

definition toy_dir :: key_dir where
  "toy_dir = [(keyFilename 1, private_file toy_key)]"

definition toy_db :: database where
  "toy_db = empty_database\<lparr>installation := Some \<lparr>in_id = ''id-1'', in_key_version = 1, in_revision = 1,
     in_key_check = masterKeyCheck toy_crypto toy_key ''id-1'', in_created = Some 0, in_updated = Some 0\<rparr>\<rparr>"

definition toy_start :: secret_state where
  "toy_start = newSecretStore toy_db toy_dir ''id-1'' 1 toy_key"

lemma toy_check: "masterKeyCheck toy_crypto toy_key ''id-1'' = Some (CHR ''h'' # toy_key @ ''modelcairn/master-key-check/v1'' @ char_of (0 :: nat) # ''id-1'')"
  by (simp add: masterKeyCheck_def toy_crypto_def toy_key_def)

lemma toy_create: "\<exists>trace. create_key no_faults (sx_keys toy_env) 1 [] = (Inr toy_key, trace, toy_dir)"
  by (simp add: create_key_def Let_def toy_dir_def)

lemma toy_open: "openSecretStore toy_env [] empty_database = (Inr toy_start, ss_dir toy_start, ss_db toy_start)"
proof -
  obtain trace where "create_key no_faults (sx_keys toy_env) 1 [] = (Inr toy_key, trace, toy_dir)" using toy_create by blast
  then show ?thesis
    by (simp add: openSecretStore_def bootstrapSecretStore_def key_versions_def empty_database_def toy_start_def newSecretStore_def
        toy_db_def toy_check Let_def)
qed

definition toy_value :: bytes where "toy_value = ''sk-live-01''"

definition toy_input :: put_secret where
  "toy_input = \<lparr>ps_Name = ''api'', ps_Value = toy_value, ps_ExpectedVersion = 0\<rparr>"

definition toy_actor :: actor where
  "toy_actor = \<lparr>actor_Type = ''cli'', actor_ID = []\<rparr>"

lemma toy_value_utf8: "utf8_valid toy_value"
  by (rule utf8_valid_ascii) (simp add: toy_value_def byte_def)

lemma toy_put: "\<exists>md s. SecretPut toy_env toy_actor toy_input toy_start = (Inr md, s) \<and> \<not> ss_unavailable s"
proof -
  have seal: "sealSecret toy_crypto (Some (replicate 24 CHR ''n'')) toy_key toy_value
      \<lparr>cx_installation = ''id-1'', cx_secret = ''id-1'', cx_version = 1, cx_key_version = 1\<rparr>
      = Inr (replicate 24 CHR ''n'', toy_value @ toy_tag toy_key)"
    by (simp add: sealSecret_def toy_value_utf8 associatedData_def toy_key_def)
      (simp add: toy_value_def toy_crypto_def)
  obtain fp where fp: "secretFingerprint toy_crypto toy_key toy_value ''id-1'' = Some fp"
    by (simp add: secretFingerprint_def toy_key_def)
  have reg: "\<exists>k r. Register (sha_256 toy_crypto) new_redactor toy_value = (Inr k, r)"
    by (simp add: Register_def toy_value_def toy_crypto_def new_redactor_def Let_def)
  have name: "secretNamePattern ''api''" by code_simp
  have st: "ss_unavailable toy_start = False" "ss_db toy_start = toy_db" "ss_installation toy_start = ''id-1''" "ss_active toy_start = 1"
    "ss_key toy_start = toy_key" "ss_redactor toy_start = new_redactor" "ss_registrations toy_start = (\<lambda>_. None)"
    "secret_rows toy_db = []"
    by (simp_all add: toy_start_def newSecretStore_def toy_db_def empty_database_def)
  have work: "\<exists>md db. put_work toy_env ''id-1'' 1 toy_key toy_input toy_actor toy_db = (Inr (md, ''id-1''), db)"
    by (simp add: put_work_def put_secret_tx_def secret_slot_def insert_secret_def insertAudit_def need_def toy_input_def st seal fp
        bind_step_def guard_def MaxSecrets_def)
  then obtain md db where w: "put_work toy_env ''id-1'' 1 toy_key toy_input toy_actor toy_db = (Inr (md, ''id-1''), db)" by blast
  then have m: "mutate no_faults (returns toy_actor) (put_work toy_env ''id-1'' 1 toy_key toy_input) False toy_db = (Inr (md, ''id-1''), False, db)"
    by (simp add: mutate_def)
  from reg obtain k r where "Register (sha_256 toy_crypto) new_redactor toy_value = (Inr k, r)" by blast
  then show ?thesis
    using m name by (simp add: SecretPut_def validateActor_def toy_actor_def putAuthorized_def st replaceRegistration_def toy_input_def)
qed

section \<open>Histories\<close>

lemma toy_unique: "unique_secrets empty_database"
  by (simp add: unique_secrets_def empty_database_def)

lemma toy_history:
  obtains md s where "opened toy_crypto toy_env [] empty_database [RPut toy_env toy_actor toy_input] toy_start [True] s" "\<not> ss_unavailable s"
    "SecretPut toy_env toy_actor toy_input toy_start = (Inr md, s)"
proof -
  obtain md s where p: "SecretPut toy_env toy_actor toy_input toy_start = (Inr md, s)" "\<not> ss_unavailable s" using toy_put by blast
  have "opened toy_crypto toy_env [] empty_database [RPut toy_env toy_actor toy_input] toy_start [True] s"
    using toy_laws toy_env_ok toy_unique toy_open p(1) by (simp add: opened_def request_ok_def served_def)
  with p show ?thesis by (intro that)
qed

lemma toy_contents: "contents toy_crypto (ss_dir toy_start) (ss_db toy_start) = (\<lambda>_. None)"
  by (rule ext) (simp add: toy_start_def newSecretStore_def toy_db_def contents_def row_contents_def empty_database_def)

theorem secret_store_refines_map_witness:
  "\<exists>s md. SecretPut toy_env toy_actor toy_input toy_start = (Inr md, s) \<and> contents toy_crypto (ss_dir s) (ss_db s) = [''api'' \<mapsto> (toy_value, 1)]
    \<and> resolveValue toy_env ''api'' s = Inr toy_value \<and> resolveValue toy_env ''other'' s = Inl (MutationCode ''not_found'')"
proof -
  obtain md s where o: "opened toy_crypto toy_env [] empty_database [RPut toy_env toy_actor toy_input] toy_start [True] s"
    "\<not> ss_unavailable s" "SecretPut toy_env toy_actor toy_input toy_start = (Inr md, s)" by (rule toy_history)
  have m: "replay abs_request (zip [RPut toy_env toy_actor toy_input] [True]) (contents toy_crypto (ss_dir toy_start) (ss_db toy_start))
      = Some [''api'' \<mapsto> (toy_value, 1)]"
    by (simp add: toy_contents abs_put_def toy_input_def)
  have r: "[''api'' \<mapsto> (toy_value, 1)] = contents toy_crypto (ss_dir s) (ss_db s) \<and> resolveValue toy_env name s =
      (case [''api'' \<mapsto> (toy_value, 1)] name of None \<Rightarrow> Inl (MutationCode ''not_found'') | Some (plain, _ :: int) \<Rightarrow> Inr plain)" for name
    by (rule secret_store_refines_map [OF o(1,2), of toy_env name, unfolded m option.case]) simp_all
  have "resolveValue toy_env ''api'' s = Inr toy_value" "resolveValue toy_env ''other'' s = Inl (MutationCode ''not_found'')"
    using conjunct2 [OF r [of "''api''"]] conjunct2 [OF r [of "''other''"]] by simp_all
  with o(3) conjunct1 [OF r, symmetric] show ?thesis by (intro exI [of _ s] exI [of _ md]) simp
qed

text \<open>The store after the write, as the other examples use it.\<close>

lemma toy_stored:
  obtains md s where "opened toy_crypto toy_env [] empty_database [RPut toy_env toy_actor toy_input] toy_start [True] s" "\<not> ss_unavailable s"
    "SecretPut toy_env toy_actor toy_input toy_start = (Inr md, s)" "contents toy_crypto (ss_dir s) (ss_db s) = [''api'' \<mapsto> (toy_value, 1)]" "store_ok toy_crypto s"
proof -
  obtain md s where o: "opened toy_crypto toy_env [] empty_database [RPut toy_env toy_actor toy_input] toy_start [True] s"
    "\<not> ss_unavailable s" "SecretPut toy_env toy_actor toy_input toy_start = (Inr md, s)" by (rule toy_history)
  from opened_history [OF o(1)] o(2) have "store_ok toy_crypto s" "contents toy_crypto (ss_dir s) (ss_db s) = [''api'' \<mapsto> (toy_value, 1)]"
    by (auto simp: secret_inv_def store_inv_def toy_contents abs_put_def toy_input_def)
  with o show ?thesis by (intro that)
qed


definition toy_second_env :: secret_env where
  "toy_second_env = toy_env\<lparr>sx_keys := \<lparr>ke_key = Some (replicate 32 CHR ''l''), ke_name = Some (replicate 16 CHR ''s''), ke_written = 0\<rparr>\<rparr>"

theorem rotation_loses_nothing_witness:
  "\<exists>s v e s'. RotateMasterKey toy_second_env toy_actor s = ((v, e), s') \<and> contents toy_crypto (ss_dir s') (ss_db s') = [''api'' \<mapsto> (toy_value, 1)]
    \<and> disk_sound toy_crypto (ss_dir s') (ss_db s')"
proof -
  obtain md s where o: "contents toy_crypto (ss_dir s) (ss_db s) = [''api'' \<mapsto> (toy_value, 1)]" "store_ok toy_crypto s" by (rule toy_stored)
  have env: "sx_crypto toy_second_env = toy_crypto" "env_ok toy_second_env" using toy_env_ok by (simp_all add: toy_second_env_def env_ok_def)
  obtain v e s' where r: "RotateMasterKey toy_second_env toy_actor s = ((v, e), s')" by (metis surj_pair)
  from rotation_loses_nothing [of toy_second_env s toy_actor v e s'] env toy_laws o r
  show ?thesis by (intro exI [of _ s] exI [of _ v] exI [of _ e] exI [of _ s']) auto
qed

theorem sound_disk_opens_witness:
  "\<exists>dir db s. db \<noteq> toy_db \<and> openSecretStore toy_env dir db = (Inr s, dir, db) \<and> resolveValue toy_env ''api'' s = Inr toy_value"
proof -
  obtain md s where o: "contents toy_crypto (ss_dir s) (ss_db s) = [''api'' \<mapsto> (toy_value, 1)]" "store_ok toy_crypto s" by (rule toy_stored)
  have "plains toy_crypto (ss_dir s) (ss_db s) \<subseteq> {toy_value}" by (auto simp: plains_def o(1) split: if_splits)
  then have "inj_on (sha_256 toy_crypto) (plains toy_crypto (ss_dir s) (ss_db s))" by (rule inj_on_subset [rotated]) simp
  moreover have "disk_sound toy_crypto (ss_dir s) (ss_db s)" using o(2) by (simp add: store_ok_def)
  ultimately obtain s' where s': "openSecretStore toy_env (ss_dir s) (ss_db s) = (Inr s', ss_dir s, ss_db s)" "resolveValue toy_env ''api'' s' = Inr toy_value"
    using sound_disk_opens [of toy_env "ss_dir s" "ss_db s"] toy_laws toy_env_ok o(1) by auto
  have "ss_db s \<noteq> toy_db"
  proof
    assume "ss_db s = toy_db"
    then have "contents toy_crypto (ss_dir s) (ss_db s) ''api'' = None" by (simp add: toy_db_def contents_def row_contents_def empty_database_def)
    with o(1) show False by simp
  qed
  with s' show ?thesis by blast
qed

section \<open>One pass over two rows\<close>

definition toy_row :: "string \<Rightarrow> int \<Rightarrow> bytes \<Rightarrow> secret_row" where
  "toy_row rid version key = \<lparr>se_id = rid, se_name = rid, se_key_version = version, se_algorithm = secret_algorithm,
     se_nonce = replicate 24 CHR ''n'', se_ciphertext = toy_value @ toy_tag key,
     se_fingerprint = the (secretFingerprint toy_crypto key toy_value ''id-1''), se_version = 1, se_created = None, se_updated = None\<rparr>"

lemma toy_rotate_row:
  assumes "rid \<noteq> []" "length rid \<le> 128"
  shows "rotate_row toy_env toy_dir ''id-1'' 2 (replicate 32 CHR ''l'') (toy_row rid 1 toy_key) = Inr (toy_row rid 2 (replicate 32 CHR ''l''))"
proof -
  have key: "load_key no_faults site toy_dir 1 = Inr toy_key" for site
    by (simp add: load_key_def key_at_def toy_dir_def private_file_def toy_key_def)
  have opn: "openSecret toy_crypto toy_key (replicate 24 CHR ''n'') (toy_value @ toy_tag toy_key) (row_context ''id-1'' (toy_row rid 1 toy_key)) = Some toy_value"
    using assms by (simp add: openSecret_def row_context_def toy_row_def associatedData_def toy_key_def toy_value_utf8)
      (simp add: toy_crypto_def toy_value_def toy_value_utf8 [unfolded toy_value_def])
  have seal: "sealSecret toy_crypto (Some (replicate 24 CHR ''n'')) (replicate 32 CHR ''l'') toy_value
      \<lparr>cx_installation = ''id-1'', cx_secret = rid, cx_version = 1, cx_key_version = 2\<rparr>
      = Inr (replicate 24 CHR ''n'', toy_value @ toy_tag (replicate 32 CHR ''l''))"
    using assms by (simp add: sealSecret_def toy_value_utf8 associatedData_def) (simp add: toy_value_def toy_crypto_def)
  have fp: "secretFingerprint toy_crypto k toy_value ''id-1'' = Some (the (secretFingerprint toy_crypto k toy_value ''id-1''))" if "length k = 32" for k
    using that by (simp add: secretFingerprint_def)
  have row: "se_key_version (toy_row rid 1 toy_key) = 1" "se_nonce (toy_row rid 1 toy_key) = replicate 24 CHR ''n''"
    "se_ciphertext (toy_row rid 1 toy_key) = toy_value @ toy_tag toy_key" "se_id (toy_row rid 1 toy_key) = rid" "se_version (toy_row rid 1 toy_key) = 1"
    "se_fingerprint (toy_row rid 1 toy_key) = the (secretFingerprint toy_crypto toy_key toy_value ''id-1'')"
    by (simp_all add: toy_row_def)
  obtain fp1 where f1: "secretFingerprint toy_crypto toy_key toy_value ''id-1'' = Some fp1" using fp [of toy_key] by (auto simp: toy_key_def)
  obtain fp2 where f2: "secretFingerprint toy_crypto (replicate 32 CHR ''l'') toy_value ''id-1'' = Some fp2" using fp [of "replicate 32 CHR ''l''"] by auto
  show ?thesis
    unfolding rotate_row_def row toy_env_simps key and_then_simps opn option.simps seal f1 f2
    by (simp add: toy_row_def f2)
qed

theorem rotation_is_one_pass_witness:
  "rotate_rows toy_env toy_dir ''id-1'' 2 (replicate 32 CHR ''l'') [] [toy_row ''b'' 1 toy_key, toy_row ''a'' 1 toy_key]
    = Inr [toy_row ''b'' 2 (replicate 32 CHR ''l''), toy_row ''a'' 2 (replicate 32 CHR ''l'')]"
proof -
  have ids: "se_id (toy_row rid v k) = rid" for rid v k by (simp add: toy_row_def)
  show ?thesis
    using rotation_is_one_pass [of "[toy_row ''b'' 1 toy_key, toy_row ''a'' 1 toy_key]" toy_env toy_dir "''id-1''" 2 "replicate 32 CHR ''l''"
        "[toy_row ''b'' 2 (replicate 32 CHR ''l''), toy_row ''a'' 2 (replicate 32 CHR ''l'')]"]
    by (simp add: ids toy_rotate_row)
qed

theorem associated_data_binds_witness:
  "associatedData \<lparr>cx_installation = ''i'', cx_secret = ''ab'', cx_version = 1, cx_key_version = 2\<rparr>
    \<noteq> associatedData \<lparr>cx_installation = ''ia'', cx_secret = ''b'', cx_version = 2, cx_key_version = 1\<rparr>"
  (is "associatedData ?c \<noteq> associatedData ?d")
proof
  assume same: "associatedData ?c = associatedData ?d"
  obtain ad where "associatedData ?c = Some ad" by (simp add: associatedData_def)
  then have "?c = ?d" using associated_data_binds [of ?c ad ?d] same by simp
  then show False by simp
qed

end
