(* ===== verification/Spec2Isabelle.thy ===== *)
theory Spec2Isabelle
  imports ChatRequest Sse Engine StreamEngine Redaction Session FailedLogin Password Login PlanToken AdminMutation
    AgentToken Repository GraphInv Versions Timestamp Operational Snapshot Cooldown DataApi
    Address RequestJson Adapter StoredSecrets SecretWitness
begin

text \<open>
  Verification development of ModelCairn, a self-hosted gateway that accepts Chat Completions requests
  of agents, picks a provider destination for the requested model alias and relays the answer, with an
  administrator who configures providers, credentials, models, destinations, strategies, routes and
  agent tokens in a SQLite database.

  \<^bold>\<open>How the code is modelled.\<close> Go strings and byte slices are lists of 8-bit characters, times and
  durations are integers in nanoseconds, an error result is a sum with the error on the left. A
  function that reads and writes the database takes it and returns it: \<open>('e, 'a) step\<close> of theory
  Database. The tables are lists of records with the columns of \<open>migrations/*.sql\<close>; constraints and
  triggers of the schema are written out at the statements that may violate them. Which statements the
  database refuses, and whether a commit that fails is durable, is a parameter (\<open>faults\<close>), so that
  every theorem covers the error paths. Randomness, the clock, the context, the writer, executors and
  the cryptographic primitives are parameters too.

  \<^bold>\<open>Theories.\<close>
  \<^item> Prelude, GoText, GoError, Base64, Frame: vocabulary, UTF-8 and decimal texts, chains of wrapped
    errors, RFC 4648, frame rules for steps.
  \<^item> Json, Lexer, GoDecode, JsonPrint: \<open>encoding/json\<close> as the code uses it, that is token streams with the
    shape check of \<open>chatcompletions/request.go\<close>, a scanner and parser, decoding into structs with Go's
    matching of field names, and encoding. The token walk runs on fuel, one more than the number of
    tokens, which \<open>walk_enough_fuel\<close> shows to be enough.
  \<^item> ChatRequest (\<open>chatcompletions/request.go\<close>): the request contract; accepted exactly when every check
    holds, error codes each under its condition.
  \<^item> Sse (\<open>streaming/chat.go\<close>), Engine (\<open>router/engine.go\<close>), StreamEngine (\<open>router/stream_engine.go\<close>): the
    relay of event streams and the attempt loops; what was committed, who is tried next and why.
  \<^item> Redaction (\<open>redact/redact.go\<close>): the log handler that replaces registered secrets.
  \<^item> Database, Session (\<open>storage/admin_session.go\<close>), FailedLogin (\<open>failed_login_statistics.go\<close>), Password
    (\<open>adminauth/password.go\<close>), Login (\<open>admin_login.go\<close>): administrator authentication.
  \<^item> PlanToken (\<open>plan_token.go\<close>, \<open>plan_transaction.go\<close>): signed plans that run once.
  \<^item> AdminMutation (\<open>admin_mutation.go\<close>), AgentToken (\<open>agent_token.go\<close>): authenticated transactions and the
    bearers of agents.
  \<^item> Graph, Repository (\<open>repository.go\<close>, \<open>config_batch.go\<close>), GraphInv, Versions: the configuration graph,
    its operations, its integrity and its optimistic versions.
  \<^item> Timestamp, Operational (\<open>operational.go\<close>, \<open>operational_query.go\<close>), Snapshot (\<open>router/snapshot.go\<close>),
    Cooldown: the texts of times and their order, the record of requests, attempts and cool-downs, the
    snapshot that a run works on, and what the record of one run means for the snapshots after it.
  \<^item> DataApi (\<open>httpserver/data.go\<close>): the data plane handler, which composes the request contract, agent
    tokens, snapshot, record and engine; other handlers may act between its transactions.

  \<^item> Address, RequestJson, Adapter (\<open>openaiadapter/*.go\<close>): which addresses the dialer refuses, the payload
    that is sent, the endpoint and the checks on a completion.
  \<^item> SecretCrypto, Keyring, SecretStore, Rotation (\<open>storage/secret_crypto.go\<close>, \<open>keyring.go\<close>,
    \<open>secret_store.go\<close>, \<open>rotation.go\<close>): sealed secrets, the directory of master keys, the store and the
    rotation, with the states its checkpoints would find. SecretMap shows that writing, deleting and
    resolving refine a map of names to plaintexts, RotationSafe that rotation keeps it at every
    checkpoint, SecretGuard that every stored plaintext stays registered with the redactor;
    StoredSecrets puts them together for whole histories and for a restart, SecretWitness applies them.
    The keyset loop of the rotation ends because each pass leaves fewer rows above the last id.

  \<^bold>\<open>What is not modelled.\<close> HTTP plumbing and the administration pages, the command line, migrations and
  file locking, SQL itself (statements are translated one by one) and backups; the manifest lists each
  part with its reason.
\<close>

end
